(* ===== verification/Prelude.thy ===== *)
theory Prelude
  imports Main "HOL-Library.Word"
begin

text \<open>
  Shared vocabulary of the development: the machine integer types of the C sources, errno
  values, run-time faults (failed assertion, null dereference, out-of-bounds access) as values
  of a sum type, the byte layout of integers on a little-endian host, byte-addressed memory, and
  the lemma collections the component theories use.
\<close>

unbundle bit_operations_syntax

subsection \<open>Machine integers\<close>

type_synonym u8 = "8 word"
type_synonym u16 = "16 word"
type_synonym u32 = "32 word"
type_synonym u64 = "64 word"

named_theorems wire_simps \<open>getters over setters of header fields\<close>
named_theorems mask_simps \<open>disjointness and nesting of bit masks\<close>

subsection \<open>Return codes and faults\<close>

text \<open>
  Functions of the library return a negative errno on failure. The values are those of
  \<open>errno.h\<close> on Linux.
\<close>

abbreviation (input) EAGAIN :: int where "EAGAIN \<equiv> 11"
abbreviation (input) ENOMEM :: int where "ENOMEM \<equiv> 12"
abbreviation (input) EACCES :: int where "EACCES \<equiv> 13"
abbreviation (input) EFAULT :: int where "EFAULT \<equiv> 14"
abbreviation (input) EBUSY :: int where "EBUSY \<equiv> 16"
abbreviation (input) EINVAL :: int where "EINVAL \<equiv> 22"
abbreviation (input) EPROTO :: int where "EPROTO \<equiv> 71"
abbreviation (input) ENOTSUP :: int where "ENOTSUP \<equiv> 95"

text \<open>
  What ends the process, or leaves the defined behaviour of C, is a value too: \<open>Inl\<close> of a fault.
\<close>

datatype fault =
    Assert_failed   \<comment> \<open>\<open>assert\<close> or \<open>ROCE_ASSERT\<close> does not hold: the process aborts\<close>
  | Null_deref      \<comment> \<open>a member access through a null pointer\<close>
  | Out_of_bounds   \<comment> \<open>an array access outside its bounds\<close>
  | Wild_pointer    \<comment> \<open>a dereference of bits that are no pointer to a live object\<close>

type_synonym 'a run = "fault + 'a"

definition bindR :: "'a run \<Rightarrow> ('a \<Rightarrow> 'b run) \<Rightarrow> 'b run" where
  "bindR r f = (case r of Inl e \<Rightarrow> Inl e | Inr x \<Rightarrow> f x)"

definition assertR :: "bool \<Rightarrow> unit run" where
  "assertR b = (if b then Inr () else Inl Assert_failed)"

lemma bindR_Inr [simp]: "bindR (Inr x) f = f x"
  by (simp add: bindR_def)

lemma bindR_Inl [simp]: "bindR (Inl e) f = Inl e"
  by (simp add: bindR_def)

lemma assertR_True [simp]: "assertR True = Inr ()"
  by (simp add: assertR_def)

lemma assertR_False [simp]: "assertR False = Inl Assert_failed"
  by (simp add: assertR_def)

lemma bindR_eq_Inr: "bindR r f = Inr y \<longleftrightarrow> (\<exists>x. r = Inr x \<and> f x = Inr y)"
  by (cases r) auto

lemma assertR_eq_Inr [simp]: "assertR b = Inr u \<longleftrightarrow> b"
  by (simp add: assertR_def)

lemma bindR_assoc: "bindR (bindR r f) g = bindR r (\<lambda>x. bindR (f x) g)"
  by (cases r) auto

subsection \<open>Words\<close>

lemma unat_bounds:
  "unat (a :: u8) < 256" "unat (b :: u16) < 65536" "unat (c :: u32) < 4294967296"
  "unat (d :: u64) < 18446744073709551616"
proof -
  have "unat a < 2 ^ LENGTH(8)" "unat b < 2 ^ LENGTH(16)" "unat c < 2 ^ LENGTH(32)"
    "unat d < 2 ^ LENGTH(64)" by (rule unsigned_less)+
  then show "unat a < 256" "unat b < 65536" "unat c < 4294967296" "unat d < 18446744073709551616"
    by simp_all
qed

lemma unat_not_u16: "unat (NOT x) = 65535 - unat (x :: u16)"
proof -
  have "NOT x = - 1 - x" by (simp add: not_eq_complement)
  moreover have "x \<le> - 1" by simp
  ultimately have "unat (NOT x) = unat (- 1 :: u16) - unat x" by (simp only: unat_sub)
  moreover have "unat (- 1 :: u16) = 65535"
    by (simp add: unsigned_minus_1_eq_mask mask_eq_exp_minus_1)
  ultimately show ?thesis by simp
qed

lemma xor_cancel:
  fixes x y z :: "'a::len word"
  shows "z XOR x = z XOR y \<longleftrightarrow> x = y" "x XOR z = y XOR z \<longleftrightarrow> x = y"
  by (metis xor.assoc xor_self_eq xor.left_neutral) (metis xor.assoc xor_self_eq xor.right_neutral)

lemma ucast_inject: "(ucast (a :: u8) :: u32) = ucast b \<longleftrightarrow> a = b"
proof
  assume eq: "(ucast a :: u32) = ucast b"
  show "a = b"
  proof (rule bit_word_eqI)
    fix n assume "n < LENGTH(8)"
    then show "bit a n = bit b n" using arg_cong[OF eq, of "\<lambda>w. bit w n"] by (simp add: bit_unsigned_iff)
  qed
qed simp

lemma bit_ff: "bit (0xff :: u32) n \<longleftrightarrow> n < 8"
proof -
  have "(0xff :: u32) = mask 8" by (simp add: mask_eq_exp_minus_1)
  then show ?thesis by (simp only: bit_mask_iff) auto
qed

lemma funpow_8: "(f ^^ 8) x = f (f (f (f (f (f (f (f x)))))))"
  by (simp add: eval_nat_numeral)

subsection \<open>Integers as bytes\<close>

text \<open>
  \<open>le_bytes k x\<close> are the \<open>k\<close> bytes of an integer as a little-endian host stores it, the lowest
  byte first; \<open>le_word\<close> reads them back.
\<close>

definition le_bytes :: "nat \<Rightarrow> 'a::len word \<Rightarrow> u8 list" where
  "le_bytes k x = map (\<lambda>i. ucast (drop_bit (8 * i) x)) [0..<k]"

primrec le_word :: "u8 list \<Rightarrow> 'a::len word" where
  "le_word [] = 0"
| "le_word (b # bs) = ucast b OR push_bit 8 (le_word bs)"

lemma length_le_bytes [simp]: "length (le_bytes k x) = k"
  by (simp add: le_bytes_def)

lemma bit_nth_le_bytes:
  "i < k \<Longrightarrow> bit (le_bytes k x ! i) j \<longleftrightarrow> j < 8 \<and> bit x (8 * i + j)"
  by (auto simp: le_bytes_def bit_simps)

lemma bit_le_word:
  fixes bs :: "u8 list"
  shows "bit (le_word bs :: 'a::len word) n \<longleftrightarrow>
     n < LENGTH('a) \<and> n < 8 * length bs \<and> bit (bs ! (n div 8)) (n mod 8)"
proof (induction bs arbitrary: n)
  case Nil
  then show ?case by simp
next
  case (Cons b bs)
  show ?case
  proof (cases "n < 8")
    case True
    then show ?thesis by (auto simp: bit_simps)
  next
    case False
    then obtain m where m: "n = m + 8" by (metis add.commute le_Suc_ex not_less)
    then have "\<not> bit b n" by (auto dest: bit_imp_le_length)
    moreover have "(m + 8) div 8 = Suc (m div 8)" by simp
    ultimately show ?thesis
      using m by (auto simp: bit_simps Cons.IH)
  qed
qed

lemma le_word_le_bytes [simp]:
  fixes x :: "'a::len word"
  assumes "LENGTH('a) \<le> 8 * k"
  shows "(le_word (le_bytes k x) :: 'a word) = x"
proof (rule bit_word_eqI)
  fix n assume n: "n < LENGTH('a)"
  with assms have "n < 8 * k" by simp
  then have "n div 8 < k" by (simp add: less_mult_imp_div_less mult.commute)
  then show "bit (le_word (le_bytes k x) :: 'a word) n = bit x n"
    using n \<open>n < 8 * k\<close> by (simp add: bit_le_word bit_nth_le_bytes)
qed

lemma le_bytes_le_word [simp]:
  fixes bs :: "u8 list"
  assumes "length bs = k" "8 * k \<le> LENGTH('a::len)"
  shows "le_bytes k (le_word bs :: 'a word) = bs"
proof (rule nth_equalityI)
  show "length (le_bytes k (le_word bs :: 'a word)) = length bs" using assms by simp
  fix i assume "i < length (le_bytes k (le_word bs :: 'a word))"
  then have i: "i < k" by simp
  show "le_bytes k (le_word bs :: 'a word) ! i = bs ! i"
  proof (rule bit_word_eqI)
    fix j assume "j < LENGTH(8)"
    then have "j < 8" by simp
    then show "bit (le_bytes k (le_word bs :: 'a word) ! i) j = bit (bs ! i) j"
      using i assms by (simp add: bit_nth_le_bytes bit_le_word)
  qed
qed

lemma drop_chunk: "drop k bs = take j (drop k bs) @ drop (k + j) bs"
  by (metis append_take_drop_id add.commute drop_drop)

subsection \<open>Byte order of the network\<close>

text \<open>
  The host is little-endian (the library is built for x86-64 and arm64 Linux), so
  \<open>htobe16\<close>, \<open>be16toh\<close> and their wider forms reverse the bytes.
\<close>

definition bswap :: "nat \<Rightarrow> 'a::len word \<Rightarrow> 'a word" where
  "bswap k x = le_word (rev (le_bytes k x))"

abbreviation htobe16 :: "u16 \<Rightarrow> u16" where "htobe16 \<equiv> bswap 2"
abbreviation htobe32 :: "u32 \<Rightarrow> u32" where "htobe32 \<equiv> bswap 4"
abbreviation htobe64 :: "u64 \<Rightarrow> u64" where "htobe64 \<equiv> bswap 8"
abbreviation (input) be16toh :: "u16 \<Rightarrow> u16" where "be16toh \<equiv> bswap 2"
abbreviation (input) be32toh :: "u32 \<Rightarrow> u32" where "be32toh \<equiv> bswap 4"
abbreviation (input) be64toh :: "u64 \<Rightarrow> u64" where "be64toh \<equiv> bswap 8"

lemma le_bytes_bswap:
  fixes x :: "'a::len word"
  assumes "LENGTH('a) = 8 * k"
  shows "le_bytes k (bswap k x) = rev (le_bytes k x)"
  using assms by (simp add: bswap_def)

lemma bswap_bswap:
  fixes x :: "'a::len word"
  assumes "LENGTH('a) = 8 * k"
  shows "bswap k (bswap k x) = x"
  using assms by (simp add: bswap_def)

lemma bit_bswap:
  fixes x :: "'a::len word"
  assumes len: "LENGTH('a) = 8 * k" and n: "n < 8 * k"
  shows "bit (bswap k x) n \<longleftrightarrow> bit x (8 * (k - 1 - n div 8) + n mod 8)"
proof -
  have d: "n div 8 < k" using n by (simp add: less_mult_imp_div_less mult.commute)
  then have "rev (le_bytes k x) ! (n div 8) = le_bytes k x ! (k - 1 - n div 8)"
    by (simp add: rev_nth)
  moreover have "k - 1 - n div 8 < k" using d by simp
  ultimately show ?thesis
    using n len by (simp add: bswap_def bit_le_word bit_nth_le_bytes)
qed

lemma bswap_or:
  fixes x y :: "'a::len word"
  assumes len: "LENGTH('a) = 8 * k"
  shows "bswap k (x OR y) = bswap k x OR bswap k y"
  by (rule bit_word_eqI) (simp add: bit_bswap[OF len] len bit_or_iff)

lemma bswap_and:
  fixes x y :: "'a::len word"
  assumes len: "LENGTH('a) = 8 * k"
  shows "bswap k (x AND y) = bswap k x AND bswap k y"
  by (rule bit_word_eqI) (simp add: bit_bswap[OF len] len bit_and_iff)

lemma bswap_not:
  fixes x :: "'a::len word"
  assumes len: "LENGTH('a) = 8 * k"
  shows "bswap k (NOT x) = NOT (bswap k x)"
proof (rule bit_word_eqI)
  fix n assume "n < LENGTH('a)"
  then have n: "n < 8 * k" by (simp add: len)
  then have "n div 8 < k" by (simp add: less_mult_imp_div_less mult.commute)
  then have "8 * (k - 1 - n div 8) + n mod 8 < LENGTH('a)"
    using len mod_less_divisor[of 8 n] by (simp add: algebra_simps)
  then show "bit (bswap k (NOT x)) n = bit (NOT (bswap k x)) n"
    using n by (simp add: bit_bswap[OF len] len bit_not_iff)
qed

lemma bswap_cancel [simp]:
  "bswap 2 (bswap 2 a) = (a :: u16)"
  "bswap 4 (bswap 4 b) = (b :: u32)"
  "bswap 8 (bswap 8 c) = (c :: u64)"
  by (simp_all add: bswap_bswap)

lemma bswap32_bitops [simp]:
  "bswap 4 (x OR y) = bswap 4 x OR bswap 4 (y :: u32)"
  "bswap 4 (x AND y) = bswap 4 x AND bswap 4 y"
  "bswap 4 (NOT x) = NOT (bswap 4 x)"
  by (simp_all add: bswap_or bswap_and bswap_not)

lemma bswap_inject [simp]:
  "bswap 2 a = bswap 2 a' \<longleftrightarrow> a = (a' :: u16)"
  "bswap 4 b = bswap 4 b' \<longleftrightarrow> b = (b' :: u32)"
  "bswap 8 c = bswap 8 c' \<longleftrightarrow> c = (c' :: u64)"
  by (metis bswap_cancel)+

end
