(* ===== verification/Resource.thy ===== *)
theory Resource
  imports Prelude
begin

text \<open>
  The handle tables of \<open>resource.c\<close>: an array of pointers indexed by handle. Every object starts
  with a \<open>roce_res\<close> (its handle and a reference count), so objects are extensions of that record
  and a table holds the objects themselves. The operations are shown to refine a finite map from
  handles to objects; the locale \<open>handle_table\<close> states that contract, and \<open>refcounted\<close> the one of
  the get and put operations that every kind of object builds on it.
\<close>

subsection \<open>Definitions\<close>

record roce_res =
  handle :: u32
  ref :: u32

record 'o roce_resource =
  res_size :: u32
  res_addr :: "'o option list option"   \<comment> \<open>\<open>None\<close> is the null pointer, or one to an array that was freed\<close>

definition ROCE_MAX_GENERAL :: u32 where "ROCE_MAX_GENERAL = 0x1000000"

text \<open>The result of the lock initialisation and of \<open>calloc\<close> are arguments.\<close>

definition roce_resource_init ::
  "'o roce_resource \<Rightarrow> u32 \<Rightarrow> int \<Rightarrow> bool \<Rightarrow> int \<times> 'o roce_resource" where
  "roce_resource_init resource sz spin_ret mem_ok =
     (if sz = 0 \<or> sz > ROCE_MAX_GENERAL then (- EINVAL, resource)
      else if spin_ret \<noteq> 0 then (spin_ret, resource)
      else if mem_ok then
        (0, resource\<lparr>res_size := sz, res_addr := Some (replicate (unat sz) None)\<rparr>)
      else (- ENOMEM, resource\<lparr>res_size := sz, res_addr := None\<rparr>))"

definition roce_resource_destroy :: "'o roce_resource \<Rightarrow> 'o roce_resource" where
  "roce_resource_destroy resource =
     (if res_size resource = 0 then resource else resource\<lparr>res_addr := None\<rparr>)"

text \<open>Reading and writing \<open>resource->addr[index]\<close>.\<close>

definition addr_read :: "'o roce_resource \<Rightarrow> nat \<Rightarrow> 'o option run" where
  "addr_read resource i = (case res_addr resource of None \<Rightarrow> Inl Null_deref
     | Some addr \<Rightarrow> if i < length addr then Inr (addr ! i) else Inl Out_of_bounds)"

definition addr_write :: "'o roce_resource \<Rightarrow> nat \<Rightarrow> 'o option \<Rightarrow> 'o roce_resource" where
  "addr_write resource i x =
     resource\<lparr>res_addr := map_option (\<lambda>addr. addr[i := x]) (res_addr resource)\<rparr>"

text \<open>The search of the first free slot, for \<open>i\<close> from the first argument up to \<open>size\<close>.\<close>

function alloc_loop ::
  "nat \<Rightarrow> 'a roce_res_scheme roce_resource \<Rightarrow> 'a roce_res_scheme \<Rightarrow>
   (int \<times> 'a roce_res_scheme roce_resource) run" where
  "alloc_loop i resource res =
     (if i < unat (res_size resource) then
        bindR (addr_read resource i) (\<lambda>slot.
          if slot \<noteq> None then alloc_loop (i + 1) resource res
          else Inr (int i, addr_write resource i (Some (res\<lparr>handle := of_nat i\<rparr>))))
      else Inr (- EBUSY, resource))"
  by pat_completeness auto
termination by (relation "measure (\<lambda>(i, resource, res). unat (res_size resource) - i)") auto

declare alloc_loop.simps [simp del]

definition roce_resource_alloc ::
  "'a roce_res_scheme roce_resource \<Rightarrow> 'a roce_res_scheme option \<Rightarrow>
   (int \<times> 'a roce_res_scheme roce_resource) run" where
  "roce_resource_alloc resource res = (case res of None \<Rightarrow> Inr (- EINVAL, resource)
     | Some r \<Rightarrow> alloc_loop 0 resource r)"

definition roce_resource_alloc_at ::
  "'a roce_res_scheme roce_resource \<Rightarrow> 'a roce_res_scheme option \<Rightarrow> u32 \<Rightarrow>
   (int \<times> 'a roce_res_scheme roce_resource) run" where
  "roce_resource_alloc_at resource res index = (case res of None \<Rightarrow> Inr (- EINVAL, resource)
     | Some r \<Rightarrow>
         if index \<ge> res_size resource then Inr (- EINVAL, resource)
         else bindR (addr_read resource (unat index)) (\<lambda>slot.
           if slot \<noteq> None then Inr (- EBUSY, resource)
           else Inr (uint index,
                     addr_write resource (unat index) (Some (r\<lparr>handle := index\<rparr>)))))"

definition roce_resource_get ::
  "'a roce_res_scheme roce_resource \<Rightarrow> u32 \<Rightarrow> 'a roce_res_scheme option run" where
  "roce_resource_get resource index =
     (if index \<ge> res_size resource then Inr None
      else bindR (addr_read resource (unat index)) (\<lambda>slot.
        case slot of None \<Rightarrow> Inr None
        | Some res \<Rightarrow> bindR (assertR (handle res = index)) (\<lambda>_. Inr (Some res))))"

definition roce_resource_free ::
  "'o roce_resource \<Rightarrow> u32 \<Rightarrow> (int \<times> 'o roce_resource) run" where
  "roce_resource_free resource index =
     (if index \<ge> res_size resource then Inr (- EINVAL, resource)
      else bindR (addr_read resource (unat index)) (\<lambda>slot.
        if slot = None then Inr (- EINVAL, resource)
        else Inr (0, addr_write resource (unat index) None)))"

text \<open>An assignment through a pointer to an object in the table.\<close>

definition res_update :: "'o roce_resource \<Rightarrow> u32 \<Rightarrow> 'o \<Rightarrow> 'o roce_resource" where
  "res_update resource index x = addr_write resource (unat index) (Some x)"

subsection \<open>The contract: a finite map from handles to objects\<close>

definition res_map :: "'o roce_resource \<Rightarrow> u32 \<Rightarrow> 'o option" where
  "res_map resource h = (case res_addr resource of None \<Rightarrow> None
     | Some addr \<Rightarrow> if unat h < length addr then addr ! unat h else None)"

definition res_wf :: "'a roce_res_scheme roce_resource \<Rightarrow> bool" where
  "res_wf resource \<longleftrightarrow>
     (case res_addr resource of None \<Rightarrow> res_size resource = 0
      | Some addr \<Rightarrow> length addr = unat (res_size resource)) \<and>
     res_size resource \<le> ROCE_MAX_GENERAL \<and>
     (\<forall>h x. res_map resource h = Some x \<longrightarrow> handle x = h)"

lemma res_map_bound: "res_wf rs \<Longrightarrow> res_map rs h = Some x \<Longrightarrow> h < res_size rs"
  by (auto simp: res_wf_def res_map_def word_less_nat_alt split: option.splits if_splits)

lemma res_map_handle: "res_wf rs \<Longrightarrow> res_map rs h = Some x \<Longrightarrow> handle x = h"
  by (simp add: res_wf_def)

lemma addr_read_map:
  "res_wf rs \<Longrightarrow> h < res_size rs \<Longrightarrow> addr_read rs (unat h) = Inr (res_map rs h)"
  by (auto simp: res_wf_def addr_read_def res_map_def word_less_nat_alt split: option.splits)

lemma res_map_write:
  assumes "res_wf rs" "h < res_size rs"
  shows "res_map (addr_write rs (unat h) x) = (res_map rs)(h := x)"
proof (rule ext)
  fix k
  show "res_map (addr_write rs (unat h) x) k = ((res_map rs)(h := x)) k"
    using assms word_unat_eq_iff[of h k]
    by (auto simp: res_wf_def res_map_def addr_write_def word_less_nat_alt nth_list_update
        split: option.splits)
qed

lemma res_size_write [simp]: "res_size (addr_write rs i x) = res_size rs"
  by (simp add: addr_write_def)

lemma res_wf_write:
  assumes "res_wf rs" "h < res_size rs" "\<forall>r. x = Some r \<longrightarrow> handle r = h"
  shows "res_wf (addr_write rs (unat h) x)"
proof -
  have "\<forall>k r. res_map (addr_write rs (unat h) x) k = Some r \<longrightarrow> handle r = k"
    using assms by (auto simp: res_map_write res_wf_def)
  then show ?thesis using assms(1)
    by (auto simp: res_wf_def addr_write_def split: option.splits)
qed

lemma res_get_map: "res_wf rs \<Longrightarrow> roce_resource_get rs h = Inr (res_map rs h)"
proof (cases "h \<ge> res_size rs")
  case True
  assume wf: "res_wf rs"
  have "res_map rs h = None"
  proof (rule ccontr)
    assume "res_map rs h \<noteq> None"
    then show False using res_map_bound[OF wf] True by (auto simp: not_less[symmetric])
  qed
  then show ?thesis using True by (simp add: roce_resource_get_def)
next
  case False
  assume wf: "res_wf rs"
  then show ?thesis using False
    by (auto simp: roce_resource_get_def addr_read_map res_map_handle split: option.splits)
qed

lemma res_update_map:
  assumes "res_wf rs" "res_map rs h = Some x" "handle y = h"
  shows "res_wf (res_update rs h y) \<and> res_map (res_update rs h y) = (res_map rs)(h \<mapsto> y)"
  using assms res_map_bound[OF assms(1,2)] by (simp add: res_update_def res_wf_write res_map_write)

lemma res_free_map:
  assumes "res_wf rs" "res_map rs h = Some x"
  shows "\<exists>rs'. roce_resource_free rs h = Inr (0, rs') \<and> res_wf rs' \<and> res_size rs' = res_size rs \<and>
    res_map rs' = (res_map rs)(h := None)"
  using assms res_map_bound[OF assms]
  by (simp add: roce_resource_free_def addr_read_map res_wf_write res_map_write not_le)

lemma res_free_empty:
  assumes "res_wf rs" "res_map rs h = None"
  shows "roce_resource_free rs h = Inr (- EINVAL, rs)"
  using assms by (auto simp: roce_resource_free_def addr_read_map)

lemma alloc_loop_map:
  assumes "res_wf rs" "i \<le> unat (res_size rs)" "\<forall>j < i. res_map rs (of_nat j) \<noteq> None"
  shows "\<exists>ret rs'. alloc_loop i rs x = Inr (ret, rs') \<and>
    ((ret = - EBUSY \<and> rs' = rs \<and> (\<forall>h < res_size rs. res_map rs h \<noteq> None)) \<or>
     (\<exists>h. ret = uint h \<and> h < res_size rs \<and> res_map rs h = None \<and>
        (\<forall>k < h. res_map rs k \<noteq> None) \<and> rs' = addr_write rs (unat h) (Some (x\<lparr>handle := h\<rparr>))))"
  using assms
proof (induction i rs x rule: alloc_loop.induct)
  case (1 i rs x)
  show ?case
  proof (cases "i < unat (res_size rs)")
    case False
    then have "\<forall>h < res_size rs. res_map rs h \<noteq> None"
      using "1.prems"(2,3) by (metis le_antisym not_less of_nat_unat ucast_id word_less_nat_alt)
    then show ?thesis using False by (simp add: alloc_loop.simps[of i])
  next
    case True
    define h where "h = (of_nat i :: u32)"
    have h: "unat h = i"
      using True unat_bounds(3)[of "res_size rs"] by (simp add: h_def unat_of_nat)
    then have lt: "h < res_size rs" using True by (simp add: word_less_nat_alt)
    then have rd: "addr_read rs i = Inr (res_map rs h)" using addr_read_map[OF "1.prems"(1) lt] h by simp
    show ?thesis
    proof (cases "res_map rs h = None")
      case None: True
      have "\<forall>k < h. res_map rs k \<noteq> None"
        using "1.prems"(3) h by (metis of_nat_unat ucast_id word_less_nat_alt)
      moreover have "int i = uint h" by (simp flip: h)
      then have "alloc_loop i rs x = Inr (uint h, addr_write rs (unat h) (Some (x\<lparr>handle := h\<rparr>)))"
        using True rd None by (simp add: alloc_loop.simps[of i] h flip: h_def)
      ultimately show ?thesis using lt None by blast
    next
      case Some: False
      have "\<forall>j < i + 1. res_map rs (of_nat j) \<noteq> None"
        using "1.prems"(3) Some by (auto simp: less_Suc_eq h_def)
      then show ?thesis
        using "1.IH"[OF True, of "res_map rs h"] Some True rd "1.prems"(1)
        by (simp add: alloc_loop.simps[of i])
    qed
  qed
qed

lemma res_alloc_map:
  assumes "res_wf rs"
  shows "\<exists>ret rs'. roce_resource_alloc rs (Some x) = Inr (ret, rs') \<and> res_wf rs' \<and>
    ((ret = - EBUSY \<and> rs' = rs \<and> (\<forall>h < res_size rs. res_map rs h \<noteq> None)) \<or>
     (\<exists>h. ret = uint h \<and> h < res_size rs \<and> res_map rs h = None \<and>
        (\<forall>k < h. res_map rs k \<noteq> None) \<and> res_map rs' = (res_map rs)(h \<mapsto> x\<lparr>handle := h\<rparr>) \<and>
        res_size rs' = res_size rs))"
proof -
  obtain ret rs' where r: "alloc_loop 0 rs x = Inr (ret, rs')"
    "(ret = - EBUSY \<and> rs' = rs \<and> (\<forall>h < res_size rs. res_map rs h \<noteq> None)) \<or>
     (\<exists>h. ret = uint h \<and> h < res_size rs \<and> res_map rs h = None \<and>
        (\<forall>k < h. res_map rs k \<noteq> None) \<and> rs' = addr_write rs (unat h) (Some (x\<lparr>handle := h\<rparr>)))"
    using alloc_loop_map[OF assms, of 0 x] by auto
  moreover have "res_wf (addr_write rs (unat h) (Some (x\<lparr>handle := h\<rparr>)))" if "h < res_size rs" for h
    using assms that by (rule res_wf_write) auto
  ultimately show ?thesis
    using assms by (auto simp: roce_resource_alloc_def res_map_write)
qed

lemma res_alloc_at_map:
  assumes "res_wf rs"
  shows "\<exists>ret rs'. roce_resource_alloc_at rs (Some x) h = Inr (ret, rs') \<and> res_wf rs' \<and>
    (if h \<ge> res_size rs then ret = - EINVAL \<and> rs' = rs
     else if res_map rs h \<noteq> None then ret = - EBUSY \<and> rs' = rs
     else ret = uint h \<and> res_map rs' = (res_map rs)(h \<mapsto> x\<lparr>handle := h\<rparr>) \<and>
       res_size rs' = res_size rs)"
  using assms by (auto simp: roce_resource_alloc_at_def addr_read_map res_wf_write res_map_write not_le)

lemma res_init_map:
  assumes "res_wf rs" "roce_resource_init rs sz spin True = (0, rs')" "spin = 0"
  shows "res_wf rs' \<and> res_size rs' = sz \<and> res_map rs' = Map.empty"
  using assms
  by (auto simp: roce_resource_init_def res_wf_def res_map_def fun_eq_iff not_less word_less_nat_alt
      word_le_nat_alt split: if_splits)

locale handle_table =
  fixes lookup :: "'rs \<Rightarrow> u32 \<Rightarrow> 'o option"
    and wf :: "'rs \<Rightarrow> bool"
    and capacity :: "'rs \<Rightarrow> u32"
    and alloc :: "'rs \<Rightarrow> 'o \<Rightarrow> (int \<times> 'rs) run"
    and free :: "'rs \<Rightarrow> u32 \<Rightarrow> (int \<times> 'rs) run"
    and get :: "'rs \<Rightarrow> u32 \<Rightarrow> 'o option run"
    and stamp :: "u32 \<Rightarrow> 'o \<Rightarrow> 'o"
  assumes bound: "wf rs \<Longrightarrow> lookup rs h = Some x \<Longrightarrow> h < capacity rs"
    and get_lookup: "wf rs \<Longrightarrow> get rs h = Inr (lookup rs h)"
    and alloc_law: "wf rs \<Longrightarrow> \<exists>ret rs'. alloc rs x = Inr (ret, rs') \<and> wf rs' \<and>
      ((ret = - EBUSY \<and> rs' = rs \<and> (\<forall>h < capacity rs. lookup rs h \<noteq> None)) \<or>
       (\<exists>h. ret = uint h \<and> h < capacity rs \<and> lookup rs h = None \<and>
          (\<forall>k < h. lookup rs k \<noteq> None) \<and> lookup rs' = (lookup rs)(h \<mapsto> stamp h x) \<and>
          capacity rs' = capacity rs))"
    and free_law: "wf rs \<Longrightarrow> lookup rs h = Some x \<Longrightarrow> \<exists>rs'. free rs h = Inr (0, rs') \<and> wf rs' \<and>
      capacity rs' = capacity rs \<and> lookup rs' = (lookup rs)(h := None)"
    and free_empty: "wf rs \<Longrightarrow> lookup rs h = None \<Longrightarrow> free rs h = Inr (- EINVAL, rs)"
begin

lemma alloc_ok:
  assumes "wf rs" "alloc rs x = Inr (ret, rs')" "0 \<le> ret"
  shows "\<exists>h. ret = uint h \<and> h < capacity rs \<and> lookup rs h = None \<and>
    (\<forall>k < h. lookup rs k \<noteq> None) \<and> lookup rs' = (lookup rs)(h \<mapsto> stamp h x) \<and>
    capacity rs' = capacity rs \<and> wf rs'"
  using alloc_law[OF assms(1), of x] assms(2,3) by auto

lemma alloc_fail:
  assumes "wf rs" "alloc rs x = Inr (ret, rs')" "ret < 0"
  shows "ret = - EBUSY \<and> rs' = rs \<and> (\<forall>h < capacity rs. lookup rs h \<noteq> None)"
  using alloc_law[OF assms(1), of x] assms(2,3) by auto

lemma alloc_then_get:
  assumes "wf rs" "alloc rs x = Inr (uint h, rs')"
  shows "get rs' h = Inr (Some (stamp h x)) \<and> (\<forall>k. k \<noteq> h \<longrightarrow> get rs' k = get rs k)"
proof -
  obtain k where k: "uint h = uint k" "lookup rs' = (lookup rs)(k \<mapsto> stamp k x)" "wf rs'"
    using alloc_ok[OF assms] by auto
  from k(1) have "k = h" by (simp add: word_uint_eq_iff)
  then show ?thesis using k assms(1) by (simp add: get_lookup)
qed

lemma alloc_then_free:
  assumes "wf rs" "alloc rs x = Inr (uint h, rs')"
  shows "\<exists>rs''. free rs' h = Inr (0, rs'') \<and> lookup rs'' = lookup rs \<and> wf rs''"
proof -
  obtain k where k: "uint h = uint k" "lookup rs k = None" "lookup rs' = (lookup rs)(k \<mapsto> stamp k x)" "wf rs'"
    using alloc_ok[OF assms] by auto
  from k(1) have "k = h" by (simp add: word_uint_eq_iff)
  then show ?thesis using k free_law[OF k(4), of h "stamp h x"] by (auto simp: fun_upd_idem_iff)
qed

lemma free_then_alloc:
  assumes "wf rs" "lookup rs h = Some x" "free rs h = Inr (0, rs')"
  shows "\<exists>k rs''. alloc rs' y = Inr (uint k, rs'') \<and> k \<le> h"
proof -
  obtain "wf rs'" "capacity rs' = capacity rs" "lookup rs' = (lookup rs)(h := None)"
    using free_law[OF assms(1,2)] assms(3) by auto
  moreover have "h < capacity rs" using assms by (blast intro: bound)
  moreover note alloc_law[of rs' y]
  ultimately show ?thesis by (metis fun_upd_same not_le)
qed

end

interpretation resource: handle_table res_map res_wf res_size
  "\<lambda>rs x. roce_resource_alloc rs (Some x)" roce_resource_free roce_resource_get
  "\<lambda>h x. x\<lparr>handle := h\<rparr>"
  by (rule handle_table.intro)
    (fact res_map_bound res_get_map res_alloc_map res_free_map res_free_empty)+

subsection \<open>The contract of reference counts\<close>

text \<open>
  Taking a list of references, all or none: on the first handle that has no object the references
  already taken are given back, the last one first.
\<close>

fun release :: "('s \<Rightarrow> u32 \<Rightarrow> 's run) \<Rightarrow> u32 list \<Rightarrow> 's \<Rightarrow> 's run" where
  "release put [] s = Inr s"
| "release put (h # hs) s = bindR (put s h) (release put hs)"

fun acquire ::
  "('s \<Rightarrow> u32 \<Rightarrow> (bool \<times> 's) run) \<Rightarrow> ('s \<Rightarrow> u32 \<Rightarrow> 's run) \<Rightarrow> u32 list \<Rightarrow> u32 list \<Rightarrow> 's \<Rightarrow> (bool \<times> 's) run"
where
  "acquire get put taken [] s = Inr (True, s)"
| "acquire get put taken (h # hs) s = bindR (get s h) (\<lambda>(ok, s').
     if ok then acquire get put (h # taken) hs s'
     else bindR (release put taken s') (\<lambda>s''. Inr (False, s'')))"

text \<open>
  \<open>refs\<close> is the reference count of each live object, \<open>doomed\<close> marks objects that are destroyed by
  the put that drops their last reference.
\<close>

locale refcounted =
  fixes inv :: "'s \<Rightarrow> bool"
    and refs :: "'s \<Rightarrow> u32 \<Rightarrow> nat option"
    and doomed :: "'s \<Rightarrow> u32 \<Rightarrow> bool"
    and get :: "'s \<Rightarrow> u32 \<Rightarrow> (bool \<times> 's) run"
    and put :: "'s \<Rightarrow> u32 \<Rightarrow> 's run"
  assumes get_none: "inv s \<Longrightarrow> refs s h = None \<Longrightarrow> get s h = Inr (False, s)"
    and get_some: "inv s \<Longrightarrow> refs s h = Some n \<Longrightarrow> Suc n < 2 ^ 32 \<Longrightarrow>
      \<exists>s'. get s h = Inr (True, s') \<and> inv s' \<and> refs s' = (refs s)(h \<mapsto> Suc n) \<and> doomed s' = doomed s"
    and put_some: "inv s \<Longrightarrow> refs s h = Some (Suc n) \<Longrightarrow> (doomed s h \<longrightarrow> 0 < n) \<Longrightarrow>
      \<exists>s'. put s h = Inr s' \<and> inv s' \<and> refs s' = (refs s)(h \<mapsto> n) \<and> doomed s' = doomed s"
    and doomed_held: "inv s \<Longrightarrow> doomed s h \<Longrightarrow> \<exists>n. refs s h = Some (Suc n)"
begin

definition bump :: "u32 list \<Rightarrow> (u32 \<Rightarrow> nat option) \<Rightarrow> u32 \<Rightarrow> nat option" where
  "bump hs r = (\<lambda>h. map_option (\<lambda>n. n + count_list hs h) (r h))"

lemma bump_simps: "bump [] r = r" "r h = Some n \<Longrightarrow> bump hs (r(h \<mapsto> Suc n)) = bump (h # hs) r"
  by (auto simp: bump_def fun_eq_iff option.map_ident)

lemma get_put:
  assumes "inv s" "refs s h = Some n" "Suc n < 2 ^ 32"
  shows "\<exists>s' s''. get s h = Inr (True, s') \<and> put s' h = Inr s'' \<and> inv s'' \<and> refs s'' = refs s \<and>
    doomed s'' = doomed s"
proof -
  obtain s' where s': "get s h = Inr (True, s')" "inv s'" "refs s' = (refs s)(h \<mapsto> Suc n)"
    "doomed s' = doomed s" using get_some[OF assms] by auto
  have "doomed s' h \<longrightarrow> 0 < n" using doomed_held[OF assms(1), of h] assms(2) s'(4) by auto
  then show ?thesis
    using put_some[OF s'(2), of h n] s' assms(2) by (auto simp: fun_upd_idem_iff)
qed

lemma release_all:
  assumes "inv s" "refs s = bump hs r" "\<And>h. h \<in> set hs \<Longrightarrow> r h \<noteq> None"
    "\<And>h. doomed s h \<Longrightarrow> r h \<noteq> Some 0"
  shows "\<exists>s'. release put hs s = Inr s' \<and> inv s' \<and> refs s' = r \<and> doomed s' = doomed s"
  using assms
proof (induction hs arbitrary: s)
  case Nil
  then show ?case by (simp add: bump_simps)
next
  case (Cons h hs)
  obtain n where n: "r h = Some n" using Cons.prems(3)[of h] by auto
  have "refs s h = Some (Suc (n + count_list hs h))" using Cons.prems(2) n by (simp add: bump_def)
  moreover have "doomed s h \<longrightarrow> 0 < n + count_list hs h" using Cons.prems(4)[of h] n by auto
  ultimately obtain s' where s': "put s h = Inr s'" "inv s'"
    "refs s' = (refs s)(h \<mapsto> n + count_list hs h)" "doomed s' = doomed s"
    using put_some[OF Cons.prems(1)] by blast
  have "refs s' = bump hs r" using s'(3) Cons.prems(2) n by (auto simp: bump_def fun_eq_iff)
  then show ?case using Cons.IH[of s'] Cons.prems(3,4) s' by auto
qed

lemma acquire_all:
  assumes "inv s" "refs s = bump taken r" "\<And>h. h \<in> set taken \<Longrightarrow> r h \<noteq> None"
    "\<And>h. doomed s h \<Longrightarrow> r h \<noteq> Some 0"
    "\<And>h n. r h = Some n \<Longrightarrow> n + length taken + length hs < 2 ^ 32"
  shows "\<exists>s'. acquire get put taken hs s = Inr (\<forall>h \<in> set hs. r h \<noteq> None, s') \<and> inv s' \<and>
    refs s' = (if \<forall>h \<in> set hs. r h \<noteq> None then bump (hs @ taken) r else r) \<and> doomed s' = doomed s"
  using assms
proof (induction hs arbitrary: taken s)
  case Nil
  then show ?case by simp
next
  case (Cons h hs)
  show ?case
  proof (cases "r h")
    case None
    then have "refs s h = None" using Cons.prems(2) by (simp add: bump_def)
    then have "get s h = Inr (False, s)" by (rule get_none[OF Cons.prems(1)])
    then show ?thesis using release_all[OF Cons.prems(1-4)] None by auto
  next
    case (Some n)
    then have rs: "refs s h = Some (n + count_list taken h)" using Cons.prems(2) by (simp add: bump_def)
    moreover have "Suc (n + count_list taken h) < 2 ^ 32"
      using Cons.prems(5)[OF Some] count_le_length[of taken h] by simp
    ultimately obtain s' where s': "get s h = Inr (True, s')" "inv s'"
      "refs s' = (refs s)(h \<mapsto> Suc (n + count_list taken h))" "doomed s' = doomed s"
      using get_some[OF Cons.prems(1)] by blast
    have b: "refs s' = bump (h # taken) r" using s'(3) Cons.prems(2) Some by (auto simp: bump_def fun_eq_iff)
    have e: "bump (hs @ h # taken) r = bump ((h # hs) @ taken) r" by (auto simp: bump_def fun_eq_iff)
    define ok where "ok \<longleftrightarrow> (\<forall>h \<in> set hs. r h \<noteq> None)"
    have "\<exists>s''. acquire get put (h # taken) hs s' = Inr (ok, s'') \<and> inv s'' \<and>
      refs s'' = (if ok then bump (hs @ h # taken) r else r) \<and> doomed s'' = doomed s'"
      unfolding ok_def
    proof (rule Cons.IH[OF s'(2) b])
      show "r k \<noteq> None" if "k \<in> set (h # taken)" for k using that Cons.prems(3) Some by auto
      show "r k \<noteq> Some 0" if "doomed s' k" for k using that Cons.prems(4) s'(4) by simp
      show "m + length (h # taken) + length hs < 2 ^ 32" if "r k = Some m" for k m
        using Cons.prems(5)[OF that] by simp
    qed
    moreover have "(\<forall>k \<in> set (h # hs). r k \<noteq> None) \<longleftrightarrow> ok" using Some by (simp add: ok_def)
    moreover have "acquire get put taken (h # hs) s = acquire get put (h # taken) hs s'"
      using s'(1) by simp
    ultimately show ?thesis using s'(4) e by (simp only:)
  qed
qed

end

subsection \<open>Properties\<close>

text \<open>C39: Allocation puts the object, with its handle set, at the lowest free handle and changes no
  other slot; it fails, with \<open>-EBUSY\<close> and nothing changed, only when every slot is taken.\<close>

theorem resource_alloc_lowest:
  assumes "res_wf rs" "roce_resource_alloc rs (Some x) = Inr (ret, rs')"
  shows "if 0 \<le> ret
    then \<exists>h. ret = uint h \<and> h < res_size rs \<and> res_map rs h = None \<and> (\<forall>k < h. res_map rs k \<noteq> None) \<and>
      res_map rs' = (res_map rs)(h \<mapsto> x\<lparr>handle := h\<rparr>) \<and> res_wf rs'
    else ret = - EBUSY \<and> rs' = rs \<and> (\<forall>h < res_size rs. res_map rs h \<noteq> None)"
  using resource.alloc_ok[OF assms] resource.alloc_fail[OF assms] by auto

lemma res_map_two:
  "res_map \<lparr>res_size = 2, res_addr = Some [a, b]\<rparr> = (\<lambda>h. if h = 0 then a else if h = 1 then b else None)"
proof (rule ext)
  fix h :: u32
  have "unat h = 1 \<longleftrightarrow> h = 1" by (metis unat_1 word_unat_eq_iff)
  moreover have "unat h = 0 \<longleftrightarrow> h = 0" by (rule unat_0_iff)
  ultimately show "res_map \<lparr>res_size = 2, res_addr = Some [a, b]\<rparr> h =
    (if h = 0 then a else if h = 1 then b else None)"
    by (auto simp: res_map_def less_Suc_eq)
qed

definition sample_table :: "roce_res roce_resource" where
  "sample_table = \<lparr>res_size = 2, res_addr = Some [Some \<lparr>handle = 0, ref = 5\<rparr>, None]\<rparr>"

lemma sample_table_map:
  "res_map sample_table = [0 \<mapsto> \<lparr>handle = 0, ref = 5\<rparr>]"
  by (auto simp: sample_table_def res_map_two)

lemma sample_table_wf: "res_wf sample_table"
  by (simp add: res_wf_def sample_table_map) (simp add: sample_table_def ROCE_MAX_GENERAL_def)

lemma sample_table_alloc:
  "roce_resource_alloc sample_table (Some \<lparr>handle = 7, ref = 0\<rparr>) =
    Inr (1, \<lparr>res_size = 2, res_addr = Some [Some \<lparr>handle = 0, ref = 5\<rparr>, Some \<lparr>handle = 1, ref = 0\<rparr>]\<rparr>)"
  by (simp add: sample_table_def roce_resource_alloc_def alloc_loop.simps addr_read_def addr_write_def)

lemma resource_alloc_lowest_witness:
  "\<exists>h :: u32. uint h = 1 \<and> res_map sample_table h = None \<and> (\<forall>k < h. res_map sample_table k \<noteq> None)"
  using resource_alloc_lowest[OF sample_table_wf sample_table_alloc] by auto

text \<open>A handle that allocation returned finds the object, every other handle finds what it found
  before, and freeing the handle gives the table back as it was.\<close>

theorem resource_alloc_get_free:
  assumes "res_wf rs" "roce_resource_alloc rs (Some x) = Inr (uint h, rs')"
  shows "roce_resource_get rs' h = Inr (Some (x\<lparr>handle := h\<rparr>)) \<and>
    (\<forall>k. k \<noteq> h \<longrightarrow> roce_resource_get rs' k = roce_resource_get rs k) \<and>
    (\<exists>rs''. roce_resource_free rs' h = Inr (0, rs'') \<and> res_map rs'' = res_map rs)"
  using resource.alloc_then_get[OF assms] resource.alloc_then_free[OF assms] by blast

lemma resource_alloc_get_free_witness:
  "\<exists>rs' rs''. roce_resource_alloc sample_table (Some \<lparr>handle = 7, ref = 0\<rparr>) = Inr (1, rs') \<and>
     roce_resource_get rs' 1 = Inr (Some \<lparr>handle = 1, ref = 0\<rparr>) \<and>
     roce_resource_free rs' 1 = Inr (0, rs'') \<and> res_map rs'' = res_map sample_table"
  using resource_alloc_get_free[OF sample_table_wf, of "\<lparr>handle = 7, ref = 0\<rparr>" 1] sample_table_alloc
  by force

end
