(* ===== verification/Iov.thy ===== *)
theory Iov
  imports Prelude
begin

text \<open>
  Byte-addressed memory and the scatter/gather vectors of \<open>include/private/iov-helper.h\<close>. An
  \<open>iovec\<close> is a base (\<open>None\<close> for a null pointer) and a length. Lengths are natural numbers; the
  one sum that can wrap, the 32-bit total of \<open>roce_iov_len\<close>, is taken modulo \<open>2 ^ 32\<close>. The three
  routines are shown to be \<open>take\<close> and \<open>drop\<close> on the bytes the vector stands for.
\<close>

subsection \<open>Memory\<close>

type_synonym mem = "u64 \<Rightarrow> u8"

definition load :: "mem \<Rightarrow> u64 \<Rightarrow> nat \<Rightarrow> u8 list" where
  "load m p n = map (\<lambda>i. m (p + of_nat i)) [0..<n]"

definition store :: "mem \<Rightarrow> u64 \<Rightarrow> u8 list \<Rightarrow> mem" where
  "store m p bs = (\<lambda>a. let k = unat (a - p) in if k < length bs then bs ! k else m a)"

lemma length_load [simp]: "length (load m p n) = n"
  by (simp add: load_def)

lemma load_0 [simp]: "load m p 0 = []"
  by (simp add: load_def)

lemma load_add: "load m p (i + j) = load m p i @ load m (p + of_nat i) j"
  by (rule nth_equalityI) (auto simp: load_def nth_append algebra_simps of_nat_diff)

lemma load_store_same:
  assumes "length bs < 2 ^ 64"
  shows "load (store m p bs) p (length bs) = bs"
proof (rule nth_equalityI)
  fix i assume "i < length (load (store m p bs) p (length bs))"
  then have "i < length bs" by simp
  moreover from this have "unat (of_nat i :: u64) = i"
    using assms by (simp add: unat_of_nat)
  ultimately show "load (store m p bs) p (length bs) ! i = bs ! i"
    by (simp add: load_def store_def)
qed simp

subsection \<open>IO vectors\<close>

record 'p iovec =
  iov_base :: "'p option"
  iov_len :: nat

type_synonym iov = "u64 iovec"

abbreviation null_iov :: "'p iovec" where
  "null_iov \<equiv> \<lparr>iov_base = None, iov_len = 0\<rparr>"

definition iov_bytes :: "('p \<Rightarrow> nat \<Rightarrow> u8 list) \<Rightarrow> 'p iovec \<Rightarrow> u8 list" where
  "iov_bytes rd v = (case iov_base v of None \<Rightarrow> [] | Some p \<Rightarrow> rd p (iov_len v))"

abbreviation iovs_bytes :: "('p \<Rightarrow> nat \<Rightarrow> u8 list) \<Rightarrow> 'p iovec list \<Rightarrow> u8 list" where
  "iovs_bytes rd vs \<equiv> concat (map (iov_bytes rd) vs)"

text \<open>A null base goes with a length of 0, as every vector of the library has it.\<close>

definition wf_iov :: "'p iovec \<Rightarrow> bool" where
  "wf_iov v \<longleftrightarrow> (iov_base v = None \<longrightarrow> iov_len v = 0)"

definition iovs_total :: "'p iovec list \<Rightarrow> nat" where
  "iovs_total vs = sum_list (map iov_len vs)"

lemma iovs_total_simps [simp]:
  "iovs_total [] = 0" "iovs_total (v # vs) = iov_len v + iovs_total vs"
  "iovs_total (us @ vs) = iovs_total us + iovs_total vs"
  by (simp_all add: iovs_total_def)

lemma length_iov_bytes: "wf_iov v \<Longrightarrow> length (iov_bytes (load m) v) = iov_len v"
  by (auto simp: iov_bytes_def wf_iov_def split: option.splits)

lemma length_iovs_bytes:
  "\<forall>v \<in> set vs. wf_iov v \<Longrightarrow> length (iovs_bytes (load m) vs) = iovs_total vs"
  by (induction vs) (auto simp: length_iov_bytes)

subsection \<open>The routines\<close>

definition roce_iov_len :: "'p iovec list \<Rightarrow> nat run" where
  "roce_iov_len iovs = bindR (assertR (iovs \<noteq> [])) (\<lambda>_. Inr (sum_list (map iov_len iovs) mod 2 ^ 32))"

definition roce_iov_dup :: "'p iovec list \<Rightarrow> 'p iovec list" where
  "roce_iov_dup src = src"

text \<open>
  \<open>roce_iov_copy\<close>: skip \<open>offset\<close> bytes, then describe the next \<open>bytes\<close> bytes by a new vector.
  The result is the count the C function returns and the entries it wrote.
\<close>

fun iov_skip :: "iov list \<Rightarrow> nat \<Rightarrow> iov list \<times> nat" where
  "iov_skip [] offset = ([], offset)"
| "iov_skip (v # vs) offset =
     (if iov_len v > offset then (v # vs, offset) else iov_skip vs (offset - iov_len v))"

fun iov_copy_loop :: "iov list \<Rightarrow> nat \<Rightarrow> iov list \<Rightarrow> nat \<Rightarrow> nat \<times> iov list" where
  "iov_copy_loop [] bytes dst dst_num_iov = (dst_num_iov + 1, dst)"
| "iov_copy_loop (v # vs) bytes dst dst_num_iov =
     (let d = v\<lparr>iov_len := min (iov_len v) bytes\<rparr>; bytes' = bytes - iov_len d in
      if bytes' = 0 then (dst_num_iov + 1, dst @ [d])
      else iov_copy_loop vs bytes' (dst @ [d]) (dst_num_iov + 1))"

definition iov_offset :: "iov \<Rightarrow> nat \<Rightarrow> u64 option" where
  "iov_offset v n = map_option (\<lambda>p. p + of_nat n) (iov_base v)"

definition roce_iov_copy :: "iov list \<Rightarrow> nat \<Rightarrow> nat \<Rightarrow> (nat \<times> iov list) run" where
  "roce_iov_copy src_iovs offset bytes =
     bindR (assertR (src_iovs \<noteq> [])) (\<lambda>_.
     if bytes = 0 then Inr (0, [])
     else (case iov_skip src_iovs offset of
        ([], _) \<Rightarrow> Inr (0, [])
      | (v # vs, off) \<Rightarrow>
          let d = \<lparr>iov_base = iov_offset v off, iov_len = min (iov_len v - off) bytes\<rparr>;
              bytes' = bytes - iov_len d in
          if bytes' = 0 then Inr (1, [d]) else Inr (iov_copy_loop vs bytes' [d] 1)))"

text \<open>
  \<open>roce_iov_advance\<close> consumes bytes from the front. Each \<open>memcpy\<close> of the C loop copies from one
  place of the source to the next free place of the buffer, so the loop returns the count, the
  list of these sources in order and the vector it leaves; \<open>gather\<close> reads the sources into a
  local structure and \<open>scatter\<close> performs the copies into memory one after the other.
\<close>

fun iov_advance_loop :: "nat \<Rightarrow> nat \<Rightarrow> iov list \<Rightarrow> nat \<times> iov list \<times> iov list" where
  "iov_advance_loop bytes copied [] = (copied, [], [])"
| "iov_advance_loop bytes copied (v # vs) =
     (if iov_len v = 0 then
        (let (c, srcs, vs') = iov_advance_loop bytes copied vs in (c, srcs, v # vs'))
      else let tocopy = bytes - copied in
        if iov_len v > tocopy then
          (copied + tocopy, [v\<lparr>iov_len := tocopy\<rparr>],
           \<lparr>iov_base = iov_offset v tocopy, iov_len = iov_len v - tocopy\<rparr> # vs)
        else if iov_len v = tocopy then (copied + tocopy, [v], null_iov # vs)
        else (let (c, srcs, vs') = iov_advance_loop bytes (copied + iov_len v) vs
              in (c, v # srcs, null_iov # vs')))"

definition roce_iov_advance :: "iov list \<Rightarrow> nat \<Rightarrow> (nat \<times> iov list \<times> iov list) run" where
  "roce_iov_advance iovs bytes =
     bindR (assertR (iovs \<noteq> [])) (\<lambda>_.
     if bytes = 0 then Inr (0, [], iovs) else Inr (iov_advance_loop bytes 0 iovs))"

text \<open>\<open>roce_iov_reverse\<close> consumes bytes from the back; its loop runs over the reversed vector.\<close>

fun iov_reverse_loop :: "nat \<Rightarrow> nat \<Rightarrow> iov list \<Rightarrow> nat \<times> iov list \<times> iov list" where
  "iov_reverse_loop bytes copied [] = (copied, [], [])"
| "iov_reverse_loop bytes copied (v # vs) =
     (if iov_len v = 0 then
        (let (c, srcs, vs') = iov_reverse_loop bytes copied vs in (c, srcs, v # vs'))
      else let tocopy = bytes - copied in
        if iov_len v > tocopy then
          (copied + tocopy,
           [\<lparr>iov_base = iov_offset v (iov_len v - tocopy), iov_len = tocopy\<rparr>],
           v\<lparr>iov_len := iov_len v - tocopy\<rparr> # vs)
        else if iov_len v = tocopy then (copied + tocopy, [v], null_iov # vs)
        else (let (c, srcs, vs') = iov_reverse_loop bytes (copied + iov_len v) vs
              in (c, v # srcs, null_iov # vs')))"

definition roce_iov_reverse :: "iov list \<Rightarrow> nat \<Rightarrow> (nat \<times> iov list \<times> iov list) run" where
  "roce_iov_reverse iovs bytes =
     bindR (assertR (iovs \<noteq> [])) (\<lambda>_.
     let (c, srcs, vs) = iov_reverse_loop bytes 0 (rev iovs) in Inr (c, rev srcs, rev vs))"

definition gather :: "mem \<Rightarrow> iov list \<Rightarrow> u8 list" where
  "gather m srcs = iovs_bytes (load m) srcs"

fun scatter :: "mem \<Rightarrow> u64 \<Rightarrow> iov list \<Rightarrow> mem" where
  "scatter m buf [] = m"
| "scatter m buf (v # vs) =
     scatter (store m buf (iov_bytes (load m) v)) (buf + of_nat (iov_len v)) vs"

subsection \<open>Consuming from the front\<close>

lemma iov_bytes_split:
  assumes "wf_iov v" "k \<le> iov_len v"
  shows "iov_bytes (load m) (v\<lparr>iov_len := k\<rparr>) = take k (iov_bytes (load m) v)"
    "iov_bytes (load m) \<lparr>iov_base = iov_offset v k, iov_len = iov_len v - k\<rparr> =
       drop k (iov_bytes (load m) v)"
  using assms load_add[of m _ k "iov_len v - k"]
  by (auto simp: iov_bytes_def iov_offset_def wf_iov_def split: option.splits)

lemma wf_iov_offset: "wf_iov v \<Longrightarrow> wf_iov \<lparr>iov_base = iov_offset v k, iov_len = iov_len v - k\<rparr>"
  by (auto simp: wf_iov_def iov_offset_def)

lemma wf_iov_null [simp]: "wf_iov null_iov"
  by (simp add: wf_iov_def)

lemma iov_bytes_zero: "iov_len v = 0 \<Longrightarrow> iov_bytes (load m) v = []"
  by (auto simp: iov_bytes_def split: option.splits)

lemma iov_bytes_null [simp]: "iov_bytes rd null_iov = []"
  by (simp add: iov_bytes_def)

lemma iov_advance_loop_spec:
  assumes "\<forall>v \<in> set vs. wf_iov v" "copied < bytes"
    "iov_advance_loop bytes copied vs = (c, srcs, vs')"
  shows "c = copied + min (bytes - copied) (iovs_total vs) \<and>
    iovs_bytes (load m) srcs = take (bytes - copied) (iovs_bytes (load m) vs) \<and>
    iovs_bytes (load m) vs' = drop (bytes - copied) (iovs_bytes (load m) vs) \<and>
    length vs' = length vs \<and> (\<forall>v \<in> set vs'. wf_iov v)"
  using assms
proof (induction bytes copied vs arbitrary: c srcs vs' rule: iov_advance_loop.induct)
  case (1 bytes copied)
  then show ?case by simp
next
  case (2 bytes copied v vs)
  let ?t = "bytes - copied"
  have wf: "wf_iov v" "\<forall>v \<in> set vs. wf_iov v" using "2.prems"(1) by simp_all
  consider "iov_len v = 0" | "iov_len v > ?t" | "iov_len v = ?t" "?t > 0"
    | "0 < iov_len v" "iov_len v < ?t" by linarith
  then show ?case
  proof cases
    case 1
    obtain c1 s1 v1 where r: "iov_advance_loop bytes copied vs = (c1, s1, v1)"
      by (metis prod_cases3)
    from "2.IH"(1)[OF 1 wf(2) "2.prems"(2) r] show ?thesis
      using "2.prems"(3) 1 r wf by (auto simp: iov_bytes_zero)
  next
    case 2
    have l: "length (iov_bytes (load m) v) = iov_len v" using wf by (simp add: length_iov_bytes)
    show ?thesis
      using "2.prems" 2 wf l
      by (clarsimp simp: Let_def iov_bytes_split wf_iov_offset simp del: diff_diff_right)
  next
    case 3
    have l: "length (iov_bytes (load m) v) = iov_len v" using wf by (simp add: length_iov_bytes)
    show ?thesis
      using "2.prems" 3 wf l by (auto simp: Let_def wf_iov_def)
  next
    case 4
    have l: "length (iov_bytes (load m) v) = iov_len v" using wf by (simp add: length_iov_bytes)
    obtain c1 s1 v1 where r: "iov_advance_loop bytes (copied + iov_len v) vs = (c1, s1, v1)"
      by (metis prod_cases3)
    have "copied + iov_len v < bytes" using 4 by simp
    from "2.IH"(2)[OF _ refl _ _ wf(2) this r] 4
    have IH: "c1 = copied + iov_len v + min (?t - iov_len v) (iovs_total vs)"
      "iovs_bytes (load m) s1 = take (?t - iov_len v) (iovs_bytes (load m) vs)"
      "iovs_bytes (load m) v1 = drop (?t - iov_len v) (iovs_bytes (load m) vs)"
      "length v1 = length vs" "\<forall>v \<in> set v1. wf_iov v"
      by (simp_all add: diff_diff_add)
    show ?thesis
      using "2.prems"(3) 4 r l IH by (auto simp: Let_def wf_iov_def)
  qed
qed

lemma roce_iov_advance_run:
  assumes "\<forall>v \<in> set vs. wf_iov v" "vs \<noteq> []"
  shows "\<exists>srcs vs'. roce_iov_advance vs n = Inr (min n (iovs_total vs), srcs, vs') \<and>
    gather m srcs = take n (iovs_bytes (load m) vs) \<and>
    iovs_bytes (load m) vs' = drop n (iovs_bytes (load m) vs) \<and>
    length vs' = length vs \<and> (\<forall>v \<in> set vs'. wf_iov v)"
proof (cases "n = 0")
  case True
  then show ?thesis using assms by (simp add: roce_iov_advance_def gather_def)
next
  case False
  obtain c s v where r: "iov_advance_loop n 0 vs = (c, s, v)" by (cases "iov_advance_loop n 0 vs")
  have "roce_iov_advance vs n = Inr (c, s, v)"
    using False assms(2) r by (simp add: roce_iov_advance_def)
  then show ?thesis
    using iov_advance_loop_spec[OF assms(1) _ r, of m] False by (simp add: gather_def)
qed

subsection \<open>Consuming from the back\<close>

lemma iov_bytes_tail:
  assumes "wf_iov v" "k \<le> iov_len v"
  shows "iov_bytes (load m) \<lparr>iov_base = iov_offset v (iov_len v - k), iov_len = k\<rparr> =
     drop (iov_len v - k) (iov_bytes (load m) v)"
  using assms load_add[of m _ "iov_len v - k" k]
  by (auto simp: iov_bytes_def iov_offset_def wf_iov_def split: option.splits)

lemma wf_iov_shorter: "wf_iov v \<Longrightarrow> k \<le> iov_len v \<Longrightarrow> wf_iov (v\<lparr>iov_len := k\<rparr>)"
  by (auto simp: wf_iov_def)

definition take_last :: "nat \<Rightarrow> 'a list \<Rightarrow> 'a list" where
  "take_last n xs = drop (length xs - n) xs"

definition drop_last :: "nat \<Rightarrow> 'a list \<Rightarrow> 'a list" where
  "drop_last n xs = take (length xs - n) xs"

lemma iov_reverse_loop_spec:
  assumes "\<forall>v \<in> set vs. wf_iov v" "copied \<le> bytes"
    "iov_reverse_loop bytes copied vs = (c, srcs, vs')"
  shows "c = copied + min (bytes - copied) (iovs_total vs) \<and>
    iovs_bytes (load m) (rev srcs) = take_last (bytes - copied) (iovs_bytes (load m) (rev vs)) \<and>
    iovs_bytes (load m) (rev vs') = drop_last (bytes - copied) (iovs_bytes (load m) (rev vs)) \<and>
    length vs' = length vs \<and> (\<forall>v \<in> set vs'. wf_iov v)"
  using assms
proof (induction bytes copied vs arbitrary: c srcs vs' rule: iov_reverse_loop.induct)
  case (1 bytes copied)
  then show ?case by (simp add: take_last_def drop_last_def)
next
  case (2 bytes copied v vs)
  let ?t = "bytes - copied"
  have wf: "wf_iov v" "\<forall>v \<in> set vs. wf_iov v" using "2.prems"(1) by simp_all
  have l: "length (iov_bytes (load m) v) = iov_len v"
    "length (iovs_bytes (load m) (rev vs)) = iovs_total vs"
    using wf length_iovs_bytes[of "rev vs" m]
    by (simp_all add: length_iov_bytes iovs_total_def flip: rev_map)
  consider "iov_len v = 0" | "iov_len v > ?t" | "iov_len v = ?t" "?t > 0"
    | "0 < iov_len v" "iov_len v < ?t" by linarith
  then show ?case
  proof cases
    case 1
    obtain c1 s1 v1 where r: "iov_reverse_loop bytes copied vs = (c1, s1, v1)"
      by (cases "iov_reverse_loop bytes copied vs")
    from "2.IH"(1)[OF 1 wf(2) "2.prems"(2) r] show ?thesis
      using "2.prems"(3) 1 r wf by (auto simp: iov_bytes_zero)
  next
    case 2
    have e: "a + k - (c + a - i) = k - (c - i)" if "i \<le> c" for a k c i :: nat
      using that by simp
    show ?thesis
      using 2 "2.prems" wf l
      by (clarsimp simp: e Let_def iov_bytes_tail iov_bytes_split wf_iov_shorter take_last_def
          drop_last_def simp del: diff_diff_right)
  next
    case 3
    then show ?thesis
      using "2.prems" wf l
      by (clarsimp simp: Let_def take_last_def drop_last_def)
  next
    case 4
    obtain c1 s1 v1 where r: "iov_reverse_loop bytes (copied + iov_len v) vs = (c1, s1, v1)"
      by (cases "iov_reverse_loop bytes (copied + iov_len v) vs")
    have "copied + iov_len v \<le> bytes" using 4 by simp
    from "2.IH"(2)[OF _ refl _ _ wf(2) this r] 4
    have IH: "c1 = copied + iov_len v + min (?t - iov_len v) (iovs_total vs)"
      "iovs_bytes (load m) (rev s1) = take_last (?t - iov_len v) (iovs_bytes (load m) (rev vs))"
      "iovs_bytes (load m) (rev v1) = drop_last (?t - iov_len v) (iovs_bytes (load m) (rev vs))"
      "length v1 = length vs" "\<forall>v \<in> set v1. wf_iov v"
      by (simp_all add: diff_diff_add)
    have e: "iovs_total vs + iov_len v - ?t = iovs_total vs - (?t - iov_len v)"
      using 4 by simp
    show ?thesis
      using "2.prems"(3) 4 r l IH by (auto simp: Let_def take_last_def drop_last_def e)
  qed
qed

lemma roce_iov_reverse_run:
  assumes "\<forall>v \<in> set vs. wf_iov v" "vs \<noteq> []"
  shows "\<exists>srcs vs'. roce_iov_reverse vs n = Inr (min n (iovs_total vs), srcs, vs') \<and>
    gather m srcs = take_last n (iovs_bytes (load m) vs) \<and>
    iovs_bytes (load m) vs' = drop_last n (iovs_bytes (load m) vs) \<and>
    length vs' = length vs \<and> (\<forall>v \<in> set vs'. wf_iov v)"
proof -
  obtain c s v where r: "iov_reverse_loop n 0 (rev vs) = (c, s, v)"
    by (cases "iov_reverse_loop n 0 (rev vs)")
  have wf: "\<forall>v \<in> set (rev vs). wf_iov v" using assms(1) by simp
  have "roce_iov_reverse vs n = Inr (c, rev s, rev v)"
    using assms(2) r by (simp add: roce_iov_reverse_def)
  moreover have "iovs_total (rev vs) = iovs_total vs"
    by (simp add: iovs_total_def flip: rev_map)
  ultimately show ?thesis
    using iov_reverse_loop_spec[OF wf _ r, of m] by (simp add: gather_def)
qed

subsection \<open>Describing a range by a new vector\<close>

lemma iov_skip_spec:
  assumes "\<forall>v \<in> set vs. wf_iov v"
  shows "case iov_skip vs n of (us, off) \<Rightarrow>
    (\<forall>v \<in> set us. wf_iov v) \<and> (us = [] \<longleftrightarrow> iovs_total vs \<le> n) \<and>
    (us \<noteq> [] \<longrightarrow> off < iov_len (hd us) \<and> iovs_total us - off = iovs_total vs - n \<and>
       drop off (iovs_bytes (load m) us) = drop n (iovs_bytes (load m) vs))"
  using assms
proof (induction vs n rule: iov_skip.induct)
  case (2 v vs n)
  then show ?case
    by (auto simp: length_iov_bytes split: prod.splits)
qed simp

lemma iov_copy_loop_spec:
  assumes "\<forall>v \<in> set vs. wf_iov v" "0 < bytes"
  shows "case iov_copy_loop vs bytes dst n of (k, d) \<Rightarrow>
    (\<exists>new. d = dst @ new \<and> iovs_bytes (load m) new = take bytes (iovs_bytes (load m) vs) \<and>
      k = n + length new + (if bytes \<le> iovs_total vs then 0 else 1))"
  using assms
proof (induction vs bytes dst n rule: iov_copy_loop.induct)
  case (2 v vs bytes dst n)
  have l: "length (iov_bytes (load m) v) = iov_len v" using 2 by (simp add: length_iov_bytes)
  show ?case
  proof (cases "bytes \<le> iov_len v")
    case True
    then show ?thesis
      using 2 l iov_bytes_split(1)[of v bytes m] by (auto simp: Let_def min_def)
  next
    case False
    have IH: "case iov_copy_loop vs (bytes - iov_len v) (dst @ [v]) (n + 1) of (k, d) \<Rightarrow>
      \<exists>new. d = (dst @ [v]) @ new \<and>
        iovs_bytes (load m) new = take (bytes - iov_len v) (iovs_bytes (load m) vs) \<and>
        k = n + 1 + length new + (if bytes - iov_len v \<le> iovs_total vs then 0 else 1)"
      using "2.IH"[OF refl refl] "2.prems" False by (simp add: min_def)
    show ?thesis
      using False IH l by (auto simp: Let_def min_def split: prod.splits)
  qed
qed simp

lemma iov_copy_range:
  assumes "\<forall>v \<in> set vs. wf_iov v" "vs \<noteq> []" "0 < n" "offset + n \<le> iovs_total vs"
  shows "\<exists>d. roce_iov_copy vs offset n = Inr (length d, d) \<and>
    iovs_bytes (load m) d = take n (drop offset (iovs_bytes (load m) vs))"
proof -
  obtain us off where sk: "iov_skip vs offset = (us, off)" by (cases "iov_skip vs offset")
  note spec = iov_skip_spec[OF assms(1), of offset m, unfolded sk, simplified]
  from spec assms(3,4) obtain u us' where us: "us = u # us'" by (cases us) auto
  with spec have u: "wf_iov u" "\<forall>v \<in> set us'. wf_iov v" "off < iov_len u"
    and tot: "iov_len u + iovs_total us' - off = iovs_total vs - offset"
    and bytes: "drop off (iov_bytes (load m) u @ iovs_bytes (load m) us') =
      drop offset (iovs_bytes (load m) vs)"
    by simp_all
  define e where "e = \<lparr>iov_base = iov_offset u off, iov_len = iov_len u - off\<rparr>"
  have e: "wf_iov e" "iov_len e = iov_len u - off"
    "iov_bytes (load m) e = drop off (iov_bytes (load m) u)"
    using u wf_iov_offset[of u off] iov_bytes_split(2)[of u off m] by (simp_all add: e_def)
  have le: "length (iov_bytes (load m) e) = iov_len e" using length_iov_bytes[OF e(1), of m] .
  have src: "drop offset (iovs_bytes (load m) vs) = iov_bytes (load m) e @ iovs_bytes (load m) us'"
    using bytes e length_iov_bytes[OF u(1), of m] u(3) by simp
  define d where "d = e\<lparr>iov_len := min (iov_len e) n\<rparr>"
  have d: "d = \<lparr>iov_base = iov_offset u off, iov_len = min (iov_len u - off) n\<rparr>"
    "iov_bytes (load m) d = take n (iov_bytes (load m) e)"
    using iov_bytes_split(1)[OF e(1), of "min (iov_len e) n" m] le
    by (simp_all add: d_def e_def min_def)
  show ?thesis
  proof (cases "n \<le> iov_len e")
    case True
    then have "roce_iov_copy vs offset n = Inr (1, [d])"
      using assms sk us d e by (simp add: roce_iov_copy_def Let_def)
    then show ?thesis using True d src le by (intro exI[of _ "[d]"]) simp
  next
    case False
    obtain k ds where r: "iov_copy_loop us' (n - iov_len e) [d] 1 = (k, ds)"
      by (cases "iov_copy_loop us' (n - iov_len e) [d] 1")
    have "n - iov_len e \<le> iovs_total us'" using tot assms(4) e u False by linarith
    with iov_copy_loop_spec[OF u(2), where bytes = "n - iov_len e" and dst = "[d]" and n = 1 and m = m] r False
    have ds: "k = length ds"
      "iovs_bytes (load m) ds = iov_bytes (load m) d @ take (n - iov_len e) (iovs_bytes (load m) us')"
      by auto
    have "roce_iov_copy vs offset n = Inr (k, ds)"
      using assms sk us d e r False by (simp add: roce_iov_copy_def Let_def min_def)
    then show ?thesis using ds d src le False by (intro exI[of _ ds]) simp
  qed
qed

lemma iov_copy_loop_wf:
  "\<forall>v \<in> set vs. wf_iov v \<Longrightarrow> \<forall>v \<in> set dst. wf_iov v \<Longrightarrow>
   \<forall>v \<in> set (snd (iov_copy_loop vs bytes dst m)). wf_iov v"
proof (induction vs arbitrary: bytes dst m)
  case (Cons v vs)
  let ?d = "v\<lparr>iov_len := min (iov_len v) bytes\<rparr>"
  have "wf_iov ?d" using Cons.prems(1) by (simp add: wf_iov_shorter)
  moreover from this have "\<forall>v \<in> set (dst @ [?d]). wf_iov v" using Cons.prems(2) by simp
  note Cons.IH[OF _ this]
  ultimately show ?case using Cons.prems by (simp add: Let_def wf_iov_shorter)
qed simp

lemma iov_copy_wf:
  assumes "\<forall>v \<in> set vs. wf_iov v" "roce_iov_copy vs a n = Inr (k, d)"
  shows "\<forall>v \<in> set d. wf_iov v"
proof -
  obtain us off where sk: "iov_skip vs a = (us, off)" by (cases "iov_skip vs a")
  have us: "\<forall>v \<in> set us. wf_iov v"
    using iov_skip_spec[OF assms(1), of a "\<lambda>_. 0"] unfolding sk by simp
  show ?thesis
  proof (cases us)
    case Nil
    then show ?thesis using assms(2) sk by (auto simp: roce_iov_copy_def bindR_eq_Inr split: if_splits)
  next
    case (Cons u us')
    define e where "e = \<lparr>iov_base = iov_offset u off, iov_len = min (iov_len u - off) n\<rparr>"
    have e: "wf_iov e" using us Cons by (auto simp: e_def wf_iov_def iov_offset_def)
    have "roce_iov_copy vs a n = (if vs = [] then Inl Assert_failed else if n = 0 then Inr (0, [])
        else if n - iov_len e = 0 then Inr (1, [e]) else Inr (iov_copy_loop us' (n - iov_len e) [e] 1))"
      by (simp add: roce_iov_copy_def sk Cons Let_def e_def assertR_def)
    then consider "d = []" | "d = [e]" | "iov_copy_loop us' (n - iov_len e) [e] 1 = (k, d)"
      using assms(2) by (auto split: if_splits)
    then show ?thesis
    proof cases
      case 3
      have "\<forall>v \<in> set (snd (iov_copy_loop us' (n - iov_len e) [e] 1)). wf_iov v"
        using us e unfolding Cons by (intro iov_copy_loop_wf) simp_all
      then show ?thesis unfolding 3 by simp
    qed (use e in simp_all)
  qed
qed

text \<open>How many vectors a range of equal pages takes.\<close>

lemma iov_copy_loop_count:
  assumes "\<forall>v \<in> set vs. iov_len v = P" "0 < P" "0 < bytes" "bytes \<le> length vs * P"
  shows "fst (iov_copy_loop vs bytes dst m) = m + (bytes + P - 1) div P"
  using assms
proof (induction vs bytes dst m rule: iov_copy_loop.induct)
  case (2 v vs bytes dst m)
  have one: "(bytes + P - 1) div P = 1" if "bytes \<le> P"
    using that 2(3,4) by (intro div_nat_eqI) auto
  have more: "(bytes + P - 1) div P = Suc ((bytes - P + P - 1) div P)" if "P < bytes"
    using that 2(3) div_add_self2[of P "bytes - 1"] by simp
  show ?case
  proof (cases "bytes \<le> P")
    case False
    then show ?thesis
      using 2(1)[OF refl refl] 2 more by (simp add: min_def)
  qed (use 2 one in \<open>simp add: min_def\<close>)
qed simp

lemma iov_copy_count:
  assumes "\<forall>v \<in> set vs. iov_len v = P" "a < P" "0 < n" "a + n \<le> length vs * P"
    "roce_iov_copy vs a n = Inr (k, d)"
  shows "k = (a + n + P - 1) div P"
proof -
  obtain v us where vs: "vs = v # us" using assms(2-4) by (cases vs) auto
  have skip: "iov_skip vs a = (v # us, a)" using assms(1,2) vs by simp
  show ?thesis
  proof (cases "n \<le> P - a")
    case True
    then have "(a + n + P - 1) div P = 1" using assms(2,3) by (intro div_nat_eqI) auto
    then show ?thesis using True assms skip vs by (simp add: roce_iov_copy_def Let_def)
  next
    case False
    define r where "r = n - (P - a)"
    have "fst (iov_copy_loop us r dst 1) = 1 + (r + P - 1) div P" for dst
      using False assms(1,2,4) vs by (intro iov_copy_loop_count) (auto simp: r_def)
    moreover have "(a + n + P - 1) div P = 1 + (r + P - 1) div P"
    proof -
      have "a + n + P - 1 = (r + P - 1) + P" using False assms(2) by (simp add: r_def)
      then have "(a + n + P - 1) div P = ((r + P - 1) + P) div P" by (simp only:)
      also have "\<dots> = (r + P - 1) div P + 1" using assms(2) by (intro div_add_self2) simp
      finally show ?thesis by simp
    qed
    ultimately show ?thesis
      using False assms skip vs by (auto simp: roce_iov_copy_def Let_def min_def r_def dest: arg_cong[of _ _ fst])
  qed
qed

subsection \<open>Properties\<close>

text \<open>Describing a range copies nothing and loses nothing: for a source that holds the whole
  range, \<open>roce_iov_copy\<close> returns as many entries as it wrote, and the bytes they stand for are
  exactly the \<open>n\<close> bytes from \<open>offset\<close> on.\<close>

theorem roce_iov_copy_range:
  assumes "\<forall>v \<in> set vs. wf_iov v" "vs \<noteq> []" "0 < n" "offset + n \<le> iovs_total vs"
  shows "\<exists>d. roce_iov_copy vs offset n = Inr (length d, d) \<and>
    iovs_bytes (load m) d = take n (drop offset (iovs_bytes (load m) vs))"
  using assms by (rule iov_copy_range)

definition sample_iovs :: "iov list" where
  "sample_iovs = [\<lparr>iov_base = Some 16, iov_len = 2\<rparr>, null_iov, \<lparr>iov_base = Some 64, iov_len = 4\<rparr>]"

lemma roce_iov_copy_range_witness:
  "\<exists>d. roce_iov_copy sample_iovs 1 3 = Inr (length d, d) \<and> iovs_bytes (load ucast) d = [17, 64, 65]"
  using roce_iov_copy_range[of sample_iovs 3 1 ucast]
  by (simp add: sample_iovs_def wf_iov_def iov_bytes_def load_def upt_rec)

text \<open>\<open>roce_iov_advance\<close> takes the first \<open>n\<close> bytes (or all there are) off the vector: it returns
  how many, what it copied is exactly these bytes, and what is left is exactly the rest.\<close>

theorem roce_iov_advance_take_drop:
  assumes "\<forall>v \<in> set vs. wf_iov v" "vs \<noteq> []"
  shows "\<exists>srcs vs'. roce_iov_advance vs n = Inr (min n (iovs_total vs), srcs, vs') \<and>
    gather m srcs = take n (iovs_bytes (load m) vs) \<and>
    iovs_bytes (load m) vs' = drop n (iovs_bytes (load m) vs)"
  using roce_iov_advance_run[OF assms] by blast

lemma roce_iov_advance_take_drop_witness:
  "\<exists>srcs vs'. roce_iov_advance sample_iovs 3 = Inr (3, srcs, vs') \<and> gather ucast srcs = [16, 17, 64]"
  using roce_iov_advance_take_drop[of sample_iovs 3 ucast]
  by (force simp: sample_iovs_def wf_iov_def iov_bytes_def load_def upt_rec)

text \<open>\<open>roce_iov_reverse\<close> takes the last \<open>n\<close> bytes off the vector: what it copied is these bytes
  in their order, and what is left is all the bytes before them.\<close>

theorem roce_iov_reverse_take_drop:
  assumes "\<forall>v \<in> set vs. wf_iov v" "vs \<noteq> []"
  shows "\<exists>srcs vs'. roce_iov_reverse vs n = Inr (min n (iovs_total vs), srcs, vs') \<and>
    gather m srcs = take_last n (iovs_bytes (load m) vs) \<and>
    iovs_bytes (load m) vs' = drop_last n (iovs_bytes (load m) vs)"
  using roce_iov_reverse_run[OF assms] by blast

lemma roce_iov_reverse_take_drop_witness:
  "\<exists>srcs vs'. roce_iov_reverse sample_iovs 5 = Inr (5, srcs, vs') \<and> iovs_bytes (load ucast) vs' = [16]"
  using roce_iov_reverse_take_drop[of sample_iovs 5 ucast]
  by (force simp: sample_iovs_def wf_iov_def iov_bytes_def load_def upt_rec drop_last_def)

end
