(* ===== verification/Ib_Spec.thy ===== *)
theory Ib_Spec
  imports Prelude
begin

text \<open>
  The InfiniBand transport headers of \<open>include/spec/ib-spec.h\<close>: one record per packed C
  structure, holding the integers as they lie in memory (in network byte order), one definition
  per getter and setter, and the byte image of each structure. The lemmas show that a getter
  returns what its setter stored, that a setter leaves every other field alone, and that the byte
  images decode to the structure they came from.
\<close>

subsection \<open>Base transport header\<close>

abbreviation (input) IB_BTH_SIZE :: nat where "IB_BTH_SIZE \<equiv> 12"

abbreviation (input) IB_OPCODE_RC :: u8 where "IB_OPCODE_RC \<equiv> 0"
abbreviation (input) IB_OPCODE_UC :: u8 where "IB_OPCODE_UC \<equiv> 1"
abbreviation (input) IB_OPCODE_RD :: u8 where "IB_OPCODE_RD \<equiv> 2"
abbreviation (input) IB_OPCODE_UD :: u8 where "IB_OPCODE_UD \<equiv> 3"

definition IB_OPCODE_MASK :: u8 where "IB_OPCODE_MASK = 0x1f"

abbreviation (input) IB_OPCODE_SEND_FIRST :: u8 where "IB_OPCODE_SEND_FIRST \<equiv> 0x00"
abbreviation (input) IB_OPCODE_SEND_MIDDLE :: u8 where "IB_OPCODE_SEND_MIDDLE \<equiv> 0x01"
abbreviation (input) IB_OPCODE_SEND_LAST :: u8 where "IB_OPCODE_SEND_LAST \<equiv> 0x02"
abbreviation (input) IB_OPCODE_SEND_LAST_WITH_IMMEDIATE :: u8 where
  "IB_OPCODE_SEND_LAST_WITH_IMMEDIATE \<equiv> 0x03"
abbreviation (input) IB_OPCODE_SEND_ONLY :: u8 where "IB_OPCODE_SEND_ONLY \<equiv> 0x04"
abbreviation (input) IB_OPCODE_SEND_ONLY_WITH_IMMEDIATE :: u8 where
  "IB_OPCODE_SEND_ONLY_WITH_IMMEDIATE \<equiv> 0x05"
abbreviation (input) IB_OPCODE_RDMA_WRITE_FIRST :: u8 where
  "IB_OPCODE_RDMA_WRITE_FIRST \<equiv> 0x06"
abbreviation (input) IB_OPCODE_RDMA_WRITE_MIDDLE :: u8 where
  "IB_OPCODE_RDMA_WRITE_MIDDLE \<equiv> 0x07"
abbreviation (input) IB_OPCODE_RDMA_WRITE_LAST :: u8 where
  "IB_OPCODE_RDMA_WRITE_LAST \<equiv> 0x08"
abbreviation (input) IB_OPCODE_RDMA_WRITE_LAST_WITH_IMMEDIATE :: u8 where
  "IB_OPCODE_RDMA_WRITE_LAST_WITH_IMMEDIATE \<equiv> 0x09"
abbreviation (input) IB_OPCODE_RDMA_WRITE_ONLY :: u8 where
  "IB_OPCODE_RDMA_WRITE_ONLY \<equiv> 0x0a"
abbreviation (input) IB_OPCODE_RDMA_WRITE_ONLY_WITH_IMMEDIATE :: u8 where
  "IB_OPCODE_RDMA_WRITE_ONLY_WITH_IMMEDIATE \<equiv> 0x0b"
abbreviation (input) IB_OPCODE_ACKNOWLEDGE :: u8 where "IB_OPCODE_ACKNOWLEDGE \<equiv> 0x11"
abbreviation (input) IB_OPCODE_SEND_LAST_WITH_INVALIDATE :: u8 where
  "IB_OPCODE_SEND_LAST_WITH_INVALIDATE \<equiv> 0x16"
abbreviation (input) IB_OPCODE_SEND_ONLY_WITH_INVALIDATE :: u8 where
  "IB_OPCODE_SEND_ONLY_WITH_INVALIDATE \<equiv> 0x17"

definition IB_BTH_SE_MASK :: u8 where "IB_BTH_SE_MASK = 0x80"
definition IB_BTH_MIG_MASK :: u8 where "IB_BTH_MIG_MASK = 0x40"
definition IB_BTH_PADCNT_MASK :: u8 where "IB_BTH_PADCNT_MASK = 0x30"
definition IB_BTH_TVER_MASK :: u8 where "IB_BTH_TVER_MASK = 0x0f"
definition IB_BTH_FECN_MASK :: u32 where "IB_BTH_FECN_MASK = 0x80000000"
definition IB_BTH_BECN_MASK :: u32 where "IB_BTH_BECN_MASK = 0x40000000"
definition IB_BTH_RESV1_MASK :: u32 where "IB_BTH_RESV1_MASK = 0x3f000000"
definition IB_BTH_DESTQP_MASK :: u32 where "IB_BTH_DESTQP_MASK = 0x00ffffff"
definition IB_BTH_ACK_MASK :: u32 where "IB_BTH_ACK_MASK = 0x80000000"
definition IB_BTH_RESV2_MASK :: u32 where "IB_BTH_RESV2_MASK = 0x7f000000"
definition IB_BTH_PSN_MASK :: u32 where "IB_BTH_PSN_MASK = 0x00ffffff"

record ib_bth =
  bth_opcode :: u8
  bth_flags :: u8
  bth_pkey :: u16
  bth_u32_1 :: u32
  bth_u32_2 :: u32

definition ib_bth_get_qp_type :: "ib_bth \<Rightarrow> u8" where
  "ib_bth_get_qp_type bth = drop_bit 5 (bth_opcode bth)"

definition ib_bth_get_opcode :: "ib_bth \<Rightarrow> u8" where
  "ib_bth_get_opcode bth = IB_OPCODE_MASK AND bth_opcode bth"

definition ib_bth_set_opcode :: "ib_bth \<Rightarrow> u8 \<Rightarrow> u8 \<Rightarrow> ib_bth" where
  "ib_bth_set_opcode bth qp_type opcode = bth\<lparr>bth_opcode := push_bit 5 qp_type OR opcode\<rparr>"

definition ib_bth_get_se :: "ib_bth \<Rightarrow> bool" where
  "ib_bth_get_se bth \<longleftrightarrow> IB_BTH_SE_MASK AND bth_flags bth \<noteq> 0"

definition ib_bth_set_se :: "ib_bth \<Rightarrow> bool \<Rightarrow> ib_bth" where
  "ib_bth_set_se bth se = bth\<lparr>bth_flags :=
     (if se then bth_flags bth OR IB_BTH_SE_MASK else bth_flags bth AND NOT IB_BTH_SE_MASK)\<rparr>"

definition ib_bth_get_mig :: "ib_bth \<Rightarrow> bool" where
  "ib_bth_get_mig bth \<longleftrightarrow> IB_BTH_MIG_MASK AND bth_flags bth \<noteq> 0"

definition ib_bth_set_mig :: "ib_bth \<Rightarrow> bool \<Rightarrow> ib_bth" where
  "ib_bth_set_mig bth mig = bth\<lparr>bth_flags :=
     (if mig then bth_flags bth OR IB_BTH_MIG_MASK else bth_flags bth AND NOT IB_BTH_MIG_MASK)\<rparr>"

definition ib_bth_get_padcnt :: "ib_bth \<Rightarrow> u8" where
  "ib_bth_get_padcnt bth = drop_bit 4 (IB_BTH_PADCNT_MASK AND bth_flags bth)"

definition ib_bth_set_padcnt :: "ib_bth \<Rightarrow> u8 \<Rightarrow> ib_bth" where
  "ib_bth_set_padcnt bth padcnt = bth\<lparr>bth_flags :=
     (IB_BTH_PADCNT_MASK AND push_bit 4 padcnt) OR (NOT IB_BTH_PADCNT_MASK AND bth_flags bth)\<rparr>"

definition ib_bth_get_tver :: "ib_bth \<Rightarrow> u8" where
  "ib_bth_get_tver bth = IB_BTH_TVER_MASK AND bth_flags bth"

definition ib_bth_set_tver :: "ib_bth \<Rightarrow> u8 \<Rightarrow> ib_bth" where
  "ib_bth_set_tver bth tver = bth\<lparr>bth_flags :=
     (IB_BTH_TVER_MASK AND tver) OR (NOT IB_BTH_TVER_MASK AND bth_flags bth)\<rparr>"

definition ib_bth_get_pkey :: "ib_bth \<Rightarrow> u16" where
  "ib_bth_get_pkey bth = be16toh (bth_pkey bth)"

definition ib_bth_set_pkey :: "ib_bth \<Rightarrow> u16 \<Rightarrow> ib_bth" where
  "ib_bth_set_pkey bth pkey = bth\<lparr>bth_pkey := htobe16 pkey\<rparr>"

definition ib_bth_get_fecn :: "ib_bth \<Rightarrow> bool" where
  "ib_bth_get_fecn bth \<longleftrightarrow> IB_BTH_FECN_MASK AND be32toh (bth_u32_1 bth) \<noteq> 0"

definition ib_bth_set_fecn :: "ib_bth \<Rightarrow> bool \<Rightarrow> ib_bth" where
  "ib_bth_set_fecn bth fecn = bth\<lparr>bth_u32_1 :=
     (if fecn then bth_u32_1 bth OR htobe32 IB_BTH_FECN_MASK
      else bth_u32_1 bth AND NOT (htobe32 IB_BTH_FECN_MASK))\<rparr>"

definition ib_bth_get_becn :: "ib_bth \<Rightarrow> bool" where
  "ib_bth_get_becn bth \<longleftrightarrow> IB_BTH_BECN_MASK AND be32toh (bth_u32_1 bth) \<noteq> 0"

definition ib_bth_set_becn :: "ib_bth \<Rightarrow> bool \<Rightarrow> ib_bth" where
  "ib_bth_set_becn bth becn = bth\<lparr>bth_u32_1 :=
     (if becn then bth_u32_1 bth OR htobe32 IB_BTH_BECN_MASK
      else bth_u32_1 bth AND NOT (htobe32 IB_BTH_BECN_MASK))\<rparr>"

definition ib_bth_clear_resv1 :: "ib_bth \<Rightarrow> ib_bth" where
  "ib_bth_clear_resv1 bth = bth\<lparr>bth_u32_1 := bth_u32_1 bth AND htobe32 (NOT IB_BTH_RESV1_MASK)\<rparr>"

definition ib_bth_get_destqp :: "ib_bth \<Rightarrow> u32" where
  "ib_bth_get_destqp bth = IB_BTH_DESTQP_MASK AND be32toh (bth_u32_1 bth)"

definition ib_bth_set_destqp :: "ib_bth \<Rightarrow> u32 \<Rightarrow> ib_bth" where
  "ib_bth_set_destqp bth destqp =
     (let u32_1 = be32toh (bth_u32_1 bth) in
      bth\<lparr>bth_u32_1 := htobe32 ((IB_BTH_DESTQP_MASK AND destqp) OR (NOT IB_BTH_DESTQP_MASK AND u32_1))\<rparr>)"

definition ib_bth_get_ack :: "ib_bth \<Rightarrow> bool" where
  "ib_bth_get_ack bth \<longleftrightarrow> IB_BTH_ACK_MASK AND be32toh (bth_u32_2 bth) \<noteq> 0"

definition ib_bth_set_ack :: "ib_bth \<Rightarrow> bool \<Rightarrow> ib_bth" where
  "ib_bth_set_ack bth ack = bth\<lparr>bth_u32_2 :=
     (if ack then bth_u32_2 bth OR htobe32 IB_BTH_ACK_MASK
      else bth_u32_2 bth AND NOT (htobe32 IB_BTH_ACK_MASK))\<rparr>"

definition ib_bth_clear_resv2 :: "ib_bth \<Rightarrow> ib_bth" where
  "ib_bth_clear_resv2 bth = bth\<lparr>bth_u32_2 := bth_u32_2 bth AND htobe32 (NOT IB_BTH_RESV2_MASK)\<rparr>"

definition ib_bth_get_psn :: "ib_bth \<Rightarrow> u32" where
  "ib_bth_get_psn bth = IB_BTH_PSN_MASK AND be32toh (bth_u32_2 bth)"

definition ib_bth_set_psn :: "ib_bth \<Rightarrow> u32 \<Rightarrow> ib_bth" where
  "ib_bth_set_psn bth psn =
     (let u32_2 = be32toh (bth_u32_2 bth) in
      bth\<lparr>bth_u32_2 := htobe32 ((IB_BTH_PSN_MASK AND psn) OR (NOT IB_BTH_PSN_MASK AND u32_2))\<rparr>)"

text \<open>A zeroed header, as \<open>calloc\<close> leaves it, and the twelve bytes of a header in memory.\<close>

definition ib_bth_zero :: ib_bth where
  "ib_bth_zero = \<lparr>bth_opcode = 0, bth_flags = 0, bth_pkey = 0, bth_u32_1 = 0, bth_u32_2 = 0\<rparr>"

definition ib_bth_bytes :: "ib_bth \<Rightarrow> u8 list" where
  "ib_bth_bytes bth = [bth_opcode bth, bth_flags bth] @ le_bytes 2 (bth_pkey bth)
     @ le_bytes 4 (bth_u32_1 bth) @ le_bytes 4 (bth_u32_2 bth)"

definition ib_bth_of_bytes :: "u8 list \<Rightarrow> ib_bth" where
  "ib_bth_of_bytes bs = \<lparr>bth_opcode = bs ! 0, bth_flags = bs ! 1,
     bth_pkey = le_word (take 2 (drop 2 bs)), bth_u32_1 = le_word (take 4 (drop 4 bs)),
     bth_u32_2 = le_word (take 4 (drop 8 bs))\<rparr>"

subsection \<open>Extended transport headers\<close>

definition IB_RDETH_EECNXT_MASK :: u32 where "IB_RDETH_EECNXT_MASK = 0x00ffffff"

record ib_rdeth =
  rdeth_u32_0 :: u32

definition ib_rdeth_get_eecnxt :: "ib_rdeth \<Rightarrow> u32" where
  "ib_rdeth_get_eecnxt rdeth = IB_RDETH_EECNXT_MASK AND be32toh (rdeth_u32_0 rdeth)"

definition ib_rdeth_set_eecnxt :: "ib_rdeth \<Rightarrow> u32 \<Rightarrow> ib_rdeth" where
  "ib_rdeth_set_eecnxt rdeth eecnxt =
     rdeth\<lparr>rdeth_u32_0 := htobe32 (IB_RDETH_EECNXT_MASK AND eecnxt)\<rparr>"

abbreviation (input) IB_DETH_SIZE :: nat where "IB_DETH_SIZE \<equiv> 8"
definition IB_DETH_SRCQP_MASK :: u32 where "IB_DETH_SRCQP_MASK = 0x00ffffff"

record ib_deth =
  deth_qkey :: u32
  deth_u32_1 :: u32

definition ib_deth_get_qkey :: "ib_deth \<Rightarrow> u32" where
  "ib_deth_get_qkey deth = be32toh (deth_qkey deth)"

definition ib_deth_set_qkey :: "ib_deth \<Rightarrow> u32 \<Rightarrow> ib_deth" where
  "ib_deth_set_qkey deth qkey = deth\<lparr>deth_qkey := htobe32 qkey\<rparr>"

definition ib_deth_get_srcqp :: "ib_deth \<Rightarrow> u32" where
  "ib_deth_get_srcqp deth = IB_DETH_SRCQP_MASK AND be32toh (deth_u32_1 deth)"

definition ib_deth_set_srcqp :: "ib_deth \<Rightarrow> u32 \<Rightarrow> ib_deth" where
  "ib_deth_set_srcqp deth srcqp = deth\<lparr>deth_u32_1 := be32toh (srcqp AND IB_DETH_SRCQP_MASK)\<rparr>"

abbreviation (input) IB_RETH_SIZE :: nat where "IB_RETH_SIZE \<equiv> 16"

record ib_reth =
  reth_va :: u64
  reth_rkey :: u32
  reth_dmalen :: u32

definition ib_reth_get_va :: "ib_reth \<Rightarrow> u64" where
  "ib_reth_get_va reth = be64toh (reth_va reth)"

definition ib_reth_set_va :: "ib_reth \<Rightarrow> u64 \<Rightarrow> ib_reth" where
  "ib_reth_set_va reth va = reth\<lparr>reth_va := htobe64 va\<rparr>"

definition ib_reth_get_rkey :: "ib_reth \<Rightarrow> u32" where
  "ib_reth_get_rkey reth = be32toh (reth_rkey reth)"

definition ib_reth_set_rkey :: "ib_reth \<Rightarrow> u32 \<Rightarrow> ib_reth" where
  "ib_reth_set_rkey reth rkey = reth\<lparr>reth_rkey := htobe32 rkey\<rparr>"

definition ib_reth_get_dmalen :: "ib_reth \<Rightarrow> u32" where
  "ib_reth_get_dmalen reth = be32toh (reth_dmalen reth)"

definition ib_reth_set_dmalen :: "ib_reth \<Rightarrow> u32 \<Rightarrow> ib_reth" where
  "ib_reth_set_dmalen reth dmalen = reth\<lparr>reth_dmalen := htobe32 dmalen\<rparr>"

record ib_atomiceth =
  atomiceth_va :: u64
  atomiceth_rkey :: u32
  atomiceth_swapdt :: u64
  atomiceth_cmpdt :: u64

definition ib_atomiceth_get_va :: "ib_atomiceth \<Rightarrow> u64" where
  "ib_atomiceth_get_va h = be64toh (atomiceth_va h)"

definition ib_atomiceth_set_va :: "ib_atomiceth \<Rightarrow> u64 \<Rightarrow> ib_atomiceth" where
  "ib_atomiceth_set_va h va = h\<lparr>atomiceth_va := htobe64 va\<rparr>"

definition ib_atomiceth_get_rkey :: "ib_atomiceth \<Rightarrow> u32" where
  "ib_atomiceth_get_rkey h = be32toh (atomiceth_rkey h)"

text \<open>The C setter casts to \<open>ib_reth\<close>, whose \<open>rkey\<close> lies at the same offset.\<close>

definition ib_atomiceth_set_rkey :: "ib_atomiceth \<Rightarrow> u32 \<Rightarrow> ib_atomiceth" where
  "ib_atomiceth_set_rkey h rkey = h\<lparr>atomiceth_rkey := htobe32 rkey\<rparr>"

definition ib_atomiceth_get_swapdt :: "ib_atomiceth \<Rightarrow> u64" where
  "ib_atomiceth_get_swapdt h = be64toh (atomiceth_swapdt h)"

definition ib_atomiceth_set_swapdt :: "ib_atomiceth \<Rightarrow> u64 \<Rightarrow> ib_atomiceth" where
  "ib_atomiceth_set_swapdt h swapdt = h\<lparr>atomiceth_swapdt := htobe64 swapdt\<rparr>"

definition ib_atomiceth_get_cmpdt :: "ib_atomiceth \<Rightarrow> u64" where
  "ib_atomiceth_get_cmpdt h = be64toh (atomiceth_cmpdt h)"

definition ib_atomiceth_set_cmpdt :: "ib_atomiceth \<Rightarrow> u64 \<Rightarrow> ib_atomiceth" where
  "ib_atomiceth_set_cmpdt h cmpdt = h\<lparr>atomiceth_cmpdt := htobe64 cmpdt\<rparr>"

definition IB_XRCETH_XRCSRQ_MASK :: u32 where "IB_XRCETH_XRCSRQ_MASK = 0x00ffffff"

record ib_xrceth =
  xrceth_u32_0 :: u32

definition ib_xrceth_get_xrcsrq :: "ib_xrceth \<Rightarrow> u32" where
  "ib_xrceth_get_xrcsrq h = IB_XRCETH_XRCSRQ_MASK AND be32toh (xrceth_u32_0 h)"

definition ib_xrceth_set_xrcsrq :: "ib_xrceth \<Rightarrow> u32 \<Rightarrow> ib_xrceth" where
  "ib_xrceth_set_xrcsrq h xrcsrq = h\<lparr>xrceth_u32_0 := htobe32 (IB_XRCETH_XRCSRQ_MASK AND xrcsrq)\<rparr>"

subsection \<open>Acknowledge header\<close>

abbreviation (input) IB_AETH_SIZE :: nat where "IB_AETH_SIZE \<equiv> 4"
definition IB_AETH_SYNDROME_MASK :: u32 where "IB_AETH_SYNDROME_MASK = 0xff000000"
definition IB_AETH_MSN_MASK :: u32 where "IB_AETH_MSN_MASK = 0x00ffffff"

record ib_aeth =
  aeth_u32_0 :: u32

datatype ib_aeth_syndrome_type =
    IB_AETH_SYNDROME_ACK | IB_AETH_SYNDROME_RNR_NAK | IB_AETH_SYNDROME_RESERVED
  | IB_AETH_SYNDROME_NAK | IB_AETH_SYNDROME_MAX

text \<open>The enumerator's value, and the enumerator of a two-bit value.\<close>

primrec syndrome_code :: "ib_aeth_syndrome_type \<Rightarrow> u32" where
  "syndrome_code IB_AETH_SYNDROME_ACK = 0"
| "syndrome_code IB_AETH_SYNDROME_RNR_NAK = 1"
| "syndrome_code IB_AETH_SYNDROME_RESERVED = 2"
| "syndrome_code IB_AETH_SYNDROME_NAK = 3"
| "syndrome_code IB_AETH_SYNDROME_MAX = 4"

definition syndrome_of :: "u8 \<Rightarrow> ib_aeth_syndrome_type" where
  "syndrome_of v = (if v = 0 then IB_AETH_SYNDROME_ACK else if v = 1 then IB_AETH_SYNDROME_RNR_NAK
     else if v = 2 then IB_AETH_SYNDROME_RESERVED else IB_AETH_SYNDROME_NAK)"

abbreviation (input) IB_NAK_PSN_SEQUENCE_ERROR :: u8 where "IB_NAK_PSN_SEQUENCE_ERROR \<equiv> 0"
abbreviation (input) IB_NAK_INVALID_REQUEST :: u8 where "IB_NAK_INVALID_REQUEST \<equiv> 1"

definition ib_aeth_get_syndrome :: "ib_aeth \<Rightarrow> u8" where
  "ib_aeth_get_syndrome aeth =
     ucast (drop_bit 24 (IB_AETH_SYNDROME_MASK AND be32toh (aeth_u32_0 aeth)))"

definition ib_aeth_get_syndrome_type :: "ib_aeth \<Rightarrow> ib_aeth_syndrome_type" where
  "ib_aeth_get_syndrome_type aeth =
     (let val = ib_aeth_get_syndrome aeth in syndrome_of (drop_bit 5 val AND 0x3))"

definition ib_aeth_get_syndrome_val :: "ib_aeth \<Rightarrow> u8" where
  "ib_aeth_get_syndrome_val aeth = (let val = ib_aeth_get_syndrome aeth in val AND 0x1f)"

definition ib_aeth_set_syndrome :: "ib_aeth \<Rightarrow> ib_aeth_syndrome_type \<Rightarrow> u8 \<Rightarrow> ib_aeth" where
  "ib_aeth_set_syndrome aeth type val =
     (let u32_0 = be32toh (aeth_u32_0 aeth);
          syndrome = push_bit 24 (push_bit 5 (syndrome_code type AND 3) OR (ucast val AND 0x1f))
      in aeth\<lparr>aeth_u32_0 := htobe32 ((IB_AETH_SYNDROME_MASK AND syndrome)
           OR (NOT IB_AETH_SYNDROME_MASK AND u32_0))\<rparr>)"

definition ib_aeth_get_msn :: "ib_aeth \<Rightarrow> u32" where
  "ib_aeth_get_msn aeth = IB_AETH_MSN_MASK AND be32toh (aeth_u32_0 aeth)"

definition ib_aeth_set_msn :: "ib_aeth \<Rightarrow> u32 \<Rightarrow> ib_aeth" where
  "ib_aeth_set_msn aeth msn =
     (let u32_0 = be32toh (aeth_u32_0 aeth) in
      aeth\<lparr>aeth_u32_0 := htobe32 ((IB_AETH_MSN_MASK AND msn) OR (NOT IB_AETH_MSN_MASK AND u32_0))\<rparr>)"

definition ib_aeth_set :: "ib_aeth \<Rightarrow> ib_aeth_syndrome_type \<Rightarrow> u8 \<Rightarrow> u32 \<Rightarrow> ib_aeth" where
  "ib_aeth_set aeth type val msn =
     (let aeth1 = aeth\<lparr>aeth_u32_0 :=
            push_bit 24 (push_bit 5 (syndrome_code type AND 3) OR (ucast val AND 0x1f))\<rparr>;
          aeth2 = aeth1\<lparr>aeth_u32_0 := aeth_u32_0 aeth1 OR (IB_AETH_MSN_MASK AND msn)\<rparr>
      in aeth2\<lparr>aeth_u32_0 := htobe32 (aeth_u32_0 aeth2)\<rparr>)"

subsection \<open>Atomic acknowledge, immediate and invalidate headers\<close>

record ib_atomicacketh =
  atomicacketh_origmemdt :: u64

definition ib_atomicacketh_get_origmemdt :: "ib_atomicacketh \<Rightarrow> u64" where
  "ib_atomicacketh_get_origmemdt h = be64toh (atomicacketh_origmemdt h)"

definition ib_atomicacketh_set_origmemdt :: "ib_atomicacketh \<Rightarrow> u64 \<Rightarrow> ib_atomicacketh" where
  "ib_atomicacketh_set_origmemdt h origmemdt = h\<lparr>atomicacketh_origmemdt := htobe64 origmemdt\<rparr>"

abbreviation (input) IB_IMMDT_SIZE :: nat where "IB_IMMDT_SIZE \<equiv> 4"

record ib_immdt =
  immdt_immdt :: u32

text \<open>The immediate is big-endian already in the caller's work request, so it is not swapped.\<close>

definition ib_immdt_get_immdt :: "ib_immdt \<Rightarrow> u32" where
  "ib_immdt_get_immdt h = immdt_immdt h"

definition ib_immdt_set_immdt :: "ib_immdt \<Rightarrow> u32 \<Rightarrow> ib_immdt" where
  "ib_immdt_set_immdt h immdt = h\<lparr>immdt_immdt := immdt\<rparr>"

abbreviation (input) IB_IETH_SIZE :: nat where "IB_IETH_SIZE \<equiv> 4"

record ib_ieth =
  ieth_rkey :: u32

definition ib_ieth_get_rkey :: "ib_ieth \<Rightarrow> u32" where
  "ib_ieth_get_rkey h = be32toh (ieth_rkey h)"

definition ib_ieth_set_rkey :: "ib_ieth \<Rightarrow> u32 \<Rightarrow> ib_ieth" where
  "ib_ieth_set_rkey h rkey = h\<lparr>ieth_rkey := htobe32 rkey\<rparr>"

subsection \<open>Byte images of the extended headers\<close>

definition ib_deth_bytes :: "ib_deth \<Rightarrow> u8 list" where
  "ib_deth_bytes h = le_bytes 4 (deth_qkey h) @ le_bytes 4 (deth_u32_1 h)"

definition ib_deth_of_bytes :: "u8 list \<Rightarrow> ib_deth" where
  "ib_deth_of_bytes bs = \<lparr>deth_qkey = le_word (take 4 bs), deth_u32_1 = le_word (take 4 (drop 4 bs))\<rparr>"

definition ib_reth_bytes :: "ib_reth \<Rightarrow> u8 list" where
  "ib_reth_bytes h = le_bytes 8 (reth_va h) @ le_bytes 4 (reth_rkey h) @ le_bytes 4 (reth_dmalen h)"

definition ib_reth_of_bytes :: "u8 list \<Rightarrow> ib_reth" where
  "ib_reth_of_bytes bs = \<lparr>reth_va = le_word (take 8 bs), reth_rkey = le_word (take 4 (drop 8 bs)),
     reth_dmalen = le_word (take 4 (drop 12 bs))\<rparr>"

definition ib_aeth_bytes :: "ib_aeth \<Rightarrow> u8 list" where
  "ib_aeth_bytes h = le_bytes 4 (aeth_u32_0 h)"

definition ib_aeth_of_bytes :: "u8 list \<Rightarrow> ib_aeth" where
  "ib_aeth_of_bytes bs = \<lparr>aeth_u32_0 = le_word (take 4 bs)\<rparr>"

definition ib_immdt_bytes :: "ib_immdt \<Rightarrow> u8 list" where
  "ib_immdt_bytes h = le_bytes 4 (immdt_immdt h)"

definition ib_immdt_of_bytes :: "u8 list \<Rightarrow> ib_immdt" where
  "ib_immdt_of_bytes bs = \<lparr>immdt_immdt = le_word (take 4 bs)\<rparr>"

definition ib_ieth_bytes :: "ib_ieth \<Rightarrow> u8 list" where
  "ib_ieth_bytes h = le_bytes 4 (ieth_rkey h)"

definition ib_ieth_of_bytes :: "u8 list \<Rightarrow> ib_ieth" where
  "ib_ieth_of_bytes bs = \<lparr>ieth_rkey = le_word (take 4 bs)\<rparr>"

subsection \<open>Opcode names\<close>

definition ib_opcode_strs :: "string list" where
  "ib_opcode_strs = [''SEND-FIRST'', ''SEND-MIDDLE'', ''SEND-LAST'', ''SEND-LAST-WITH-IMMEDIATE'',
     ''SEND-ONLY'', ''SEND-ONLY-WITH-IMMEDIATE'', ''RDMA-WRITE-FIRST'', ''RDMA-WRITE-MIDDLE'',
     ''RDMA-WRITE-LAST'', ''RDMA-WRITE-LAST-WITH-IMMEDIATE'', ''RDMA-WRITE-ONLY'',
     ''RDMA-WRITE-ONLY-WITH-IMMEDIATE'', ''RDMA-READ-REQUEST'', ''RDMA-READ-RESPONSE-FIRST'',
     ''RDMA-READ-RESPONSE-MIDDLE'', ''RDMA-READ-RESPONSE-LAST'', ''RDMA-READ-RESPONSE-ONLY'',
     ''ACKNOWLEDGE'', ''ATOMIC-ACKNOWLEDGE'', ''COMPARE-SWAP'', ''FETCH-ADD'', ''RESYNC'',
     ''SEND-LAST-WITH-INVALIDATE'', ''SEND-ONLY-WITH-INVALIDATE'']"

definition ib_opcode_str :: "u8 \<Rightarrow> string run" where
  "ib_opcode_str opcode =
     (if unat opcode > length ib_opcode_strs then Inr ''UNKNOWN''
      else if unat opcode < length ib_opcode_strs then Inr (ib_opcode_strs ! unat opcode)
      else Inl Out_of_bounds)"

definition nak_strings :: "string list" where
  "nak_strings = [''PSN Sequence Error'', ''Invalid Request'', ''Remote Access Error'',
     ''Remote Operational Error'', ''Invalid RD Request'', ''Operation In Progress'']"

definition ib_nak_string :: "u8 \<Rightarrow> string run" where
  "ib_nak_string code =
     (if unat code < 6 then
        (if unat code < length nak_strings then Inr (nak_strings ! unat code) else Inl Out_of_bounds)
      else Inr ''Unknown NAK code'')"

subsection \<open>Masks\<close>

lemmas bth_masks = IB_OPCODE_MASK_def IB_BTH_SE_MASK_def IB_BTH_MIG_MASK_def
  IB_BTH_PADCNT_MASK_def IB_BTH_TVER_MASK_def IB_BTH_FECN_MASK_def IB_BTH_BECN_MASK_def
  IB_BTH_RESV1_MASK_def IB_BTH_DESTQP_MASK_def IB_BTH_ACK_MASK_def IB_BTH_RESV2_MASK_def
  IB_BTH_PSN_MASK_def IB_AETH_SYNDROME_MASK_def IB_AETH_MSN_MASK_def

lemma mask_flags [mask_simps]:
  "IB_BTH_SE_MASK AND IB_BTH_MIG_MASK = 0" "IB_BTH_MIG_MASK AND IB_BTH_SE_MASK = 0"
  "IB_BTH_SE_MASK AND IB_BTH_PADCNT_MASK = 0" "IB_BTH_PADCNT_MASK AND IB_BTH_SE_MASK = 0"
  "IB_BTH_SE_MASK AND IB_BTH_TVER_MASK = 0" "IB_BTH_TVER_MASK AND IB_BTH_SE_MASK = 0"
  "IB_BTH_MIG_MASK AND IB_BTH_PADCNT_MASK = 0" "IB_BTH_PADCNT_MASK AND IB_BTH_MIG_MASK = 0"
  "IB_BTH_MIG_MASK AND IB_BTH_TVER_MASK = 0" "IB_BTH_TVER_MASK AND IB_BTH_MIG_MASK = 0"
  "IB_BTH_PADCNT_MASK AND IB_BTH_TVER_MASK = 0" "IB_BTH_TVER_MASK AND IB_BTH_PADCNT_MASK = 0"
  "IB_BTH_SE_MASK \<noteq> 0" "IB_BTH_MIG_MASK \<noteq> 0"
  by (simp_all add: bth_masks)

lemma mask_u32 [mask_simps]:
  "IB_BTH_FECN_MASK AND IB_BTH_BECN_MASK = 0" "IB_BTH_BECN_MASK AND IB_BTH_FECN_MASK = 0"
  "IB_BTH_FECN_MASK AND IB_BTH_RESV1_MASK = 0" "IB_BTH_BECN_MASK AND IB_BTH_RESV1_MASK = 0"
  "IB_BTH_DESTQP_MASK AND IB_BTH_RESV1_MASK = 0"
  "IB_BTH_FECN_MASK AND IB_BTH_DESTQP_MASK = 0" "IB_BTH_DESTQP_MASK AND IB_BTH_FECN_MASK = 0"
  "IB_BTH_BECN_MASK AND IB_BTH_DESTQP_MASK = 0" "IB_BTH_DESTQP_MASK AND IB_BTH_BECN_MASK = 0"
  "IB_BTH_ACK_MASK AND IB_BTH_RESV2_MASK = 0" "IB_BTH_PSN_MASK AND IB_BTH_RESV2_MASK = 0"
  "IB_BTH_ACK_MASK AND IB_BTH_PSN_MASK = 0" "IB_BTH_PSN_MASK AND IB_BTH_ACK_MASK = 0"
  "IB_BTH_FECN_MASK \<noteq> 0" "IB_BTH_BECN_MASK \<noteq> 0" "IB_BTH_ACK_MASK \<noteq> 0"
  "IB_AETH_MSN_MASK AND IB_AETH_SYNDROME_MASK = 0" "IB_AETH_SYNDROME_MASK AND IB_AETH_MSN_MASK = 0"
  by (simp_all add: bth_masks)

text \<open>Storing under a mask: the field itself, and what a disjoint mask still sees.\<close>

lemma field_same [mask_simps]: "M AND (M AND d OR NOT M AND u) = M AND (d :: 'a::len word)"
  by (rule bit_word_eqI) (auto simp: bit_simps)

lemma field_other [mask_simps]:
  "N AND M = 0 \<Longrightarrow> N AND (M AND d OR NOT M AND u) = N AND (u :: 'a::len word)"
  by (rule bit_word_eqI) (auto simp: bit_simps bit_eq_iff)

lemma flag_set_same [mask_simps]: "M AND (u OR M) = (M :: 'a::len word)"
  by (rule bit_word_eqI) (auto simp: bit_simps)

lemma flag_set_other [mask_simps]: "N AND M = 0 \<Longrightarrow> N AND (u OR M) = N AND (u :: 'a::len word)"
  by (rule bit_word_eqI) (auto simp: bit_simps bit_eq_iff)

lemma flag_clear_same [mask_simps]: "M AND (u AND NOT M) = (0 :: 'a::len word)"
  by (rule bit_word_eqI) (auto simp: bit_simps)

lemma flag_clear_other [mask_simps]:
  "N AND M = 0 \<Longrightarrow> N AND (u AND NOT M) = N AND (u :: 'a::len word)"
  by (rule bit_word_eqI) (auto simp: bit_simps bit_eq_iff)

lemma padcnt_value: "drop_bit 4 (IB_BTH_PADCNT_MASK AND push_bit 4 p) = (3 :: u8) AND p"
proof -
  have "IB_BTH_PADCNT_MASK = push_bit 4 (mask 2)"
    by (simp add: IB_BTH_PADCNT_MASK_def mask_eq_exp_minus_1)
  moreover have "(3 :: u8) = mask 2" by (simp add: mask_eq_exp_minus_1)
  moreover have "drop_bit 4 (push_bit 4 (mask 2) AND push_bit 4 p) = mask 2 AND (p :: u8)"
    by (rule bit_word_eqI) (auto simp: bit_simps)
  ultimately show ?thesis by metis
qed

lemma opcode_value:
  "IB_OPCODE_MASK AND (push_bit 5 t OR c) = IB_OPCODE_MASK AND c"
  "drop_bit 5 (push_bit 5 t OR c) = (7 AND t) OR drop_bit 5 (c :: u8)"
proof -
  have m: "IB_OPCODE_MASK = mask 5" "(7 :: u8) = mask 3"
    by (simp_all add: IB_OPCODE_MASK_def mask_eq_exp_minus_1)
  show "IB_OPCODE_MASK AND (push_bit 5 t OR c) = IB_OPCODE_MASK AND c"
    unfolding m by (rule bit_word_eqI) (auto simp: bit_simps)
  show "drop_bit 5 (push_bit 5 t OR c) = (7 AND t) OR drop_bit 5 (c :: u8)"
    unfolding m by (rule bit_word_eqI) (auto simp: bit_simps)
qed

subsection \<open>The base transport header as its fields\<close>

text \<open>
  The abstract header: one value per field of the specification. \<open>bth_view\<close> reads it off a
  header through the library's getters, and each setter is refined by the update of one field.
\<close>

record bth_fields =
  v_qp_type :: u8
  v_opcode :: u8
  v_se :: bool
  v_mig :: bool
  v_padcnt :: u8
  v_tver :: u8
  v_pkey :: u16
  v_fecn :: bool
  v_becn :: bool
  v_destqp :: u32
  v_ack :: bool
  v_psn :: u32

definition bth_view :: "ib_bth \<Rightarrow> bth_fields" where
  "bth_view b = \<lparr>v_qp_type = ib_bth_get_qp_type b, v_opcode = ib_bth_get_opcode b,
     v_se = ib_bth_get_se b, v_mig = ib_bth_get_mig b, v_padcnt = ib_bth_get_padcnt b,
     v_tver = ib_bth_get_tver b, v_pkey = ib_bth_get_pkey b, v_fecn = ib_bth_get_fecn b,
     v_becn = ib_bth_get_becn b, v_destqp = ib_bth_get_destqp b, v_ack = ib_bth_get_ack b,
     v_psn = ib_bth_get_psn b\<rparr>"

lemmas bth_get_defs = ib_bth_get_qp_type_def ib_bth_get_opcode_def ib_bth_get_se_def
  ib_bth_get_mig_def ib_bth_get_padcnt_def ib_bth_get_tver_def ib_bth_get_pkey_def
  ib_bth_get_fecn_def ib_bth_get_becn_def ib_bth_get_destqp_def ib_bth_get_ack_def
  ib_bth_get_psn_def

lemmas bth_set_defs = ib_bth_set_opcode_def ib_bth_set_se_def ib_bth_set_mig_def
  ib_bth_set_padcnt_def ib_bth_set_tver_def ib_bth_set_pkey_def ib_bth_set_fecn_def
  ib_bth_set_becn_def ib_bth_clear_resv1_def ib_bth_set_destqp_def ib_bth_set_ack_def
  ib_bth_clear_resv2_def ib_bth_set_psn_def

lemma view_set_opcode:
  "bth_view (ib_bth_set_opcode b t c) =
     (bth_view b)\<lparr>v_qp_type := (7 AND t) OR drop_bit 5 c, v_opcode := IB_OPCODE_MASK AND c\<rparr>"
  by (simp add: bth_view_def bth_get_defs bth_set_defs opcode_value del: drop_bit_or)

lemma view_set_flags:
  "bth_view (ib_bth_set_se b f) = (bth_view b)\<lparr>v_se := f\<rparr>"
  "bth_view (ib_bth_set_mig b f) = (bth_view b)\<lparr>v_mig := f\<rparr>"
  "bth_view (ib_bth_set_padcnt b p) = (bth_view b)\<lparr>v_padcnt := 3 AND p\<rparr>"
  "bth_view (ib_bth_set_tver b v) = (bth_view b)\<lparr>v_tver := IB_BTH_TVER_MASK AND v\<rparr>"
  by (simp_all add: bth_view_def bth_get_defs bth_set_defs mask_simps padcnt_value
        del: drop_bit_and drop_bit_or)

lemma view_set_pkey: "bth_view (ib_bth_set_pkey b k) = (bth_view b)\<lparr>v_pkey := k\<rparr>"
  by (simp add: bth_view_def bth_get_defs bth_set_defs)

lemma view_set_u32_1:
  "bth_view (ib_bth_set_fecn b f) = (bth_view b)\<lparr>v_fecn := f\<rparr>"
  "bth_view (ib_bth_set_becn b f) = (bth_view b)\<lparr>v_becn := f\<rparr>"
  "bth_view (ib_bth_clear_resv1 b) = bth_view b"
  "bth_view (ib_bth_set_destqp b q) = (bth_view b)\<lparr>v_destqp := IB_BTH_DESTQP_MASK AND q\<rparr>"
  by (simp_all add: bth_view_def bth_get_defs bth_set_defs mask_simps Let_def)

lemma view_set_u32_2:
  "bth_view (ib_bth_set_ack b f) = (bth_view b)\<lparr>v_ack := f\<rparr>"
  "bth_view (ib_bth_clear_resv2 b) = bth_view b"
  "bth_view (ib_bth_set_psn b p) = (bth_view b)\<lparr>v_psn := IB_BTH_PSN_MASK AND p\<rparr>"
  by (simp_all add: bth_view_def bth_get_defs bth_set_defs mask_simps Let_def)

lemmas bth_view_simps = view_set_opcode view_set_flags view_set_pkey view_set_u32_1 view_set_u32_2

lemma bth_view_sel [simp]:
  "v_qp_type (bth_view b) = ib_bth_get_qp_type b" "v_opcode (bth_view b) = ib_bth_get_opcode b"
  "v_se (bth_view b) = ib_bth_get_se b" "v_mig (bth_view b) = ib_bth_get_mig b"
  "v_padcnt (bth_view b) = ib_bth_get_padcnt b" "v_tver (bth_view b) = ib_bth_get_tver b"
  "v_pkey (bth_view b) = ib_bth_get_pkey b" "v_fecn (bth_view b) = ib_bth_get_fecn b"
  "v_becn (bth_view b) = ib_bth_get_becn b" "v_destqp (bth_view b) = ib_bth_get_destqp b"
  "v_ack (bth_view b) = ib_bth_get_ack b" "v_psn (bth_view b) = ib_bth_get_psn b"
  by (simp_all add: bth_view_def)

subsection \<open>Round trips of the headers\<close>

lemma length_bth_bytes [simp]: "length (ib_bth_bytes b) = 12"
  by (simp add: ib_bth_bytes_def)

lemma bth_of_bytes_bytes [simp]: "ib_bth_of_bytes (ib_bth_bytes b) = b"
  by (simp add: ib_bth_of_bytes_def ib_bth_bytes_def)

lemma bth_bytes_of_bytes:
  assumes "length bs = 12"
  shows "ib_bth_bytes (ib_bth_of_bytes bs) = bs"
proof -
  have "[bs ! 0, bs ! 1] = take 2 bs"
    using assms by (simp add: numeral_2_eq_2 take_Suc_conv_app_nth)
  moreover have "drop 2 bs = take 2 (drop 2 bs) @ drop 4 bs"
    "drop 4 bs = take 4 (drop 4 bs) @ drop 8 bs" "drop 8 bs = take 4 (drop 8 bs)"
    using drop_chunk[of 2 bs 2] drop_chunk[of 4 bs 4] assms by simp_all
  ultimately show ?thesis
    using assms append_take_drop_id[of 2 bs]
    by (simp add: ib_bth_bytes_def ib_bth_of_bytes_def del: append_take_drop_id)
qed

lemma length_ext_bytes [simp]:
  "length (ib_deth_bytes d) = 8" "length (ib_reth_bytes r) = 16" "length (ib_aeth_bytes a) = 4"
  "length (ib_immdt_bytes i) = 4" "length (ib_ieth_bytes e) = 4"
  by (simp_all add: ib_deth_bytes_def ib_reth_bytes_def ib_aeth_bytes_def ib_immdt_bytes_def
        ib_ieth_bytes_def)

lemma ext_of_bytes_bytes [simp]:
  "ib_deth_of_bytes (ib_deth_bytes d) = d" "ib_reth_of_bytes (ib_reth_bytes r) = r"
  "ib_aeth_of_bytes (ib_aeth_bytes a) = a" "ib_immdt_of_bytes (ib_immdt_bytes i) = i"
  by (simp_all add: ib_deth_of_bytes_def ib_deth_bytes_def ib_reth_of_bytes_def ib_reth_bytes_def
        ib_aeth_of_bytes_def ib_aeth_bytes_def ib_immdt_of_bytes_def ib_immdt_bytes_def)

lemma deth_get_set [wire_simps]:
  "ib_deth_get_qkey (ib_deth_set_qkey d k) = k"
  "ib_deth_get_qkey (ib_deth_set_srcqp d q) = ib_deth_get_qkey d"
  "ib_deth_get_srcqp (ib_deth_set_srcqp d q) = IB_DETH_SRCQP_MASK AND q"
  "ib_deth_get_srcqp (ib_deth_set_qkey d k) = ib_deth_get_srcqp d"
  by (simp_all add: ib_deth_get_qkey_def ib_deth_set_qkey_def ib_deth_get_srcqp_def
        ib_deth_set_srcqp_def and.commute and.left_commute)

lemma reth_get_set [wire_simps]:
  "ib_reth_get_va (ib_reth_set_va r v) = v" "ib_reth_get_va (ib_reth_set_rkey r k) = ib_reth_get_va r"
  "ib_reth_get_va (ib_reth_set_dmalen r l) = ib_reth_get_va r"
  "ib_reth_get_rkey (ib_reth_set_rkey r k) = k"
  "ib_reth_get_rkey (ib_reth_set_va r v) = ib_reth_get_rkey r"
  "ib_reth_get_rkey (ib_reth_set_dmalen r l) = ib_reth_get_rkey r"
  "ib_reth_get_dmalen (ib_reth_set_dmalen r l) = l"
  "ib_reth_get_dmalen (ib_reth_set_va r v) = ib_reth_get_dmalen r"
  "ib_reth_get_dmalen (ib_reth_set_rkey r k) = ib_reth_get_dmalen r"
  by (simp_all add: ib_reth_get_va_def ib_reth_set_va_def ib_reth_get_rkey_def ib_reth_set_rkey_def
        ib_reth_get_dmalen_def ib_reth_set_dmalen_def)

subsection \<open>The acknowledge header\<close>

lemma syndrome_parts:
  fixes a s :: u32 and v :: u8
  assumes "s = push_bit 24 (push_bit 5 (a AND 3) OR (ucast v AND 0x1f))"
  shows "IB_AETH_SYNDROME_MASK AND s = s" "IB_AETH_MSN_MASK AND s = 0"
    "drop_bit 5 (ucast (drop_bit 24 s) :: u8) AND 3 = ucast (a AND 3)"
    "ucast (drop_bit 24 s) AND (0x1f :: u8) = v AND 0x1f"
proof -
  have m: "(3 :: u32) = mask 2" "(0x1f :: u32) = mask 5" "(3 :: u8) = mask 2" "(0x1f :: u8) = mask 5"
    "IB_AETH_SYNDROME_MASK = push_bit 24 (mask 8)" "IB_AETH_MSN_MASK = mask 24"
    by (simp_all add: mask_eq_exp_minus_1 bth_masks)
  show "IB_AETH_SYNDROME_MASK AND s = s"
    unfolding assms m by (rule bit_word_eqI) (auto simp: bit_simps)
  show "IB_AETH_MSN_MASK AND s = 0"
    unfolding assms m by (rule bit_word_eqI) (auto simp: bit_simps)
  show "drop_bit 5 (ucast (drop_bit 24 s) :: u8) AND 3 = ucast (a AND 3)"
    unfolding assms m by (rule bit_word_eqI) (auto simp: bit_simps)
  show "ucast (drop_bit 24 s) AND (0x1f :: u8) = v AND 0x1f"
    unfolding assms m by (rule bit_word_eqI) (auto simp: bit_simps)
qed

lemma syndrome_of_code:
  "t \<noteq> IB_AETH_SYNDROME_MAX \<Longrightarrow> syndrome_of (ucast (syndrome_code t AND 3)) = t"
  by (cases t) (simp_all add: syndrome_of_def)

lemma aeth_set_logical:
  "be32toh (aeth_u32_0 (ib_aeth_set a t v m)) =
     push_bit 24 (push_bit 5 (syndrome_code t AND 3) OR (ucast v AND 0x1f)) OR (IB_AETH_MSN_MASK AND m)"
  by (simp add: ib_aeth_set_def Let_def)

lemma aeth_get_set:
  assumes "t \<noteq> IB_AETH_SYNDROME_MAX"
  shows "ib_aeth_get_syndrome_type (ib_aeth_set a t v m) = t"
    "ib_aeth_get_syndrome_val (ib_aeth_set a t v m) = v AND 0x1f"
    "ib_aeth_get_msn (ib_aeth_set a t v m) = IB_AETH_MSN_MASK AND m"
proof -
  define s where "s = push_bit 24 (push_bit 5 (syndrome_code t AND 3) OR (ucast v AND (0x1f :: u32)))"
  note parts = syndrome_parts[OF s_def]
  have word: "be32toh (aeth_u32_0 (ib_aeth_set a t v m)) = s OR (IB_AETH_MSN_MASK AND m)"
    by (simp add: aeth_set_logical s_def)
  have "IB_AETH_SYNDROME_MASK AND (s OR (IB_AETH_MSN_MASK AND m)) = s"
    using parts(1) by (simp add: bit.conj_disj_distrib mask_simps flip: and.assoc)
  then have syn: "ib_aeth_get_syndrome (ib_aeth_set a t v m) = ucast (drop_bit 24 s)"
    by (simp add: ib_aeth_get_syndrome_def word)
  show "ib_aeth_get_syndrome_type (ib_aeth_set a t v m) = t"
    using syndrome_of_code[OF assms] parts(3)
    by (simp add: ib_aeth_get_syndrome_type_def syn Let_def del: drop_bit_and)
  show "ib_aeth_get_syndrome_val (ib_aeth_set a t v m) = v AND 0x1f"
    using parts(4) by (simp add: ib_aeth_get_syndrome_val_def syn Let_def)
  show "ib_aeth_get_msn (ib_aeth_set a t v m) = IB_AETH_MSN_MASK AND m"
    using parts(2) by (simp add: ib_aeth_get_msn_def word bit.conj_disj_distrib)
qed

end
