(* ===== verification/Util.thy ===== *)
theory Util
  imports Ib_Spec
begin

text \<open>
  The helpers of \<open>include/private/util.h\<close> (powers of two, MTU values, GID and MAC comparison,
  comparison of packet sequence numbers) and \<open>roce_qp_psn_inc\<close> of
  \<open>include/private/roce-private.h\<close>. Packet sequence numbers (PSN) are counted modulo
  \<open>2 ^ 24\<close>; the lemmas relate the C comparison to the signed distance of two of them.
\<close>

subsection \<open>Definitions\<close>

definition roce_power_of_2 :: "u64 \<Rightarrow> bool" where
  "roce_power_of_2 val = (if val = 0 then False else val AND (val - 1) = 0)"

definition roce_valid_mtu :: "u16 \<Rightarrow> bool" where
  "roce_valid_mtu mtu = (mtu = 1024 \<or> mtu = 2048 \<or> mtu = 4096)"

definition ipv4_prefix :: "u8 list" where
  "ipv4_prefix = [0, 0, 0, 0, 0, 0, 0, 0, 0, 0, 0xff, 0xff]"

definition roce_gid_is_ipv4 :: "u8 list \<Rightarrow> bool" where
  "roce_gid_is_ipv4 gid = (take 12 gid = ipv4_prefix)"

definition roce_gid_to_ipv4 :: "u8 list \<Rightarrow> u32" where
  "roce_gid_to_ipv4 gid = push_bit 24 (ucast (gid ! 12)) OR push_bit 16 (ucast (gid ! 13))
     OR push_bit 8 (ucast (gid ! 14)) OR ucast (gid ! 15)"

definition roce_mac_matched :: "u8 list \<Rightarrow> u8 list \<Rightarrow> bool" where
  "roce_mac_matched src dst = (take 6 src = take 6 dst)"

text \<open>The difference of the low 24 bits, moved to the top of a signed 32-bit integer.\<close>

definition roce_compare_psn :: "u32 \<Rightarrow> u32 \<Rightarrow> int" where
  "roce_compare_psn psn0 psn1 = sint (push_bit 8 (psn0 - psn1))"

definition roce_qp_psn_inc :: "u32 \<Rightarrow> u32" where
  "roce_qp_psn_inc psn = (psn + 1) AND IB_BTH_PSN_MASK"

subsection \<open>Powers of two\<close>

lemma and_minus_one_unset_lowest:
  fixes x :: "'a::len word"
  assumes "x \<noteq> 0"
  shows "\<exists>n < LENGTH('a). bit x n \<and> (\<forall>m < n. \<not> bit x m)"
proof -
  from assms obtain k where "bit x k" by (auto simp: bit_eq_iff)
  define n where "n = (LEAST k. bit x k)"
  have "bit x n" unfolding n_def using \<open>bit x k\<close> by (rule LeastI)
  moreover have "\<not> bit x m" if "m < n" for m
    using that not_less_Least unfolding n_def by blast
  ultimately show ?thesis using bit_imp_le_length by blast
qed

lemma power_of_2_exp: "n < 64 \<Longrightarrow> roce_power_of_2 (2 ^ n)"
proof -
  assume n: "n < 64"
  have "(2 ^ n :: u64) AND (2 ^ n - 1) = 0"
    by (rule bit_word_eqI) (auto simp: bit_simps simp flip: mask_eq_exp_minus_1)
  then show ?thesis using n by (simp add: roce_power_of_2_def)
qed

lemma bit_minus_one_above:
  fixes x :: "'a::len word"
  assumes "bit x n" "\<forall>m < n. \<not> bit x m" "n < k" "k < LENGTH('a)"
  shows "bit (x - 1) k = bit x k"
proof -
  have x: "x = (x AND NOT (mask (Suc n))) OR 2 ^ n"
  proof (rule bit_word_eqI)
    fix m assume "m < LENGTH('a)"
    then show "bit x m = bit ((x AND NOT (mask (Suc n))) OR 2 ^ n) m"
      using assms by (cases "m < n"; cases "m = n") (auto simp: bit_simps)
  qed
  have d: "(x AND NOT (mask (Suc n))) AND 2 ^ n = 0" "(x AND NOT (mask (Suc n))) AND mask n = 0"
    by (rule bit_word_eqI; auto simp: bit_simps)+
  have "x - 1 = (x AND NOT (mask (Suc n))) + (2 ^ n - 1)"
    by (subst x) (simp add: disjunctive_add_eq_or[OF d(1), symmetric])
  also have "\<dots> = (x AND NOT (mask (Suc n))) OR mask n"
    by (simp add: disjunctive_add_eq_or[OF d(2)] flip: mask_eq_exp_minus_1)
  finally have "bit (x - 1) k = bit ((x AND NOT (mask (Suc n))) OR mask n) k" by simp
  then show ?thesis using assms by (auto simp: bit_simps)
qed

theorem roce_power_of_2_iff: "roce_power_of_2 x \<longleftrightarrow> (\<exists>n < 64. x = 2 ^ n)"
proof
  assume p: "roce_power_of_2 x"
  then have "x \<noteq> 0" and and0: "x AND (x - 1) = 0" by (auto simp: roce_power_of_2_def split: if_splits)
  obtain n where n: "n < 64" "bit x n" "\<forall>m < n. \<not> bit x m"
    using and_minus_one_unset_lowest[OF \<open>x \<noteq> 0\<close>] by auto
  have "x = 2 ^ n"
  proof (rule bit_word_eqI)
    fix k assume k: "k < LENGTH(64)"
    have "\<not> bit x k" if "n < k"
    proof
      assume "bit x k"
      then have "bit (x AND (x - 1)) k"
        using bit_minus_one_above[OF n(2,3) that k] by (simp add: bit_and_iff)
      then show False using and0 by simp
    qed
    then show "bit x k = bit (2 ^ n :: u64) k"
      using n k by (cases "k < n"; cases "k = n") (auto simp: bit_simps)
  qed
  then show "\<exists>n < 64. x = 2 ^ n" using n(1) by blast
qed (auto simp: power_of_2_exp)

subsection \<open>Packet sequence numbers\<close>

abbreviation (input) psn_mod :: nat where "psn_mod \<equiv> 16777216"

lemma psn_mask_eq: "IB_BTH_PSN_MASK = mask 24"
  by (simp add: IB_BTH_PSN_MASK_def mask_eq_exp_minus_1)

lemma unat_psn_and: "unat (IB_BTH_PSN_MASK AND p) = unat p mod psn_mod"
  by (simp add: psn_mask_eq and.commute[of "mask 24"] take_bit_eq_mod unat_mod
      flip: take_bit_eq_mask)

lemma unat_psn_inc: "unat (roce_qp_psn_inc p) = Suc (unat p) mod psn_mod"
proof -
  have "unat (roce_qp_psn_inc p) = unat (p + 1) mod psn_mod"
    by (simp add: roce_qp_psn_inc_def and.commute unat_psn_and)
  also have "\<dots> = ((unat p + 1) mod 4294967296) mod psn_mod"
    by (simp add: unat_word_ariths)
  also have "\<dots> = Suc (unat p) mod psn_mod"
    by (simp add: mod_mod_cancel)
  finally show ?thesis .
qed

lemma psn_inc_less: "unat (roce_qp_psn_inc p) < psn_mod"
  by (simp add: unat_psn_inc)

text \<open>The signed distance from \<open>psn1\<close> to \<open>psn0\<close> on the circle of PSNs.\<close>

definition psn_dist :: "u32 \<Rightarrow> u32 \<Rightarrow> int" where
  "psn_dist psn0 psn1 =
     (let d = (uint psn0 - uint psn1) mod 16777216 in if d < 8388608 then d else d - 16777216)"

lemma wrap_signed:
  fixes u :: int
  assumes "0 \<le> u" "u < 4294967296"
  shows "(u + 2147483648) mod 4294967296 - 2147483648 = (if u < 2147483648 then u else u - 4294967296)"
proof (cases "u < 2147483648")
  case True
  then show ?thesis using assms by simp
next
  case False
  have "(u + 2147483648) mod 4294967296 = (u - 2147483648 + 4294967296) mod 4294967296"
    by (simp add: add.commute)
  also have "\<dots> = (u - 2147483648) mod 4294967296" by (rule mod_add_self2)
  also have "\<dots> = u - 2147483648" using False assms by simp
  finally show ?thesis using False by simp
qed

lemma sint_push_bit_8:
  fixes x :: u32
  shows "sint (push_bit 8 x) =
    (let d = uint x mod 16777216 in if d < 8388608 then 256 * d else 256 * (d - 16777216))"
proof -
  define d where "d = uint x mod 16777216"
  have d: "0 \<le> d" "d < 16777216" by (simp_all add: d_def)
  have u: "uint (push_bit 8 x) = 256 * d"
  proof -
    have "uint (push_bit 8 x) = take_bit 32 (push_bit 8 (uint x))"
      by (simp add: push_bit_eq_mult take_bit_eq_mod uint_word_ariths)
    also have "\<dots> = (256 * uint x) mod 4294967296"
      by (simp add: push_bit_eq_mult take_bit_eq_mod mult.commute)
    also have "\<dots> = 256 * d"
      using mult_mod_right[of 256 "uint x" 16777216] by (simp add: d_def)
    finally show ?thesis .
  qed
  have "sint (push_bit 8 x) = (if uint (push_bit 8 x) < 2147483648 then uint (push_bit 8 x)
           else uint (push_bit 8 x) - 4294967296)"
  proof -
    have "sint (push_bit 8 x) = (uint (push_bit 8 x) + 2147483648) mod 4294967296 - 2147483648"
      by (simp add: sint_uint signed_take_bit_eq_take_bit_shift take_bit_eq_mod)
    moreover have "(256 * d + 2147483648) mod 4294967296 - 2147483648 =
        (if 256 * d < 2147483648 then 256 * d else 256 * d - 4294967296)"
      using d by (simp add: wrap_signed)
    ultimately show ?thesis unfolding u by simp
  qed
  then show ?thesis using d unfolding u Let_def d_def[symmetric] by auto
qed

lemma compare_psn_dist: "roce_compare_psn a b = 256 * psn_dist a b"
proof -
  have "uint (a - b) mod 16777216 = (uint a - uint b) mod 16777216"
    by (simp add: uint_word_ariths mod_mod_cancel)
  then show ?thesis
    by (auto simp: roce_compare_psn_def sint_push_bit_8 psn_dist_def Let_def)
qed

end
