(* ===== verification/State.thy ===== *)
theory State
  imports Resource Iov Util
begin

text \<open>
  The data of \<open>include/roce/roce.h\<close> and \<open>include/private/roce-private.h\<close> that the device objects
  are made of, and \<open>roce_base\<close>, the part of a \<open>roce_ctx\<close> that protection domains, completion
  queues, address handles, memory regions and ports live in; the full context extends it. A pointer
  from one object to another (an AH to its PD) is the handle of the target, which is sound as long
  as the target lives: that is what the reference counts are for and what \<open>Mr\<close> proves of them.
\<close>

subsection \<open>Device attributes\<close>

record roce_device_attr =
  device_cap_flags :: u64
  max_mr_size :: u32
  max_qp :: u32
  max_qp_wr :: u32
  max_sge :: u32
  max_sge_rd :: u32
  max_cq :: u32
  max_cqe :: u32
  max_mr :: u32
  max_pd :: u32
  max_mw :: u32
  max_ah :: u32
  max_srq :: u32
  max_inline_data :: u32
  max_pkeys :: u16
  phys_port_cnt :: u8

subsection \<open>Ports\<close>

abbreviation (input) ROCE_MAX_PORTS :: nat where "ROCE_MAX_PORTS \<equiv> 1"
abbreviation (input) ROCE_GID_TBL_LEN :: nat where "ROCE_GID_TBL_LEN \<equiv> 8"
abbreviation (input) ROCE_GID_LEN :: nat where "ROCE_GID_LEN \<equiv> 16"
abbreviation (input) ROCE_MAC_LEN :: nat where "ROCE_MAC_LEN \<equiv> 6"
abbreviation (input) ROCE_MAX_VNET_HDR :: nat where "ROCE_MAX_VNET_HDR \<equiv> 16"
abbreviation (input) ROCE_MAX_PKEY :: nat where "ROCE_MAX_PKEY \<equiv> 1"

record roce_port_attr =
  port_cap_flags :: u64
  max_mtu :: u16
  active_mtu :: u16
  gid_tbl_len :: u16
  pkey_tbl_len :: u16
  max_msg_sz :: u32
  bad_pkey_cntr :: u32
  qkey_viol_cntr :: u32

record roce_port =
  port_attr :: roce_port_attr
  vnet_hdr :: u8
  gids :: "u8 list list"
  port_mac :: "u8 list"

subsection \<open>Objects\<close>

record roce_pd = roce_res +
  pd_ctx :: u64

record roce_cq = roce_res +
  cq_cqe :: u32
  cq_comp_vector :: u32
  cq_ctx :: u64

record roce_ah_attr =
  ah_gid :: "u8 list"
  ah_mac :: "u8 list"
  ah_flow_label :: u32
  ah_sgid_index :: u8
  ah_hop_limit :: u8
  ah_traffic_class :: u8
  ah_port_num :: u8

record roce_ah = roce_res +
  ah_pd :: u32   \<comment> \<open>handle of the PD\<close>
  ah_attr :: roce_ah_attr
  ah_ctx :: u64

datatype roce_mr_state =
    ROCE_MR_STATE_INVALID
  | ROCE_MR_STATE_FREE
  | ROCE_MR_STATE_VALID
  | ROCE_MR_STATE_DESTROYED
  | ROCE_MR_STATE_MAX

datatype roce_mr_type = ROCE_MR_MEM | ROCE_MR_FRMR | ROCE_MR_DMA | ROCE_MR_MAX

definition ROCE_ACCESS_LOCAL_WRITE :: u32 where "ROCE_ACCESS_LOCAL_WRITE = push_bit 0 1"
definition ROCE_ACCESS_REMOTE_WRITE :: u32 where "ROCE_ACCESS_REMOTE_WRITE = push_bit 1 1"
definition ROCE_ACCESS_REMOTE_READ :: u32 where "ROCE_ACCESS_REMOTE_READ = push_bit 2 1"

record roce_mr = roce_res +
  mr_ctx :: u64
  mr_pd :: u32   \<comment> \<open>handle of the PD\<close>
  mr_state :: roce_mr_state
  mr_type :: roce_mr_type
  mr_iova :: u64
  mr_length :: u32
  mr_lkey :: u32
  mr_rkey :: u32
  mr_access :: u32
  mr_page_size :: u32
  mr_iovs :: "iov list"

datatype roce_qp_type =
    ROCE_QPT_SMI
  | ROCE_QPT_GSI
  | ROCE_QPT_RC
  | ROCE_QPT_UC
  | ROCE_QPT_RD
  | ROCE_QPT_UD
  | ROCE_QPT_MAX

subsection \<open>The context without its QPs\<close>

record roce_base =
  page_size :: u32
  dev_attr :: roce_device_attr
  ports :: "roce_port list"
  pd_res :: "roce_pd roce_resource"
  cq_res :: "roce_cq roce_resource"
  mr_res :: "roce_mr roce_resource"
  ah_res :: "roce_ah roce_resource"

subsection \<open>References to objects of a table\<close>

text \<open>
  What \<open>roce_get_pd\<close>, \<open>roce_get_cq\<close>, \<open>roce_get_ah\<close>, \<open>roce_get_mr\<close> and \<open>roce_get_qp\<close> do with
  the table of their kind: find the object and atomically increment its reference count, which is
  32 bits wide and wraps. \<open>res_unref\<close> is the same for the puts.
\<close>

definition res_ref ::
  "'a roce_res_scheme roce_resource \<Rightarrow> u32 \<Rightarrow>
   ('a roce_res_scheme option \<times> 'a roce_res_scheme roce_resource) run" where
  "res_ref rs h = bindR (roce_resource_get rs h) (\<lambda>res. case res of
       None \<Rightarrow> Inr (None, rs)
     | Some x \<Rightarrow> let x' = x\<lparr>ref := ref x + 1\<rparr> in Inr (Some x', res_update rs h x'))"

definition res_unref ::
  "'a roce_res_scheme roce_resource \<Rightarrow> u32 \<Rightarrow> (int \<times> 'a roce_res_scheme roce_resource) run" where
  "res_unref rs h = bindR (roce_resource_get rs h) (\<lambda>res. case res of
       None \<Rightarrow> Inr (- EINVAL, rs)
     | Some x \<Rightarrow> Inr (0, res_update rs h (x\<lparr>ref := ref x - 1\<rparr>)))"

text \<open>
  What the create operations do with the table: allocate a handle for a zeroed object, then set the
  handle and the fields of the object through its pointer and return the handle.
\<close>

definition res_install ::
  "'a roce_res_scheme roce_resource \<Rightarrow> 'a roce_res_scheme \<Rightarrow> (u32 \<Rightarrow> 'a roce_res_scheme) \<Rightarrow>
   (int \<times> 'a roce_res_scheme roce_resource) run" where
  "res_install rs zeroed init = bindR (roce_resource_alloc rs (Some zeroed)) (\<lambda>(ret, rs').
     if ret < 0 then Inr (ret, rs')
     else let h = word_of_int ret in Inr (uint h, res_update rs' h (init h)))"

definition res_refs :: "'a roce_res_scheme roce_resource \<Rightarrow> u32 \<Rightarrow> nat option" where
  "res_refs rs h = map_option (\<lambda>x. unat (ref x)) (res_map rs h)"

definition got :: "('o option \<times> 's) run \<Rightarrow> (bool \<times> 's) run" where
  "got r = bindR r (\<lambda>(x, s). Inr (x \<noteq> None, s))"

definition silent :: "(int \<times> 's) run \<Rightarrow> 's run" where
  "silent r = bindR r (\<lambda>(ret, s). Inr s)"

lemma res_ref_none [simp]:
  "res_wf rs \<Longrightarrow> res_map rs h = None \<Longrightarrow> res_ref rs h = Inr (None, rs)"
  by (simp add: res_ref_def res_get_map)

lemma res_unref_none [simp]:
  "res_wf rs \<Longrightarrow> res_map rs h = None \<Longrightarrow> res_unref rs h = Inr (- EINVAL, rs)"
  by (simp add: res_unref_def res_get_map)

lemma res_ref_some:
  "res_wf rs \<Longrightarrow> res_map rs h = Some x \<Longrightarrow>
   res_ref rs h = Inr (Some (x\<lparr>ref := ref x + 1\<rparr>), res_update rs h (x\<lparr>ref := ref x + 1\<rparr>))"
  by (simp add: res_ref_def res_get_map Let_def)

lemma res_unref_some:
  "res_wf rs \<Longrightarrow> res_map rs h = Some x \<Longrightarrow>
   res_unref rs h = Inr (0, res_update rs h (x\<lparr>ref := ref x - 1\<rparr>))"
  by (simp add: res_unref_def res_get_map)

lemma res_update_wf:
  assumes "res_wf rs" "res_map rs h = Some x" "handle y = handle x"
  shows "res_wf (res_update rs h y)" "res_map (res_update rs h y) = (res_map rs)(h \<mapsto> y)"
    "res_size (res_update rs h y) = res_size rs"
  using res_update_map[of rs h x y] res_map_handle[of rs h x] assms
  by (auto simp: res_update_def)

lemma res_install_cases:
  assumes "res_wf rs" "\<And>h. handle (init h) = h"
  shows "\<exists>ret rs'. res_install rs z init = Inr (ret, rs') \<and> res_wf rs' \<and> res_size rs' = res_size rs \<and>
    ((ret = - EBUSY \<and> rs' = rs \<and> (\<forall>h < res_size rs. res_map rs h \<noteq> None)) \<or>
     (\<exists>h. ret = uint h \<and> h < res_size rs \<and> res_map rs h = None \<and>
        res_map rs' = (res_map rs)(h \<mapsto> init h)))"
proof -
  obtain ret rs' where r: "roce_resource_alloc rs (Some z) = Inr (ret, rs')" "res_wf rs'"
    "(ret = - EBUSY \<and> rs' = rs \<and> (\<forall>h < res_size rs. res_map rs h \<noteq> None)) \<or>
     (\<exists>h. ret = uint h \<and> h < res_size rs \<and> res_map rs h = None \<and> (\<forall>k < h. res_map rs k \<noteq> None) \<and>
        res_map rs' = (res_map rs)(h \<mapsto> z\<lparr>handle := h\<rparr>) \<and> res_size rs' = res_size rs)"
    using resource.alloc_law[OF assms(1), of z] by blast
  from r(3) show ?thesis
  proof (elim disjE exE conjE)
    assume "ret = - EBUSY" "rs' = rs" "\<forall>h < res_size rs. res_map rs h \<noteq> None"
    then show ?thesis using r(1,2) by (auto simp: res_install_def)
  next
    fix h
    assume h: "ret = uint h" "h < res_size rs" "res_map rs h = None"
      "res_map rs' = (res_map rs)(h \<mapsto> z\<lparr>handle := h\<rparr>)" "res_size rs' = res_size rs"
    have "res_install rs z init = Inr (uint h, res_update rs' h (init h))"
      using r(1) h(1) by (simp add: res_install_def Let_def)
    moreover have "res_map rs' h = Some (z\<lparr>handle := h\<rparr>)" using h(4) by simp
    note res_update_wf[OF r(2) this, of "init h"]
    then have "res_wf (res_update rs' h (init h))" "res_size (res_update rs' h (init h)) = res_size rs"
      "res_map (res_update rs' h (init h)) = (res_map rs)(h \<mapsto> init h)"
      using h(4,5) assms(2) by simp_all
    ultimately show ?thesis using h(2,3) by blast
  qed
qed

lemma unat_inc: "unat (r :: u32) = n \<Longrightarrow> Suc n < 2 ^ 32 \<Longrightarrow> unat (r + 1) = Suc n"
  by (simp add: unat_word_ariths)

lemma unat_dec: "unat (r :: u32) = Suc n \<Longrightarrow> unat (r - 1) = n"
  by (subst unat_minus_one) auto

lemma res_map_update:
  "res_wf rs \<Longrightarrow> res_map rs h = Some x \<Longrightarrow> handle y = handle x \<Longrightarrow>
   res_update (res_update rs h y) h x = rs"
  using res_map_bound[of rs h x]
  by (cases rs) (auto simp: res_update_def addr_write_def res_map_def res_wf_def word_less_nat_alt
      list_update_same_conv split: option.splits if_splits)

lemma res_refs_update:
  assumes "res_wf rs" "res_map rs h = Some x" "handle y = handle x"
  shows "res_refs (res_update rs h y) = (res_refs rs)(h \<mapsto> unat (ref y))"
  using res_update_wf[OF assms] by (auto simp: res_refs_def fun_eq_iff)

interpretation table_refs: refcounted res_wf res_refs "\<lambda>rs h. False"
  "\<lambda>rs h. got (res_ref rs h)" "\<lambda>rs h. silent (res_unref rs h)"
proof (unfold_locales, goal_cases)
  case (1 s h)
  then show ?case by (simp add: got_def res_refs_def)
next
  case (2 s h n)
  then obtain x where x: "res_map s h = Some x" "unat (ref x) = n" by (auto simp: res_refs_def)
  then show ?case
    using 2 res_update_wf[OF 2(1) x(1)] res_refs_update[OF 2(1) x(1)] unat_inc[OF x(2) 2(3)]
    by (simp add: got_def res_ref_some)
next
  case (3 s h n)
  then obtain x where x: "res_map s h = Some x" "unat (ref x) = Suc n" by (auto simp: res_refs_def)
  then show ?case
    using 3 res_update_wf[OF 3(1) x(1)] res_refs_update[OF 3(1) x(1)] unat_dec[OF x(2)]
    by (simp add: silent_def res_unref_some)
qed simp

subsection \<open>Counting the objects that point to another one\<close>

definition holders :: "(u32 \<Rightarrow> 'o option) \<Rightarrow> ('o \<Rightarrow> bool) \<Rightarrow> nat" where
  "holders m P = card {k. \<exists>x. m k = Some x \<and> P x}"

lemma holders_new:
  assumes "m k = None"
  shows "holders (m(k \<mapsto> x)) P = holders m P + (if P x then 1 else 0)"
proof -
  have "{j. \<exists>y. (m(k \<mapsto> x)) j = Some y \<and> P y} =
    (if P x then insert k {j. \<exists>y. m j = Some y \<and> P y} else {j. \<exists>y. m j = Some y \<and> P y})"
    using assms by auto
  then show ?thesis using assms by (simp add: holders_def card_insert_if)
qed

lemma holders_del:
  assumes "m k = Some x"
  shows "holders m P = holders (m(k := None)) P + (if P x then 1 else 0)"
proof -
  have "m(k \<mapsto> x) = m" using assms by auto
  then show ?thesis using holders_new[of "m(k := None)" k x P] by simp
qed

lemma holders_upd:
  assumes "m k = Some x" "P y = P x"
  shows "holders (m(k \<mapsto> y)) P = holders m P"
  using holders_del[where m = m and k = k and x = x and P = P] holders_new[of "m(k := None)" k y P]
    assms by simp

lemma holders_bound:
  assumes "res_wf rs"
  shows "holders (res_map rs) P \<le> 2 ^ 24"
proof -
  have "{k. \<exists>x. res_map rs k = Some x \<and> P x} \<subseteq> {k. k < res_size rs}"
    using assms by (auto dest: res_map_bound)
  then have "holders (res_map rs) P \<le> card {k. k < res_size rs}"
    unfolding holders_def by (intro card_mono) auto
  also have "\<dots> = card (unat ` {k. k < res_size rs})"
    by (intro card_image[symmetric] inj_onI) (simp add: word_unat_eq_iff)
  also have "\<dots> \<le> card {..<unat (res_size rs)}"
    by (intro card_mono) (auto simp: word_less_nat_alt)
  also have "\<dots> \<le> 2 ^ 24"
    using assms by (auto simp: res_wf_def word_le_nat_alt ROCE_MAX_GENERAL_def)
  finally show ?thesis .
qed

lemma holders_pos: "m k = Some x \<Longrightarrow> P x \<Longrightarrow> 0 < holders m P"
  by (auto simp: holders_def card_gt_0_iff)

subsection \<open>A small device\<close>

text \<open>A device without objects, with room for two of each kind.\<close>

definition small_attr :: roce_device_attr where
  "small_attr = \<lparr>device_cap_flags = 0, max_mr_size = 4096, max_qp = 4, max_qp_wr = 16, max_sge = 4,
     max_sge_rd = 4, max_cq = 2, max_cqe = 16, max_mr = 2, max_pd = 2, max_mw = 0, max_ah = 2,
     max_srq = 0, max_inline_data = 0, max_pkeys = 1, phys_port_cnt = 1\<rparr>"

definition small_base :: roce_base where
  "small_base = \<lparr>page_size = 4096, dev_attr = small_attr, ports = [],
     pd_res = \<lparr>res_size = 2, res_addr = Some [None, None]\<rparr>,
     cq_res = \<lparr>res_size = 2, res_addr = Some [None, None]\<rparr>,
     mr_res = \<lparr>res_size = 2, res_addr = Some [None, None]\<rparr>,
     ah_res = \<lparr>res_size = 2, res_addr = Some [None, None]\<rparr>\<rparr>"

end
