(* ===== verification/Pd.thy ===== *)
theory Pd
  imports State
begin

text \<open>
  Protection domains (\<open>pd.c\<close>). The success of \<open>calloc\<close> is an argument. A handle is the bit pattern
  of the C \<open>int\<close>, as the table lookup sees it.
\<close>

subsection \<open>Operations\<close>

definition roce_pd_zero :: roce_pd where
  "roce_pd_zero = \<lparr>handle = 0, ref = 0, pd_ctx = 0\<rparr>"

definition roce_alloc_pd ::
  "'a roce_base_scheme \<Rightarrow> u64 \<Rightarrow> bool \<Rightarrow> (int \<times> 'a roce_base_scheme) run" where
  "roce_alloc_pd ctx pdctx mem_ok =
     (if \<not> mem_ok then Inr (- ENOMEM, ctx)
      else bindR (res_install (pd_res ctx) roce_pd_zero
                   (\<lambda>h. roce_pd_zero\<lparr>handle := h, pd_ctx := pdctx\<rparr>)) (\<lambda>(ret, rs).
        Inr (ret, ctx\<lparr>pd_res := rs\<rparr>)))"

definition roce_get_pd_noref :: "'a roce_base_scheme \<Rightarrow> u32 \<Rightarrow> roce_pd option run" where
  "roce_get_pd_noref ctx pd_handle = roce_resource_get (pd_res ctx) pd_handle"

definition roce_get_pd ::
  "'a roce_base_scheme \<Rightarrow> u32 \<Rightarrow> (roce_pd option \<times> 'a roce_base_scheme) run" where
  "roce_get_pd ctx pd_handle =
     bindR (res_ref (pd_res ctx) pd_handle) (\<lambda>(pd, rs). Inr (pd, ctx\<lparr>pd_res := rs\<rparr>))"

definition roce_put_pd ::
  "'a roce_base_scheme \<Rightarrow> u32 \<Rightarrow> (int \<times> 'a roce_base_scheme) run" where
  "roce_put_pd ctx pd_handle =
     bindR (res_unref (pd_res ctx) pd_handle) (\<lambda>(ret, rs). Inr (ret, ctx\<lparr>pd_res := rs\<rparr>))"

text \<open>\<open>ROCE_ASSERT(!roce_put_pd(ctx, pd_handle))\<close>.\<close>

definition put_pd_checked :: "'a roce_base_scheme \<Rightarrow> u32 \<Rightarrow> 'a roce_base_scheme run" where
  "put_pd_checked ctx pd_handle =
     bindR (roce_put_pd ctx pd_handle) (\<lambda>(ret, ctx'). bindR (assertR (ret = 0)) (\<lambda>_. Inr ctx'))"

definition roce_dealloc_pd ::
  "'a roce_base_scheme \<Rightarrow> u32 \<Rightarrow> (int \<times> 'a roce_base_scheme) run" where
  "roce_dealloc_pd ctx pd_handle =
     bindR (roce_get_pd_noref ctx pd_handle) (\<lambda>pd. case pd of
         None \<Rightarrow> Inr (- EINVAL, ctx)
       | Some p \<Rightarrow>
           if ref p \<noteq> 0 then Inr (- EBUSY, ctx)
           else bindR (roce_resource_free (pd_res ctx) pd_handle) (\<lambda>(ret, rs).
             Inr (ret, ctx\<lparr>pd_res := rs\<rparr>)))"

subsection \<open>Lemmas\<close>

abbreviation pd_map :: "'a roce_base_scheme \<Rightarrow> u32 \<Rightarrow> roce_pd option" where
  "pd_map ctx \<equiv> res_map (pd_res ctx)"

lemma get_pd_none [simp]:
  "res_wf (pd_res ctx) \<Longrightarrow> pd_map ctx h = None \<Longrightarrow> roce_get_pd ctx h = Inr (None, ctx)"
  by (simp add: roce_get_pd_def)

lemma get_pd_some:
  "res_wf (pd_res ctx) \<Longrightarrow> pd_map ctx h = Some p \<Longrightarrow>
   roce_get_pd ctx h = Inr (Some (p\<lparr>ref := ref p + 1\<rparr>),
     ctx\<lparr>pd_res := res_update (pd_res ctx) h (p\<lparr>ref := ref p + 1\<rparr>)\<rparr>)"
  by (simp add: roce_get_pd_def res_ref_some)

lemma put_pd_some:
  "res_wf (pd_res ctx) \<Longrightarrow> pd_map ctx h = Some p \<Longrightarrow>
   roce_put_pd ctx h = Inr (0, ctx\<lparr>pd_res := res_update (pd_res ctx) h (p\<lparr>ref := ref p - 1\<rparr>)\<rparr>)"
  by (simp add: roce_put_pd_def res_unref_some)

lemma put_pd_checked_some:
  "res_wf (pd_res ctx) \<Longrightarrow> pd_map ctx h = Some p \<Longrightarrow>
   put_pd_checked ctx h = Inr (ctx\<lparr>pd_res := res_update (pd_res ctx) h (p\<lparr>ref := ref p - 1\<rparr>)\<rparr>)"
  by (simp add: put_pd_checked_def put_pd_some)

text \<open>Taking a reference and giving it back is no change at all, whatever the count.\<close>

lemma get_put_pd:
  assumes "res_wf (pd_res ctx)" "pd_map ctx h = Some p"
  shows "put_pd_checked (ctx\<lparr>pd_res := res_update (pd_res ctx) h (p\<lparr>ref := ref p + 1\<rparr>)\<rparr>) h = Inr ctx"
  using assms res_update_wf[OF assms, of "p\<lparr>ref := ref p + 1\<rparr>"]
    res_map_update[OF assms, of "p\<lparr>ref := ref p + 1\<rparr>"]
  by (simp add: put_pd_checked_some)

lemma alloc_pd_cases:
  assumes "res_wf (pd_res ctx)"
  shows "\<exists>ret rs. roce_alloc_pd ctx c mem_ok = Inr (ret, ctx\<lparr>pd_res := rs\<rparr>) \<and> res_wf rs \<and>
    res_size rs = res_size (pd_res ctx) \<and>
    ((ret = - ENOMEM \<and> \<not> mem_ok \<and> rs = pd_res ctx) \<or>
     (ret = - EBUSY \<and> mem_ok \<and> rs = pd_res ctx \<and> (\<forall>h < res_size rs. pd_map ctx h \<noteq> None)) \<or>
     (\<exists>h. ret = uint h \<and> mem_ok \<and> h < res_size rs \<and> pd_map ctx h = None \<and>
       res_map rs = (pd_map ctx)(h \<mapsto> \<lparr>handle = h, ref = 0, pd_ctx = c\<rparr>)))"
proof (cases mem_ok)
  case True
  obtain ret rs where r: "res_install (pd_res ctx) roce_pd_zero
      (\<lambda>h. roce_pd_zero\<lparr>handle := h, pd_ctx := c\<rparr>) = Inr (ret, rs)" "res_wf rs"
    "res_size rs = res_size (pd_res ctx)"
    "(ret = - EBUSY \<and> rs = pd_res ctx \<and> (\<forall>h < res_size (pd_res ctx). pd_map ctx h \<noteq> None)) \<or>
     (\<exists>h. ret = uint h \<and> h < res_size (pd_res ctx) \<and> pd_map ctx h = None \<and>
        res_map rs = (pd_map ctx)(h \<mapsto> roce_pd_zero\<lparr>handle := h, pd_ctx := c\<rparr>))"
    using res_install_cases[OF assms, of "\<lambda>h. roce_pd_zero\<lparr>handle := h, pd_ctx := c\<rparr>" roce_pd_zero]
    by auto
  then have "roce_alloc_pd ctx c mem_ok = Inr (ret, ctx\<lparr>pd_res := rs\<rparr>)"
    using True by (simp add: roce_alloc_pd_def)
  then show ?thesis using r(2-4) True
    by (intro exI[of _ ret] exI[of _ rs]) (auto simp: roce_pd_zero_def)
qed (use assms in \<open>auto simp: roce_alloc_pd_def\<close>)

lemma dealloc_pd_cases:
  assumes "res_wf (pd_res ctx)"
  shows "case pd_map ctx h of
      None \<Rightarrow> roce_dealloc_pd ctx h = Inr (- EINVAL, ctx)
    | Some p \<Rightarrow> if ref p \<noteq> 0 then roce_dealloc_pd ctx h = Inr (- EBUSY, ctx)
        else \<exists>rs. roce_dealloc_pd ctx h = Inr (0, ctx\<lparr>pd_res := rs\<rparr>) \<and> res_wf rs \<and>
          res_size rs = res_size (pd_res ctx) \<and> res_map rs = (pd_map ctx)(h := None)"
proof (cases "pd_map ctx h")
  case None
  then show ?thesis using assms by (simp add: roce_dealloc_pd_def roce_get_pd_noref_def res_get_map)
next
  case (Some p)
  then show ?thesis using res_free_map[OF assms Some] assms
    by (auto simp: roce_dealloc_pd_def roce_get_pd_noref_def res_get_map)
qed

interpretation pd: refcounted "\<lambda>ctx. res_wf (pd_res ctx)" "\<lambda>ctx. res_refs (pd_res ctx)"
  "\<lambda>ctx h. False" "\<lambda>ctx h. got (roce_get_pd ctx h)" "\<lambda>ctx h. silent (roce_put_pd ctx h)"
proof (unfold_locales, goal_cases)
  case (1 s h)
  then show ?case using table_refs.get_none[OF 1] by (simp add: got_def roce_get_pd_def res_refs_def)
next
  case (2 s h n)
  then show ?case using table_refs.get_some[OF 2]
    by (force simp: got_def roce_get_pd_def bindR_eq_Inr bindR_assoc split: prod.splits)
next
  case (3 s h n)
  then show ?case using table_refs.put_some[OF 3]
    by (force simp: silent_def roce_put_pd_def bindR_eq_Inr bindR_assoc split: prod.splits)
qed simp

end
