(* ===== verification/Ah.thy ===== *)
theory Ah
  imports Pd
begin

text \<open>
  Address handles (\<open>ah.c\<close>). An AH holds a reference to its PD from its creation until it is
  destroyed.
\<close>

subsection \<open>Operations\<close>

definition roce_ah_attr_zero :: roce_ah_attr where
  "roce_ah_attr_zero = \<lparr>ah_gid = replicate ROCE_GID_LEN 0, ah_mac = replicate ROCE_MAC_LEN 0,
     ah_flow_label = 0, ah_sgid_index = 0, ah_hop_limit = 0, ah_traffic_class = 0, ah_port_num = 0\<rparr>"

definition roce_ah_zero :: roce_ah where
  "roce_ah_zero = \<lparr>handle = 0, ref = 0, ah_pd = 0, ah_attr = roce_ah_attr_zero, ah_ctx = 0\<rparr>"

definition roce_create_ah ::
  "'a roce_base_scheme \<Rightarrow> u32 \<Rightarrow> roce_ah_attr \<Rightarrow> u64 \<Rightarrow> bool \<Rightarrow> (int \<times> 'a roce_base_scheme) run" where
  "roce_create_ah ctx pd_handle attr ahctx mem_ok =
     bindR (roce_get_pd ctx pd_handle) (\<lambda>(pd, ctx1). case pd of
         None \<Rightarrow> Inr (- EINVAL, ctx1)
       | Some p \<Rightarrow>
           if \<not> mem_ok then
             bindR (put_pd_checked ctx1 pd_handle) (\<lambda>ctx2. Inr (- ENOMEM, ctx2))
           else bindR (res_install (ah_res ctx1) roce_ah_zero
                        (\<lambda>h. roce_ah_zero\<lparr>handle := h, ah_pd := handle p, ah_attr := attr,
                           ah_ctx := ahctx\<rparr>)) (\<lambda>(ret, rs).
             if ret < 0 then
               bindR (put_pd_checked (ctx1\<lparr>ah_res := rs\<rparr>) pd_handle) (\<lambda>ctx2. Inr (ret, ctx2))
             else Inr (ret, ctx1\<lparr>ah_res := rs\<rparr>)))"

definition roce_get_ah_noref :: "'a roce_base_scheme \<Rightarrow> u32 \<Rightarrow> roce_ah option run" where
  "roce_get_ah_noref ctx ah_handle = roce_resource_get (ah_res ctx) ah_handle"

definition roce_get_ah ::
  "'a roce_base_scheme \<Rightarrow> u32 \<Rightarrow> (roce_ah option \<times> 'a roce_base_scheme) run" where
  "roce_get_ah ctx ah_handle =
     bindR (res_ref (ah_res ctx) ah_handle) (\<lambda>(ah, rs). Inr (ah, ctx\<lparr>ah_res := rs\<rparr>))"

definition roce_put_ah ::
  "'a roce_base_scheme \<Rightarrow> u32 \<Rightarrow> (int \<times> 'a roce_base_scheme) run" where
  "roce_put_ah ctx ah_handle =
     bindR (res_unref (ah_res ctx) ah_handle) (\<lambda>(ret, rs). Inr (ret, ctx\<lparr>ah_res := rs\<rparr>))"

definition roce_destroy_ah ::
  "'a roce_base_scheme \<Rightarrow> u32 \<Rightarrow> (int \<times> 'a roce_base_scheme) run" where
  "roce_destroy_ah ctx ah_handle =
     bindR (roce_get_ah_noref ctx ah_handle) (\<lambda>ah. case ah of
         None \<Rightarrow> Inr (- EINVAL, ctx)
       | Some a \<Rightarrow>
           if ref a \<noteq> 0 then Inr (- EBUSY, ctx)
           else bindR (roce_resource_free (ah_res ctx) ah_handle) (\<lambda>(ret, rs).
             let ctx1 = ctx\<lparr>ah_res := rs\<rparr> in
             if ret \<noteq> 0 then Inr (ret, ctx1)
             else bindR (put_pd_checked ctx1 (ah_pd a)) (\<lambda>ctx2. Inr (0, ctx2))))"

subsection \<open>Lemmas\<close>

abbreviation ah_map :: "'a roce_base_scheme \<Rightarrow> u32 \<Rightarrow> roce_ah option" where
  "ah_map ctx \<equiv> res_map (ah_res ctx)"

abbreviation ctx_wf :: "'a roce_base_scheme \<Rightarrow> bool" where
  "ctx_wf ctx \<equiv> res_wf (pd_res ctx) \<and> res_wf (cq_res ctx) \<and> res_wf (mr_res ctx) \<and> res_wf (ah_res ctx)"

text \<open>A failed creation leaves the context as it was, reference counts included.\<close>

lemma create_ah_cases:
  assumes "res_wf (pd_res ctx)" "res_wf (ah_res ctx)"
  shows "(\<exists>e. roce_create_ah ctx pdh attr c mem_ok = Inr (e, ctx) \<and> e < 0) \<or>
    (\<exists>h p rs. roce_create_ah ctx pdh attr c mem_ok =
        Inr (uint h, ctx\<lparr>pd_res := res_update (pd_res ctx) pdh (p\<lparr>ref := ref p + 1\<rparr>), ah_res := rs\<rparr>) \<and>
      pd_map ctx pdh = Some p \<and> ah_map ctx h = None \<and> res_wf rs \<and> res_size rs = res_size (ah_res ctx) \<and>
      h < res_size rs \<and>
      res_map rs = (ah_map ctx)(h \<mapsto> \<lparr>handle = h, ref = 0, ah_pd = pdh, ah_attr = attr, ah_ctx = c\<rparr>))"
proof (cases "pd_map ctx pdh")
  case None
  then show ?thesis using assms by (simp add: roce_create_ah_def)
next
  case (Some p)
  let ?ctx1 = "ctx\<lparr>pd_res := res_update (pd_res ctx) pdh (p\<lparr>ref := ref p + 1\<rparr>)\<rparr>"
  have undo: "put_pd_checked ?ctx1 pdh = Inr ctx" using assms(1) Some by (rule get_put_pd)
  have get: "roce_get_pd ctx pdh = Inr (Some (p\<lparr>ref := ref p + 1\<rparr>), ?ctx1)"
    using assms(1) Some by (rule get_pd_some)
  have hp: "handle p = pdh" using assms(1) Some by (rule res_map_handle)
  show ?thesis
  proof (cases mem_ok)
    case False
    then show ?thesis using get undo by (simp add: roce_create_ah_def)
  next
    case True
    let ?i = "\<lambda>h. roce_ah_zero\<lparr>handle := h, ah_pd := pdh, ah_attr := attr, ah_ctx := c\<rparr>"
    obtain ret rs where r: "res_install (ah_res ctx) roce_ah_zero ?i = Inr (ret, rs)" "res_wf rs"
      "res_size rs = res_size (ah_res ctx)"
      "(ret = - EBUSY \<and> rs = ah_res ctx) \<or> (\<exists>h. ret = uint h \<and> h < res_size (ah_res ctx) \<and>
         ah_map ctx h = None \<and> res_map rs = (ah_map ctx)(h \<mapsto> ?i h))"
      using res_install_cases[OF assms(2), of ?i roce_ah_zero] by auto
    from r(4) show ?thesis
    proof (elim disjE exE conjE)
      assume "ret = - EBUSY" "rs = ah_res ctx"
      then have "roce_create_ah ctx pdh attr c mem_ok = Inr (- EBUSY, ctx)"
        using get undo True r(1) hp by (simp add: roce_create_ah_def)
      then show ?thesis by simp
    next
      fix h
      assume h: "ret = uint h" "ah_map ctx h = None" "res_map rs = (ah_map ctx)(h \<mapsto> ?i h)"
        "h < res_size (ah_res ctx)"
      then have "roce_create_ah ctx pdh attr c mem_ok = Inr (uint h, ?ctx1\<lparr>ah_res := rs\<rparr>)"
        using get True r(1) hp by (simp add: roce_create_ah_def)
      then show ?thesis using h r(2,3) Some
        by (intro disjI2 exI[of _ h] exI[of _ p] exI[of _ rs]) (simp add: roce_ah_zero_def)
    qed
  qed
qed

lemma destroy_ah_cases:
  assumes "res_wf (pd_res ctx)" "res_wf (ah_res ctx)"
    "\<And>a. ah_map ctx h = Some a \<Longrightarrow> pd_map ctx (ah_pd a) \<noteq> None"
  shows "case ah_map ctx h of
      None \<Rightarrow> roce_destroy_ah ctx h = Inr (- EINVAL, ctx)
    | Some a \<Rightarrow> if ref a \<noteq> 0 then roce_destroy_ah ctx h = Inr (- EBUSY, ctx)
        else \<exists>rs p. roce_destroy_ah ctx h = Inr (0, ctx\<lparr>ah_res := rs,
            pd_res := res_update (pd_res ctx) (ah_pd a) (p\<lparr>ref := ref p - 1\<rparr>)\<rparr>) \<and>
          pd_map ctx (ah_pd a) = Some p \<and> res_wf rs \<and> res_size rs = res_size (ah_res ctx) \<and>
          res_map rs = (ah_map ctx)(h := None)"
proof (cases "ah_map ctx h")
  case None
  then show ?thesis using assms by (simp add: roce_destroy_ah_def roce_get_ah_noref_def res_get_map)
next
  case (Some a)
  then obtain p where p: "pd_map ctx (ah_pd a) = Some p" using assms(3) by auto
  obtain rs where rs: "roce_resource_free (ah_res ctx) h = Inr (0, rs)" "res_wf rs"
    "res_size rs = res_size (ah_res ctx)" "res_map rs = (ah_map ctx)(h := None)"
    using res_free_map[OF assms(2) Some] by auto
  have "put_pd_checked (ctx\<lparr>ah_res := rs\<rparr>) (ah_pd a) = Inr (ctx\<lparr>ah_res := rs,
      pd_res := res_update (pd_res ctx) (ah_pd a) (p\<lparr>ref := ref p - 1\<rparr>)\<rparr>)"
    using assms(1) p by (simp add: put_pd_checked_some)
  then show ?thesis using rs Some p assms
    by (auto simp: roce_destroy_ah_def roce_get_ah_noref_def res_get_map Let_def)
qed

interpretation ah: refcounted "\<lambda>ctx. res_wf (ah_res ctx)" "\<lambda>ctx. res_refs (ah_res ctx)"
  "\<lambda>ctx h. False" "\<lambda>ctx h. got (roce_get_ah ctx h)" "\<lambda>ctx h. silent (roce_put_ah ctx h)"
proof (unfold_locales, goal_cases)
  case (1 s h)
  then show ?case using table_refs.get_none[OF 1] by (simp add: got_def roce_get_ah_def res_refs_def)
next
  case (2 s h n)
  then show ?case using table_refs.get_some[OF 2]
    by (force simp: got_def roce_get_ah_def bindR_eq_Inr bindR_assoc split: prod.splits)
next
  case (3 s h n)
  then show ?case using table_refs.put_some[OF 3]
    by (force simp: silent_def roce_put_ah_def bindR_eq_Inr bindR_assoc split: prod.splits)
qed simp

end
