(* ===== verification/Cq.thy ===== *)
theory Cq
  imports State
begin

text \<open>
  Completion queues (\<open>cq.c\<close>). A CQ of the library is a handle, a count and the caller's cookie: the
  completions themselves go to the \<open>cq_comp\<close> callback.
\<close>

subsection \<open>Operations\<close>

definition roce_cq_zero :: roce_cq where
  "roce_cq_zero = \<lparr>handle = 0, ref = 0, cq_cqe = 0, cq_comp_vector = 0, cq_ctx = 0\<rparr>"

definition roce_create_cq ::
  "'a roce_base_scheme \<Rightarrow> u32 \<Rightarrow> u32 \<Rightarrow> u64 \<Rightarrow> bool \<Rightarrow> (int \<times> 'a roce_base_scheme) run" where
  "roce_create_cq ctx cqe comp_vector cqctx mem_ok =
     (if cqe > max_cqe (dev_attr ctx) then Inr (- EINVAL, ctx)
      else if \<not> mem_ok then Inr (- ENOMEM, ctx)
      else bindR (res_install (cq_res ctx) roce_cq_zero
                   (\<lambda>h. roce_cq_zero\<lparr>handle := h, cq_cqe := cqe, cq_comp_vector := comp_vector,
                      cq_ctx := cqctx\<rparr>)) (\<lambda>(ret, rs).
        Inr (ret, ctx\<lparr>cq_res := rs\<rparr>)))"

definition roce_get_cq_noref :: "'a roce_base_scheme \<Rightarrow> u32 \<Rightarrow> roce_cq option run" where
  "roce_get_cq_noref ctx cq_handle = roce_resource_get (cq_res ctx) cq_handle"

text \<open>The result code and, on success, what is stored through the \<open>cq_ctx\<close> pointer.\<close>

definition roce_cq_ctx :: "'a roce_base_scheme \<Rightarrow> u32 \<Rightarrow> (int \<times> u64 option) run" where
  "roce_cq_ctx ctx cq_handle = bindR (roce_get_cq_noref ctx cq_handle) (\<lambda>cq. case cq of
       None \<Rightarrow> Inr (- EINVAL, None)
     | Some q \<Rightarrow> Inr (0, Some (cq_ctx q)))"

definition roce_get_cq ::
  "'a roce_base_scheme \<Rightarrow> u32 \<Rightarrow> (roce_cq option \<times> 'a roce_base_scheme) run" where
  "roce_get_cq ctx cq_handle =
     bindR (res_ref (cq_res ctx) cq_handle) (\<lambda>(cq, rs). Inr (cq, ctx\<lparr>cq_res := rs\<rparr>))"

definition roce_put_cq ::
  "'a roce_base_scheme \<Rightarrow> u32 \<Rightarrow> (int \<times> 'a roce_base_scheme) run" where
  "roce_put_cq ctx cq_handle =
     bindR (res_unref (cq_res ctx) cq_handle) (\<lambda>(ret, rs). Inr (ret, ctx\<lparr>cq_res := rs\<rparr>))"

definition put_cq_checked :: "'a roce_base_scheme \<Rightarrow> u32 \<Rightarrow> 'a roce_base_scheme run" where
  "put_cq_checked ctx cq_handle =
     bindR (roce_put_cq ctx cq_handle) (\<lambda>(ret, ctx'). bindR (assertR (ret = 0)) (\<lambda>_. Inr ctx'))"

definition roce_destroy_cq ::
  "'a roce_base_scheme \<Rightarrow> u32 \<Rightarrow> (int \<times> 'a roce_base_scheme) run" where
  "roce_destroy_cq ctx cq_handle =
     bindR (roce_get_cq_noref ctx cq_handle) (\<lambda>cq. case cq of
         None \<Rightarrow> Inr (- EINVAL, ctx)
       | Some q \<Rightarrow>
           if ref q \<noteq> 0 then Inr (- EBUSY, ctx)
           else bindR (roce_resource_free (cq_res ctx) cq_handle) (\<lambda>(ret, rs).
             Inr (ret, ctx\<lparr>cq_res := rs\<rparr>)))"

subsection \<open>Lemmas\<close>

abbreviation cq_map :: "'a roce_base_scheme \<Rightarrow> u32 \<Rightarrow> roce_cq option" where
  "cq_map ctx \<equiv> res_map (cq_res ctx)"

lemma create_cq_cases:
  assumes "res_wf (cq_res ctx)"
  shows "\<exists>ret rs. roce_create_cq ctx cqe v c mem_ok = Inr (ret, ctx\<lparr>cq_res := rs\<rparr>) \<and> res_wf rs \<and>
    ((ret < 0 \<and> rs = cq_res ctx) \<or>
     (\<exists>h. ret = uint h \<and> cqe \<le> max_cqe (dev_attr ctx) \<and> cq_map ctx h = None \<and>
       res_map rs = (cq_map ctx)(h \<mapsto> \<lparr>handle = h, ref = 0, cq_cqe = cqe, cq_comp_vector = v, cq_ctx = c\<rparr>)))"
proof (cases "mem_ok \<and> cqe \<le> max_cqe (dev_attr ctx)")
  case True
  let ?i = "\<lambda>h. roce_cq_zero\<lparr>handle := h, cq_cqe := cqe, cq_comp_vector := v, cq_ctx := c\<rparr>"
  obtain ret rs where r: "res_install (cq_res ctx) roce_cq_zero ?i = Inr (ret, rs)" "res_wf rs"
    "(ret = - EBUSY \<and> rs = cq_res ctx) \<or> (\<exists>h. ret = uint h \<and> cq_map ctx h = None \<and>
        res_map rs = (cq_map ctx)(h \<mapsto> ?i h))"
    using res_install_cases[OF assms, of ?i roce_cq_zero] by auto
  then have "roce_create_cq ctx cqe v c mem_ok = Inr (ret, ctx\<lparr>cq_res := rs\<rparr>)"
    using True by (simp add: roce_create_cq_def not_less[symmetric])
  then show ?thesis using r(2,3) True
    by (intro exI[of _ ret] exI[of _ rs]) (auto simp: roce_cq_zero_def)
next
  case False
  then have "roce_create_cq ctx cqe v c mem_ok = Inr (- EINVAL, ctx) \<or>
    roce_create_cq ctx cqe v c mem_ok = Inr (- ENOMEM, ctx)"
    by (auto simp: roce_create_cq_def)
  then show ?thesis using assms
    by (elim disjE) (intro exI[of _ "- EINVAL"] exI[of _ "cq_res ctx"], simp,
        intro exI[of _ "- ENOMEM"] exI[of _ "cq_res ctx"], simp)
qed

lemma destroy_cq_cases:
  assumes "res_wf (cq_res ctx)"
  shows "case cq_map ctx h of
      None \<Rightarrow> roce_destroy_cq ctx h = Inr (- EINVAL, ctx)
    | Some q \<Rightarrow> if ref q \<noteq> 0 then roce_destroy_cq ctx h = Inr (- EBUSY, ctx)
        else \<exists>rs. roce_destroy_cq ctx h = Inr (0, ctx\<lparr>cq_res := rs\<rparr>) \<and> res_wf rs \<and>
          res_map rs = (cq_map ctx)(h := None)"
proof (cases "cq_map ctx h")
  case None
  then show ?thesis using assms by (simp add: roce_destroy_cq_def roce_get_cq_noref_def res_get_map)
next
  case (Some q)
  then show ?thesis using res_free_map[OF assms Some] assms
    by (auto simp: roce_destroy_cq_def roce_get_cq_noref_def res_get_map)
qed

interpretation cq: refcounted "\<lambda>ctx. res_wf (cq_res ctx)" "\<lambda>ctx. res_refs (cq_res ctx)"
  "\<lambda>ctx h. False" "\<lambda>ctx h. got (roce_get_cq ctx h)" "\<lambda>ctx h. silent (roce_put_cq ctx h)"
proof (unfold_locales, goal_cases)
  case (1 s h)
  then show ?case using table_refs.get_none[OF 1] by (simp add: got_def roce_get_cq_def res_refs_def)
next
  case (2 s h n)
  then show ?case using table_refs.get_some[OF 2]
    by (force simp: got_def roce_get_cq_def bindR_eq_Inr bindR_assoc split: prod.splits)
next
  case (3 s h n)
  then show ?case using table_refs.put_some[OF 3]
    by (force simp: silent_def roce_put_cq_def bindR_eq_Inr bindR_assoc split: prod.splits)
qed simp

end
