(* ===== verification/Sge.thy ===== *)
theory Sge
  imports Util
begin

text \<open>
  The scatter/gather elements of \<open>include/private/sge-helper.h\<close>: an SGE is a range of memory
  behind a key. A list of SGEs stands for a stream of bytes, each byte named by its key and address;
  the helpers measure the stream, count its pages and cut a prefix off it. The lemmas show that they
  do so on the stream.
\<close>

subsection \<open>Definitions\<close>

record roce_sge =
  sge_addr :: u64
  sge_length :: u32
  sge_lkey :: u32

definition roce_sge_len :: "roce_sge list \<Rightarrow> nat \<Rightarrow> u32 \<Rightarrow> u32 run" where
  "roce_sge_len sges sge_idx sge_off =
     bindR (assertR (sge_idx < length sges)) (\<lambda>_.
     bindR (assertR (sge_off \<le> sge_length (sges ! sge_idx))) (\<lambda>_.
     let total0 = ucast (sge_length (sges ! sge_idx) - sge_off) :: u64;
         total = foldl (\<lambda>t s. t + ucast (sge_length s)) total0 (drop (sge_idx + 1) sges)
     in bindR (assertR (total \<le> 0xffffffff)) (\<lambda>_. Inr (ucast total))))"

text \<open>The page mask is computed in 32 bits and widened without sign.\<close>

definition sge_page_mask :: "u32 \<Rightarrow> u64" where
  "sge_page_mask page_size = ucast (NOT (page_size - 1))"

definition sge_pages1 :: "u32 \<Rightarrow> roce_sge \<Rightarrow> u32" where
  "sge_pages1 page_size sge =
     (let addr_aligndown = sge_addr sge AND sge_page_mask page_size;
          addr_alignup = (sge_addr sge + ucast (sge_length sge) + ucast page_size - 1)
             AND sge_page_mask page_size
      in ucast ((addr_alignup - addr_aligndown) div ucast page_size))"

definition roce_sge_pages :: "roce_sge list \<Rightarrow> u32 \<Rightarrow> u32 run" where
  "roce_sge_pages sges page_size =
     bindR (assertR (roce_power_of_2 (ucast page_size))) (\<lambda>_.
     Inr (foldl (\<lambda>pages s. pages + sge_pages1 page_size s) 0 sges))"

text \<open>
  \<open>roce_sge_advance\<close> gets and returns the cursor (\<open>sge_idx\<close>, \<open>off\<close>); the loop runs over the
  elements from \<open>sge_idx\<close> on. The result is the C return value, the cursor and what was written
  to \<open>dst_sges\<close>. When the source ends before \<open>bytes\<close> are found, the returned count is one more
  than the number of elements written.
\<close>

fun sge_advance_loop ::
  "roce_sge list \<Rightarrow> u32 \<Rightarrow> nat \<Rightarrow> u32 \<Rightarrow> roce_sge list \<Rightarrow> nat \<times> nat \<times> u32 \<times> roce_sge list" where
  "sge_advance_loop [] bytes sge_idx off dst = (length dst + 1, sge_idx, off, dst)"
| "sge_advance_loop (src # srcs) bytes sge_idx off dst =
     (let remained = sge_length src - off;
          d = src\<lparr>sge_addr := sge_addr src + ucast off\<rparr> in
      if remained > bytes then
        (length dst + 1, sge_idx, off + bytes, dst @ [d\<lparr>sge_length := bytes\<rparr>])
      else if remained = bytes then
        (length dst + 1, sge_idx + 1, 0, dst @ [d\<lparr>sge_length := remained\<rparr>])
      else sge_advance_loop srcs (bytes - remained) (sge_idx + 1) 0
             (dst @ [d\<lparr>sge_length := remained\<rparr>]))"

definition roce_sge_advance ::
  "roce_sge list \<Rightarrow> u32 \<Rightarrow> nat \<Rightarrow> u32 \<Rightarrow> (nat \<times> nat \<times> u32 \<times> roce_sge list) run" where
  "roce_sge_advance src_sges bytes sge_idx off =
     bindR (assertR (sge_idx < length src_sges)) (\<lambda>_.
     bindR (assertR (off \<le> sge_length (src_sges ! sge_idx))) (\<lambda>_.
     if bytes = 0 then Inr (0, sge_idx, off, [])
     else Inr (sge_advance_loop (drop sge_idx src_sges) bytes sge_idx off [])))"

subsection \<open>The stream of bytes\<close>

definition sge_bytes :: "roce_sge \<Rightarrow> (u32 \<times> u64) list" where
  "sge_bytes s = map (\<lambda>i. (sge_lkey s, sge_addr s + of_nat i)) [0..<unat (sge_length s)]"

definition sges_bytes :: "roce_sge list \<Rightarrow> (u32 \<times> u64) list" where
  "sges_bytes sges = concat (map sge_bytes sges)"

definition sge_stream :: "roce_sge list \<Rightarrow> nat \<Rightarrow> u32 \<Rightarrow> (u32 \<times> u64) list" where
  "sge_stream sges sge_idx off = drop (unat off) (sges_bytes (drop sge_idx sges))"

definition sge_cursor :: "roce_sge list \<Rightarrow> nat \<Rightarrow> u32 \<Rightarrow> bool" where
  "sge_cursor sges sge_idx off \<longleftrightarrow> sge_idx \<le> length sges \<and>
     (if sge_idx < length sges then off \<le> sge_length (sges ! sge_idx) else off = 0)"

lemma length_sge_bytes [simp]: "length (sge_bytes s) = unat (sge_length s)"
  by (simp add: sge_bytes_def)

lemma sges_bytes_simps [simp]:
  "sges_bytes [] = []" "sges_bytes (s # ss) = sge_bytes s @ sges_bytes ss"
  "sges_bytes (ss @ ts) = sges_bytes ss @ sges_bytes ts"
  by (simp_all add: sges_bytes_def)

lemma length_sges_bytes: "length (sges_bytes ss) = (\<Sum>s\<leftarrow>ss. unat (sge_length s))"
  by (induction ss) simp_all

lemma sge_bytes_cut:
  assumes "unat off + n \<le> unat (sge_length s)" "n < 2 ^ 32"
  shows "sge_bytes (s\<lparr>sge_addr := sge_addr s + ucast off, sge_length := of_nat n\<rparr>) =
    take n (drop (unat off) (sge_bytes s))"
proof (rule nth_equalityI)
  have n: "unat (of_nat n :: u32) = n" using assms(2) by (simp add: unat_of_nat)
  show "length (sge_bytes (s\<lparr>sge_addr := sge_addr s + ucast off, sge_length := of_nat n\<rparr>)) =
    length (take n (drop (unat off) (sge_bytes s)))"
    using assms n by simp
  fix i assume "i < length (sge_bytes (s\<lparr>sge_addr := sge_addr s + ucast off, sge_length := of_nat n\<rparr>))"
  then have "i < n" using n by simp
  moreover have "of_nat (unat off) = (ucast off :: u64)" by simp
  ultimately show "sge_bytes (s\<lparr>sge_addr := sge_addr s + ucast off, sge_length := of_nat n\<rparr>) ! i =
    take n (drop (unat off) (sge_bytes s)) ! i"
    using assms n by (simp add: sge_bytes_def algebra_simps)
qed

lemma sge_advance_loop_spec:
  assumes "sge_advance_loop srcs bytes sge_idx off dst = (c, sge_idx', off', dst')"
    "srcs \<noteq> [] \<Longrightarrow> off \<le> sge_length (hd srcs)" "bytes \<noteq> 0"
    "unat off + unat bytes \<le> length (sges_bytes srcs)"
  shows "\<exists>new k. dst' = dst @ new \<and> c = length dst' \<and> sge_idx' = sge_idx + k \<and> sge_cursor srcs k off' \<and>
    sges_bytes new = take (unat bytes) (drop (unat off) (sges_bytes srcs)) \<and>
    sge_stream srcs k off' = drop (unat off + unat bytes) (sges_bytes srcs)"
  using assms
proof (induction srcs bytes sge_idx off dst rule: sge_advance_loop.induct)
  case (1 bytes sge_idx off dst)
  then show ?case by (simp add: unat_0_iff)
next
  case (2 src srcs bytes sge_idx off dst)
  let ?r = "sge_length src - off"
  have off: "off \<le> sge_length src" using "2.prems"(2) by simp
  then have r: "unat ?r = unat (sge_length src) - unat off" by (rule unat_sub)
  have o: "unat off \<le> unat (sge_length src)" using off by (simp add: word_le_nat_alt)
  note defs = Let_def sge_cursor_def sge_stream_def
  consider "?r > bytes" | "?r = bytes" | "?r < bytes" by fastforce
  then show ?case
  proof cases
    case 1
    then have lt: "unat bytes < unat (sge_length src) - unat off" using r by (simp add: word_less_nat_alt)
    have sum: "unat (off + bytes) = unat off + unat bytes"
      using lt o unat_bounds(3)[of "sge_length src"] by (simp add: unat_word_ariths)
    have cut: "sge_bytes (src\<lparr>sge_addr := sge_addr src + ucast off, sge_length := bytes\<rparr>) =
      take (unat bytes) (drop (unat off) (sge_bytes src))"
      using sge_bytes_cut[of off "unat bytes" src] lt o unat_bounds(3)[of bytes] by simp
    show ?thesis
      using "2.prems"(1) 1 cut sum lt o
      by (intro exI[of _ "[src\<lparr>sge_addr := sge_addr src + ucast off, sge_length := bytes\<rparr>]"] exI[of _ 0])
        (auto simp: defs word_le_nat_alt)
  next
    case 2
    then have b: "unat bytes = unat (sge_length src) - unat off" using r by simp
    have cut: "sge_bytes (src\<lparr>sge_addr := sge_addr src + ucast off, sge_length := bytes\<rparr>) =
      take (unat bytes) (drop (unat off) (sge_bytes src))"
    proof -
      have "unat off + unat bytes \<le> unat (sge_length src)" using b o by linarith
      then show ?thesis using sge_bytes_cut[of off "unat bytes" src] unat_bounds(3)[of bytes] by simp
    qed
    show ?thesis
      using "2.prems"(1) 2 cut b o
      by (intro exI[of _ "[src\<lparr>sge_addr := sge_addr src + ucast off, sge_length := bytes\<rparr>]"] exI[of _ 1])
        (auto simp: defs word_le_nat_alt)
  next
    case 3
    let ?d = "src\<lparr>sge_addr := sge_addr src + ucast off, sge_length := ?r\<rparr>"
    have b: "unat (bytes - ?r) = unat bytes - unat ?r" using 3 by (intro unat_sub) simp
    have lt: "unat ?r < unat bytes" using 3 by (simp add: word_less_nat_alt)
    have cut: "sge_bytes ?d = take (unat ?r) (drop (unat off) (sge_bytes src))"
      using sge_bytes_cut[of off "unat ?r" src] r o unat_bounds(3)[of ?r] by simp
    have n: "\<not> bytes < ?r" "?r \<noteq> bytes" using 3 by auto
    have step: "sge_advance_loop srcs (bytes - ?r) (sge_idx + 1) 0 (dst @ [?d]) = (c, sge_idx', off', dst')"
      using "2.prems"(1) n by (simp add: Let_def)
    have nz: "bytes - ?r \<noteq> 0" using n(2) by auto
    have le: "unat (0 :: u32) + unat (bytes - ?r) \<le> length (sges_bytes srcs)"
      using "2.prems"(4) b lt r o by simp
    obtain new k where IH: "dst' = dst @ ?d # new" "c = length dst'" "sge_idx' = sge_idx + 1 + k"
      "sge_cursor srcs k off'" "sges_bytes new = take (unat (bytes - ?r)) (sges_bytes srcs)"
      "sge_stream srcs k off' = drop (unat (bytes - ?r)) (sges_bytes srcs)"
      using "2.IH"[OF refl refl n step _ nz le] by auto
    have "sges_bytes (?d # new) = take (unat bytes) (drop (unat off) (sges_bytes (src # srcs)))"
      using cut IH(5) b lt r o by simp
    moreover have "sge_stream (src # srcs) (Suc k) off' = drop (unat off + unat bytes) (sges_bytes (src # srcs))"
      using IH(6) b lt r o by (simp add: sge_stream_def add.commute[of "unat off"])
    moreover have "sge_cursor (src # srcs) (Suc k) off'" using IH(4) by (simp add: sge_cursor_def)
    ultimately show ?thesis using IH(1-3) by (intro exI[of _ "?d # new"] exI[of _ "Suc k"]) simp
  qed
qed

lemma sge_stream_drop: "sge_stream (drop i ss) k off = sge_stream ss (i + k) off"
  by (simp add: sge_stream_def add.commute)

lemma sge_advance_run:
  assumes "sge_cursor src i off" "bytes \<noteq> 0" "unat bytes \<le> length (sge_stream src i off)"
  shows "\<exists>dst i' off'. roce_sge_advance src bytes i off = Inr (length dst, i', off', dst) \<and>
    sges_bytes dst = take (unat bytes) (sge_stream src i off) \<and>
    sge_stream src i' off' = drop (unat bytes) (sge_stream src i off) \<and> sge_cursor src i' off'"
proof -
  have i: "i < length src"
  proof (rule ccontr)
    assume "\<not> i < length src"
    then have "sge_stream src i off = []" by (simp add: sge_stream_def)
    then show False using assms(2,3) by (simp add: unat_0_iff)
  qed
  then have off: "off \<le> sge_length (src ! i)" using assms(1) by (simp add: sge_cursor_def)
  obtain c i' off' dst where r: "sge_advance_loop (drop i src) bytes i off [] = (c, i', off', dst)"
    by (metis prod_cases4)
  have le: "unat off + unat bytes \<le> length (sges_bytes (drop i src))"
    using assms(2,3) unat_gt_0[of bytes] by (simp add: sge_stream_def)
  obtain k where k: "c = length dst" "i' = i + k" "sge_cursor (drop i src) k off'"
    "sges_bytes dst = take (unat bytes) (drop (unat off) (sges_bytes (drop i src)))"
    "sge_stream (drop i src) k off' = drop (unat off + unat bytes) (sges_bytes (drop i src))"
    using sge_advance_loop_spec[OF r _ assms(2) le] off i
    by (auto simp: hd_drop_conv_nth)
  have "roce_sge_advance src bytes i off = Inr (length dst, i', off', dst)"
    using i off assms(2) r k(1) by (simp add: roce_sge_advance_def)
  moreover have "sge_cursor src i' off'" using k(2,3) i by (auto simp: sge_cursor_def split: if_splits)
  moreover have "sge_stream src i' off' = drop (unat bytes) (sge_stream src i off)"
    using k(2,5) sge_stream_drop[of i src k off'] by (simp add: sge_stream_def add.commute)
  ultimately show ?thesis using k(4) by (auto simp: sge_stream_def)
qed

lemma foldl_sge_total:
  fixes t :: u64
  assumes "unat t + (\<Sum>s\<leftarrow>ss. unat (sge_length s)) < 2 ^ 64"
  shows "unat (foldl (\<lambda>t s. t + ucast (sge_length s)) t ss) = unat t + (\<Sum>s\<leftarrow>ss. unat (sge_length s))"
  using assms
proof (induction ss arbitrary: t)
  case (Cons s ss)
  have u: "unat (ucast (sge_length s) :: u64) = unat (sge_length s)"
    using unat_bounds(3)[of "sge_length s"] by (simp only: unsigned_ucast_eq) (simp add: take_bit_nat_eq_self)
  have "unat (t + ucast (sge_length s)) = unat t + unat (sge_length s)"
    using Cons.prems u by (simp add: unat_word_ariths)
  then show ?case using Cons.IH[of "t + ucast (sge_length s)"] Cons.prems by simp
qed simp

lemma sge_total_bound: "(\<Sum>s\<leftarrow>ss. unat (sge_length s)) \<le> length ss * (2 ^ 32 - 1)"
proof (induction ss)
  case (Cons s ss)
  then show ?case using unat_bounds(3)[of "sge_length s"] by simp
qed simp

lemma sge_len_stream:
  assumes "length sges < 2 ^ 32" "sge_cursor sges i off" "i < length sges"
  shows "roce_sge_len sges i off =
    (if length (sge_stream sges i off) < 2 ^ 32 then Inr (of_nat (length (sge_stream sges i off)))
     else Inl Assert_failed)"
proof -
  have off: "off \<le> sge_length (sges ! i)" using assms(2,3) by (simp add: sge_cursor_def)
  define rest where "rest = (\<Sum>s\<leftarrow>drop (Suc i) sges. unat (sge_length s))"
  define t0 where "t0 = (ucast (sge_length (sges ! i) - off) :: u64)"
  have t0: "unat t0 = unat (sge_length (sges ! i)) - unat off"
    using unat_bounds(3)[of "sge_length (sges ! i) - off"] off
    by (simp add: t0_def unsigned_ucast_eq take_bit_nat_eq_self unat_sub)
  have len: "length (sge_stream sges i off) = unat t0 + rest"
    using assms(3) off t0
    by (simp add: sge_stream_def length_sges_bytes rest_def word_le_nat_alt flip: Cons_nth_drop_Suc)
  have "rest \<le> length sges * (2 ^ 32 - 1)"
    using sge_total_bound[of "drop (Suc i) sges"] by (simp add: rest_def algebra_simps)
  also have "\<dots> \<le> (2 ^ 32 - 1) * (2 ^ 32 - 1)" using assms(1) by simp
  finally have bound: "unat t0 + rest < 2 ^ 64"
    using t0 unat_bounds(3)[of "sge_length (sges ! i)"] by simp
  define t where "t = foldl (\<lambda>t s. t + ucast (sge_length s)) t0 (drop (Suc i) sges)"
  have t: "unat t = length (sge_stream sges i off)"
    using foldl_sge_total[of t0 "drop (Suc i) sges"] bound by (simp add: t_def rest_def len)
  have "(t \<le> 0xffffffff) = (length (sge_stream sges i off) < 2 ^ 32)"
    unfolding word_le_nat_alt t by auto
  moreover have "ucast t = (of_nat (unat t) :: u32)" by simp
  ultimately show ?thesis
    using assms(3) off unfolding t
    by (simp add: roce_sge_len_def Let_def flip: t_def t0_def)
qed

subsection \<open>Pages\<close>

text \<open>The number of pages of \<open>2 ^ k\<close> bytes that the \<open>len\<close> bytes from \<open>addr\<close> on touch, and one
  more page boundary rule of the code: an empty range inside a page counts one page.\<close>

definition pages_spanned :: "nat \<Rightarrow> nat \<Rightarrow> nat \<Rightarrow> nat" where
  "pages_spanned page addr len = (addr + len + page - 1) div page - addr div page"

lemma bit_page_mask:
  assumes "k < 32"
  shows "bit (sge_page_mask (2 ^ k)) n \<longleftrightarrow> k \<le> n \<and> n < 32"
proof -
  have "(2 ^ k - 1 :: u32) = mask k" by (simp add: mask_eq_exp_minus_1)
  then show ?thesis
    by (auto simp: sge_page_mask_def bit_unsigned_iff bit_not_iff bit_mask_iff dest: bit_imp_le_length)
qed

lemma page_mask_and:
  assumes "k < 32"
  shows "x AND sge_page_mask (2 ^ k) = push_bit k (drop_bit k (take_bit 32 x))"
  using assms by (intro bit_word_eqI) (auto simp: bit_simps bit_page_mask)

lemma unat_exp_u64: "k < 64 \<Longrightarrow> unat (2 ^ k :: u64) = 2 ^ k"
proof -
  assume "k < 64"
  then have "(2 :: nat) ^ k < 2 ^ 64" by (intro power_strict_increasing) auto
  moreover have "(2 ^ k :: u64) = of_nat (2 ^ k)" by simp
  ultimately show ?thesis by (simp only: unat_of_nat) simp
qed

lemma unat_exp_u32: "k < 32 \<Longrightarrow> unat (2 ^ k :: u32) = 2 ^ k"
proof -
  assume "k < 32"
  then have "(2 :: nat) ^ k < 2 ^ 32" by (intro power_strict_increasing) auto
  moreover have "(2 ^ k :: u32) = of_nat (2 ^ k)" by simp
  ultimately show ?thesis by (simp only: unat_of_nat) simp
qed

lemma unat_page_mask_and:
  assumes "k < 32"
  shows "unat (x AND sge_page_mask (2 ^ k)) = unat x mod 2 ^ 32 div 2 ^ k * 2 ^ k"
proof -
  define y where "y = unat x mod 2 ^ 32 div 2 ^ k"
  have "y * 2 ^ k \<le> unat x mod 2 ^ 32" by (simp add: y_def)
  moreover have "unat x mod 2 ^ 32 < 2 ^ 64" by (rule less_trans[of _ "2 ^ 32"]) simp_all
  ultimately have "y * 2 ^ k < 2 ^ 64" by (rule le_less_trans)
  moreover have "unat (push_bit k (drop_bit k (take_bit 32 x))) = (y * 2 ^ k) mod 2 ^ 64"
    using assms by (simp add: push_bit_eq_mult drop_bit_eq_div take_bit_eq_mod unat_word_ariths
        y_def mult.commute unat_div unat_mod unat_exp_u64 mod_mult_right_eq)
  ultimately show ?thesis using assms by (simp add: page_mask_and y_def)
qed

text \<open>The 32-bit mask loses \<open>2 ^ 32\<close> bytes, as pages, each time the rounded-up range of an element passes a
  multiple of 4 GiB.\<close>

definition sge_crossings :: "nat \<Rightarrow> roce_sge \<Rightarrow> nat" where
  "sge_crossings page s = (unat (sge_addr s) mod 2 ^ 32 + unat (sge_length s) + page - 1) div 2 ^ 32"

lemma of_int_mult_div:
  assumes "k < 32"
  shows "(ucast ((of_int (d * 2 ^ k) :: u64) div 2 ^ k) :: u32) = of_int d"
proof -
  have "uint (of_int (d * 2 ^ k) :: u64) = (d mod 2 ^ (64 - k)) * 2 ^ k"
  proof -
    have "(2 :: int) ^ 64 = 2 ^ (64 - k) * 2 ^ k" using assms by (simp flip: power_add)
    moreover have "uint (of_int (d * 2 ^ k) :: u64) = d * 2 ^ k mod 2 ^ 64" by (simp only: uint_word_of_int) simp
    ultimately show ?thesis by (simp only: mult_mod_left)
  qed
  moreover have "uint (2 ^ k :: u64) = 2 ^ k"
    using assms by (simp add: uint_nat unat_exp_u64)
  ultimately have "uint ((of_int (d * 2 ^ k) :: u64) div 2 ^ k) = d mod 2 ^ (64 - k)"
    by (simp add: uint_div)
  then have "(ucast ((of_int (d * 2 ^ k) :: u64) div 2 ^ k) :: u32) = of_int (d mod 2 ^ (64 - k))"
    by (metis of_int_uint)
  also have "\<dots> = of_int d"
  proof -
    have "(2 :: int) ^ 32 dvd 2 ^ (64 - k)" using assms by (intro le_imp_power_dvd) simp
    then have "d mod 2 ^ (64 - k) mod 2 ^ 32 = d mod 2 ^ 32" by (rule mod_mod_cancel)
    then show ?thesis by (simp add: word_of_int_eq_iff take_bit_eq_mod)
  qed
  finally show ?thesis .
qed

lemma sge_pages1_exact:
  assumes "k < 32"
  shows "sge_pages1 (2 ^ k) s = of_nat (pages_spanned (2 ^ k) (unat (sge_addr s)) (unat (sge_length s)))
    - of_nat (sge_crossings (2 ^ k) s * 2 ^ (32 - k))"
proof -
  define a where "a = unat (sge_addr s)"
  define len where "len = unat (sge_length s)"
  define l where "l = a mod 2 ^ 32"
  define t where "t = l + len + 2 ^ k - 1"
  define c where "c = sge_crossings (2 ^ k) s"
  define h where "h = a div 2 ^ 32 * 2 ^ (32 - k)"
  have split: "(2 :: nat) ^ 32 = 2 ^ (32 - k) * 2 ^ k" using assms by (simp flip: power_add)
  have one: "(1 :: nat) \<le> 2 ^ k" by simp
  have a: "a = h * 2 ^ k + l"
    using div_mult_mod_eq[of a "2 ^ 32"] unfolding h_def l_def split by (simp only: mult.assoc)
  define x where "x = sge_addr s + ucast (sge_length s) + ucast (2 ^ k :: u32) - 1"
  have ps: "(ucast (2 ^ k :: u32) :: u64) = 2 ^ k"
    using assms by (intro bit_word_eqI) (auto simp: bit_unsigned_iff bit_exp_iff)
  have "(of_nat (a + len + 2 ^ k - 1) :: u64) = of_nat (a + len + 2 ^ k) - of_nat 1"
    by (rule of_nat_diff) (simp add: trans_le_add2)
  then have x: "x = of_nat (a + len + 2 ^ k - 1)" by (simp add: x_def ps a_def len_def)
  have at: "a + len + 2 ^ k - 1 = a div 2 ^ 32 * 2 ^ 32 + t"
    using div_mult_mod_eq[of a "2 ^ 32"] one unfolding t_def l_def by linarith
  have "unat x mod 2 ^ 32 = (a + len + 2 ^ k - 1) mod 2 ^ 64 mod 2 ^ 32"
    unfolding x by (simp only: unat_of_nat) simp
  also have "\<dots> = t mod 2 ^ 32" unfolding at by (simp add: mod_mod_cancel)
  finally have up: "unat (x AND sge_page_mask (2 ^ k)) = t mod 2 ^ 32 div 2 ^ k * 2 ^ k"
    using assms by (simp add: unat_page_mask_and)
  have down: "unat (sge_addr s AND sge_page_mask (2 ^ k)) = l div 2 ^ k * 2 ^ k"
    using assms by (simp add: unat_page_mask_and l_def a_def)
  have "t = c * 2 ^ 32 + t mod 2 ^ 32" by (simp add: c_def sge_crossings_def t_def l_def a_def len_def)
  then have "t div 2 ^ k = (t mod 2 ^ 32 + (c * 2 ^ (32 - k)) * 2 ^ k) div 2 ^ k"
    unfolding split by (simp only: mult.assoc add.commute)
  then have td: "t div 2 ^ k = c * 2 ^ (32 - k) + t mod 2 ^ 32 div 2 ^ k" by simp
  have mono: "l div 2 ^ k \<le> t div 2 ^ k" using one unfolding t_def by (intro div_le_mono) linarith
  define n where "n = pages_spanned (2 ^ k) a len"
  have n: "n = t div 2 ^ k - l div 2 ^ k"
  proof -
    have "a + len + 2 ^ k - 1 = t + h * 2 ^ k" using a one unfolding t_def by linarith
    then have "(a + len + 2 ^ k - 1) div 2 ^ k = h + t div 2 ^ k" by simp
    moreover have "a div 2 ^ k = h + l div 2 ^ k" unfolding a by simp
    ultimately show ?thesis by (simp add: n_def pages_spanned_def)
  qed
  define d where "d = int n - int (c * 2 ^ (32 - k))"
  have d: "d = int (t mod 2 ^ 32 div 2 ^ k) - int (l div 2 ^ k)"
    unfolding d_def n of_nat_diff[OF mono] unfolding td by simp
  have "(x AND sge_page_mask (2 ^ k)) - (sge_addr s AND sge_page_mask (2 ^ k)) =
      of_nat (t mod 2 ^ 32 div 2 ^ k * 2 ^ k) - of_nat (l div 2 ^ k * 2 ^ k)"
    unfolding up[symmetric] down[symmetric] by simp
  also have "\<dots> = of_int (d * 2 ^ k)" unfolding d by (simp add: algebra_simps)
  finally have "ucast (((x AND sge_page_mask (2 ^ k)) - (sge_addr s AND sge_page_mask (2 ^ k))) div 2 ^ k) = (of_int d :: u32)"
    using of_int_mult_div[OF assms, of d] by (simp only:)
  also have "\<dots> = of_nat n - of_nat (c * 2 ^ (32 - k))" by (simp only: d_def of_int_diff of_int_of_nat_eq)
  finally show ?thesis by (simp add: sge_pages1_def Let_def ps x_def n_def c_def a_def len_def)
qed

lemma sge_pages_exact:
  assumes "k < 32"
  shows "roce_sge_pages sges (2 ^ k) =
    Inr (of_nat (\<Sum>s\<leftarrow>sges. pages_spanned (2 ^ k) (unat (sge_addr s)) (unat (sge_length s)))
      - of_nat ((\<Sum>s\<leftarrow>sges. sge_crossings (2 ^ k) s) * 2 ^ (32 - k)))"
proof -
  have "(ucast (2 ^ k :: u32) :: u64) = 2 ^ k"
    using assms by (intro bit_word_eqI) (auto simp: bit_unsigned_iff bit_exp_iff)
  then have "roce_power_of_2 (ucast (2 ^ k :: u32))" using assms by (simp add: power_of_2_exp)
  moreover have "foldl (\<lambda>pages s. pages + sge_pages1 (2 ^ k) s) p sges =
    p + of_nat (\<Sum>s\<leftarrow>sges. pages_spanned (2 ^ k) (unat (sge_addr s)) (unat (sge_length s)))
      - of_nat ((\<Sum>s\<leftarrow>sges. sge_crossings (2 ^ k) s) * 2 ^ (32 - k))" for p
    by (induction sges arbitrary: p) (simp_all add: sge_pages1_exact[OF assms] algebra_simps)
  ultimately show ?thesis by (simp add: roce_sge_pages_def)
qed

text \<open>Below that line the code counts what \<open>pages_spanned\<close> says.\<close>

definition sge_below_line :: "nat \<Rightarrow> roce_sge \<Rightarrow> bool" where
  "sge_below_line page s \<longleftrightarrow> unat (sge_addr s) mod 2 ^ 32 + unat (sge_length s) + page - 1 < 2 ^ 32"

lemma no_crossings: "list_all (sge_below_line page) sges \<Longrightarrow> (\<Sum>s\<leftarrow>sges. sge_crossings page s) = 0"
  by (induction sges) (simp_all add: sge_below_line_def sge_crossings_def)

lemma sge_pages_spanned:
  assumes "k < 32" "list_all (sge_below_line (2 ^ k)) sges"
  shows "roce_sge_pages sges (2 ^ k) =
    Inr (of_nat (\<Sum>s\<leftarrow>sges. pages_spanned (2 ^ k) (unat (sge_addr s)) (unat (sge_length s))))"
  unfolding sge_pages_exact[OF assms(1)] no_crossings[OF assms(2)] by simp

text \<open>The pages, by their numbers, that the bytes of an element lie on.\<close>

definition pages_touched :: "nat \<Rightarrow> roce_sge \<Rightarrow> nat set" where
  "pages_touched page s = (\<lambda>a. a div page) ` {unat (sge_addr s)..<unat (sge_addr s) + unat (sge_length s)}"

lemma div_image:
  fixes p :: nat
  assumes "0 < p" "0 < n"
  shows "(\<lambda>x. x div p) ` {a..<a + n} = {a div p..(a + n - 1) div p}"
proof
  show "(\<lambda>x. x div p) ` {a..<a + n} \<subseteq> {a div p..(a + n - 1) div p}" by (auto intro!: div_le_mono)
  show "{a div p..(a + n - 1) div p} \<subseteq> (\<lambda>x. x div p) ` {a..<a + n}"
  proof
    fix q assume q: "q \<in> {a div p..(a + n - 1) div p}"
    show "q \<in> (\<lambda>x. x div p) ` {a..<a + n}"
    proof (cases "q = a div p")
      case False
      then have "Suc (a div p) \<le> q" using q by simp
      then have "Suc (a div p) * p \<le> q * p" by (rule mult_le_mono1)
      moreover have "a < Suc (a div p) * p" using dividend_less_div_times[OF assms(1), of a] by (simp add: add.commute)
      moreover have "q * p \<le> (a + n - 1) div p * p" using q by simp
      moreover have "(a + n - 1) div p * p \<le> a + n - 1" by simp
      ultimately have "a \<le> q * p" "q * p \<le> a + n - 1" by linarith+
      then have "q * p \<in> {a..<a + n}" using assms(2) by simp
      then show ?thesis using assms(1) by (intro image_eqI[of _ _ "q * p"]) simp_all
    qed (use assms(2) in auto)
  qed
qed

lemma card_pages_touched:
  assumes "0 < page" "sge_length s \<noteq> 0"
  shows "card (pages_touched page s) = pages_spanned page (unat (sge_addr s)) (unat (sge_length s))"
proof -
  define a n where "a = unat (sge_addr s)" and "n = unat (sge_length s)"
  have n: "0 < n" using assms(2) by (simp add: n_def unat_gt_0)
  have "a + n + page - 1 = (a + n - 1) + page" using n by simp
  then have "(a + n + page - 1) div page = ((a + n - 1) + page) div page" by (rule arg_cong)
  also have "\<dots> = Suc ((a + n - 1) div page)" using assms(1) by (simp only: div_add_self2 neq0_conv Suc_eq_plus1)
  finally have "(a + n + page - 1) div page = Suc ((a + n - 1) div page)" .
  then have "pages_spanned page a n = card {a div page..(a + n - 1) div page}" by (simp only: pages_spanned_def card_atLeastAtMost)
  also have "\<dots> = card (pages_touched page s)"
    unfolding pages_touched_def a_def[symmetric] n_def[symmetric] div_image[OF assms(1) n] ..
  finally show ?thesis by (simp only: a_def n_def)
qed

subsection \<open>Properties\<close>

text \<open>\<open>roce_sge_advance\<close> cuts a prefix off the stream of an SGE list: from any cursor inside the
  list it writes SGEs that name exactly the next \<open>bytes\<close> bytes, keys and addresses included, returns
  how many it wrote, and leaves the cursor at the first byte not taken.\<close>

theorem roce_sge_advance_prefix:
  assumes "sge_cursor src i off" "bytes \<noteq> 0" "unat bytes \<le> length (sge_stream src i off)"
  shows "\<exists>dst i' off'. roce_sge_advance src bytes i off = Inr (length dst, i', off', dst) \<and>
    sges_bytes dst = take (unat bytes) (sge_stream src i off) \<and>
    sge_stream src i' off' = drop (unat bytes) (sge_stream src i off) \<and> sge_cursor src i' off'"
  using assms by (rule sge_advance_run)

lemma roce_sge_advance_prefix_witness:
  "\<exists>dst i' off'. roce_sge_advance [\<lparr>sge_addr = 16, sge_length = 2, sge_lkey = 1\<rparr>,
        \<lparr>sge_addr = 64, sge_length = 3, sge_lkey = 2\<rparr>] 3 0 1 = Inr (length dst, i', off', dst) \<and>
    sges_bytes dst = [(1, 17), (2, 64), (2, 65)]"
  using roce_sge_advance_prefix[of "[\<lparr>sge_addr = 16, sge_length = 2, sge_lkey = 1\<rparr>,
        \<lparr>sge_addr = 64, sge_length = 3, sge_lkey = 2\<rparr>]" 0 1 3]
  by (force simp: sge_cursor_def sge_stream_def sges_bytes_def sge_bytes_def upt_rec)

text \<open>\<open>roce_sge_len\<close> counts the bytes from the cursor to the end of the list, and aborts when
  they are 2^32 or more instead of returning a wrapped count.\<close>

theorem roce_sge_len_counts:
  assumes "length sges < 2 ^ 32" "sge_cursor sges i off" "i < length sges"
  shows "roce_sge_len sges i off =
    (if length (sge_stream sges i off) < 2 ^ 32 then Inr (of_nat (length (sge_stream sges i off)))
     else Inl Assert_failed)"
  using assms by (rule sge_len_stream)

lemma roce_sge_len_counts_witness:
  "roce_sge_len [\<lparr>sge_addr = 16, sge_length = 2, sge_lkey = 1\<rparr>,
     \<lparr>sge_addr = 64, sge_length = 3, sge_lkey = 2\<rparr>] 0 1 = Inr 4"
  using roce_sge_len_counts[of "[\<lparr>sge_addr = 16, sge_length = 2, sge_lkey = 1\<rparr>,
     \<lparr>sge_addr = 64, sge_length = 3, sge_lkey = 2\<rparr>]" 0 1]
  by (simp add: sge_cursor_def sge_stream_def)

text \<open>C36: \<open>roce_sge_pages\<close> counts, for each element, the pages that its bytes lie on, and adds these counts up
  without loss, for elements that are not empty and do not come within a page of the next multiple of 4 GiB, and
  while the sum fits into 32 bits.\<close>

theorem roce_sge_pages_counts:
  assumes "k < 32" "list_all (sge_below_line (2 ^ k)) sges" "\<forall>s \<in> set sges. sge_length s \<noteq> 0"
    "(\<Sum>s\<leftarrow>sges. card (pages_touched (2 ^ k) s)) < 2 ^ 32"
  shows "\<exists>n. roce_sge_pages sges (2 ^ k) = Inr n \<and> unat n = (\<Sum>s\<leftarrow>sges. card (pages_touched (2 ^ k) s))"
proof -
  have "map (\<lambda>s. pages_spanned (2 ^ k) (unat (sge_addr s)) (unat (sge_length s))) sges =
      map (\<lambda>s. card (pages_touched (2 ^ k) s)) sges"
    using assms(3) by (simp add: card_pages_touched)
  then have e: "(\<Sum>s\<leftarrow>sges. pages_spanned (2 ^ k) (unat (sge_addr s)) (unat (sge_length s))) =
      (\<Sum>s\<leftarrow>sges. card (pages_touched (2 ^ k) s))" by (rule arg_cong)
  show ?thesis
    using sge_pages_spanned[OF assms(1,2)] assms(4) unfolding e by (simp add: unat_of_nat)
qed

lemma roce_sge_pages_counts_witness:
  "\<exists>n. roce_sge_pages [\<lparr>sge_addr = 0x100000ff0, sge_length = 32, sge_lkey = 0\<rparr>] (2 ^ 12) = Inr n \<and> unat n = 2"
proof -
  let ?s = "\<lparr>sge_addr = 0x100000ff0, sge_length = 32, sge_lkey = 0\<rparr>"
  have "card (pages_touched (2 ^ 12) ?s) = 2" by (simp add: card_pages_touched pages_spanned_def)
  then show ?thesis using roce_sge_pages_counts[of 12 "[?s]"] by (simp add: sge_below_line_def)
qed



end
