(* ===== verification/Mr.thy ===== *)
theory Mr
  imports Ah Cq Sge
begin

text \<open>
  Memory regions (\<open>mr.c\<close>): creation, keys, references (all or none for the SGEs of a work request),
  deferred destruction, and \<open>roce_mr_map_sge\<close>, which checks that a work request may touch the memory
  it names and translates its SGEs to host vectors. What each operation keeps of the reference counts is
  here, with the references of the queue pairs as a parameter; \<open>Ctx_Reach\<close> puts it together for all
  runs of the library.
\<close>

subsection \<open>Operations\<close>

definition roce_key_to_index :: "u32 \<Rightarrow> u32" where
  "roce_key_to_index key = drop_bit 8 key"

text \<open>The argument \<open>rnd\<close> is the value of \<open>random()\<close>.\<close>

definition roce_new_key :: "u32 \<Rightarrow> u32 \<Rightarrow> u32" where
  "roce_new_key index rnd = push_bit 8 index OR (rnd mod 256)"

definition roce_mr_zero :: roce_mr where
  "roce_mr_zero = \<lparr>handle = 0, ref = 0, mr_ctx = 0, mr_pd = 0, mr_state = ROCE_MR_STATE_INVALID,
     mr_type = ROCE_MR_MEM, mr_iova = 0, mr_length = 0, mr_lkey = 0, mr_rkey = 0, mr_access = 0,
     mr_page_size = 0, mr_iovs = []\<rparr>"

text \<open>The switch over the type: an error, or the state and the pages of the new region.\<close>

definition mr_type_setup ::
  "'a roce_base_scheme \<Rightarrow> u32 \<Rightarrow> roce_mr_type \<Rightarrow> u32 \<Rightarrow> iov list \<Rightarrow>
   (int + (roce_mr_state \<times> iov list)) run" where
  "mr_type_setup ctx psize type len iovs = (case type of
       ROCE_MR_MEM \<Rightarrow>
         bindR (roce_iov_len iovs) (\<lambda>total.
           if total > unat (max_mr_size (dev_attr ctx)) then Inr (Inl (- EINVAL))
           else if len = 0 then Inr (Inl (- EINVAL))
           else Inr (Inr (ROCE_MR_STATE_VALID, iovs)))
     | ROCE_MR_FRMR \<Rightarrow>
         if iovs \<noteq> [] then Inr (Inl (- EINVAL))
         else if len = 0 \<or> len < page_size ctx \<or> len mod psize \<noteq> 0 then Inr (Inl (- EINVAL))
         else Inr (Inr (ROCE_MR_STATE_FREE, []))
     | ROCE_MR_DMA \<Rightarrow> Inr (Inr (ROCE_MR_STATE_VALID, []))
     | ROCE_MR_MAX \<Rightarrow> Inr (Inl (- ENOTSUP)))"

record roce_mr_args =
  a_type :: roce_mr_type
  a_iova :: u64
  a_length :: u32
  a_access :: u32
  a_iovs :: "iov list"
  a_page_size :: u32
  a_mr_ctx :: u64
  a_rnd_lkey :: u32
  a_rnd_rkey :: u32

definition mr_init :: "roce_mr_args \<Rightarrow> u32 \<Rightarrow> u32 \<Rightarrow> roce_mr_state \<Rightarrow> iov list \<Rightarrow> u32 \<Rightarrow> roce_mr" where
  "mr_init a psize pdh state iovs h = \<lparr>handle = h, ref = 0, mr_ctx = a_mr_ctx a, mr_pd = pdh,
     mr_state = state, mr_type = a_type a, mr_iova = a_iova a, mr_length = a_length a,
     mr_lkey = roce_new_key h (a_rnd_lkey a), mr_rkey = roce_new_key h (a_rnd_rkey a),
     mr_access = a_access a, mr_page_size = psize, mr_iovs = iovs\<rparr>"

definition roce_create_mr ::
  "'a roce_base_scheme \<Rightarrow> u32 \<Rightarrow> roce_mr_args \<Rightarrow> bool \<Rightarrow> (int \<times> 'a roce_base_scheme) run" where
  "roce_create_mr ctx pd_handle a mem_ok =
     (let psize = (if a_page_size a \<noteq> 0 then a_page_size a else page_size ctx);
          fail = (\<lambda>ctx' e. bindR (put_pd_checked ctx' pd_handle) (\<lambda>ctx''. Inr (e, ctx''))) in
      if a_page_size a \<noteq> 0 \<and> (psize < page_size ctx \<or> \<not> roce_power_of_2 (ucast psize))
      then Inr (- EINVAL, ctx)
      else bindR (roce_get_pd ctx pd_handle) (\<lambda>(pd, ctx1). case pd of
          None \<Rightarrow> Inr (- EINVAL, ctx1)
        | Some p \<Rightarrow>
            if \<not> mem_ok then fail ctx1 (- ENOMEM)
            else bindR (mr_type_setup ctx1 psize (a_type a) (a_length a) (a_iovs a)) (\<lambda>cfg. case cfg of
                Inl e \<Rightarrow> fail ctx1 e
              | Inr (state, iovs) \<Rightarrow>
                  bindR (res_install (mr_res ctx1)
                           (roce_mr_zero\<lparr>mr_state := state, mr_iovs := iovs\<rparr>)
                           (mr_init a psize (handle p) state iovs)) (\<lambda>(key, rs).
                    if key < 0 then fail (ctx1\<lparr>mr_res := rs\<rparr>) key
                    else Inr (key, ctx1\<lparr>mr_res := rs\<rparr>)))))"

definition roce_get_mr_noref :: "'a roce_base_scheme \<Rightarrow> u32 \<Rightarrow> roce_mr option run" where
  "roce_get_mr_noref ctx mr_handle = roce_resource_get (mr_res ctx) mr_handle"

definition roce_get_mr ::
  "'a roce_base_scheme \<Rightarrow> u32 \<Rightarrow> (roce_mr option \<times> 'a roce_base_scheme) run" where
  "roce_get_mr ctx mr_handle =
     bindR (res_ref (mr_res ctx) mr_handle) (\<lambda>(mr, rs). Inr (mr, ctx\<lparr>mr_res := rs\<rparr>))"

definition roce_get_mr_by_key ::
  "'a roce_base_scheme \<Rightarrow> u32 \<Rightarrow> (roce_mr option \<times> 'a roce_base_scheme) run" where
  "roce_get_mr_by_key ctx lkey = roce_get_mr ctx (roce_key_to_index lkey)"

definition roce_destroy_mr ::
  "'a roce_base_scheme \<Rightarrow> u32 \<Rightarrow> (int \<times> 'a roce_base_scheme) run" where
  "roce_destroy_mr ctx mr_handle =
     bindR (roce_get_mr_noref ctx mr_handle) (\<lambda>mr. case mr of
         None \<Rightarrow> Inr (- EINVAL, ctx)
       | Some m \<Rightarrow>
           if ref m \<noteq> 0 then
             Inr (0, ctx\<lparr>mr_res := res_update (mr_res ctx) mr_handle
                       (m\<lparr>mr_state := ROCE_MR_STATE_DESTROYED\<rparr>)\<rparr>)
           else bindR (roce_resource_free (mr_res ctx) mr_handle) (\<lambda>(ret, rs).
             let ctx1 = ctx\<lparr>mr_res := rs\<rparr> in
             if ret \<noteq> 0 then Inr (ret, ctx1)
             else bindR (put_pd_checked ctx1 (mr_pd m)) (\<lambda>ctx2. Inr (0, ctx2))))"

definition roce_put_mr :: "'a roce_base_scheme \<Rightarrow> u32 \<Rightarrow> 'a roce_base_scheme run" where
  "roce_put_mr ctx mr_handle =
     bindR (roce_get_mr_noref ctx mr_handle) (\<lambda>mr. case mr of
         None \<Rightarrow> Inr ctx
       | Some m \<Rightarrow>
           let ctx1 = ctx\<lparr>mr_res := res_update (mr_res ctx) mr_handle (m\<lparr>ref := ref m - 1\<rparr>)\<rparr> in
           if mr_state m = ROCE_MR_STATE_DESTROYED
           then bindR (roce_destroy_mr ctx1 mr_handle) (\<lambda>(ret, ctx2). Inr ctx2)
           else Inr ctx1)"

definition roce_get_mrs ::
  "'a roce_base_scheme \<Rightarrow> roce_sge list \<Rightarrow> (int \<times> 'a roce_base_scheme) run" where
  "roce_get_mrs ctx sges =
     bindR (acquire (\<lambda>c h. got (roce_get_mr c h)) roce_put_mr []
              (map (\<lambda>sge. roce_key_to_index (sge_lkey sge)) sges) ctx) (\<lambda>(ok, ctx').
       Inr (if ok then 0 else - EACCES, ctx'))"

definition roce_put_mrs :: "'a roce_base_scheme \<Rightarrow> roce_sge list \<Rightarrow> 'a roce_base_scheme run" where
  "roce_put_mrs ctx sges =
     release roce_put_mr (map (\<lambda>sge. roce_key_to_index (sge_lkey sge)) sges) ctx"

definition roce_get_mr_key :: "'a roce_base_scheme \<Rightarrow> u32 \<Rightarrow> (int \<times> (u32 \<times> u32) option) run" where
  "roce_get_mr_key ctx mr_handle = bindR (roce_get_mr_noref ctx mr_handle) (\<lambda>mr. case mr of
       None \<Rightarrow> Inr (- EINVAL, None)
     | Some m \<Rightarrow> Inr (0, Some (mr_lkey m, mr_rkey m)))"

text \<open>
  One round of the loop of \<open>roce_mr_map_sge\<close>: an error, or the entries appended to \<open>iovs\<close>, the type
  of the region and the value stored through \<open>dmamap\<close>. \<open>None\<close> stands for an entry that is counted
  but not written, as \<open>roce_iov_copy\<close> leaves it when the pages of the region end early. \<open>dma\<close> is
  the \<open>dma_map\<close> callback.
\<close>

definition map_sge1 ::
  "'a roce_base_scheme \<Rightarrow> u32 \<Rightarrow> roce_qp_type \<Rightarrow> bool \<Rightarrow> u32 \<Rightarrow> (u64 \<Rightarrow> u32 \<Rightarrow> u64 option) \<Rightarrow>
   roce_sge \<Rightarrow> roce_mr_type \<Rightarrow> (int + (iov option list \<times> roce_mr_type \<times> bool)) run" where
  "map_sge1 ctx pd qp_type loc access dma sge cur_type =
     bindR (roce_get_mr_noref ctx (roce_key_to_index (sge_lkey sge))) (\<lambda>mr. case mr of
         None \<Rightarrow> Inr (Inl (- EACCES))
       | Some m \<Rightarrow>
           if (if loc then mr_lkey m else mr_rkey m) \<noteq> sge_lkey sge then Inr (Inl (- EACCES))
           else if mr_pd m \<noteq> pd then Inr (Inl (- EACCES))
           else if mr_state m \<noteq> ROCE_MR_STATE_VALID then Inr (Inl (- EACCES))
           else if access AND mr_access m \<noteq> access then Inr (Inl (- EACCES))
           else if cur_type \<noteq> ROCE_MR_MAX \<and> cur_type \<noteq> mr_type m then Inr (Inl (- EACCES))
           else if mr_type m = ROCE_MR_DMA then
             (if qp_type \<noteq> ROCE_QPT_GSI then Inr (Inl (- EACCES))
              else Inr (Inr ([Some \<lparr>iov_base = dma (sge_addr sge) (sge_length sge),
                                   iov_len = unat (sge_length sge)\<rparr>], mr_type m, True)))
           else if sge_addr sge < mr_iova m \<or>
             sge_addr sge + ucast (sge_length sge) > mr_iova m + ucast (mr_length m)
           then Inr (Inl (- EACCES))
           else
             (let psize = ucast (mr_page_size m) :: u64;
                  off_pages = unat (ucast (sge_addr sge div psize - mr_iova m div psize) :: u32);
                  off_bytes = unat (ucast (sge_addr sge mod psize) :: u32) in
              if off_pages > length (mr_iovs m) then Inl Out_of_bounds
              else bindR (roce_iov_copy (drop off_pages (mr_iovs m)) off_bytes (unat (sge_length sge)))
                (\<lambda>(n, ds). Inr (Inr (map Some ds @ replicate (n - length ds) None, mr_type m, False)))))"

fun map_sge_loop ::
  "'a roce_base_scheme \<Rightarrow> u32 \<Rightarrow> roce_qp_type \<Rightarrow> bool \<Rightarrow> u32 \<Rightarrow> (u64 \<Rightarrow> u32 \<Rightarrow> u64 option) \<Rightarrow>
   roce_sge list \<Rightarrow> roce_mr_type \<Rightarrow> iov option list \<Rightarrow> bool option \<Rightarrow>
   (int + (iov option list \<times> bool option)) run" where
  "map_sge_loop ctx pd qp_type loc access dma [] cur_type iovs dmamap = Inr (Inr (iovs, dmamap))"
| "map_sge_loop ctx pd qp_type loc access dma (sge # sges) cur_type iovs dmamap =
     bindR (map_sge1 ctx pd qp_type loc access dma sge cur_type) (\<lambda>r. case r of
         Inl e \<Rightarrow> Inr (Inl e)
       | Inr (new, ty, dm) \<Rightarrow>
           map_sge_loop ctx pd qp_type loc access dma sges ty (iovs @ new) (Some dm))"

text \<open>An error code, or the entries (their number is the return value) and \<open>dmamap\<close>.\<close>

definition roce_mr_map_sge ::
  "'a roce_base_scheme \<Rightarrow> u32 \<Rightarrow> roce_qp_type \<Rightarrow> roce_sge list \<Rightarrow> bool \<Rightarrow> u32 \<Rightarrow>
   (u64 \<Rightarrow> u32 \<Rightarrow> u64 option) \<Rightarrow> (int + (iov option list \<times> bool option)) run" where
  "roce_mr_map_sge ctx pd qp_type sges loc access dma =
     map_sge_loop ctx pd qp_type loc access dma sges ROCE_MR_MAX [] None"

subsection \<open>References to regions\<close>

abbreviation mr_map :: "'a roce_base_scheme \<Rightarrow> u32 \<Rightarrow> roce_mr option" where
  "mr_map ctx \<equiv> res_map (mr_res ctx)"

definition mr_doomed :: "'a roce_base_scheme \<Rightarrow> u32 \<Rightarrow> bool" where
  "mr_doomed ctx h \<longleftrightarrow> (\<exists>m. mr_map ctx h = Some m \<and> mr_state m = ROCE_MR_STATE_DESTROYED)"

text \<open>A region that waits for its destruction is still referenced.\<close>

definition mr_wf :: "'a roce_base_scheme \<Rightarrow> bool" where
  "mr_wf ctx \<longleftrightarrow> res_wf (mr_res ctx) \<and>
     (\<forall>h m. mr_map ctx h = Some m \<and> mr_state m = ROCE_MR_STATE_DESTROYED \<longrightarrow> ref m \<noteq> 0)"

lemma get_mr_some:
  "res_wf (mr_res ctx) \<Longrightarrow> mr_map ctx h = Some m \<Longrightarrow>
   roce_get_mr ctx h = Inr (Some (m\<lparr>ref := ref m + 1\<rparr>),
     ctx\<lparr>mr_res := res_update (mr_res ctx) h (m\<lparr>ref := ref m + 1\<rparr>)\<rparr>)"
  by (simp add: roce_get_mr_def res_ref_some)

lemma get_mr_none [simp]:
  "res_wf (mr_res ctx) \<Longrightarrow> mr_map ctx h = None \<Longrightarrow> roce_get_mr ctx h = Inr (None, ctx)"
  by (simp add: roce_get_mr_def)

lemma res_update_twice:
  "res_wf rs \<Longrightarrow> res_map rs h = Some x \<Longrightarrow> res_update (res_update rs h y) h z = res_update rs h z"
  by (cases rs; cases "res_addr rs") (auto simp: res_update_def addr_write_def)

text \<open>A put that leaves a reference only counts down.\<close>

lemma put_mr_counts:
  assumes "mr_wf ctx" "mr_map ctx h = Some m" "mr_state m = ROCE_MR_STATE_DESTROYED \<longrightarrow> ref m - 1 \<noteq> 0"
  shows "roce_put_mr ctx h = Inr (ctx\<lparr>mr_res := res_update (mr_res ctx) h (m\<lparr>ref := ref m - 1\<rparr>)\<rparr>)"
proof -
  let ?rs = "res_update (mr_res ctx) h (m\<lparr>ref := ref m - 1\<rparr>)"
  have wf: "res_wf (mr_res ctx)" using assms(1) by (simp add: mr_wf_def)
  note upd = res_update_wf[OF wf assms(2), of "m\<lparr>ref := ref m - 1\<rparr>", simplified]
  show ?thesis
  proof (cases "mr_state m = ROCE_MR_STATE_DESTROYED")
    case True
    then have e: "m\<lparr>ref := ref m - 1, mr_state := ROCE_MR_STATE_DESTROYED\<rparr> = m\<lparr>ref := ref m - 1\<rparr>"
      by (cases m) simp
    have "roce_destroy_mr (ctx\<lparr>mr_res := ?rs\<rparr>) h = Inr (0, ctx\<lparr>mr_res := ?rs\<rparr>)"
      using upd True assms(3)
      by (simp add: roce_destroy_mr_def roce_get_mr_noref_def res_get_map
          res_update_twice[OF wf assms(2)] e)
    then show ?thesis
      using True assms(2) wf by (simp add: roce_put_mr_def roce_get_mr_noref_def res_get_map Let_def)
  next
    case False
    then show ?thesis
      using assms(2) wf by (simp add: roce_put_mr_def roce_get_mr_noref_def res_get_map Let_def)
  qed
qed

lemma mr_wf_update:
  assumes "mr_wf ctx" "mr_map ctx h = Some m" "handle m' = handle m"
    "mr_state m' = ROCE_MR_STATE_DESTROYED \<longrightarrow> ref m' \<noteq> 0"
  shows "mr_wf (ctx\<lparr>mr_res := res_update (mr_res ctx) h m'\<rparr>)"
  using assms res_update_wf[of "mr_res ctx" h m m'] by (auto simp: mr_wf_def)

lemma mr_doomed_update:
  assumes "res_wf (mr_res ctx)" "mr_map ctx h = Some m" "handle m' = handle m" "mr_state m' = mr_state m"
  shows "mr_doomed (ctx\<lparr>mr_res := res_update (mr_res ctx) h m'\<rparr>) = mr_doomed ctx"
  using assms res_update_wf[of "mr_res ctx" h m m'] by (auto simp: mr_doomed_def fun_eq_iff)

interpretation mr: refcounted mr_wf "\<lambda>ctx. res_refs (mr_res ctx)" mr_doomed
  "\<lambda>ctx h. got (roce_get_mr ctx h)" roce_put_mr
proof (unfold_locales, goal_cases)
  case (1 s h)
  then show ?case by (simp add: got_def res_refs_def mr_wf_def)
next
  case (2 s h n)
  then obtain m where m: "mr_map s h = Some m" "unat (ref m) = n" by (auto simp: res_refs_def)
  have wf: "res_wf (mr_res s)" using 2(1) by (simp add: mr_wf_def)
  have inc: "unat (ref m + 1) = Suc n" using m(2) 2(3) by (rule unat_inc)
  then have "ref m + 1 \<noteq> 0" by (metis unat_0 nat.distinct(1))
  then show ?case
    using res_refs_update[OF wf m(1), of "m\<lparr>ref := ref m + 1\<rparr>"] inc
      mr_wf_update[OF 2(1) m(1), of "m\<lparr>ref := ref m + 1\<rparr>"]
      mr_doomed_update[OF wf m(1), of "m\<lparr>ref := ref m + 1\<rparr>"]
    by (simp add: got_def get_mr_some[OF wf m(1)])
next
  case (3 s h n)
  then obtain m where m: "mr_map s h = Some m" "unat (ref m) = Suc n" by (auto simp: res_refs_def)
  have wf: "res_wf (mr_res s)" using 3(1) by (simp add: mr_wf_def)
  have dec: "unat (ref m - 1) = n" using m(2) by (rule unat_dec)
  have nz: "mr_state m = ROCE_MR_STATE_DESTROYED \<longrightarrow> ref m - 1 \<noteq> 0"
    using 3(3) m(1) dec by (auto simp: mr_doomed_def)
  then show ?case
    using res_refs_update[OF wf m(1), of "m\<lparr>ref := ref m - 1\<rparr>"] dec
      mr_wf_update[OF 3(1) m(1), of "m\<lparr>ref := ref m - 1\<rparr>"]
      mr_doomed_update[OF wf m(1), of "m\<lparr>ref := ref m - 1\<rparr>"]
    by (simp add: put_mr_counts[OF 3(1) m(1)])
next
  case (4 s h)
  then obtain m where "mr_map s h = Some m" "ref m \<noteq> 0" by (auto simp: mr_doomed_def mr_wf_def)
  then show ?case by (simp add: res_refs_def) (metis not0_implies_Suc unat_0_iff)
qed

subsection \<open>The reference count of a PD is the number of its users\<close>

definition pd_users :: "'a roce_base_scheme \<Rightarrow> u32 \<Rightarrow> nat" where
  "pd_users ctx h = holders (ah_map ctx) (\<lambda>a. ah_pd a = h) + holders (mr_map ctx) (\<lambda>m. mr_pd m = h)"

text \<open>\<open>extra\<close> counts the references held by others: the QPs.\<close>

definition refs_ok :: "(u32 \<Rightarrow> nat) \<Rightarrow> 'a roce_base_scheme \<Rightarrow> bool" where
  "refs_ok extra ctx \<longleftrightarrow> ctx_wf ctx \<and> mr_wf ctx \<and>
     (\<forall>k a. ah_map ctx k = Some a \<longrightarrow> pd_map ctx (ah_pd a) \<noteq> None) \<and>
     (\<forall>k m. mr_map ctx k = Some m \<longrightarrow> pd_map ctx (mr_pd m) \<noteq> None) \<and>
     (\<forall>h p. pd_map ctx h = Some p \<longrightarrow> unat (ref p) = pd_users ctx h + extra h) \<and>
     (\<forall>h. extra h \<le> 2 ^ 24)"

lemma refs_okD:
  assumes "refs_ok extra ctx"
  shows "res_wf (pd_res ctx)" "res_wf (cq_res ctx)" "res_wf (mr_res ctx)" "res_wf (ah_res ctx)" "mr_wf ctx"
    "ah_map ctx k = Some a \<Longrightarrow> pd_map ctx (ah_pd a) \<noteq> None"
    "mr_map ctx k = Some m \<Longrightarrow> pd_map ctx (mr_pd m) \<noteq> None"
    "pd_map ctx h = Some p \<Longrightarrow> unat (ref p) = pd_users ctx h + extra h"
  using assms by (auto simp: refs_ok_def)

lemma pd_users_bound: "ctx_wf ctx \<Longrightarrow> pd_users ctx h \<le> 2 * 2 ^ 24"
  unfolding pd_users_def
  using holders_bound[of "ah_res ctx" "\<lambda>a. ah_pd a = h"] holders_bound[of "mr_res ctx" "\<lambda>m. mr_pd m = h"]
  by simp

text \<open>One more user of a live PD, together with one more reference.\<close>

lemma refs_ok_take:
  assumes ok: "refs_ok extra ctx" and p: "pd_map ctx h = Some p"
    and wf: "ctx_wf ctx'" "mr_wf ctx'"
    and pds: "pd_map ctx' = (pd_map ctx)(h \<mapsto> p\<lparr>ref := ref p + 1\<rparr>)"
    and users: "\<And>k. pd_users ctx' k = pd_users ctx k + (if k = h then 1 else 0)"
    and ahs: "\<And>k a. ah_map ctx' k = Some a \<Longrightarrow> ah_map ctx k = Some a \<or> ah_pd a = h"
    and mrs: "\<And>k m. mr_map ctx' k = Some m \<Longrightarrow> mr_map ctx k = Some m \<or> mr_pd m = h"
  shows "refs_ok extra ctx'"
proof -
  have "unat (ref p) = pd_users ctx h + extra h" using refs_okD(8)[OF ok p] .
  moreover have "extra h \<le> 2 ^ 24" "ctx_wf ctx" using ok by (simp_all add: refs_ok_def)
  ultimately have "unat (ref p + 1) = Suc (pd_users ctx h + extra h)"
    using pd_users_bound[of ctx h] by (intro unat_inc) simp_all
  then show ?thesis
    using ok wf users unfolding refs_ok_def pds
    by (auto dest!: ahs mrs split: if_splits)
qed

lemma refs_ok_give:
  assumes ok: "refs_ok extra ctx" and p: "pd_map ctx h = Some p"
    and wf: "ctx_wf ctx'" "mr_wf ctx'"
    and pds: "pd_map ctx' = (pd_map ctx)(h \<mapsto> p\<lparr>ref := ref p - 1\<rparr>)"
    and users: "\<And>k. pd_users ctx k = pd_users ctx' k + (if k = h then 1 else 0)"
    and ahs: "\<And>k a. ah_map ctx' k = Some a \<Longrightarrow> ah_map ctx k = Some a"
    and mrs: "\<And>k m. mr_map ctx' k = Some m \<Longrightarrow> mr_map ctx k = Some m"
  shows "refs_ok extra ctx'"
proof -
  have "unat (ref p) = Suc (pd_users ctx' h + extra h)"
    using refs_okD(8)[OF ok p] users[of h] by simp
  then have "unat (ref p - 1) = pd_users ctx' h + extra h" by (rule unat_dec)
  moreover have "pd_users ctx' k = pd_users ctx k" if "k \<noteq> h" for k using users[of k] that by simp
  ultimately show ?thesis
    using ok wf unfolding refs_ok_def pds
    by (auto dest!: ahs mrs split: if_splits)
qed

lemma mr_wf_other [simp]:
  "mr_wf (ctx\<lparr>pd_res := a\<rparr>) = mr_wf ctx" "mr_wf (ctx\<lparr>ah_res := b\<rparr>) = mr_wf ctx"
  "mr_wf (ctx\<lparr>cq_res := c\<rparr>) = mr_wf ctx"
  by (simp_all add: mr_wf_def)

lemma refs_ok_create_ah:
  assumes ok: "refs_ok extra ctx" and run: "roce_create_ah ctx pdh attr c mem_ok = Inr (ret, ctx')"
  shows "refs_ok extra ctx'"
proof -
  note wf = refs_okD(1-5)[OF ok]
  from create_ah_cases[OF wf(1,4), of pdh attr c mem_ok] run show ?thesis
  proof (elim disjE exE conjE)
    fix h p rs
    let ?a = "\<lparr>handle = h, ref = 0, ah_pd = pdh, ah_attr = attr, ah_ctx = c\<rparr>"
    assume h: "roce_create_ah ctx pdh attr c mem_ok =
        Inr (uint h, ctx\<lparr>pd_res := res_update (pd_res ctx) pdh (p\<lparr>ref := ref p + 1\<rparr>), ah_res := rs\<rparr>)"
      "pd_map ctx pdh = Some p" "ah_map ctx h = None" "res_wf rs" "res_map rs = (ah_map ctx)(h \<mapsto> ?a)"
    note upd = res_update_wf[OF wf(1) h(2), of "p\<lparr>ref := ref p + 1\<rparr>", simplified]
    have ctx': "ctx' = ctx\<lparr>pd_res := res_update (pd_res ctx) pdh (p\<lparr>ref := ref p + 1\<rparr>), ah_res := rs\<rparr>"
      using h(1) run by simp
    show ?thesis
    proof (rule refs_ok_take[OF ok h(2)])
      show "pd_users ctx' k = pd_users ctx k + (if k = pdh then 1 else 0)" for k
        using holders_new[of "ah_map ctx" h ?a "\<lambda>a. ah_pd a = k"] h(3) by (simp add: ctx' h(5) pd_users_def)
    qed (use upd wf h in \<open>auto simp: ctx' split: if_splits\<close>)
  qed (use ok in simp)
qed

lemma refs_ok_destroy_ah:
  assumes ok: "refs_ok extra ctx"
  shows "\<exists>ret ctx'. roce_destroy_ah ctx h = Inr (ret, ctx') \<and> refs_ok extra ctx'"
proof -
  note wf = refs_okD(1-5)[OF ok]
  note cases = destroy_ah_cases[OF wf(1,4), of h]
  show ?thesis
  proof (cases "ah_map ctx h")
    case None
    then show ?thesis using cases ok by simp
  next
    case (Some a)
    show ?thesis
    proof (cases "ref a = 0")
      case False
      then show ?thesis using cases Some ok refs_okD(6)[OF ok] by auto
    next
      case True
      have "\<exists>rs p. roce_destroy_ah ctx h = Inr (0, ctx\<lparr>ah_res := rs,
            pd_res := res_update (pd_res ctx) (ah_pd a) (p\<lparr>ref := ref p - 1\<rparr>)\<rparr>) \<and>
          pd_map ctx (ah_pd a) = Some p \<and> res_wf rs \<and> res_size rs = res_size (ah_res ctx) \<and>
          res_map rs = (ah_map ctx)(h := None)"
        using cases Some True refs_okD(6)[OF ok] by simp
      then obtain rs p where r: "roce_destroy_ah ctx h = Inr (0, ctx\<lparr>ah_res := rs,
            pd_res := res_update (pd_res ctx) (ah_pd a) (p\<lparr>ref := ref p - 1\<rparr>)\<rparr>)"
        "pd_map ctx (ah_pd a) = Some p" "res_wf rs" "res_map rs = (ah_map ctx)(h := None)" by blast
      let ?ctx' = "ctx\<lparr>ah_res := rs, pd_res := res_update (pd_res ctx) (ah_pd a) (p\<lparr>ref := ref p - 1\<rparr>)\<rparr>"
      note upd = res_update_wf[OF wf(1) r(2), of "p\<lparr>ref := ref p - 1\<rparr>", simplified]
      have "refs_ok extra ?ctx'"
      proof (rule refs_ok_give[OF ok r(2)])
        show "pd_users ctx k = pd_users ?ctx' k + (if k = ah_pd a then 1 else 0)" for k
          using holders_del[of "ah_map ctx" h a "\<lambda>a. ah_pd a = k"] Some by (simp add: r(4) pd_users_def)
      qed (use upd wf r in \<open>auto split: if_splits\<close>)
      then show ?thesis using r(1) by blast
    qed
  qed
qed

lemma refs_ok_alloc_pd:
  assumes ok: "refs_ok extra ctx" and fresh: "\<And>h. pd_map ctx h = None \<Longrightarrow> extra h = 0"
  shows "\<exists>ret ctx'. roce_alloc_pd ctx c mem_ok = Inr (ret, ctx') \<and> refs_ok extra ctx'"
proof -
  note wf = refs_okD(1-5)[OF ok]
  obtain ret rs where r: "roce_alloc_pd ctx c mem_ok = Inr (ret, ctx\<lparr>pd_res := rs\<rparr>)" "res_wf rs"
    "rs = pd_res ctx \<or> (\<exists>h. pd_map ctx h = None \<and>
       res_map rs = (pd_map ctx)(h \<mapsto> \<lparr>handle = h, ref = 0, pd_ctx = c\<rparr>))"
    using alloc_pd_cases[OF wf(1), of c mem_ok] by blast
  from r(3) have "refs_ok extra (ctx\<lparr>pd_res := rs\<rparr>)"
  proof (elim disjE exE conjE)
    assume "rs = pd_res ctx"
    then show ?thesis using ok by simp
  next
    fix h
    assume h: "pd_map ctx h = None" "res_map rs = (pd_map ctx)(h \<mapsto> \<lparr>handle = h, ref = 0, pd_ctx = c\<rparr>)"
    have "ah_map ctx k = Some a \<Longrightarrow> ah_pd a \<noteq> h" "mr_map ctx k = Some m \<Longrightarrow> mr_pd m \<noteq> h" for k a m
      using refs_okD(6,7)[OF ok] h(1) by metis+
    then have "pd_users ctx h = 0"
      unfolding pd_users_def holders_def by (auto simp: card_eq_0_iff)
    moreover have "pd_users (ctx\<lparr>pd_res := rs\<rparr>) k = pd_users ctx k" for k by (simp add: pd_users_def)
    ultimately show ?thesis using ok h r(2) fresh[OF h(1)] unfolding refs_ok_def by auto
  qed
  then show ?thesis using r(1) by blast
qed

lemma refs_ok_dealloc_pd:
  assumes ok: "refs_ok extra ctx"
  shows "\<exists>ret ctx'. roce_dealloc_pd ctx h = Inr (ret, ctx') \<and> refs_ok extra ctx' \<and>
    (pd_map ctx h \<noteq> None \<and> 0 < pd_users ctx h + extra h \<longrightarrow> ret = - EBUSY \<and> ctx' = ctx)"
proof (cases "pd_map ctx h")
  case None
  then show ?thesis using dealloc_pd_cases[OF refs_okD(1)[OF ok], of h] ok by simp
next
  case (Some p)
  note cnt = refs_okD(8)[OF ok Some]
  show ?thesis
  proof (cases "ref p = 0")
    case False
    then show ?thesis using dealloc_pd_cases[OF refs_okD(1)[OF ok], of h] ok Some by simp
  next
    case True
    then have z: "pd_users ctx h = 0" "extra h = 0" using cnt by simp_all
    obtain rs where r: "roce_dealloc_pd ctx h = Inr (0, ctx\<lparr>pd_res := rs\<rparr>)" "res_wf rs"
      "res_map rs = (pd_map ctx)(h := None)"
      using dealloc_pd_cases[OF refs_okD(1)[OF ok], of h] Some True by auto
    have "ah_map ctx k = Some a \<Longrightarrow> ah_pd a \<noteq> h" "mr_map ctx k = Some m \<Longrightarrow> mr_pd m \<noteq> h" for k a m
      using z(1) holders_pos[of "ah_map ctx" k a "\<lambda>a. ah_pd a = h"]
        holders_pos[of "mr_map ctx" k m "\<lambda>m. mr_pd m = h"] by (auto simp: pd_users_def)
    moreover have "pd_users (ctx\<lparr>pd_res := rs\<rparr>) k = pd_users ctx k" for k by (simp add: pd_users_def)
    ultimately have "refs_ok extra (ctx\<lparr>pd_res := rs\<rparr>)"
      using ok r(2,3) unfolding refs_ok_def by auto
    then show ?thesis using r(1) z by auto
  qed
qed

lemma mr_type_setup_result:
  "mr_type_setup ctx psize ty len iovs = Inl f \<Longrightarrow> ty = ROCE_MR_MEM \<and> iovs = []"
  "mr_type_setup ctx psize ty len iovs = Inr (Inl e) \<Longrightarrow> e < 0"
  "mr_type_setup ctx psize ty len iovs = Inr (Inr (st, vs)) \<Longrightarrow>
     st = (if ty = ROCE_MR_FRMR then ROCE_MR_STATE_FREE else ROCE_MR_STATE_VALID)"
  by (auto simp: mr_type_setup_def roce_iov_len_def bindR_def assertR_def
      split: roce_mr_type.splits if_splits)

text \<open>
  Creation either fails and leaves everything as it was, or aborts on a memory region without pages,
  or installs a new region at a free handle and counts one more reference to the PD.
\<close>

lemma create_mr_cases:
  assumes "res_wf (pd_res ctx)" "res_wf (mr_res ctx)"
  shows "(\<exists>e. roce_create_mr ctx pdh a mem_ok = Inr (e, ctx) \<and> e < 0) \<or>
    (\<exists>f. roce_create_mr ctx pdh a mem_ok = Inl f \<and> a_type a = ROCE_MR_MEM \<and> a_iovs a = []) \<or>
    (\<exists>h p rs psize st vs. roce_create_mr ctx pdh a mem_ok =
        Inr (uint h, ctx\<lparr>pd_res := res_update (pd_res ctx) pdh (p\<lparr>ref := ref p + 1\<rparr>), mr_res := rs\<rparr>) \<and>
      pd_map ctx pdh = Some p \<and> mr_map ctx h = None \<and> res_wf rs \<and>
      res_map rs = (mr_map ctx)(h \<mapsto> mr_init a psize pdh st vs h) \<and> st \<noteq> ROCE_MR_STATE_DESTROYED)"
proof (cases "a_page_size a \<noteq> 0 \<and> (a_page_size a < page_size ctx \<or> \<not> roce_power_of_2 (ucast (a_page_size a)))")
  case True
  then have "roce_create_mr ctx pdh a mem_ok = Inr (- EINVAL, ctx)" by (simp add: roce_create_mr_def Let_def)
  then show ?thesis by simp
next
  case size: False
  define psize where "psize = (if a_page_size a \<noteq> 0 then a_page_size a else page_size ctx)"
  show ?thesis
  proof (cases "pd_map ctx pdh")
    case None
    then have "roce_create_mr ctx pdh a mem_ok = Inr (- EINVAL, ctx)"
      using size assms by (auto simp: roce_create_mr_def Let_def)
    then show ?thesis by simp
  next
    case (Some p)
    let ?ctx1 = "ctx\<lparr>pd_res := res_update (pd_res ctx) pdh (p\<lparr>ref := ref p + 1\<rparr>)\<rparr>"
    have undo: "put_pd_checked ?ctx1 pdh = Inr ctx" using assms(1) Some by (rule get_put_pd)
    have get: "roce_get_pd ctx pdh = Inr (Some (p\<lparr>ref := ref p + 1\<rparr>), ?ctx1)"
      using assms(1) Some by (rule get_pd_some)
    have hp: "handle p = pdh" using assms(1) Some by (rule res_map_handle)
    let ?cfg = "mr_type_setup ?ctx1 psize (a_type a) (a_length a) (a_iovs a)"
    consider "\<not> mem_ok" | f where "mem_ok" "?cfg = Inl f" | e where "mem_ok" "?cfg = Inr (Inl e)"
      | st vs where "mem_ok" "?cfg = Inr (Inr (st, vs))"
      by (cases ?cfg) (auto split: sum.splits, metis obj_sumE surj_pair)
    then show ?thesis
    proof cases
      case 1
      have "roce_create_mr ctx pdh a mem_ok = Inr (- ENOMEM, ctx)"
        using size get undo 1 by (auto simp: roce_create_mr_def Let_def psize_def)
      then show ?thesis by simp
    next
      case (2 f)
      have "roce_create_mr ctx pdh a mem_ok = Inl f"
        using size get 2 by (auto simp: roce_create_mr_def Let_def psize_def)
      then show ?thesis using mr_type_setup_result(1)[OF 2(2)] by simp
    next
      case (3 e)
      have "roce_create_mr ctx pdh a mem_ok = Inr (e, ctx)"
        using size get undo 3 by (auto simp: roce_create_mr_def Let_def psize_def)
      then show ?thesis using mr_type_setup_result(2)[OF 3(2)] by simp
    next
      case (4 st vs)
      let ?i = "mr_init a psize pdh st vs"
      obtain ret rs where r: "res_install (mr_res ctx) (roce_mr_zero\<lparr>mr_state := st, mr_iovs := vs\<rparr>) ?i = Inr (ret, rs)"
        "res_wf rs" "(ret = - EBUSY \<and> rs = mr_res ctx) \<or> (\<exists>h. ret = uint h \<and> mr_map ctx h = None \<and>
           res_map rs = (mr_map ctx)(h \<mapsto> ?i h))"
        using res_install_cases[OF assms(2), of ?i "roce_mr_zero\<lparr>mr_state := st, mr_iovs := vs\<rparr>"]
        by (auto simp: mr_init_def)
      have st: "st \<noteq> ROCE_MR_STATE_DESTROYED"
        using mr_type_setup_result(3)[OF 4(2)] by (simp split: if_splits)
      from r(3) show ?thesis
      proof (elim disjE exE conjE)
        assume "ret = - EBUSY" "rs = mr_res ctx"
        then have "roce_create_mr ctx pdh a mem_ok = Inr (- EBUSY, ctx)"
          using size get undo 4 r(1) hp by (auto simp: roce_create_mr_def Let_def psize_def)
        then show ?thesis by simp
      next
        fix h
        assume h: "ret = uint h" "mr_map ctx h = None" "res_map rs = (mr_map ctx)(h \<mapsto> ?i h)"
        then have "roce_create_mr ctx pdh a mem_ok = Inr (uint h, ?ctx1\<lparr>mr_res := rs\<rparr>)"
          using size get 4 r(1) hp by (auto simp: roce_create_mr_def Let_def psize_def)
        then show ?thesis using h r(2) Some st
          by (intro disjI2 exI[of _ h] exI[of _ p] exI[of _ rs] exI[of _ psize] exI[of _ st] exI[of _ vs]) simp
      qed
    qed
  qed
qed

lemma refs_ok_create_mr:
  assumes ok: "refs_ok extra ctx" and run: "roce_create_mr ctx pdh a mem_ok = Inr (ret, ctx')"
  shows "refs_ok extra ctx'"
proof -
  note wf = refs_okD(1-5)[OF ok]
  from create_mr_cases[OF wf(1,3), of pdh a mem_ok] run show ?thesis
  proof (elim disjE exE conjE)
    fix h p rs psize st vs
    let ?m = "mr_init a psize pdh st vs h"
    assume h: "roce_create_mr ctx pdh a mem_ok =
        Inr (uint h, ctx\<lparr>pd_res := res_update (pd_res ctx) pdh (p\<lparr>ref := ref p + 1\<rparr>), mr_res := rs\<rparr>)"
      "pd_map ctx pdh = Some p" "mr_map ctx h = None" "res_wf rs" "res_map rs = (mr_map ctx)(h \<mapsto> ?m)"
      "st \<noteq> ROCE_MR_STATE_DESTROYED"
    note upd = res_update_wf[OF wf(1) h(2), of "p\<lparr>ref := ref p + 1\<rparr>", simplified]
    have ctx': "ctx' = ctx\<lparr>pd_res := res_update (pd_res ctx) pdh (p\<lparr>ref := ref p + 1\<rparr>), mr_res := rs\<rparr>"
      using h(1) run by simp
    have m: "mr_pd ?m = pdh" "mr_state ?m = st" by (simp_all add: mr_init_def)
    have "mr_wf ctx'" using wf(5) h(4-6) m by (auto simp: mr_wf_def ctx')
    moreover have "pd_users ctx' k = pd_users ctx k + (if k = pdh then 1 else 0)" for k
      using holders_new[of "mr_map ctx" h ?m "\<lambda>m. mr_pd m = k"] h(3) m by (simp add: ctx' h(5) pd_users_def)
    ultimately show ?thesis
      by (intro refs_ok_take[OF ok h(2)]) (use upd wf h m in \<open>auto simp: ctx' split: if_splits\<close>)
  qed (use ok in simp_all)
qed

text \<open>An update of a region that leaves its PD alone.\<close>

lemma refs_ok_update_mr:
  assumes ok: "refs_ok extra ctx" and m: "mr_map ctx h = Some m" "handle m' = handle m" "mr_pd m' = mr_pd m"
    "mr_state m' = ROCE_MR_STATE_DESTROYED \<longrightarrow> ref m' \<noteq> 0"
  shows "refs_ok extra (ctx\<lparr>mr_res := res_update (mr_res ctx) h m'\<rparr>)"
proof -
  note upd = res_update_wf[OF refs_okD(3)[OF ok] m(1,2)]
  have "pd_users (ctx\<lparr>mr_res := res_update (mr_res ctx) h m'\<rparr>) k = pd_users ctx k" for k
    using holders_upd[of "mr_map ctx" h m "\<lambda>m. mr_pd m = k" m'] m upd by (simp add: pd_users_def)
  moreover have "mr_wf (ctx\<lparr>mr_res := res_update (mr_res ctx) h m'\<rparr>)"
    using refs_okD(5)[OF ok] m(1,2,4) by (rule mr_wf_update)
  ultimately show ?thesis using ok m upd unfolding refs_ok_def by auto
qed

lemma res_free_update:
  assumes "res_wf rs" "res_map rs h = Some x"
  shows "roce_resource_free (res_update rs h y) h = Inr (0, addr_write rs (unat h) None)"
proof -
  have h: "h < res_size rs" using assms by (rule res_map_bound)
  obtain addr where a: "res_addr rs = Some addr" "length addr = unat (res_size rs)"
    using assms h by (auto simp: res_wf_def res_map_def split: option.splits)
  then show ?thesis using h
    by (simp add: roce_resource_free_def addr_read_def res_update_def addr_write_def word_less_nat_alt not_le)
qed

lemma destroy_mr_last:
  assumes ok: "refs_ok extra ctx" and m: "mr_map ctx h = Some m" "ref m = 0"
  shows "\<exists>ctx'. roce_destroy_mr ctx h = Inr (0, ctx') \<and> refs_ok extra ctx' \<and> mr_map ctx' = (mr_map ctx)(h := None)"
proof -
  note wf = refs_okD(1-5)[OF ok]
  obtain p where p: "pd_map ctx (mr_pd m) = Some p" using refs_okD(7)[OF ok m(1)] by auto
  obtain rs where r: "roce_resource_free (mr_res ctx) h = Inr (0, rs)" "res_wf rs"
    "res_map rs = (mr_map ctx)(h := None)" using res_free_map[OF wf(3) m(1)] by auto
  let ?ctx' = "ctx\<lparr>mr_res := rs, pd_res := res_update (pd_res ctx) (mr_pd m) (p\<lparr>ref := ref p - 1\<rparr>)\<rparr>"
  have "put_pd_checked (ctx\<lparr>mr_res := rs\<rparr>) (mr_pd m) = Inr ?ctx'"
    using wf(1) p by (simp add: put_pd_checked_some)
  then have run: "roce_destroy_mr ctx h = Inr (0, ?ctx')"
    using r(1) m wf(3) by (simp add: roce_destroy_mr_def roce_get_mr_noref_def res_get_map Let_def)
  note upd = res_update_wf[OF wf(1) p, of "p\<lparr>ref := ref p - 1\<rparr>", simplified]
  have "mr_wf ?ctx'" using wf(5) r by (auto simp: mr_wf_def)
  moreover have "pd_users ctx k = pd_users ?ctx' k + (if k = mr_pd m then 1 else 0)" for k
    using holders_del[of "mr_map ctx" h m "\<lambda>m. mr_pd m = k"] m(1) by (simp add: r(3) pd_users_def)
  ultimately have "refs_ok extra ?ctx'"
    by (intro refs_ok_give[OF ok p]) (use upd wf r in \<open>auto split: if_splits\<close>)
  then show ?thesis using run r(3) by auto
qed

lemma refs_ok_destroy_mr:
  assumes ok: "refs_ok extra ctx"
  shows "\<exists>ret ctx'. roce_destroy_mr ctx h = Inr (ret, ctx') \<and> refs_ok extra ctx'"
proof (cases "mr_map ctx h")
  case None
  then show ?thesis
    using ok refs_okD(3)[OF ok] by (simp add: roce_destroy_mr_def roce_get_mr_noref_def res_get_map)
next
  case (Some m)
  show ?thesis
  proof (cases "ref m = 0")
    case True
    then show ?thesis using destroy_mr_last[OF ok Some] by blast
  next
    case False
    then show ?thesis
      using Some refs_okD(3)[OF ok] refs_ok_update_mr[OF ok Some, of "m\<lparr>mr_state := ROCE_MR_STATE_DESTROYED\<rparr>"]
      by (simp add: roce_destroy_mr_def roce_get_mr_noref_def res_get_map)
  qed
qed

text \<open>The put does not test for a reference: without one the count wraps, which keeps the region and its PD.\<close>

lemma refs_ok_put_mr:
  assumes ok: "refs_ok extra ctx"
  shows "\<exists>ctx'. roce_put_mr ctx h = Inr ctx' \<and> refs_ok extra ctx'"
proof (cases "mr_map ctx h")
  case None
  then show ?thesis
    using ok refs_okD(3)[OF ok] by (simp add: roce_put_mr_def roce_get_mr_noref_def res_get_map)
next
  case (Some m)
  let ?m' = "m\<lparr>ref := ref m - 1\<rparr>" and ?ctx1 = "ctx\<lparr>mr_res := res_update (mr_res ctx) h (m\<lparr>ref := ref m - 1\<rparr>)\<rparr>"
  show ?thesis
  proof (cases "mr_state m = ROCE_MR_STATE_DESTROYED \<and> ref m = 1")
    case False
    then show ?thesis
      using put_mr_counts[OF refs_okD(5)[OF ok] Some] refs_ok_update_mr[OF ok Some, of ?m'] by auto
  next
    case True
    let ?valid = "m\<lparr>ref := 0, mr_state := ROCE_MR_STATE_VALID\<rparr>"
    let ?ctx2 = "ctx\<lparr>mr_res := res_update (mr_res ctx) h ?valid\<rparr>"
    note wf = refs_okD(3)[OF ok]
    have ok2: "refs_ok extra ?ctx2" using ok Some by (rule refs_ok_update_mr) simp_all
    have map2: "mr_map ?ctx2 h = Some ?valid" using res_update_wf[OF wf Some, of ?valid] by simp
    obtain ctx' where ctx': "roce_destroy_mr ?ctx2 h = Inr (0, ctx')" "refs_ok extra ctx'"
      using destroy_mr_last[OF ok2 map2] by auto
    have "roce_destroy_mr ?ctx1 h = roce_destroy_mr ?ctx2 h"
      using True res_update_wf[OF wf Some, of ?m'] res_update_wf[OF wf Some, of ?valid]
      by (simp add: roce_destroy_mr_def roce_get_mr_noref_def res_get_map res_free_update[OF wf Some])
    then have "roce_put_mr ctx h = Inr ctx'"
      using True Some wf ctx' by (simp add: roce_put_mr_def roce_get_mr_noref_def res_get_map Let_def)
    then show ?thesis using ctx'(2) by blast
  qed
qed

lemma refs_ok_cq: "refs_ok extra ctx \<Longrightarrow> res_wf rs \<Longrightarrow> refs_ok extra (ctx\<lparr>cq_res := rs\<rparr>)"
  by (simp add: refs_ok_def pd_users_def)

subsection \<open>The references of work requests\<close>

definition mrs_live :: "'a roce_base_scheme \<Rightarrow> roce_sge list \<Rightarrow> bool" where
  "mrs_live ctx sges \<longleftrightarrow> (\<forall>s \<in> set sges. mr_map ctx (roce_key_to_index (sge_lkey s)) \<noteq> None)"

definition mrs_room :: "'a roce_base_scheme \<Rightarrow> roce_sge list \<Rightarrow> bool" where
  "mrs_room ctx sges \<longleftrightarrow> (\<forall>h m. mr_map ctx h = Some m \<longrightarrow> unat (ref m) + length sges < 2 ^ 32)"

lemma get_mrs_run:
  assumes "mr_wf ctx" "mrs_room ctx sges"
  shows "\<exists>ctx'. roce_get_mrs ctx sges = Inr (if mrs_live ctx sges then 0 else - EACCES, ctx') \<and>
    mr_wf ctx' \<and> mr_doomed ctx' = mr_doomed ctx \<and>
    res_refs (mr_res ctx') =
      (if mrs_live ctx sges
       then mr.bump (map (\<lambda>s. roce_key_to_index (sge_lkey s)) sges) (res_refs (mr_res ctx))
       else res_refs (mr_res ctx))"
proof -
  let ?hs = "map (\<lambda>s. roce_key_to_index (sge_lkey s)) sges"
  let ?ok = "\<forall>h \<in> set ?hs. res_refs (mr_res ctx) h \<noteq> None"
  have ok: "?ok \<longleftrightarrow> mrs_live ctx sges"
    by (auto simp: res_refs_def mrs_live_def)
  have "\<exists>ctx'. acquire (\<lambda>c h. got (roce_get_mr c h)) roce_put_mr [] ?hs ctx = Inr (?ok, ctx') \<and> mr_wf ctx' \<and>
    res_refs (mr_res ctx') = (if ?ok then mr.bump (?hs @ []) (res_refs (mr_res ctx)) else res_refs (mr_res ctx)) \<and>
    mr_doomed ctx' = mr_doomed ctx"
  proof (rule mr.acquire_all)
    show "res_refs (mr_res ctx) = mr.bump [] (res_refs (mr_res ctx))" by (simp add: mr.bump_simps)
    show "res_refs (mr_res ctx) h \<noteq> Some 0" if "mr_doomed ctx h" for h
      using mr.doomed_held[OF assms(1) that] by auto
    show "n + length [] + length ?hs < 2 ^ 32" if "res_refs (mr_res ctx) h = Some n" for h n
      using that assms(2) by (auto simp: res_refs_def mrs_room_def)
  qed (use assms(1) in simp_all)
  then show ?thesis unfolding ok by (auto simp: roce_get_mrs_def)
qed

lemma put_mrs_run:
  assumes "mr_wf ctx" "res_refs (mr_res ctx) = mr.bump (map (\<lambda>s. roce_key_to_index (sge_lkey s)) sges) r"
    "\<forall>s \<in> set sges. r (roce_key_to_index (sge_lkey s)) \<noteq> None" "\<And>h. mr_doomed ctx h \<Longrightarrow> r h \<noteq> Some 0"
  shows "\<exists>ctx'. roce_put_mrs ctx sges = Inr ctx' \<and> mr_wf ctx' \<and> res_refs (mr_res ctx') = r"
  unfolding roce_put_mrs_def using mr.release_all[OF assms(1,2)] assms(3,4) by fastforce

subsection \<open>Properties of the objects and their references\<close>

text \<open>C30: \<open>roce_get_mrs\<close> is all or nothing: it references the region of every SGE, once per SGE, or,
  when one of them does not exist, fails with \<open>-EACCES\<close> and leaves every count as it was.\<close>

theorem roce_get_mrs_all_or_none:
  assumes "mr_wf ctx" "mrs_room ctx sges"
  shows "\<exists>ctx'. roce_get_mrs ctx sges = Inr (if mrs_live ctx sges then 0 else - EACCES, ctx') \<and>
    (\<forall>h. res_refs (mr_res ctx') h = map_option (\<lambda>n. n + (if mrs_live ctx sges
       then count_list (map (\<lambda>s. roce_key_to_index (sge_lkey s)) sges) h else 0)) (res_refs (mr_res ctx) h))"
  using get_mrs_run[OF assms] by (auto simp: mr.bump_def option.map_ident)

definition sample_mr :: roce_mr where
  "sample_mr = mr_init \<lparr>a_type = ROCE_MR_MEM, a_iova = 0x2000, a_length = 0x2000,
     a_access = ROCE_ACCESS_REMOTE_WRITE, a_iovs = [], a_page_size = 0, a_mr_ctx = 0, a_rnd_lkey = 0x11,
     a_rnd_rkey = 0x22\<rparr> 4096 0 ROCE_MR_STATE_VALID
     [\<lparr>iov_base = Some 0x10000, iov_len = 4096\<rparr>, \<lparr>iov_base = Some 0x50000, iov_len = 4096\<rparr>] 1"

definition small_base1 :: roce_base where
  "small_base1 = small_base\<lparr>pd_res := \<lparr>res_size = 2,
     res_addr = Some [Some \<lparr>handle = 0, ref = 0, pd_ctx = 7\<rparr>, None]\<rparr>\<rparr>"

definition small_base3 :: roce_base where
  "small_base3 = small_base1\<lparr>mr_res := \<lparr>res_size = 2, res_addr = Some [None, Some sample_mr]\<rparr>\<rparr>"

lemma small_base3_mrs: "mr_map small_base3 = [1 \<mapsto> sample_mr]"
  by (auto simp: small_base3_def small_base1_def res_map_two)

lemma small_base3_wf: "mr_wf small_base3"
proof -
  have "res_wf (mr_res small_base3)"
    by (simp add: res_wf_def small_base3_mrs)
      (simp add: small_base3_def ROCE_MAX_GENERAL_def sample_mr_def mr_init_def)
  then show ?thesis by (simp add: mr_wf_def small_base3_mrs sample_mr_def mr_init_def)
qed

definition sample_sges :: "roce_sge list" where
  "sample_sges = [\<lparr>sge_addr = 0x2ff0, sge_length = 32, sge_lkey = 0x111\<rparr>]"

lemma sample_sges_live: "mrs_live small_base3 sample_sges" "mrs_room small_base3 sample_sges"
  by (simp_all add: mrs_live_def mrs_room_def sample_sges_def roce_key_to_index_def small_base3_mrs
      sample_mr_def mr_init_def)

lemma roce_get_mrs_all_or_none_witness:
  "\<exists>ctx'. roce_get_mrs small_base3 sample_sges = Inr (0, ctx')"
  using roce_get_mrs_all_or_none[OF small_base3_wf sample_sges_live(2)] sample_sges_live(1) by auto

text \<open>C31: Putting the regions of a work request gives back exactly the references that getting them
  took: every count is what it was, and no region is destroyed.\<close>

theorem roce_get_put_mrs:
  assumes "mr_wf ctx" "mrs_room ctx sges" "roce_get_mrs ctx sges = Inr (0, ctx')"
  shows "\<exists>ctx''. roce_put_mrs ctx' sges = Inr ctx'' \<and> res_refs (mr_res ctx'') = res_refs (mr_res ctx)"
proof -
  have live: "mrs_live ctx sges" using get_mrs_run[OF assms(1,2)] assms(3) by (auto split: if_splits)
  then have c: "mr_wf ctx'" "mr_doomed ctx' = mr_doomed ctx" "res_refs (mr_res ctx') =
      mr.bump (map (\<lambda>s. roce_key_to_index (sge_lkey s)) sges) (res_refs (mr_res ctx))"
    using get_mrs_run[OF assms(1,2)] assms(3) by auto
  have "res_refs (mr_res ctx) h \<noteq> Some 0" if "mr_doomed ctx' h" for h
    using mr.doomed_held[OF assms(1)] that c(2) by fastforce
  then show ?thesis
    using put_mrs_run[OF c(1,3)] live by (auto simp: res_refs_def mrs_live_def)
qed

lemma roce_get_put_mrs_witness:
  "\<exists>ctx' ctx''. roce_get_mrs small_base3 sample_sges = Inr (0, ctx') \<and>
     roce_put_mrs ctx' sample_sges = Inr ctx'' \<and> res_refs (mr_res ctx'') = res_refs (mr_res small_base3)"
  using roce_get_put_mrs[OF small_base3_wf sample_sges_live(2)]
    get_mrs_run[OF small_base3_wf sample_sges_live(2)] sample_sges_live(1) by force

end
