(* ===== verification/Port.thy ===== *)
theory Port
  imports State
begin

text \<open>
  Ports (\<open>port.c\<close>). A context has one port, number 1. The GID table has eight entries; an entry of
  all zeros is free. The table index of the calls is not checked, which the model shows as
  \<open>Out_of_bounds\<close>.
\<close>

subsection \<open>Operations\<close>

definition port_valid :: "u8 \<Rightarrow> bool" where
  "port_valid port \<longleftrightarrow> \<not> (port = 0 \<or> unat port > ROCE_MAX_PORTS)"

text \<open>Reading and writing \<open>ctx->ports[port - 1]\<close>.\<close>

definition port_at :: "'a roce_base_scheme \<Rightarrow> u8 \<Rightarrow> roce_port run" where
  "port_at ctx port = (if port \<noteq> 0 \<and> unat port \<le> length (ports ctx)
     then Inr (ports ctx ! (unat port - 1)) else Inl Out_of_bounds)"

definition port_set :: "'a roce_base_scheme \<Rightarrow> u8 \<Rightarrow> roce_port \<Rightarrow> 'a roce_base_scheme" where
  "port_set ctx port p = ctx\<lparr>ports := (ports ctx)[unat port - 1 := p]\<rparr>"

text \<open>The attributes are the caller's: defaults are filled in through the pointer.\<close>

definition roce_init_port ::
  "'a roce_base_scheme \<Rightarrow> u8 \<Rightarrow> roce_port_attr \<Rightarrow> (int \<times> roce_port_attr \<times> 'a roce_base_scheme) run" where
  "roce_init_port ctx port attr =
     (if \<not> port_valid port then Inr (- EINVAL, attr, ctx)
      else if \<not> roce_valid_mtu (max_mtu attr) \<or> \<not> roce_valid_mtu (active_mtu attr) then
        Inr (- EINVAL, attr, ctx)
      else if active_mtu attr > max_mtu attr then Inr (- EINVAL, attr, ctx)
      else if unat (gid_tbl_len attr) > ROCE_GID_TBL_LEN then Inr (- EINVAL, attr, ctx)
      else
        let attr1 = (if gid_tbl_len attr = 0 then attr\<lparr>gid_tbl_len := of_nat ROCE_GID_TBL_LEN\<rparr> else attr) in
        if unat (pkey_tbl_len attr1) > ROCE_MAX_PKEY then Inr (- EINVAL, attr1, ctx)
        else
          let attr2 = (if pkey_tbl_len attr1 = 0 then attr1\<lparr>pkey_tbl_len := of_nat ROCE_MAX_PKEY\<rparr> else attr1);
              attr3 = (if max_msg_sz attr2 = 0 then attr2\<lparr>max_msg_sz := 32 * 1024 * 1024\<rparr> else attr2)
          in bindR (port_at ctx port) (\<lambda>p.
               Inr (0, attr3, port_set ctx port (p\<lparr>port_attr := attr3\<rparr>))))"

definition roce_set_port_mac ::
  "'a roce_base_scheme \<Rightarrow> u8 \<Rightarrow> u8 list \<Rightarrow> (int \<times> 'a roce_base_scheme) run" where
  "roce_set_port_mac ctx port mac =
     (if \<not> port_valid port then Inr (- EINVAL, ctx)
      else bindR (port_at ctx port) (\<lambda>p.
        Inr (0, port_set ctx port (p\<lparr>port_mac := take ROCE_MAC_LEN mac\<rparr>))))"

definition roce_set_port_vnet ::
  "'a roce_base_scheme \<Rightarrow> u8 \<Rightarrow> u8 \<Rightarrow> (int \<times> 'a roce_base_scheme) run" where
  "roce_set_port_vnet ctx port vnet =
     (if \<not> port_valid port then Inr (- EINVAL, ctx)
      else if unat vnet > ROCE_MAX_VNET_HDR then Inr (- EINVAL, ctx)
      else bindR (port_at ctx port) (\<lambda>p. Inr (0, port_set ctx port (p\<lparr>vnet_hdr := vnet\<rparr>))))"

definition roce_query_port ::
  "'a roce_base_scheme \<Rightarrow> u8 \<Rightarrow> (int \<times> roce_port_attr option) run" where
  "roce_query_port ctx port =
     (if \<not> port_valid port then Inr (- EINVAL, None)
      else bindR (port_at ctx port) (\<lambda>p. Inr (0, Some (port_attr p))))"

definition roce_empty_gid :: "u8 list \<Rightarrow> bool" where
  "roce_empty_gid gid \<longleftrightarrow> take ROCE_GID_LEN gid = replicate ROCE_GID_LEN 0"

definition gid_at :: "roce_port \<Rightarrow> u8 \<Rightarrow> u8 list run" where
  "gid_at p index = (if unat index < length (gids p) then Inr (gids p ! unat index) else Inl Out_of_bounds)"

definition roce_add_gid ::
  "'a roce_base_scheme \<Rightarrow> u8 \<Rightarrow> u8 \<Rightarrow> u8 list \<Rightarrow> (int \<times> 'a roce_base_scheme) run" where
  "roce_add_gid ctx port index gid =
     (if \<not> port_valid port then Inr (- EINVAL, ctx)
      else bindR (port_at ctx port) (\<lambda>p. bindR (gid_at p index) (\<lambda>g.
        if \<not> roce_empty_gid g then Inr (- EBUSY, ctx)
        else Inr (0, port_set ctx port (p\<lparr>gids := (gids p)[unat index := take ROCE_GID_LEN gid]\<rparr>)))))"

definition roce_del_gid ::
  "'a roce_base_scheme \<Rightarrow> u8 \<Rightarrow> u8 \<Rightarrow> (int \<times> 'a roce_base_scheme) run" where
  "roce_del_gid ctx port index =
     (if \<not> port_valid port then Inr (- EINVAL, ctx)
      else bindR (port_at ctx port) (\<lambda>p. bindR (gid_at p index) (\<lambda>g.
        if roce_empty_gid g then Inr (- EINVAL, ctx)
        else Inr (0, port_set ctx port (p\<lparr>gids := (gids p)[unat index := replicate ROCE_GID_LEN 0]\<rparr>)))))"

definition roce_get_gid ::
  "'a roce_base_scheme \<Rightarrow> u8 \<Rightarrow> u8 \<Rightarrow> (int \<times> u8 list option) run" where
  "roce_get_gid ctx port index =
     (if \<not> port_valid port then Inr (- EINVAL, None)
      else bindR (port_at ctx port) (\<lambda>p. bindR (gid_at p index) (\<lambda>g.
        if roce_empty_gid g then Inr (- EBUSY, None) else Inr (0, Some g))))"

subsection \<open>Properties\<close>

definition ports_wf :: "'a roce_base_scheme \<Rightarrow> bool" where
  "ports_wf ctx \<longleftrightarrow> length (ports ctx) = ROCE_MAX_PORTS \<and>
     (\<forall>p \<in> set (ports ctx). length (gids p) = ROCE_GID_TBL_LEN \<and> (\<forall>g \<in> set (gids p). length g = ROCE_GID_LEN) \<and>
        length (port_mac p) = ROCE_MAC_LEN \<and> unat (vnet_hdr p) \<le> ROCE_MAX_VNET_HDR)"

lemma port_valid_1: "port_valid port \<longleftrightarrow> port = 1"
proof -
  have "unat port = 1 \<longleftrightarrow> port = 1" by (metis unat_1 word_unat_eq_iff)
  moreover have "unat port = 0 \<longleftrightarrow> port = 0" by (rule unat_0_iff)
  ultimately show ?thesis by (auto simp: port_valid_def)
qed

lemma ports_wf_single:
  "ports_wf ctx \<Longrightarrow> \<exists>p. ports ctx = [p] \<and> length (gids p) = 8 \<and> (\<forall>g \<in> set (gids p). length g = 16)"
  by (cases "ports ctx") (auto simp: ports_wf_def)

text \<open>A port that \<open>roce_init_port\<close> accepts has MTUs of 1024, 2048 or 4096 with the active one not
  above the maximum, a GID table of 1 to 8 entries and one P_Key; everything else is refused with
  \<open>-EINVAL\<close> and the context unchanged.\<close>

theorem roce_init_port_valid:
  assumes "ports_wf ctx"
  shows "\<exists>ret attr' ctx'. roce_init_port ctx port attr = Inr (ret, attr', ctx') \<and>
    (if ret = 0 then port = 1 \<and> ctx' = ctx\<lparr>ports := [(hd (ports ctx))\<lparr>port_attr := attr'\<rparr>]\<rparr> \<and>
       max_mtu attr' \<in> {1024, 2048, 4096} \<and> active_mtu attr' \<in> {1024, 2048, 4096} \<and>
       active_mtu attr' \<le> max_mtu attr' \<and> gid_tbl_len attr' \<noteq> 0 \<and> gid_tbl_len attr' \<le> 8 \<and>
       pkey_tbl_len attr' = 1 \<and> max_msg_sz attr' \<noteq> 0
     else ret = - EINVAL \<and> ctx' = ctx)"
proof -
  obtain p where p: "ports ctx = [p]" using ports_wf_single[OF assms] by auto
  define a1 where "a1 = (if gid_tbl_len attr = 0 then attr\<lparr>gid_tbl_len := 8\<rparr> else attr)"
  define a2 where "a2 = (if pkey_tbl_len a1 = 0 then a1\<lparr>pkey_tbl_len := 1\<rparr> else a1)"
  define a3 where "a3 = (if max_msg_sz a2 = 0 then a2\<lparr>max_msg_sz := 32 * 1024 * 1024\<rparr> else a2)"
  have keep: "max_mtu a3 = max_mtu attr" "active_mtu a3 = active_mtu attr" "pkey_tbl_len a1 = pkey_tbl_len attr"
    by (simp_all add: a1_def a2_def a3_def)
  let ?bad = "\<not> port_valid port \<or> \<not> roce_valid_mtu (max_mtu attr) \<or> \<not> roce_valid_mtu (active_mtu attr) \<or>
    active_mtu attr > max_mtu attr \<or> unat (gid_tbl_len attr) > 8 \<or> unat (pkey_tbl_len a1) > 1"
  show ?thesis
  proof (cases ?bad)
    case True
    then have "\<exists>a'. roce_init_port ctx port attr = Inr (- EINVAL, a', ctx)"
      by (auto simp: roce_init_port_def Let_def a1_def)
    then obtain a' where "roce_init_port ctx port attr = Inr (- EINVAL, a', ctx)" by blast
    then show ?thesis by (intro exI[of _ "- EINVAL"] exI[of _ a'] exI[of _ ctx]) simp
  next
    case False
    have init: "roce_init_port ctx port attr = Inr (0, a3, ctx\<lparr>ports := [p\<lparr>port_attr := a3\<rparr>]\<rparr>)"
    proof -
      have ok: "port_valid port" "roce_valid_mtu (max_mtu attr)" "roce_valid_mtu (active_mtu attr)"
        "\<not> active_mtu attr > max_mtu attr" "\<not> unat (gid_tbl_len attr) > 8" "\<not> unat (pkey_tbl_len a1) > 1"
        using False by auto
      have pk: "\<not> Suc 0 < unat (pkey_tbl_len attr)" using ok(6) keep(3) by simp
      have "port = 1" using ok(1) by (simp add: port_valid_1)
      then have at: "port_at ctx port = Inr p" and st: "\<And>q. port_set ctx port q = ctx\<lparr>ports := [q]\<rparr>"
        using p by (simp_all add: port_at_def port_set_def)
      have "roce_init_port ctx port attr = bindR (port_at ctx port) (\<lambda>p.
          Inr (0, a3, port_set ctx port (p\<lparr>port_attr := a3\<rparr>)))"
        unfolding roce_init_port_def Let_def using ok pk by (simp add: a1_def a2_def a3_def)
      then show ?thesis by (simp add: at st)
    qed
    moreover have "gid_tbl_len a3 \<noteq> 0 \<and> gid_tbl_len a3 \<le> 8"
      using False by (auto simp: a1_def a2_def a3_def word_le_nat_alt)
    moreover have "pkey_tbl_len a3 = 1"
    proof -
      have "unat (pkey_tbl_len a1) = 0 \<or> unat (pkey_tbl_len a1) = 1" using False by auto
      then have "pkey_tbl_len a1 = 0 \<or> pkey_tbl_len a1 = 1" by (metis unat_0 unat_1 word_unat_eq_iff)
      then show ?thesis by (auto simp: a2_def a3_def)
    qed
    moreover have "max_msg_sz a3 \<noteq> 0" by (simp add: a3_def)
    moreover have "port = 1" "max_mtu attr \<in> {1024, 2048, 4096}" "active_mtu attr \<in> {1024, 2048, 4096}"
      "active_mtu attr \<le> max_mtu attr"
      using False by (auto simp: port_valid_1 roce_valid_mtu_def)
    ultimately show ?thesis using keep p init
      by (intro exI[of _ 0] exI[of _ a3] exI[of _ "ctx\<lparr>ports := [p\<lparr>port_attr := a3\<rparr>]\<rparr>"]) simp
  qed
qed

definition one_port :: roce_port where
  "one_port = \<lparr>port_attr = \<lparr>port_cap_flags = 0, max_mtu = 4096, active_mtu = 1024, gid_tbl_len = 8,
     pkey_tbl_len = 1, max_msg_sz = 1024, bad_pkey_cntr = 0, qkey_viol_cntr = 0\<rparr>, vnet_hdr = 0,
     gids = replicate 8 (replicate 16 0), port_mac = replicate 6 2\<rparr>"

definition port_base :: roce_base where
  "port_base = small_base\<lparr>ports := [one_port]\<rparr>"

lemma port_base_wf: "ports_wf port_base"
  by (simp add: ports_wf_def port_base_def one_port_def)

lemma roce_init_port_valid_witness:
  "\<exists>ret attr' ctx'. roce_init_port port_base 1 (port_attr one_port) = Inr (ret, attr', ctx') \<and>
     (ret = 0 \<or> ret = - EINVAL)"
  using roce_init_port_valid[OF port_base_wf, of 1 "port_attr one_port"] by (auto split: if_splits)

text \<open>A GID that was added at a free index is what a query returns, no other index changes, a second
  addition is refused with \<open>-EBUSY\<close>, and deleting it frees the index again.\<close>

theorem gid_table_roundtrip:
  assumes "ports_wf ctx" "unat index < ROCE_GID_TBL_LEN" "length gid = ROCE_GID_LEN" "\<not> roce_empty_gid gid"
    "roce_add_gid ctx 1 index gid = Inr (0, ctx')"
  shows "roce_get_gid ctx' 1 index = Inr (0, Some gid) \<and>
    (\<forall>k. k \<noteq> index \<longrightarrow> roce_get_gid ctx' 1 k = roce_get_gid ctx 1 k) \<and>
    roce_add_gid ctx' 1 index gid' = Inr (- EBUSY, ctx') \<and>
    (\<exists>ctx''. roce_del_gid ctx' 1 index = Inr (0, ctx'') \<and> roce_get_gid ctx'' 1 index = Inr (- EBUSY, None))"
proof -
  obtain p where p: "ports ctx = [p]" "length (gids p) = 8" using ports_wf_single[OF assms(1)] by auto
  have i: "unat index < 8" using assms(2) by simp
  have ctx': "ctx' = ctx\<lparr>ports := [p\<lparr>gids := (gids p)[unat index := gid]\<rparr>]\<rparr>"
    using assms(3,5) p i
    by (auto simp: roce_add_gid_def port_valid_1 port_at_def gid_at_def port_set_def split: if_splits)
  have ne: "unat k \<noteq> unat index" if "k \<noteq> index" for k using that by (simp add: word_unat_eq_iff)
  have z: "roce_empty_gid (replicate 16 0)" by (simp add: roce_empty_gid_def)
  note defs = ctx' roce_get_gid_def roce_add_gid_def roce_del_gid_def port_valid_1 port_at_def gid_at_def
    port_set_def
  have "roce_get_gid ctx' 1 k = roce_get_gid ctx 1 k" if "k \<noteq> index" for k
    using p i ne[OF that] by (simp add: defs)
  then show ?thesis using p i assms(4) z by (simp add: defs)
qed

lemma gid_table_roundtrip_witness:
  "\<exists>ctx'. roce_add_gid port_base 1 3 (replicate 16 7) = Inr (0, ctx') \<and>
     roce_get_gid ctx' 1 3 = Inr (0, Some (replicate 16 7))"
proof -
  have e: "roce_add_gid port_base 1 3 (replicate 16 7) = Inr (0, port_base\<lparr>ports :=
      [one_port\<lparr>gids := (gids one_port)[3 := replicate 16 7]\<rparr>]\<rparr>)"
    by (simp add: roce_add_gid_def port_valid_1 port_at_def gid_at_def port_set_def port_base_def
        one_port_def roce_empty_gid_def)
  show ?thesis using gid_table_roundtrip[OF port_base_wf _ _ _ e] e by (auto simp: roce_empty_gid_def)
qed

end
