(* ===== verification/Net_Spec.thy ===== *)
theory Net_Spec
  imports Prelude
begin

text \<open>
  The Ethernet, IPv4, IPv6 and UDP headers of \<open>include/spec/\<close>: a record per C structure, the
  getters and setters, and the byte image of each structure with its decoder. Multi-byte integers
  are stored as the C code stores them, big-endian but for the checksums, which both sides handle
  as raw memory words.
\<close>

subsection \<open>Ethernet II\<close>

abbreviation (input) ETHERNET_IP :: u16 where "ETHERNET_IP \<equiv> 0x0800"
abbreviation (input) ETHERNET_IPv6 :: u16 where "ETHERNET_IPv6 \<equiv> 0x86DD"

record ethernet_hdr =
  eth_dmac :: "u8 list"
  eth_smac :: "u8 list"
  eth_type :: u16

definition ethernet_hdr_set :: "ethernet_hdr \<Rightarrow> u8 list \<Rightarrow> u8 list \<Rightarrow> u16 \<Rightarrow> ethernet_hdr" where
  "ethernet_hdr_set hdr dmac smac type =
     hdr\<lparr>eth_dmac := take 6 dmac, eth_smac := take 6 smac, eth_type := htobe16 type\<rparr>"

definition ethernet_hdr_set4 :: "ethernet_hdr \<Rightarrow> u8 list \<Rightarrow> u8 list \<Rightarrow> ethernet_hdr" where
  "ethernet_hdr_set4 hdr dmac smac = ethernet_hdr_set hdr dmac smac ETHERNET_IP"

definition ethernet_hdr_set6 :: "ethernet_hdr \<Rightarrow> u8 list \<Rightarrow> u8 list \<Rightarrow> ethernet_hdr" where
  "ethernet_hdr_set6 hdr dmac smac = ethernet_hdr_set hdr dmac smac ETHERNET_IPv6"

definition ethernet_hdr_get_type :: "ethernet_hdr \<Rightarrow> u16" where
  "ethernet_hdr_get_type hdr = be16toh (eth_type hdr)"

definition ethernet_hdr_zero :: ethernet_hdr where
  "ethernet_hdr_zero = \<lparr>eth_dmac = replicate 6 0, eth_smac = replicate 6 0, eth_type = 0\<rparr>"

definition ethernet_hdr_bytes :: "ethernet_hdr \<Rightarrow> u8 list" where
  "ethernet_hdr_bytes h = eth_dmac h @ eth_smac h @ le_bytes 2 (eth_type h)"

definition ethernet_hdr_of_bytes :: "u8 list \<Rightarrow> ethernet_hdr" where
  "ethernet_hdr_of_bytes bs = \<lparr>eth_dmac = take 6 bs, eth_smac = take 6 (drop 6 bs),
     eth_type = le_word (take 2 (drop 12 bs))\<rparr>"

subsection \<open>IPv4\<close>

abbreviation (input) IP_HDR_SIZE :: nat where "IP_HDR_SIZE \<equiv> 20"
definition IP_VERSION_MASK :: u8 where "IP_VERSION_MASK = 0xf0"
definition IP_IHL_MASK :: u8 where "IP_IHL_MASK = 0xf"
definition IP_TOS_FLAG_D :: u8 where "IP_TOS_FLAG_D = 0x10"
definition IP_TOS_FLAG_T :: u8 where "IP_TOS_FLAG_T = 0x08"
definition IP_TOS_FLAG_R :: u8 where "IP_TOS_FLAG_R = 0x04"
definition IP_FRAG_FLAG_DF :: u16 where "IP_FRAG_FLAG_DF = 0x4000"
definition IP_FRAG_FLAG_MF :: u16 where "IP_FRAG_FLAG_MF = 0x2000"
definition IP_FRAG_OFFSET_MASK :: u16 where "IP_FRAG_OFFSET_MASK = 0x1fff"

record ip_hdr =
  ip_u8_0 :: u8
  ip_tos :: u8
  ip_length :: u16
  ip_id :: u16
  ip_frag_off :: u16
  ip_ttl :: u8
  ip_protocol :: u8
  ip_checksum :: u16
  ip_saddr :: u32
  ip_daddr :: u32

definition ip_hdr_get_version :: "ip_hdr \<Rightarrow> u8" where
  "ip_hdr_get_version hdr = drop_bit 4 (ip_u8_0 hdr AND IP_VERSION_MASK)"

definition ip_hdr_get_ihl :: "ip_hdr \<Rightarrow> u8" where
  "ip_hdr_get_ihl hdr = ip_u8_0 hdr AND IP_IHL_MASK"

definition ip_hdr_set_version_ihl :: "ip_hdr \<Rightarrow> u8 \<Rightarrow> u8 \<Rightarrow> ip_hdr" where
  "ip_hdr_set_version_ihl hdr version ihl =
     hdr\<lparr>ip_u8_0 := push_bit 4 version OR (ihl AND IP_IHL_MASK)\<rparr>"

definition ip_hdr_get_precedence :: "ip_hdr \<Rightarrow> u8" where
  "ip_hdr_get_precedence hdr = drop_bit 5 (ip_tos hdr)"

definition ip_hdr_get_tos_d :: "ip_hdr \<Rightarrow> bool" where
  "ip_hdr_get_tos_d hdr \<longleftrightarrow> ip_tos hdr AND IP_TOS_FLAG_D \<noteq> 0"

definition ip_hdr_get_tos_t :: "ip_hdr \<Rightarrow> bool" where
  "ip_hdr_get_tos_t hdr \<longleftrightarrow> ip_tos hdr AND IP_TOS_FLAG_T \<noteq> 0"

definition ip_hdr_get_tos_r :: "ip_hdr \<Rightarrow> bool" where
  "ip_hdr_get_tos_r hdr \<longleftrightarrow> ip_tos hdr AND IP_TOS_FLAG_R \<noteq> 0"

definition ip_hdr_set_tos :: "ip_hdr \<Rightarrow> u8 \<Rightarrow> bool \<Rightarrow> bool \<Rightarrow> bool \<Rightarrow> ip_hdr" where
  "ip_hdr_set_tos hdr precedence d t r =
     hdr\<lparr>ip_tos := push_bit 5 precedence OR push_bit 4 (of_bool d) OR push_bit 3 (of_bool t)
       OR push_bit 2 (of_bool r)\<rparr>"

definition ip_hdr_get_length :: "ip_hdr \<Rightarrow> u16" where
  "ip_hdr_get_length hdr = be16toh (ip_length hdr)"

definition ip_hdr_set_length :: "ip_hdr \<Rightarrow> u16 \<Rightarrow> ip_hdr" where
  "ip_hdr_set_length hdr len = hdr\<lparr>ip_length := htobe16 len\<rparr>"

definition ip_hdr_get_id :: "ip_hdr \<Rightarrow> u16" where
  "ip_hdr_get_id hdr = be16toh (ip_id hdr)"

definition ip_hdr_set_id :: "ip_hdr \<Rightarrow> u16 \<Rightarrow> ip_hdr" where
  "ip_hdr_set_id hdr ident = hdr\<lparr>ip_id := htobe16 ident\<rparr>"

definition ip_hdr_get_frag_df :: "ip_hdr \<Rightarrow> bool" where
  "ip_hdr_get_frag_df hdr \<longleftrightarrow> be16toh (ip_frag_off hdr) AND IP_FRAG_FLAG_DF \<noteq> 0"

definition ip_hdr_get_frag_mf :: "ip_hdr \<Rightarrow> bool" where
  "ip_hdr_get_frag_mf hdr \<longleftrightarrow> be16toh (ip_frag_off hdr) AND IP_FRAG_FLAG_MF \<noteq> 0"

definition ip_hdr_get_offset :: "ip_hdr \<Rightarrow> u16" where
  "ip_hdr_get_offset hdr = be16toh (ip_frag_off hdr) AND IP_FRAG_OFFSET_MASK"

definition id_hdr_set_frag_off :: "ip_hdr \<Rightarrow> bool \<Rightarrow> bool \<Rightarrow> u16 \<Rightarrow> ip_hdr" where
  "id_hdr_set_frag_off hdr df mf offset =
     (let frag_off = push_bit 14 (of_bool df) OR push_bit 13 (of_bool mf) OR (offset AND IP_FRAG_OFFSET_MASK)
      in hdr\<lparr>ip_frag_off := htobe16 frag_off\<rparr>)"

definition ip_hdr_get_ttl :: "ip_hdr \<Rightarrow> u8" where
  "ip_hdr_get_ttl hdr = ip_ttl hdr"

definition ip_hdr_set_ttl :: "ip_hdr \<Rightarrow> u8 \<Rightarrow> ip_hdr" where
  "ip_hdr_set_ttl hdr ttl = hdr\<lparr>ip_ttl := ttl\<rparr>"

definition ip_hdr_get_protocol :: "ip_hdr \<Rightarrow> u8" where
  "ip_hdr_get_protocol hdr = ip_protocol hdr"

definition ip_hdr_set_protocol :: "ip_hdr \<Rightarrow> u8 \<Rightarrow> ip_hdr" where
  "ip_hdr_set_protocol hdr protocol = hdr\<lparr>ip_protocol := protocol\<rparr>"

definition ip_hdr_get_checksum :: "ip_hdr \<Rightarrow> u16" where
  "ip_hdr_get_checksum hdr = ip_checksum hdr"

definition ip_hdr_set_checksum :: "ip_hdr \<Rightarrow> u16 \<Rightarrow> ip_hdr" where
  "ip_hdr_set_checksum hdr checksum = hdr\<lparr>ip_checksum := checksum\<rparr>"

definition ip_hdr_get_saddr :: "ip_hdr \<Rightarrow> u32" where
  "ip_hdr_get_saddr hdr = be32toh (ip_saddr hdr)"

definition ip_hdr_set_saddr :: "ip_hdr \<Rightarrow> u32 \<Rightarrow> ip_hdr" where
  "ip_hdr_set_saddr hdr saddr = hdr\<lparr>ip_saddr := htobe32 saddr\<rparr>"

definition ip_hdr_get_daddr :: "ip_hdr \<Rightarrow> u32" where
  "ip_hdr_get_daddr hdr = be32toh (ip_daddr hdr)"

definition ip_hdr_set_daddr :: "ip_hdr \<Rightarrow> u32 \<Rightarrow> ip_hdr" where
  "ip_hdr_set_daddr hdr daddr = hdr\<lparr>ip_daddr := htobe32 daddr\<rparr>"

definition ip_hdr_zero :: ip_hdr where
  "ip_hdr_zero = \<lparr>ip_u8_0 = 0, ip_tos = 0, ip_length = 0, ip_id = 0, ip_frag_off = 0, ip_ttl = 0,
     ip_protocol = 0, ip_checksum = 0, ip_saddr = 0, ip_daddr = 0\<rparr>"

definition ip_hdr_bytes :: "ip_hdr \<Rightarrow> u8 list" where
  "ip_hdr_bytes h = [ip_u8_0 h, ip_tos h] @ le_bytes 2 (ip_length h) @ le_bytes 2 (ip_id h)
     @ le_bytes 2 (ip_frag_off h) @ [ip_ttl h, ip_protocol h] @ le_bytes 2 (ip_checksum h)
     @ le_bytes 4 (ip_saddr h) @ le_bytes 4 (ip_daddr h)"

definition ip_hdr_of_bytes :: "u8 list \<Rightarrow> ip_hdr" where
  "ip_hdr_of_bytes bs = \<lparr>ip_u8_0 = bs ! 0, ip_tos = bs ! 1, ip_length = le_word (take 2 (drop 2 bs)),
     ip_id = le_word (take 2 (drop 4 bs)), ip_frag_off = le_word (take 2 (drop 6 bs)),
     ip_ttl = bs ! 8, ip_protocol = bs ! 9, ip_checksum = le_word (take 2 (drop 10 bs)),
     ip_saddr = le_word (take 4 (drop 12 bs)), ip_daddr = le_word (take 4 (drop 16 bs))\<rparr>"

subsection \<open>IPv6\<close>

abbreviation (input) IPV6_HDR_SIZE :: nat where "IPV6_HDR_SIZE \<equiv> 40"
definition IPV6_TCLASS_MASK :: u32 where "IPV6_TCLASS_MASK = 0x0ff00000"
definition IPV6_FLOW_LABEL_MASK :: u32 where "IPV6_FLOW_LABEL_MASK = 0x000fffff"

record ipv6_hdr =
  ip6_u32_0 :: u32
  ip6_payload_len :: u16
  ip6_nexthdr :: u8
  ip6_hop_limit :: u8
  ip6_saddr :: "u8 list"
  ip6_daddr :: "u8 list"

definition ipv6_hdr_get_version :: "ipv6_hdr \<Rightarrow> u8" where
  "ipv6_hdr_get_version hdr = ucast (drop_bit 28 (be32toh (ip6_u32_0 hdr)))"

definition ipv6_hdr_get_tclass :: "ipv6_hdr \<Rightarrow> u8" where
  "ipv6_hdr_get_tclass hdr = ucast (drop_bit 20 (be32toh (ip6_u32_0 hdr) AND IPV6_TCLASS_MASK))"

definition ipv6_hdr_get_flow_lable :: "ipv6_hdr \<Rightarrow> u32" where
  "ipv6_hdr_get_flow_lable hdr = be32toh (ip6_u32_0 hdr) AND IPV6_FLOW_LABEL_MASK"

definition ipv6_hdr_set_version_tc_fl :: "ipv6_hdr \<Rightarrow> u8 \<Rightarrow> u8 \<Rightarrow> u32 \<Rightarrow> ipv6_hdr" where
  "ipv6_hdr_set_version_tc_fl hdr version tclass flow_lable =
     (let u32val = push_bit 28 (ucast version AND 0xf) OR push_bit 20 (ucast tclass)
                     OR (flow_lable AND IPV6_FLOW_LABEL_MASK)
      in hdr\<lparr>ip6_u32_0 := htobe32 u32val\<rparr>)"

definition ipv6_hdr_get_payload_len :: "ipv6_hdr \<Rightarrow> u16" where
  "ipv6_hdr_get_payload_len hdr = be16toh (ip6_payload_len hdr)"

definition ipv6_hdr_set_payload_len :: "ipv6_hdr \<Rightarrow> u16 \<Rightarrow> ipv6_hdr" where
  "ipv6_hdr_set_payload_len hdr len = hdr\<lparr>ip6_payload_len := htobe16 len\<rparr>"

definition ipv6_hdr_get_nexthdr :: "ipv6_hdr \<Rightarrow> u8" where
  "ipv6_hdr_get_nexthdr hdr = ip6_nexthdr hdr"

definition ipv6_hdr_set_nexthdr :: "ipv6_hdr \<Rightarrow> u8 \<Rightarrow> ipv6_hdr" where
  "ipv6_hdr_set_nexthdr hdr nexthdr = hdr\<lparr>ip6_nexthdr := nexthdr\<rparr>"

definition ipv6_hdr_get_hop_limit :: "ipv6_hdr \<Rightarrow> u8" where
  "ipv6_hdr_get_hop_limit hdr = ip6_hop_limit hdr"

definition ipv6_hdr_set_hop_limit :: "ipv6_hdr \<Rightarrow> u8 \<Rightarrow> ipv6_hdr" where
  "ipv6_hdr_set_hop_limit hdr hop_limit = hdr\<lparr>ip6_hop_limit := hop_limit\<rparr>"

definition ipv6_hdr_set_saddr :: "ipv6_hdr \<Rightarrow> u8 list \<Rightarrow> ipv6_hdr" where
  "ipv6_hdr_set_saddr hdr saddr = hdr\<lparr>ip6_saddr := take 16 saddr\<rparr>"

definition ipv6_hdr_set_daddr :: "ipv6_hdr \<Rightarrow> u8 list \<Rightarrow> ipv6_hdr" where
  "ipv6_hdr_set_daddr hdr daddr = hdr\<lparr>ip6_daddr := take 16 daddr\<rparr>"

definition ipv6_hdr_zero :: ipv6_hdr where
  "ipv6_hdr_zero = \<lparr>ip6_u32_0 = 0, ip6_payload_len = 0, ip6_nexthdr = 0, ip6_hop_limit = 0,
     ip6_saddr = replicate 16 0, ip6_daddr = replicate 16 0\<rparr>"

definition ipv6_hdr_bytes :: "ipv6_hdr \<Rightarrow> u8 list" where
  "ipv6_hdr_bytes h = le_bytes 4 (ip6_u32_0 h) @ le_bytes 2 (ip6_payload_len h)
     @ [ip6_nexthdr h, ip6_hop_limit h] @ ip6_saddr h @ ip6_daddr h"

definition ipv6_hdr_of_bytes :: "u8 list \<Rightarrow> ipv6_hdr" where
  "ipv6_hdr_of_bytes bs = \<lparr>ip6_u32_0 = le_word (take 4 bs),
     ip6_payload_len = le_word (take 2 (drop 4 bs)), ip6_nexthdr = bs ! 6, ip6_hop_limit = bs ! 7,
     ip6_saddr = take 16 (drop 8 bs), ip6_daddr = take 16 (drop 24 bs)\<rparr>"

subsection \<open>UDP\<close>

record udp_hdr =
  udp_sport :: u16
  udp_dport :: u16
  udp_length :: u16
  udp_checksum :: u16

definition udp_hdr_get_sport :: "udp_hdr \<Rightarrow> u16" where
  "udp_hdr_get_sport hdr = be16toh (udp_sport hdr)"

definition udp_hdr_set_sport :: "udp_hdr \<Rightarrow> u16 \<Rightarrow> udp_hdr" where
  "udp_hdr_set_sport hdr sport = hdr\<lparr>udp_sport := htobe16 sport\<rparr>"

definition udp_hdr_get_dport :: "udp_hdr \<Rightarrow> u16" where
  "udp_hdr_get_dport hdr = be16toh (udp_dport hdr)"

definition udp_hdr_set_dport :: "udp_hdr \<Rightarrow> u16 \<Rightarrow> udp_hdr" where
  "udp_hdr_set_dport hdr dport = hdr\<lparr>udp_dport := htobe16 dport\<rparr>"

definition udp_hdr_get_length :: "udp_hdr \<Rightarrow> u16" where
  "udp_hdr_get_length hdr = be16toh (udp_length hdr)"

definition udp_hdr_set_length :: "udp_hdr \<Rightarrow> u16 \<Rightarrow> udp_hdr" where
  "udp_hdr_set_length hdr len = hdr\<lparr>udp_length := htobe16 len\<rparr>"

definition udp_hdr_get_checksum :: "udp_hdr \<Rightarrow> u16" where
  "udp_hdr_get_checksum hdr = udp_checksum hdr"

definition udp_hdr_set_checksum :: "udp_hdr \<Rightarrow> u16 \<Rightarrow> udp_hdr" where
  "udp_hdr_set_checksum hdr checksum = hdr\<lparr>udp_checksum := checksum\<rparr>"

definition udp_hdr_zero :: udp_hdr where
  "udp_hdr_zero = \<lparr>udp_sport = 0, udp_dport = 0, udp_length = 0, udp_checksum = 0\<rparr>"

definition udp_hdr_bytes :: "udp_hdr \<Rightarrow> u8 list" where
  "udp_hdr_bytes h = le_bytes 2 (udp_sport h) @ le_bytes 2 (udp_dport h) @ le_bytes 2 (udp_length h)
     @ le_bytes 2 (udp_checksum h)"

definition udp_hdr_of_bytes :: "u8 list \<Rightarrow> udp_hdr" where
  "udp_hdr_of_bytes bs = \<lparr>udp_sport = le_word (take 2 bs), udp_dport = le_word (take 2 (drop 2 bs)),
     udp_length = le_word (take 2 (drop 4 bs)), udp_checksum = le_word (take 2 (drop 6 bs))\<rparr>"

subsection \<open>Sizes and round trips\<close>

lemma length_ethernet_hdr_bytes:
  "length (eth_dmac h) = 6 \<Longrightarrow> length (eth_smac h) = 6 \<Longrightarrow> length (ethernet_hdr_bytes h) = 14"
  by (simp add: ethernet_hdr_bytes_def)

lemma length_ip_hdr_bytes [simp]: "length (ip_hdr_bytes h) = 20"
  by (simp add: ip_hdr_bytes_def)

lemma length_ipv6_hdr_bytes:
  "length (ip6_saddr h) = 16 \<Longrightarrow> length (ip6_daddr h) = 16 \<Longrightarrow> length (ipv6_hdr_bytes h) = 40"
  by (simp add: ipv6_hdr_bytes_def)

lemma length_udp_hdr_bytes [simp]: "length (udp_hdr_bytes h) = 8"
  by (simp add: udp_hdr_bytes_def)

lemma ethernet_hdr_of_bytes_bytes:
  "length (eth_dmac h) = 6 \<Longrightarrow> length (eth_smac h) = 6 \<Longrightarrow>
   ethernet_hdr_of_bytes (ethernet_hdr_bytes h) = h"
  by (simp add: ethernet_hdr_of_bytes_def ethernet_hdr_bytes_def)

lemma ip_hdr_of_bytes_bytes [simp]: "ip_hdr_of_bytes (ip_hdr_bytes h) = h"
  by (simp add: ip_hdr_of_bytes_def ip_hdr_bytes_def nth_append)

lemma ipv6_hdr_of_bytes_bytes:
  "length (ip6_saddr h) = 16 \<Longrightarrow> length (ip6_daddr h) = 16 \<Longrightarrow>
   ipv6_hdr_of_bytes (ipv6_hdr_bytes h) = h"
  by (simp add: ipv6_hdr_of_bytes_def ipv6_hdr_bytes_def nth_append)

lemma udp_hdr_of_bytes_bytes [simp]: "udp_hdr_of_bytes (udp_hdr_bytes h) = h"
  by (simp add: udp_hdr_of_bytes_def udp_hdr_bytes_def)

lemmas udp_defs = udp_hdr_get_sport_def udp_hdr_set_sport_def udp_hdr_get_dport_def
  udp_hdr_set_dport_def udp_hdr_get_length_def udp_hdr_set_length_def udp_hdr_get_checksum_def
  udp_hdr_set_checksum_def

lemma udp_get_set [wire_simps]:
  "udp_hdr_get_sport (udp_hdr_set_sport h a) = a" "udp_hdr_get_dport (udp_hdr_set_dport h a) = a"
  "udp_hdr_get_length (udp_hdr_set_length h a) = a"
  "udp_hdr_get_dport (udp_hdr_set_length h a) = udp_hdr_get_dport h"
  "udp_hdr_get_dport (udp_hdr_set_sport h a) = udp_hdr_get_dport h"
  by (simp_all add: udp_defs)

lemma ethernet_get_set [wire_simps]:
  "ethernet_hdr_get_type (ethernet_hdr_set h d s t) = t"
  by (simp add: ethernet_hdr_get_type_def ethernet_hdr_set_def)

lemma ip_version_ihl:
  "ip_hdr_get_version (ip_hdr_set_version_ihl h v i) = 15 AND v"
  "ip_hdr_get_ihl (ip_hdr_set_version_ihl h v i) = IP_IHL_MASK AND i"
proof -
  have m: "IP_VERSION_MASK = push_bit 4 (mask 4)" "IP_IHL_MASK = mask 4" "(15 :: u8) = mask 4"
    by (simp_all add: IP_VERSION_MASK_def IP_IHL_MASK_def mask_eq_exp_minus_1)
  show "ip_hdr_get_version (ip_hdr_set_version_ihl h v i) = 15 AND v"
    unfolding m ip_hdr_get_version_def ip_hdr_set_version_ihl_def
    by (rule bit_word_eqI) (auto simp: bit_simps)
  show "ip_hdr_get_ihl (ip_hdr_set_version_ihl h v i) = IP_IHL_MASK AND i"
    unfolding m ip_hdr_get_ihl_def ip_hdr_set_version_ihl_def
    by (rule bit_word_eqI) (auto simp: bit_simps)
qed

lemma ipv6_version_tc_fl:
  "ipv6_hdr_get_version (ipv6_hdr_set_version_tc_fl h v t f) = 15 AND v"
  "ipv6_hdr_get_tclass (ipv6_hdr_set_version_tc_fl h v t f) = t"
  "ipv6_hdr_get_flow_lable (ipv6_hdr_set_version_tc_fl h v t f) = IPV6_FLOW_LABEL_MASK AND f"
proof -
  have m: "IPV6_TCLASS_MASK = push_bit 20 (mask 8)" "IPV6_FLOW_LABEL_MASK = mask 20"
    "(15 :: u8) = mask 4" "(0xf :: u32) = mask 4"
    by (simp_all add: IPV6_TCLASS_MASK_def IPV6_FLOW_LABEL_MASK_def mask_eq_exp_minus_1)
  define w where "w = push_bit 28 (ucast v AND (0xf :: u32)) OR push_bit 20 (ucast t)
                     OR (f AND IPV6_FLOW_LABEL_MASK)"
  have w: "be32toh (ip6_u32_0 (ipv6_hdr_set_version_tc_fl h v t f)) = w"
    by (simp add: ipv6_hdr_set_version_tc_fl_def w_def Let_def)
  show "ipv6_hdr_get_version (ipv6_hdr_set_version_tc_fl h v t f) = 15 AND v"
    unfolding ipv6_hdr_get_version_def w w_def m
    by (rule bit_word_eqI) (auto simp: bit_simps dest: bit_imp_le_length)
  show "ipv6_hdr_get_tclass (ipv6_hdr_set_version_tc_fl h v t f) = t"
    unfolding ipv6_hdr_get_tclass_def w w_def m
    by (rule bit_word_eqI) (auto simp: bit_simps)
  show "ipv6_hdr_get_flow_lable (ipv6_hdr_set_version_tc_fl h v t f) = IPV6_FLOW_LABEL_MASK AND f"
    unfolding ipv6_hdr_get_flow_lable_def w w_def m
    by (rule bit_word_eqI) (auto simp: bit_simps)
qed

end
