(* ===== verification/Crc.thy ===== *)
theory Crc
  imports Iov Net_Spec Ib_Spec
begin

text \<open>
  The CRC-32 of \<open>crc.c\<close> (the table, the unrolled loops, the CRC over a vector and the invariant
  CRC of a packet) and the Internet checksum of \<open>include/private/checksum.h\<close>. The reference is the
  bit-serial CRC with the reflected polynomial; the table entries, the unrolled loops and the walk
  over a vector are shown to compute it.
\<close>

subsection \<open>The code\<close>

definition roce_crc_table :: "u32 list" where
  "roce_crc_table =
    [0x00000000, 0x77073096, 0xee0e612c, 0x990951ba, 0x076dc419, 0x706af48f, 0xe963a535, 0x9e6495a3,
     0x0edb8832, 0x79dcb8a4, 0xe0d5e91e, 0x97d2d988, 0x09b64c2b, 0x7eb17cbd, 0xe7b82d07, 0x90bf1d91,
     0x1db71064, 0x6ab020f2, 0xf3b97148, 0x84be41de, 0x1adad47d, 0x6ddde4eb, 0xf4d4b551, 0x83d385c7,
     0x136c9856, 0x646ba8c0, 0xfd62f97a, 0x8a65c9ec, 0x14015c4f, 0x63066cd9, 0xfa0f3d63, 0x8d080df5,
     0x3b6e20c8, 0x4c69105e, 0xd56041e4, 0xa2677172, 0x3c03e4d1, 0x4b04d447, 0xd20d85fd, 0xa50ab56b,
     0x35b5a8fa, 0x42b2986c, 0xdbbbc9d6, 0xacbcf940, 0x32d86ce3, 0x45df5c75, 0xdcd60dcf, 0xabd13d59,
     0x26d930ac, 0x51de003a, 0xc8d75180, 0xbfd06116, 0x21b4f4b5, 0x56b3c423, 0xcfba9599, 0xb8bda50f,
     0x2802b89e, 0x5f058808, 0xc60cd9b2, 0xb10be924, 0x2f6f7c87, 0x58684c11, 0xc1611dab, 0xb6662d3d,
     0x76dc4190, 0x01db7106, 0x98d220bc, 0xefd5102a, 0x71b18589, 0x06b6b51f, 0x9fbfe4a5, 0xe8b8d433,
     0x7807c9a2, 0x0f00f934, 0x9609a88e, 0xe10e9818, 0x7f6a0dbb, 0x086d3d2d, 0x91646c97, 0xe6635c01,
     0x6b6b51f4, 0x1c6c6162, 0x856530d8, 0xf262004e, 0x6c0695ed, 0x1b01a57b, 0x8208f4c1, 0xf50fc457,
     0x65b0d9c6, 0x12b7e950, 0x8bbeb8ea, 0xfcb9887c, 0x62dd1ddf, 0x15da2d49, 0x8cd37cf3, 0xfbd44c65,
     0x4db26158, 0x3ab551ce, 0xa3bc0074, 0xd4bb30e2, 0x4adfa541, 0x3dd895d7, 0xa4d1c46d, 0xd3d6f4fb,
     0x4369e96a, 0x346ed9fc, 0xad678846, 0xda60b8d0, 0x44042d73, 0x33031de5, 0xaa0a4c5f, 0xdd0d7cc9,
     0x5005713c, 0x270241aa, 0xbe0b1010, 0xc90c2086, 0x5768b525, 0x206f85b3, 0xb966d409, 0xce61e49f,
     0x5edef90e, 0x29d9c998, 0xb0d09822, 0xc7d7a8b4, 0x59b33d17, 0x2eb40d81, 0xb7bd5c3b, 0xc0ba6cad,
     0xedb88320, 0x9abfb3b6, 0x03b6e20c, 0x74b1d29a, 0xead54739, 0x9dd277af, 0x04db2615, 0x73dc1683,
     0xe3630b12, 0x94643b84, 0x0d6d6a3e, 0x7a6a5aa8, 0xe40ecf0b, 0x9309ff9d, 0x0a00ae27, 0x7d079eb1,
     0xf00f9344, 0x8708a3d2, 0x1e01f268, 0x6906c2fe, 0xf762575d, 0x806567cb, 0x196c3671, 0x6e6b06e7,
     0xfed41b76, 0x89d32be0, 0x10da7a5a, 0x67dd4acc, 0xf9b9df6f, 0x8ebeeff9, 0x17b7be43, 0x60b08ed5,
     0xd6d6a3e8, 0xa1d1937e, 0x38d8c2c4, 0x4fdff252, 0xd1bb67f1, 0xa6bc5767, 0x3fb506dd, 0x48b2364b,
     0xd80d2bda, 0xaf0a1b4c, 0x36034af6, 0x41047a60, 0xdf60efc3, 0xa867df55, 0x316e8eef, 0x4669be79,
     0xcb61b38c, 0xbc66831a, 0x256fd2a0, 0x5268e236, 0xcc0c7795, 0xbb0b4703, 0x220216b9, 0x5505262f,
     0xc5ba3bbe, 0xb2bd0b28, 0x2bb45a92, 0x5cb36a04, 0xc2d7ffa7, 0xb5d0cf31, 0x2cd99e8b, 0x5bdeae1d,
     0x9b64c2b0, 0xec63f226, 0x756aa39c, 0x026d930a, 0x9c0906a9, 0xeb0e363f, 0x72076785, 0x05005713,
     0x95bf4a82, 0xe2b87a14, 0x7bb12bae, 0x0cb61b38, 0x92d28e9b, 0xe5d5be0d, 0x7cdcefb7, 0x0bdbdf21,
     0x86d3d2d4, 0xf1d4e242, 0x68ddb3f8, 0x1fda836e, 0x81be16cd, 0xf6b9265b, 0x6fb077e1, 0x18b74777,
     0x88085ae6, 0xff0f6a70, 0x66063bca, 0x11010b5c, 0x8f659eff, 0xf862ae69, 0x616bffd3, 0x166ccf45,
     0xa00ae278, 0xd70dd2ee, 0x4e048354, 0x3903b3c2, 0xa7672661, 0xd06016f7, 0x4969474d, 0x3e6e77db,
     0xaed16a4a, 0xd9d65adc, 0x40df0b66, 0x37d83bf0, 0xa9bcae53, 0xdebb9ec5, 0x47b2cf7f, 0x30b5ffe9,
     0xbdbdf21c, 0xcabac28a, 0x53b39330, 0x24b4a3a6, 0xbad03605, 0xcdd70693, 0x54de5729, 0x23d967bf,
     0xb3667a2e, 0xc4614ab8, 0x5d681b02, 0x2a6f2b94, 0xb40bbe37, 0xc30c8ea1, 0x5a05df1b, 0x2d02ef8d]"

definition roce_crc32_1 :: "u32 \<Rightarrow> u8 \<Rightarrow> u32" where
  "roce_crc32_1 crc b =
     (roce_crc_table ! unat ((crc XOR ucast b) AND 0xff)) XOR drop_bit 8 crc"

definition roce_crc32_2 :: "u32 \<Rightarrow> u8 \<Rightarrow> u8 \<Rightarrow> u32" where
  "roce_crc32_2 crc a b = roce_crc32_1 (roce_crc32_1 crc a) b"

definition roce_crc32_4 :: "u32 \<Rightarrow> u8 \<Rightarrow> u8 \<Rightarrow> u8 \<Rightarrow> u8 \<Rightarrow> u32" where
  "roce_crc32_4 crc a b c d = roce_crc32_2 (roce_crc32_2 crc a b) c d"

text \<open>The three loops of \<open>__roce_crc32\<close>: eight bytes, four bytes and one byte at a time.\<close>

fun crc32_loop1 :: "u32 \<Rightarrow> u8 list \<Rightarrow> u32" where
  "crc32_loop1 crc [] = crc"
| "crc32_loop1 crc (a # buf) = crc32_loop1 (roce_crc32_1 crc a) buf"

fun crc32_loop4 :: "u32 \<Rightarrow> u8 list \<Rightarrow> u32 \<times> u8 list" where
  "crc32_loop4 crc (a # b # c # d # buf) = crc32_loop4 (roce_crc32_4 crc a b c d) buf"
| "crc32_loop4 crc buf = (crc, buf)"

fun crc32_loop8 :: "u32 \<Rightarrow> u8 list \<Rightarrow> u32 \<times> u8 list" where
  "crc32_loop8 crc (a # b # c # d # e # f # g # h # buf) =
     crc32_loop8 (roce_crc32_4 (roce_crc32_4 crc a b c d) e f g h) buf"
| "crc32_loop8 crc buf = (crc, buf)"

definition roce_crc32_buf :: "u32 \<Rightarrow> u8 list \<Rightarrow> u32" where
  "roce_crc32_buf crc buf =
     (let (crc1, buf1) = crc32_loop8 crc buf; (crc2, buf2) = crc32_loop4 crc1 buf1
      in crc32_loop1 crc2 buf2)"

text \<open>The length of a vector goes into a 32-bit parameter.\<close>

fun roce_crc32 :: "('p \<Rightarrow> nat \<Rightarrow> u8 list) \<Rightarrow> u32 \<Rightarrow> 'p iovec list \<Rightarrow> u32" where
  "roce_crc32 rd crc [] = crc"
| "roce_crc32 rd crc (v # vs) =
     (if iov_base v = None \<or> iov_len v = 0 then roce_crc32 rd crc vs
      else roce_crc32 rd (roce_crc32_buf crc (rd (the (iov_base v)) (iov_len v mod 2 ^ 32))) vs)"

text \<open>
  The invariant CRC. The C function masks the headers it is given in place: the caller sees the
  masked IP header and BTH afterwards, so they are part of the result.
\<close>

datatype ip_any = Ip4 ip_hdr | Ip6 ipv6_hdr

definition icrc_ip4 :: "ip_hdr \<Rightarrow> ip_hdr" where
  "icrc_ip4 ip4 = ip_hdr_set_checksum (ip_hdr_set_ttl (ip4\<lparr>ip_tos := 0xff\<rparr>) 0xff) 0xffff"

definition icrc_ip6 :: "ipv6_hdr \<Rightarrow> ipv6_hdr" where
  "icrc_ip6 ip6 = ipv6_hdr_set_hop_limit (ipv6_hdr_set_version_tc_fl ip6 6 0xff 0xffffff) 0xff"

definition icrc_bth :: "ib_bth \<Rightarrow> ib_bth" where
  "icrc_bth bth = bth\<lparr>bth_u32_1 := bth_u32_1 bth OR htobe32 (NOT IB_BTH_DESTQP_MASK)\<rparr>"

definition roce_crc32_pkt ::
  "('p \<Rightarrow> nat \<Rightarrow> u8 list) \<Rightarrow> ip_any \<Rightarrow> u8 list \<Rightarrow> udp_hdr \<Rightarrow> ib_bth \<Rightarrow> 'p iovec list \<Rightarrow> u32 \<times> ip_any \<times> ib_bth"
where
  "roce_crc32_pkt rd ip ihlbuf udph bth iovs =
     (let icrc0 = 0xdebb20e3;
          (icrc1, ip') = (case ip of
              Ip4 ip4 \<Rightarrow>
                (let ip4' = icrc_ip4 ip4; c = roce_crc32_buf icrc0 (ip_hdr_bytes ip4') in
                 (if ihlbuf \<noteq> [] then roce_crc32_buf c ihlbuf else c, Ip4 ip4'))
            | Ip6 ip6 \<Rightarrow>
                (let ip6' = icrc_ip6 ip6 in (roce_crc32_buf icrc0 (ipv6_hdr_bytes ip6'), Ip6 ip6')));
          udph' = udph\<lparr>udp_checksum := 0xffff\<rparr>;
          icrc2 = roce_crc32_buf icrc1 (udp_hdr_bytes udph');
          bth' = icrc_bth bth;
          icrc3 = roce_crc32_buf icrc2 (ib_bth_bytes bth')
      in (NOT (roce_crc32 rd icrc3 iovs), ip', bth'))"

text \<open>
  The Internet checksum: the buffer is read as 16-bit integers of the host, the 32-bit sum is
  folded until it fits.
\<close>

fun checksum_sum :: "u32 \<Rightarrow> u8 list \<Rightarrow> u32" where
  "checksum_sum acc (a # b # bs) = checksum_sum (acc + le_word [a, b]) bs"
| "checksum_sum acc bs = acc"

function checksum_fold :: "u32 \<Rightarrow> u32" where
  "checksum_fold acc =
     (if drop_bit 16 acc = 0 then acc else checksum_fold ((acc AND 0xffff) + drop_bit 16 acc))"
  by pat_completeness auto

lemma unat_drop_16:
  fixes s :: u32
  shows "unat (drop_bit 16 s) = unat s div 65536"
  by (simp add: drop_bit_eq_div unat_div)

lemma checksum_step:
  fixes s :: u32
  shows "unat ((s AND 0xffff) + drop_bit 16 s) = unat s mod 65536 + unat s div 65536"
proof -
  have a: "unat (s AND 0xffff) = unat s mod 65536"
  proof -
    have "s AND 0xffff = take_bit 16 s" by (simp add: take_bit_eq_mask mask_eq_exp_minus_1)
    then show ?thesis by (simp add: take_bit_eq_mod unat_mod)
  qed
  have "unat s < 4294967296" by (rule unat_bounds)
  then have "unat s mod 65536 + unat s div 65536 < 4294967296" by linarith
  then show ?thesis by (simp add: unat_word_ariths a unat_drop_16)
qed

termination checksum_fold
proof (relation "measure unat")
  fix s :: u32
  assume "drop_bit 16 s \<noteq> 0"
  then have "unat (drop_bit 16 s) \<noteq> 0" by (simp only: unat_0_iff) blast
  then have "unat s div 65536 \<noteq> 0" by (simp only: unat_drop_16) blast
  then have "unat s mod 65536 + unat s div 65536 < unat s"
    using div_mult_mod_eq[of "unat s" 65536] by linarith
  then show "((s AND 0xffff) + drop_bit 16 s, s) \<in> measure unat"
    by (simp add: checksum_step)
qed simp

declare checksum_fold.simps [simp del]

definition roce_checksum :: "u8 list \<Rightarrow> u16" where
  "roce_checksum buf = NOT (ucast (checksum_fold (checksum_sum 0 buf)))"

subsection \<open>The bit-serial reference\<close>

definition crc_bit :: "u32 \<Rightarrow> u32" where
  "crc_bit c = (if bit c 0 then 0xedb88320 XOR drop_bit 1 c else drop_bit 1 c)"

definition crc_byte :: "u32 \<Rightarrow> u8 \<Rightarrow> u32" where
  "crc_byte c b = (crc_bit ^^ 8) (c XOR ucast b)"

definition crc_ref :: "u32 \<Rightarrow> u8 list \<Rightarrow> u32" where
  "crc_ref c bs = fold (\<lambda>b c. crc_byte c b) bs c"

subsection \<open>The table and the loops compute the reference\<close>

lemma crc_bit_xor: "crc_bit (x XOR y) = crc_bit x XOR crc_bit y"
  by (rule bit_word_eqI) (auto simp: crc_bit_def bit_simps)

lemma crc_bit_pow_xor: "(crc_bit ^^ n) (x XOR y) = (crc_bit ^^ n) x XOR (crc_bit ^^ n) y"
  by (induction n) (simp_all add: crc_bit_xor)

lemma crc_bit_pow_zero: "(crc_bit ^^ n) 0 = 0"
  by (induction n) (simp_all add: crc_bit_def)

lemma crc_bit_even: "\<not> bit x 0 \<Longrightarrow> crc_bit x = drop_bit 1 x"
  by (simp add: crc_bit_def)

lemma crc_bit_high: 
  assumes "\<forall>i < n. \<not> bit x i" shows "(crc_bit ^^ n) x = drop_bit n x"
  using assms
proof (induction n)
  case (Suc n)
  then have "(crc_bit ^^ n) x = drop_bit n x" by simp
  moreover have "\<not> bit (drop_bit n x) 0" using Suc.prems by (simp add: bit_simps)
  ultimately show ?case by (simp add: crc_bit_even drop_bit_drop_bit add.commute)
qed simp

definition crc_double :: "u32 \<Rightarrow> u32 list \<Rightarrow> u32 list" where
  "crc_double x xs = xs @ map (\<lambda>y. y XOR x) xs"

definition crc_upto :: "nat \<Rightarrow> u32 list \<Rightarrow> bool" where
  "crc_upto k xs \<longleftrightarrow> length xs = 2 ^ k \<and> (\<forall>i < 2 ^ k. xs ! i = (crc_bit ^^ 8) (of_nat i))"

lemma of_nat_xor_power: 
  assumes "i < 2 ^ k"
  shows "(of_nat (i + 2 ^ k) :: u32) = of_nat i XOR 2 ^ k"
proof -
  have "of_nat i AND (2 ^ k :: u32) = of_nat (i AND 2 ^ k)"
    by (simp add: of_nat_and_eq)
  also have "i AND 2 ^ k = 0"
  proof -
    have "\<not> bit i k" using assms by (simp add: bit_iff_odd)
    then show ?thesis by (intro bit_eqI) (auto simp: bit_and_iff bit_exp_iff)
  qed
  finally show ?thesis by (simp add: disjunctive_add_eq_xor)
qed

lemma crc_upto_double:
  assumes "crc_upto k xs"
  shows "crc_upto (Suc k) (crc_double ((crc_bit ^^ 8) (2 ^ k)) xs)"
  unfolding crc_upto_def
proof (intro conjI allI impI)
  show "length (crc_double ((crc_bit ^^ 8) (2 ^ k)) xs) = 2 ^ Suc k"
    using assms by (simp add: crc_double_def crc_upto_def)
next
  fix i :: nat assume i: "i < 2 ^ Suc k"
  show "crc_double ((crc_bit ^^ 8) (2 ^ k)) xs ! i = (crc_bit ^^ 8) (of_nat i)"
  proof (cases "i < 2 ^ k")
    case True
    then show ?thesis using assms by (simp add: crc_double_def crc_upto_def nth_append)
  next
    case False
    define j where "j = i - 2 ^ k"
    with False i have j: "i = j + 2 ^ k" "j < 2 ^ k" by simp_all
    then show ?thesis using assms 
      by (simp add: crc_double_def crc_upto_def nth_append of_nat_xor_power crc_bit_pow_xor del: of_nat_add)
  qed
qed

lemma crc_powers:
  "(crc_bit ^^ 8) 1 = 0x77073096" "(crc_bit ^^ 8) 2 = 0xee0e612c" "(crc_bit ^^ 8) 4 = 0x076dc419"
  "(crc_bit ^^ 8) 8 = 0x0edb8832" "(crc_bit ^^ 8) 16 = 0x1db71064" "(crc_bit ^^ 8) 32 = 0x3b6e20c8"
  "(crc_bit ^^ 8) 64 = 0x76dc4190" "(crc_bit ^^ 8) 128 = 0xedb88320"
  by (simp_all add: crc_bit_def funpow_8)

lemma table_double:
  "roce_crc_table = crc_double 0xedb88320 (crc_double 0x76dc4190 (crc_double 0x3b6e20c8 
    (crc_double 0x1db71064 (crc_double 0x0edb8832 (crc_double 0x076dc419 (crc_double 0xee0e612c
     (crc_double 0x77073096 [0])))))))"
  by (simp add: crc_double_def roce_crc_table_def)

lemma roce_crc_table_nth:
  assumes "i < 256"
  shows "roce_crc_table ! i = (crc_bit ^^ 8) (of_nat i)"
proof -
  have "crc_upto 0 [0]" by (simp add: crc_upto_def crc_bit_pow_zero)
  from this[THEN crc_upto_double, THEN crc_upto_double, THEN crc_upto_double, THEN crc_upto_double,
      THEN crc_upto_double, THEN crc_upto_double, THEN crc_upto_double, THEN crc_upto_double]
  have "crc_upto (Suc (Suc (Suc (Suc (Suc (Suc (Suc (Suc 0)))))))) roce_crc_table"
    by (simp add: table_double crc_powers del: funpow.simps)
  then have "crc_upto 8 roce_crc_table" by (simp add: eval_nat_numeral)
  then show ?thesis using assms by (simp add: crc_upto_def)
qed

lemma roce_crc32_1_byte: "roce_crc32_1 c b = crc_byte c b"
proof -
  let ?x = "c XOR ucast b"
  have "?x = (?x AND 0xff) XOR (?x AND NOT 0xff)"
    by (rule bit_word_eqI) (auto simp: bit_simps)
  then have "crc_byte c b = (crc_bit ^^ 8) (?x AND 0xff) XOR (crc_bit ^^ 8) (?x AND NOT 0xff)"
    unfolding crc_byte_def by (metis crc_bit_pow_xor)
  also have "(crc_bit ^^ 8) (?x AND NOT 0xff) = drop_bit 8 c"
  proof -
    have "\<forall>i < 8. \<not> bit (?x AND NOT 0xff) i"
      by (simp only: bit_and_iff bit_not_iff bit_ff) simp
    then have "(crc_bit ^^ 8) (?x AND NOT 0xff) = drop_bit 8 (?x AND NOT 0xff)" 
      by (rule crc_bit_high)
    also have "\<dots> = drop_bit 8 c"
      by (rule bit_word_eqI)
        (simp only: bit_and_iff bit_xor_iff bit_not_iff bit_drop_bit_eq bit_unsigned_iff bit_ff comp_apply,
         auto dest: bit_imp_le_length)
    finally show ?thesis .
  qed
  also have "(crc_bit ^^ 8) (?x AND 0xff) = roce_crc_table ! unat (?x AND 0xff)"
  proof -
    have "unat (?x AND 0xff) < 256" 
      using word_and_le1[of ?x "0xff"] by (simp add: word_le_nat_alt)
    then show ?thesis by (simp add: roce_crc_table_nth)
  qed
  finally show ?thesis by (simp add: roce_crc32_1_def)
qed

lemma crc32_loop1_ref: "crc32_loop1 c bs = crc_ref c bs"
  by (induction bs arbitrary: c) (simp_all add: crc_ref_def roce_crc32_1_byte)

lemma crc32_loop4_ref: "(case crc32_loop4 c bs of (c', bs') \<Rightarrow> crc_ref c' bs') = crc_ref c bs"
  by (induction c bs rule: crc32_loop4.induct)
    (simp_all add: crc_ref_def roce_crc32_4_def roce_crc32_2_def roce_crc32_1_byte)

lemma crc32_loop8_ref: "(case crc32_loop8 c bs of (c', bs') \<Rightarrow> crc_ref c' bs') = crc_ref c bs"
  by (induction c bs rule: crc32_loop8.induct)
    (simp_all add: crc_ref_def roce_crc32_4_def roce_crc32_2_def roce_crc32_1_byte)

lemma crc32_buf_ref: "roce_crc32_buf c bs = crc_ref c bs"
proof -
  obtain c1 b1 where 1: "crc32_loop8 c bs = (c1, b1)" by fastforce
  obtain c2 b2 where 2: "crc32_loop4 c1 b1 = (c2, b2)" by fastforce
  show ?thesis
    using crc32_loop8_ref[of c bs] crc32_loop4_ref[of c1 b1]
    by (simp add: roce_crc32_buf_def 1 2 crc32_loop1_ref)
qed

lemma crc_ref_append: "crc_ref c (us @ vs) = crc_ref (crc_ref c us) vs"
  by (simp add: crc_ref_def)

lemma crc_ref_Nil [simp]: "crc_ref c [] = c"
  by (simp add: crc_ref_def)

definition iovs_32bit :: "'p iovec list \<Rightarrow> bool" where
  "iovs_32bit vs \<longleftrightarrow> (\<forall>v \<in> set vs. iov_len v < 2 ^ 32)"

lemma iovs_32bit_total: "iovs_total vs < 2 ^ 32 \<Longrightarrow> iovs_32bit vs"
  using member_le_sum_list[of _ "map iov_len vs"] by (fastforce simp: iovs_32bit_def iovs_total_def)

lemma crc32_iovs_ref:
  assumes "\<And>p. rd p 0 = []" "iovs_32bit vs"
  shows "roce_crc32 rd c vs = crc_ref c (iovs_bytes rd vs)"
  using assms(2)
  by (induction vs arbitrary: c)
    (use assms(1) in \<open>auto simp: iovs_32bit_def crc_ref_append crc32_buf_ref iov_bytes_def split: option.splits\<close>)

lemma crc_bit_inject: "crc_bit x = crc_bit y \<Longrightarrow> x = y"
proof -
  assume eq: "crc_bit x = crc_bit y"
  have top: "bit (crc_bit z) 31 = bit z 0" for z
    by (auto simp: crc_bit_def bit_simps dest: bit_imp_le_length)
  have "drop_bit 1 x = drop_bit 1 y" "bit x 0 = bit y 0"
    using eq top[of x] top[of y] by (auto simp: crc_bit_def xor_cancel split: if_splits)
  have "bit x n = bit y n" for n
  proof (cases n)
    case 0
    then show ?thesis using \<open>bit x 0 = bit y 0\<close> by simp
  next
    case (Suc m)
    then show ?thesis using arg_cong[OF \<open>drop_bit 1 x = drop_bit 1 y\<close>, of "\<lambda>w. bit w m"]
      by (simp add: bit_drop_bit_eq)
  qed
  then show "x = y" by (simp add: bit_eq_iff)
qed

lemma crc_bit_pow_inject: "(crc_bit ^^ n) x = (crc_bit ^^ n) y \<Longrightarrow> x = y"
  by (induction n) (auto dest: crc_bit_inject)

lemma crc_byte_inject: "crc_byte c b = crc_byte c' b \<Longrightarrow> c = c'" "crc_byte c b = crc_byte c b' \<Longrightarrow> b = b'"
  by (auto simp: crc_byte_def xor_cancel ucast_inject dest!: crc_bit_pow_inject)

lemma crc_ref_inject: "crc_ref c bs = crc_ref c' bs \<Longrightarrow> c = c'"
  by (induction bs arbitrary: c c') (auto simp: crc_ref_def dest!: crc_byte_inject)

subsection \<open>The Internet checksum\<close>

text \<open>The sum of the 16-bit integers of a buffer, without the wrap of the 32-bit accumulator.\<close>

fun sum16 :: "u8 list \<Rightarrow> nat" where
  "sum16 (a # b # bs) = unat (le_word [a, b] :: u16) + sum16 bs"
| "sum16 bs = 0"

lemma sum16_append: "even (length xs) \<Longrightarrow> sum16 (xs @ ys) = sum16 xs + sum16 ys"
  by (induction xs rule: sum16.induct) auto

lemma sum16_le_bytes [simp]: "sum16 (le_bytes 2 (x :: u16)) = unat x"
proof -
  have ab: "le_bytes 2 x = [ucast x, ucast (drop_bit 8 x)]"
    by (simp add: le_bytes_def numeral_2_eq_2)
  have "le_word (le_bytes 2 x) = x" by (rule le_word_le_bytes) simp
  then show ?thesis unfolding ab by (simp del: le_word.simps)
qed

lemma sum16_bound: "sum16 bs \<le> 65535 * (length bs div 2)"
proof (induction bs rule: sum16.induct)
  case (1 a b bs)
  have "unat (le_word [a, b] :: u16) < 65536" by (rule unat_bounds)
  then show ?case using 1 by (simp del: le_word.simps)
qed simp_all

lemma unat_le_word_2: "unat (le_word [a, b] :: u32) = unat (le_word [a, b] :: u16)"
proof -
  have "(le_word [a, b] :: u32) = ucast (le_word [a, b] :: u16)"
    by (rule bit_word_eqI) (auto simp: bit_le_word bit_unsigned_iff simp del: le_word.simps dest: bit_imp_le_length)
  then show ?thesis using unat_bounds(2)[of "le_word [a, b]"]
    by (simp only: unsigned_ucast_eq) (simp add: take_bit_nat_eq_self)
qed

lemma checksum_sum_unat:
  "unat acc + sum16 bs < 2 ^ 32 \<Longrightarrow> unat (checksum_sum acc bs) = unat acc + sum16 bs"
proof (induction acc bs rule: checksum_sum.induct)
  case (1 acc a b bs)
  then have "unat (acc + le_word [a, b]) = unat acc + unat (le_word [a, b] :: u16)"
    by (simp add: unat_word_ariths unat_le_word_2 del: le_word.simps)
  then show ?case using 1 by (simp del: le_word.simps)
qed simp_all

lemma checksum_fold_unat:
  "unat (checksum_fold s) = (if s = 0 then 0 else (unat s - 1) mod 65535 + 1)"
proof (induction s rule: checksum_fold.induct)
  case (1 s)
  let ?n = "(s AND 0xffff) + drop_bit 16 s"
  have n: "unat ?n = unat s mod 65536 + unat s div 65536" by (rule checksum_step)
  show ?case
  proof (cases "drop_bit 16 s = 0")
    case True
    then have "unat s div 65536 = 0" by (metis unat_drop_16 unat_0)
    then have "unat s < 65536" by (simp add: div_eq_0_iff)
    then show ?thesis
      using True checksum_fold.simps[of s] unat_gt_0[of s]
      by (cases "s = 0") auto
  next
    case False
    then have q: "unat s div 65536 > 0"
      by (metis neq0_conv unat_drop_16 unat_eq_zero)
    then have "?n \<noteq> 0" using n by (metis add_gr_0 unat_0 less_irrefl)
    have "unat s - 1 = (unat ?n - 1) + 65535 * (unat s div 65536)"
      using q n div_mult_mod_eq[of "unat s" 65536] by linarith
    then have "(unat s - 1) mod 65535 = (unat ?n - 1) mod 65535" by simp
    moreover have "s \<noteq> 0" using False by auto
    ultimately show ?thesis
      using 1[OF False] False \<open>?n \<noteq> 0\<close> by (simp add: checksum_fold.simps[of s])
  qed
qed

lemma roce_checksum_unat:
  assumes "length bs \<le> 65536"
  shows "unat (roce_checksum bs) =
    (if sum16 bs = 0 then 65535 else 65534 - (sum16 bs - 1) mod 65535)"
proof -
  have "sum16 bs \<le> 65535 * 32768" using sum16_bound[of bs] assms by linarith
  then have s: "unat (checksum_sum 0 bs) = sum16 bs" by (simp add: checksum_sum_unat)
  let ?f = "checksum_fold (checksum_sum 0 bs)"
  have f: "unat ?f = (if sum16 bs = 0 then 0 else (sum16 bs - 1) mod 65535 + 1)"
    using s by (metis checksum_fold_unat unat_0 unat_eq_zero)
  have "unat ?f < 65536"
    unfolding f using mod_less_divisor[of 65535 "sum16 bs - 1"] by simp
  then have "unat (ucast ?f :: u16) = unat ?f" 
    by (simp only: unsigned_ucast_eq) (simp add: take_bit_nat_eq_self)
  moreover have "unat (NOT x) = 65535 - unat x" for x :: u16
    by (rule unat_not_u16)
  ultimately show ?thesis using f by (auto simp: roce_checksum_def)
qed

lemma ip_bytes_checksum_sum:
  "sum16 (ip_hdr_bytes (h\<lparr>ip_checksum := c\<rparr>)) = sum16 (ip_hdr_bytes (h\<lparr>ip_checksum := 0\<rparr>)) + unat c"
  by (simp add: ip_hdr_bytes_def sum16_append)

lemma crc_ref_Cons: "crc_ref c (b # bs) = crc_ref (crc_byte c b) bs"
  by (simp add: crc_ref_def)

lemma crc_lrh_steps:
  "crc_byte 0xffffffff 0xff = 0xffffff"
  "crc_byte 0xffffff 0xff = 0xffff"
  "crc_byte 0xffff 0xff = 0xff"
  "crc_byte 0xff 0xff = 0x0"
  "crc_byte 0x0 0xff = 0x2d02ef8d"
  "crc_byte 0x2d02ef8d 0xff = 0xbe2612ff"
  "crc_byte 0xbe2612ff 0xff = 0xbe2612"
  "crc_byte 0xbe2612 0xff = 0xdebb20e3"
  by (simp_all add: crc_byte_def crc_bit_def funpow_8)

lemma pseudo_lrh_seed: "crc_ref 0xffffffff (replicate 8 0xff) = 0xdebb20e3"
proof -
  have "replicate 8 x = [x, x, x, x, x, x, x, x]" for x :: u8 by (simp add: eval_nat_numeral)
  then show ?thesis by (simp add: crc_ref_Cons crc_lrh_steps)
qed

definition icrc_masked :: "ip_any \<Rightarrow> u8 list" where
  "icrc_masked ip = (case ip of Ip4 h \<Rightarrow> ip_hdr_bytes (icrc_ip4 h) | Ip6 h \<Rightarrow> ipv6_hdr_bytes (icrc_ip6 h))"

definition icrc_ip_hdr :: "ip_any \<Rightarrow> ip_any" where
  "icrc_ip_hdr ip = (case ip of Ip4 h \<Rightarrow> Ip4 (icrc_ip4 h) | Ip6 h \<Rightarrow> Ip6 (icrc_ip6 h))"

lemma crc32_pkt_eq:
  assumes rd: "\<And>p. rd p 0 = []" and small: "iovs_32bit iovs" and v6: "\<And>h. ip = Ip6 h \<Longrightarrow> ihlbuf = []"
  shows "roce_crc32_pkt rd ip ihlbuf udph bth iovs =
    (NOT (crc_ref 0xffffffff (replicate 8 0xff @ icrc_masked ip @ ihlbuf
        @ udp_hdr_bytes (udph\<lparr>udp_checksum := 0xffff\<rparr>) @ ib_bth_bytes (icrc_bth bth)
        @ iovs_bytes rd iovs)), icrc_ip_hdr ip, icrc_bth bth)"
proof -
  have crc: "roce_crc32 rd c iovs = crc_ref c (iovs_bytes rd iovs)" for c
    using rd small by (rule crc32_iovs_ref)
  show ?thesis
  using v6 by (cases ip)
    (auto simp: roce_crc32_pkt_def icrc_masked_def icrc_ip_hdr_def Let_def crc32_buf_ref crc_ref_append
        crc pseudo_lrh_seed)
qed

lemma masked_flag:
  fixes u :: "'a::len word"
  assumes "F AND D = 0"
  shows "(u OR F) OR NOT D = u OR NOT D" "(u AND NOT F) OR NOT D = u OR NOT D"
proof -
  have "bit F n \<Longrightarrow> \<not> bit D n" for n using assms by (metis bit_0_eq bit_and_iff bot_apply bot_bool_def)
  then show "(u OR F) OR NOT D = u OR NOT D" "(u AND NOT F) OR NOT D = u OR NOT D"
    by (auto intro!: bit_word_eqI simp: bit_simps)
qed

lemma icrc_bth_congestion:
  "icrc_bth (ib_bth_set_fecn (ib_bth_set_becn bth becn) fecn) = icrc_bth bth"
proof -
  have z: "htobe32 0 = 0" by (simp add: bswap_def le_bytes_def eval_nat_numeral)
  have "htobe32 M AND htobe32 N = htobe32 (M AND N)" for M N by simp
  then have "htobe32 IB_BTH_FECN_MASK AND htobe32 IB_BTH_DESTQP_MASK = 0"
    "htobe32 IB_BTH_BECN_MASK AND htobe32 IB_BTH_DESTQP_MASK = 0"
    by (simp_all only: mask_u32 z)
  note this[THEN masked_flag(1)] this[THEN masked_flag(2)]
  then show ?thesis
    by (simp add: icrc_bth_def ib_bth_set_fecn_def ib_bth_set_becn_def)
qed

text \<open>
  The masks of the invariant CRC as overwritten bytes, by their offsets in the headers on the wire: type of
  service, time to live and checksum of IPv4; the first four bytes (version 6, traffic class, flow label) and
  the hop limit of IPv6; the UDP checksum; the byte of the BTH with FECN, BECN and reserved bits.
\<close>

definition mask_ip4 :: "u8 list \<Rightarrow> u8 list" where
  "mask_ip4 bs = bs[1 := 0xff, 8 := 0xff, 10 := 0xff, 11 := 0xff]"

definition mask_ip6 :: "u8 list \<Rightarrow> u8 list" where
  "mask_ip6 bs = bs[0 := 0x6f, 1 := 0xff, 2 := 0xff, 3 := 0xff, 7 := 0xff]"

definition mask_udp :: "u8 list \<Rightarrow> u8 list" where
  "mask_udp bs = bs[6 := 0xff, 7 := 0xff]"

definition mask_bth :: "u8 list \<Rightarrow> u8 list" where
  "mask_bth bs = bs[4 := 0xff]"

lemma le_bytes_2: "le_bytes 2 x = [ucast x, ucast (drop_bit 8 x)]"
  and le_bytes_4: "le_bytes 4 x = [ucast x, ucast (drop_bit 8 x), ucast (drop_bit 16 x), ucast (drop_bit 24 x)]"
  by (simp_all add: le_bytes_def eval_nat_numeral)

lemma icrc_ip4_bytes: "ip_hdr_bytes (icrc_ip4 h) = mask_ip4 (ip_hdr_bytes h)"
  unfolding ip_hdr_bytes_def mask_ip4_def le_bytes_2 le_bytes_4
  by (simp add: icrc_ip4_def ip_hdr_set_checksum_def ip_hdr_set_ttl_def list_update.simps)

lemma icrc_ip6_bytes: "ipv6_hdr_bytes (icrc_ip6 h) = mask_ip6 (ipv6_hdr_bytes h)"
proof -
  have "le_bytes 4 (htobe32 0x6fffffff) = [0x6f, 0xff, 0xff, 0xff]" by code_simp
  moreover have "push_bit 28 (ucast (6 :: u8) AND 0xf) OR push_bit 20 (ucast (0xff :: u8)) OR (0xffffff AND IPV6_FLOW_LABEL_MASK)
      = (0x6fffffff :: u32)" by (simp add: IPV6_FLOW_LABEL_MASK_def)
  ultimately have "le_bytes 4 (ip6_u32_0 (icrc_ip6 h)) = [0x6f, 0xff, 0xff, 0xff]"
    by (simp add: icrc_ip6_def ipv6_hdr_set_version_tc_fl_def ipv6_hdr_set_hop_limit_def)
  moreover have "ip6_payload_len (icrc_ip6 h) = ip6_payload_len h" "ip6_nexthdr (icrc_ip6 h) = ip6_nexthdr h"
    "ip6_hop_limit (icrc_ip6 h) = 0xff" "ip6_saddr (icrc_ip6 h) = ip6_saddr h" "ip6_daddr (icrc_ip6 h) = ip6_daddr h"
    by (simp_all add: icrc_ip6_def ipv6_hdr_set_version_tc_fl_def ipv6_hdr_set_hop_limit_def Let_def)
  ultimately show ?thesis
    unfolding ipv6_hdr_bytes_def mask_ip6_def le_bytes_4[of "ip6_u32_0 h"] le_bytes_2 by (simp add: list_update.simps)
qed

lemma icrc_udp_bytes: "udp_hdr_bytes (u\<lparr>udp_checksum := 0xffff\<rparr>) = mask_udp (udp_hdr_bytes u)"
  unfolding udp_hdr_bytes_def mask_udp_def le_bytes_2 by (simp add: list_update.simps)

lemma icrc_bth_bytes: "ib_bth_bytes (icrc_bth bth) = mask_bth (ib_bth_bytes bth)"
proof -
  have "htobe32 (NOT IB_BTH_DESTQP_MASK) = (0xff :: u32)" by code_simp
  moreover have "le_bytes 4 (u OR 0xff) = (le_bytes 4 u)[0 := 0xff]" for u :: u32
  proof -
    have "(0xff :: u8) = mask 8" by (simp add: mask_eq_exp_minus_1)
    then have "ucast (u OR 0xff) = (0xff :: u8)"
      by (intro bit_word_eqI) (simp only: bit_unsigned_iff bit_or_iff bit_ff bit_mask_iff, simp)
    moreover have "ucast (drop_bit n (u OR 0xff)) = (ucast (drop_bit n u) :: u8)" if "8 \<le> n" for n
      using that by (intro bit_word_eqI) (simp only: bit_unsigned_iff bit_or_iff bit_drop_bit_eq bit_ff comp_apply, auto)
    ultimately show ?thesis by (simp add: le_bytes_4)
  qed
  ultimately show ?thesis
    unfolding ib_bth_bytes_def mask_bth_def le_bytes_2 le_bytes_4[of "bth_u32_1 bth"]
    by (simp add: icrc_bth_def list_update.simps) (simp add: le_bytes_4)
qed

subsection \<open>Properties\<close>

text \<open>C32: The table-driven, unrolled CRC over a vector (\<open>roce_crc32\<close>) is the bit-serial CRC-32 of
  the concatenation of the bytes the vector stands for, when no part of it is 4 GiB or longer; of longer
  parts the code reads only the length modulo \<open>2 ^ 32\<close>.\<close>

theorem roce_crc32_reference:
  "(iovs_32bit iovs \<longrightarrow> roce_crc32 (load m) crc iovs = crc_ref crc (iovs_bytes (load m) iovs)) \<and>
   roce_crc32 (load m) crc iovs = crc_ref crc (iovs_bytes (load m) (map (\<lambda>v. v\<lparr>iov_len := iov_len v mod 2 ^ 32\<rparr>) iovs))"
proof
  show "iovs_32bit iovs \<longrightarrow> roce_crc32 (load m) crc iovs = crc_ref crc (iovs_bytes (load m) iovs)"
    using crc32_iovs_ref[of "load m"] by simp
  show "roce_crc32 (load m) crc iovs = crc_ref crc (iovs_bytes (load m) (map (\<lambda>v. v\<lparr>iov_len := iov_len v mod 2 ^ 32\<rparr>) iovs))"
    by (induction iovs arbitrary: crc) (auto simp: crc_ref_append crc32_buf_ref iov_bytes_def split: option.splits)
qed

lemma roce_crc32_reference_witness:
  "roce_crc32 (load (\<lambda>a. ucast a)) 0xffffffff [\<lparr>iov_base = Some 1, iov_len = 2\<rparr>, \<lparr>iov_base = Some 7, iov_len = 1\<rparr>] =
     crc_ref 0xffffffff [1, 2, 7]"
proof -
  let ?vs = "[\<lparr>iov_base = Some 1, iov_len = 2\<rparr>, \<lparr>iov_base = Some 7, iov_len = 1\<rparr>] :: iov list"
  have "iovs_bytes (load (\<lambda>a. ucast a)) ?vs = [1, 2, 7]" by (simp add: iov_bytes_def load_def upt_rec)
  moreover have "iovs_32bit ?vs" by (simp add: iovs_32bit_def)
  from conjunct1[OF roce_crc32_reference, rule_format, OF this]
  have "roce_crc32 (load (\<lambda>a. ucast a)) 0xffffffff ?vs = crc_ref 0xffffffff (iovs_bytes (load (\<lambda>a. ucast a)) ?vs)" .
  ultimately show ?thesis by (simp only:)
qed

text \<open>C34: The CRC of two buffers that differ in one byte, at any place and after any start value, differs.\<close>

theorem crc32_detects_byte_error:
  assumes "a \<noteq> b"
  shows "roce_crc32_buf crc (us @ a # vs) \<noteq> roce_crc32_buf crc (us @ b # vs)"
  using assms crc_ref_inject crc_byte_inject(2)
  by (auto simp: crc32_buf_ref crc_ref_append) (auto simp: crc_ref_def dest: crc_byte_inject)

lemma crc32_detects_byte_error_witness:
  "roce_crc32_buf 0xdebb20e3 ([1, 2] @ 3 # [4]) \<noteq> roce_crc32_buf 0xdebb20e3 ([1, 2] @ 7 # [4])"
  by (rule crc32_detects_byte_error) simp

text \<open>C33: The invariant CRC of a packet is the complement of the CRC-32, started from all ones, of
  eight bytes of ones (in place of the LRH), the bytes of the IP header, of its options, of the UDP header and of the
  BTH, in which the bytes of the variant fields are overwritten (\<open>mask_ip4\<close>, \<open>mask_ip6\<close>, \<open>mask_udp\<close>,
  \<open>mask_bth\<close> name their offsets), and the rest of the packet as it is.\<close>

theorem roce_crc32_pkt_reference:
  assumes "iovs_32bit iovs"
  shows "fst (roce_crc32_pkt (load m) (Ip4 h4) ihlbuf udph bth iovs) =
     NOT (crc_ref 0xffffffff (replicate 8 0xff @ mask_ip4 (ip_hdr_bytes h4) @ ihlbuf
        @ mask_udp (udp_hdr_bytes udph) @ mask_bth (ib_bth_bytes bth) @ iovs_bytes (load m) iovs)) \<and>
   fst (roce_crc32_pkt (load m) (Ip6 h6) [] udph bth iovs) =
     NOT (crc_ref 0xffffffff (replicate 8 0xff @ mask_ip6 (ipv6_hdr_bytes h6)
        @ mask_udp (udp_hdr_bytes udph) @ mask_bth (ib_bth_bytes bth) @ iovs_bytes (load m) iovs))"
  using crc32_pkt_eq[of "load m" iovs "Ip4 h4" ihlbuf] crc32_pkt_eq[of "load m" iovs "Ip6 h6" "[]"] assms
  by (simp add: icrc_masked_def icrc_ip4_bytes icrc_ip6_bytes icrc_udp_bytes icrc_bth_bytes)

lemma roce_crc32_pkt_reference_witness:
  "fst (roce_crc32_pkt (load (\<lambda>_. 7)) (Ip4 (ip_hdr_zero\<lparr>ip_ttl := 64\<rparr>)) [] udp_hdr_zero ib_bth_zero [\<lparr>iov_base = Some 1, iov_len = 1\<rparr>]) =
     NOT (crc_ref 0xffffffff (replicate 8 0xff @ mask_ip4 (ip_hdr_bytes (ip_hdr_zero\<lparr>ip_ttl := 64\<rparr>)) @ mask_udp (udp_hdr_bytes udp_hdr_zero)
       @ mask_bth (ib_bth_bytes ib_bth_zero) @ [7]))"
proof -
  have "iovs_32bit [\<lparr>iov_base = Some 1, iov_len = 1\<rparr>]" by (simp add: iovs_32bit_def)
  from conjunct1[OF roce_crc32_pkt_reference[OF this, where m = "\<lambda>_. 7" and ihlbuf = "[]" and
      ?h4.0 = "ip_hdr_zero\<lparr>ip_ttl := 64\<rparr>" and udph = udp_hdr_zero and bth = ib_bth_zero]] show ?thesis
    by (simp add: iov_bytes_def load_def)
qed

text \<open>The invariant CRC does not depend on what routers change on the way: type of service,
  time to live and header checksum of IPv4, traffic class, flow label and hop limit of IPv6, the UDP
  checksum, and the congestion bits of the BTH.\<close>

theorem icrc_ignores_variant_fields:
  "fst (roce_crc32_pkt (load m) (Ip4 (ip_hdr_set_checksum (ip_hdr_set_ttl (h4\<lparr>ip_tos := tos\<rparr>) ttl) ck))
       ihlbuf (udp_hdr_set_checksum udph uck) (ib_bth_set_fecn (ib_bth_set_becn bth becn) fecn) iovs) =
     fst (roce_crc32_pkt (load m) (Ip4 h4) ihlbuf udph bth iovs) \<and>
   fst (roce_crc32_pkt (load m) (Ip6 (ipv6_hdr_set_hop_limit (ipv6_hdr_set_version_tc_fl h6 6 tc fl) hop))
       [] (udp_hdr_set_checksum udph uck) bth iovs) =
     fst (roce_crc32_pkt (load m) (Ip6 h6) [] udph bth iovs)"
proof -
  have m4: "icrc_ip4 (ip_hdr_set_checksum (ip_hdr_set_ttl (h4\<lparr>ip_tos := tos\<rparr>) ttl) ck) = icrc_ip4 h4"
    by (simp add: icrc_ip4_def ip_hdr_set_checksum_def ip_hdr_set_ttl_def)
  have m6: "icrc_ip6 (ipv6_hdr_set_hop_limit (ipv6_hdr_set_version_tc_fl h6 6 tc fl) hop) = icrc_ip6 h6"
    by (simp add: icrc_ip6_def ipv6_hdr_set_hop_limit_def ipv6_hdr_set_version_tc_fl_def Let_def)
  show ?thesis
    by (simp add: roce_crc32_pkt_def Let_def m4 m6 icrc_bth_congestion udp_hdr_set_checksum_def)
qed

text \<open>C35: An IPv4 header whose checksum field holds the checksum of the header with that field zero
  has checksum 0, which is how a receiver verifies it.\<close>

theorem ip_checksum_verifies:
  "roce_checksum (ip_hdr_bytes (ip_hdr_set_checksum h
     (roce_checksum (ip_hdr_bytes (ip_hdr_set_checksum h 0))))) = 0"
proof -
  define n where "n = sum16 (ip_hdr_bytes (h\<lparr>ip_checksum := 0\<rparr>))"
  define c where "c = roce_checksum (ip_hdr_bytes (h\<lparr>ip_checksum := 0\<rparr>))"
  have c: "unat c = (if n = 0 then 65535 else 65534 - (n - 1) mod 65535)"
    unfolding c_def n_def by (rule roce_checksum_unat) simp
  have "unat (roce_checksum (ip_hdr_bytes (h\<lparr>ip_checksum := c\<rparr>))) =
     (if n + unat c = 0 then 65535 else 65534 - (n + unat c - 1) mod 65535)"
    unfolding n_def ip_bytes_checksum_sum[symmetric] by (rule roce_checksum_unat) simp
  moreover have "n + unat c \<noteq> 0" using c by (cases "n = 0") auto
  moreover have "(n + unat c - 1) mod 65535 = 65534"
  proof (cases "n = 0")
    case False
    have "(n - 1) mod 65535 < 65535" by simp
    moreover have "unat c = 65534 - (n - 1) mod 65535" using c False by simp
    ultimately have "n + unat c - 1 = 65534 + 65535 * ((n - 1) div 65535)"
      using False div_mult_mod_eq[of "n - 1" 65535] by linarith
    then show ?thesis by simp
  qed (use c in simp)
  ultimately have "unat (roce_checksum (ip_hdr_bytes (h\<lparr>ip_checksum := c\<rparr>))) = 0" by simp
  then show ?thesis by (simp add: ip_hdr_set_checksum_def unat_0_iff flip: c_def)
qed

end
