(* ===== verification/Qp_State.thy ===== *)
theory Qp_State
  imports Mr Port Crc
begin

text \<open>
  The data of queue pairs: work requests, completions, network packets and the \<open>roce_qp\<close> of
  \<open>include/roce/roce.h\<close>, \<open>include/private/roce-private.h\<close> and \<open>include/private/netpkt.h\<close>, with
  the opcode tables and the life cycle of work requests (\<open>qp.c\<close>). What the library does through its
  callbacks is a list of events.
\<close>

subsection \<open>Enumerations\<close>

datatype roce_wr_opcode =
    ROCE_WR_SEND
  | ROCE_WR_SEND_WITH_IMM
  | ROCE_WR_SEND_WITH_INV
  | ROCE_WR_RDMA_WRITE
  | ROCE_WR_RDMA_WRITE_WITH_IMM
  | ROCE_WR_RDMA_READ
  | ROCE_WR_ATOMIC_CMP_AND_SWP
  | ROCE_WR_ATOMIC_FETCH_AND_ADD
  | ROCE_WR_ATOMIC_WRITE
  | ROCE_WR_FLUSH
  | ROCE_WR_LOCAL_INV
  | ROCE_WR_REG_MR
  | ROCE_WR_BIND_MW
  | ROCE_WR_OPCODE_MAX

datatype roce_wc_opcode =
    ROCE_WC_SEND
  | ROCE_WC_RDMA_WRITE
  | ROCE_WC_RDMA_READ
  | ROCE_WC_COMP_SWAP
  | ROCE_WC_FETCH_ADD
  | ROCE_WC_ATOMIC_WRITE
  | ROCE_WC_FLUSH
  | ROCE_WC_LOCAL_INV
  | ROCE_WC_REG_MR
  | ROCE_WC_BIND_MW
  | ROCE_WC_RECV
  | ROCE_WC_RECV_RDMA_WITH_IMM
  | ROCE_WC_OPCODE_MAX

datatype roce_qp_state =
    ROCE_QPS_RESET
  | ROCE_QPS_INIT
  | ROCE_QPS_RTR
  | ROCE_QPS_RTS
  | ROCE_QPS_SQD
  | ROCE_QPS_SQE
  | ROCE_QPS_ERR
  | ROCE_QPS_MAX

text \<open>The statuses the library stores are those of \<open>roce_wc_status\<close>, and what fits in the
  8 bits of \<open>_roce_send_wr.error\<close>; so they are numbers.\<close>

abbreviation (input) ROCE_WC_SUCCESS :: u8 where "ROCE_WC_SUCCESS \<equiv> 0"
abbreviation (input) ROCE_WC_LOC_LEN_ERR :: u8 where "ROCE_WC_LOC_LEN_ERR \<equiv> 1"
abbreviation (input) ROCE_WC_LOC_QP_OP_ERR :: u8 where "ROCE_WC_LOC_QP_OP_ERR \<equiv> 2"
abbreviation (input) ROCE_WC_BAD_RESP_ERR :: u8 where "ROCE_WC_BAD_RESP_ERR \<equiv> 7"

abbreviation (input) ROCE_WC_GRH :: u16 where "ROCE_WC_GRH \<equiv> 1"
abbreviation (input) ROCE_WC_WITH_IMM :: u16 where "ROCE_WC_WITH_IMM \<equiv> 2"
abbreviation (input) ROCE_WC_WITH_INVALIDATE :: u16 where "ROCE_WC_WITH_INVALIDATE \<equiv> 4"

definition ROCE_SEND_SIGNALED :: u32 where "ROCE_SEND_SIGNALED = push_bit 1 1"
definition ROCE_SEND_SOLICITED :: u32 where "ROCE_SEND_SOLICITED = push_bit 2 1"
definition ROCE_SEND_INLINE :: u32 where "ROCE_SEND_INLINE = push_bit 3 1"

abbreviation (input) ROCE_MAX_SGE :: nat where "ROCE_MAX_SGE \<equiv> 64"

subsection \<open>Work requests and completions\<close>

text \<open>
  The two unions of \<open>roce_send_wr\<close> are kept as the words they lie in: \<open>imm_data\<close> and
  \<open>invalidated_rkey\<close> in one; of \<open>wr\<close>, the first eight bytes (\<open>rdma.remote_addr\<close>, or
  \<open>ud.remote_qpn\<close> and \<open>ud.remote_qkey\<close>) and the next four (\<open>rdma.rkey\<close> or \<open>ud.ah\<close>). The members of
  \<open>atomic\<close> beyond those are never read.
\<close>

record roce_send_wr =
  wr_id :: u64
  wr_opcode :: roce_wr_opcode
  send_flags :: u32
  wr_imm_data :: u32
  wr_u64_0 :: u64
  wr_u32_8 :: u32
  wr_sge :: "roce_sge list"

definition wr_rdma_remote_addr :: "roce_send_wr \<Rightarrow> u64" where
  "wr_rdma_remote_addr wr = wr_u64_0 wr"

definition wr_rdma_rkey :: "roce_send_wr \<Rightarrow> u32" where
  "wr_rdma_rkey wr = wr_u32_8 wr"

definition wr_ud_remote_qpn :: "roce_send_wr \<Rightarrow> u32" where
  "wr_ud_remote_qpn wr = ucast (wr_u64_0 wr)"

definition wr_ud_remote_qkey :: "roce_send_wr \<Rightarrow> u32" where
  "wr_ud_remote_qkey wr = ucast (drop_bit 32 (wr_u64_0 wr))"

definition wr_ud_ah :: "roce_send_wr \<Rightarrow> u32" where
  "wr_ud_ah wr = wr_u32_8 wr"

text \<open>\<open>_roce_send_wr\<close>, with the address it was allocated at: packets point back to it.\<close>

record send_wr_priv =
  swr_ptr :: u64
  swr_error :: u8
  swr_mapped :: bool
  swr :: roce_send_wr

record roce_recv_wr =
  rwr_id :: u64
  rwr_sge :: "roce_sge list"

record recv_wr_priv =
  rwr_ptr :: u64
  rwr_byte_len :: u32
  rwr_sge_idx :: nat
  rwr_sge_off :: u32
  rwr :: roce_recv_wr

record roce_wc =
  wc_wr_id :: u64
  wc_status :: u8
  wc_opcode :: roce_wc_opcode
  wc_byte_len :: u32
  wc_local_qpn :: u32
  wc_remote_qpn :: u32
  wc_imm_data :: u32
  wc_vendor_err :: u32
  wc_flags :: u16
  wc_pkey_index :: u16

definition roce_wc_zero :: roce_wc where
  "roce_wc_zero = \<lparr>wc_wr_id = 0, wc_status = 0, wc_opcode = ROCE_WC_SEND, wc_byte_len = 0,
     wc_local_qpn = 0, wc_remote_qpn = 0, wc_imm_data = 0, wc_vendor_err = 0, wc_flags = 0,
     wc_pkey_index = 0\<rparr>"

definition roce_send_wr_is_inline :: "send_wr_priv \<Rightarrow> bool" where
  "roce_send_wr_is_inline w \<longleftrightarrow> send_flags (swr w) AND ROCE_SEND_INLINE \<noteq> 0"

definition roce_send_wr_is_local :: "send_wr_priv \<Rightarrow> bool" where
  "roce_send_wr_is_local w \<longleftrightarrow> wr_opcode (swr w) \<in> {ROCE_WR_LOCAL_INV, ROCE_WR_REG_MR, ROCE_WR_BIND_MW}"

fun roce_send_wr_to_wc :: "roce_wr_opcode \<Rightarrow> (roce_wc_opcode \<times> u16) run" where
  "roce_send_wr_to_wc ROCE_WR_SEND = Inr (ROCE_WC_SEND, 0)"
| "roce_send_wr_to_wc ROCE_WR_SEND_WITH_IMM = Inr (ROCE_WC_SEND, ROCE_WC_WITH_IMM)"
| "roce_send_wr_to_wc ROCE_WR_SEND_WITH_INV = Inr (ROCE_WC_SEND, ROCE_WC_WITH_INVALIDATE)"
| "roce_send_wr_to_wc ROCE_WR_RDMA_WRITE = Inr (ROCE_WC_RDMA_WRITE, 0)"
| "roce_send_wr_to_wc ROCE_WR_RDMA_WRITE_WITH_IMM = Inr (ROCE_WC_RDMA_WRITE, ROCE_WC_WITH_IMM)"
| "roce_send_wr_to_wc ROCE_WR_RDMA_READ = Inr (ROCE_WC_RDMA_READ, 0)"
| "roce_send_wr_to_wc ROCE_WR_ATOMIC_CMP_AND_SWP = Inr (ROCE_WC_COMP_SWAP, 0)"
| "roce_send_wr_to_wc ROCE_WR_ATOMIC_FETCH_AND_ADD = Inr (ROCE_WC_FETCH_ADD, 0)"
| "roce_send_wr_to_wc ROCE_WR_ATOMIC_WRITE = Inr (ROCE_WC_ATOMIC_WRITE, 0)"
| "roce_send_wr_to_wc ROCE_WR_FLUSH = Inr (ROCE_WC_FLUSH, 0)"
| "roce_send_wr_to_wc ROCE_WR_LOCAL_INV = Inr (ROCE_WC_LOCAL_INV, 0)"
| "roce_send_wr_to_wc ROCE_WR_REG_MR = Inr (ROCE_WC_REG_MR, 0)"
| "roce_send_wr_to_wc ROCE_WR_BIND_MW = Inr (ROCE_WC_BIND_MW, 0)"
| "roce_send_wr_to_wc ROCE_WR_OPCODE_MAX = Inl Out_of_bounds"

definition roce_send_wr_opcode_to_wc :: "roce_wr_opcode \<Rightarrow> roce_wc \<Rightarrow> roce_wc run" where
  "roce_send_wr_opcode_to_wc opcode wc = bindR (roce_send_wr_to_wc opcode) (\<lambda>(op, flags).
     Inr (wc\<lparr>wc_opcode := op, wc_flags := wc_flags wc OR flags\<rparr>))"

text \<open>The table has 31 entries; those not named are zero.\<close>

definition roce_recv_wr_opcode_to_wc :: "u8 \<Rightarrow> roce_wc \<Rightarrow> (roce_wc \<times> bool) run" where
  "roce_recv_wr_opcode_to_wc ib_opcode wc =
     (if unat ib_opcode \<ge> unat IB_OPCODE_MASK then Inl Out_of_bounds
      else
        let (op, complete, flags) =
          (if ib_opcode = IB_OPCODE_SEND_LAST \<or> ib_opcode = IB_OPCODE_SEND_ONLY then (ROCE_WC_RECV, True, 0)
           else if ib_opcode = IB_OPCODE_SEND_LAST_WITH_IMMEDIATE \<or>
             ib_opcode = IB_OPCODE_SEND_ONLY_WITH_IMMEDIATE then (ROCE_WC_RECV, True, ROCE_WC_WITH_IMM)
           else if ib_opcode = IB_OPCODE_RDMA_WRITE_LAST_WITH_IMMEDIATE \<or>
             ib_opcode = IB_OPCODE_RDMA_WRITE_ONLY_WITH_IMMEDIATE
           then (ROCE_WC_RECV_RDMA_WITH_IMM, True, ROCE_WC_WITH_IMM)
           else (ROCE_WC_SEND, False, 0))
        in Inr (wc\<lparr>wc_opcode := op, wc_flags := wc_flags wc OR flags\<rparr>, complete))"

fun roce_qp_type_to_ib :: "roce_qp_type \<Rightarrow> u8 run" where
  "roce_qp_type_to_ib ROCE_QPT_SMI = Inr IB_OPCODE_UD"
| "roce_qp_type_to_ib ROCE_QPT_GSI = Inr IB_OPCODE_UD"
| "roce_qp_type_to_ib ROCE_QPT_RC = Inr IB_OPCODE_RC"
| "roce_qp_type_to_ib ROCE_QPT_UC = Inr IB_OPCODE_UC"
| "roce_qp_type_to_ib ROCE_QPT_RD = Inr IB_OPCODE_RD"
| "roce_qp_type_to_ib ROCE_QPT_UD = Inr IB_OPCODE_UD"
| "roce_qp_type_to_ib ROCE_QPT_MAX = Inl Out_of_bounds"

subsection \<open>Network packets\<close>

text \<open>
  A packet under construction (\<open>roce_netpkt\<close>). Its vectors point into the packet itself, to host
  memory, or to the \<open>sge\<close> array of an inline work request, which holds the payload and stays as it is
  until the request is freed. The two unions are the bytes they occupy: \<open>np_ip\<close> holds the IPv4
  header in its first 20 bytes or an IPv6 header in all 40, \<open>np_ext\<close> the extended headers.
\<close>

datatype nptr =
    N_vneth
  | N_ethh
  | N_ip
  | N_udph
  | N_bth
  | N_ext
  | N_pad
  | N_icrc
  | N_mem u64
  | N_inline "roce_sge list"

record roce_netpkt =
  np_opaque :: "u64 option"
  np_vneth :: "u8 list"
  np_ethh :: ethernet_hdr
  np_ip :: "u8 list"
  np_udph :: udp_hdr
  np_bth :: ib_bth
  np_ext :: "u8 list"
  np_pad :: "u8 list"
  np_icrc :: u32
  np_iovs :: "nptr iovec list"

definition roce_sge_bytes :: "roce_sge \<Rightarrow> u8 list" where
  "roce_sge_bytes s = le_bytes 8 (sge_addr s) @ le_bytes 4 (sge_length s) @ le_bytes 4 (sge_lkey s)"

text \<open>Reading through a pointer of a packet.\<close>

fun netpkt_rd :: "mem \<Rightarrow> roce_netpkt \<Rightarrow> nptr \<Rightarrow> nat \<Rightarrow> u8 list" where
  "netpkt_rd mm pkt N_vneth n = take n (np_vneth pkt)"
| "netpkt_rd mm pkt N_ethh n = take n (ethernet_hdr_bytes (np_ethh pkt))"
| "netpkt_rd mm pkt N_ip n = take n (np_ip pkt)"
| "netpkt_rd mm pkt N_udph n = take n (udp_hdr_bytes (np_udph pkt))"
| "netpkt_rd mm pkt N_bth n = take n (ib_bth_bytes (np_bth pkt))"
| "netpkt_rd mm pkt N_ext n = take n (np_ext pkt)"
| "netpkt_rd mm pkt N_pad n = take n (np_pad pkt)"
| "netpkt_rd mm pkt N_icrc n = take n (le_bytes 4 (np_icrc pkt))"
| "netpkt_rd mm pkt (N_mem p) n = load mm p n"
| "netpkt_rd mm pkt (N_inline sges) n = take n (concat (map roce_sge_bytes sges))"

text \<open>
  The callbacks: \<open>net_xmit\<close> with its queue and the bytes its vectors describe at that moment,
  \<open>cq_comp\<close> with the completion, the CQ and its cookie, \<open>dma_unmap\<close> with address and length.
\<close>

datatype roce_event =
    Net_xmit u16 "u8 list"
  | Cq_comp roce_wc u32 u64
  | Dma_unmap "u64 option" nat

text \<open>What a call finds outside the library: memory, and the answers of the \<open>dma_map\<close> callback.\<close>

record roce_env =
  env_mem :: mem
  env_dma :: "u64 \<Rightarrow> u32 \<Rightarrow> u64 option"

subsection \<open>Queue pairs\<close>

record roce_qp_cap =
  max_send_wr :: u32
  max_recv_wr :: u32
  max_send_sge :: u32
  max_recv_sge :: u32
  cap_max_inline_data :: u32

text \<open>
  The alternate path and the members of \<open>roce_qp_attr\<close> for the current state, path migration, timeouts and
  retries are never assigned; \<open>roce_query_qp\<close> copies them with the rest.
\<close>

datatype roce_mig_state = ROCE_MIG_MIGRATED | ROCE_MIG_REARM | ROCE_MIG_ARMED

record roce_qp_attr =
  qp_state :: roce_qp_state
  cur_qp_state :: roce_qp_state
  rq_psn :: u32
  sq_psn :: u32
  path_mtu :: u16
  path_mig_state :: roce_mig_state
  qkey :: u32
  dest_qp_num :: u32
  qp_access_flags :: u32
  qp_cap :: roce_qp_cap
  qp_ah_attr :: roce_ah_attr
  alt_ah_attr :: roce_ah_attr
  pkey_index :: u16
  alt_pkey_index :: u16
  en_sqd_async_notify :: u8
  sq_draining :: u8
  max_rd_atomic :: u8
  max_dest_rd_atomic :: u8
  min_rnr_timer :: u8
  qp_port_num :: u8
  qp_timeout :: u8
  retry_cnt :: u8
  rnr_retry :: u8
  alt_port_num :: u8
  alt_timeout :: u8

text \<open>
  The requester half of a QP has the packets that wait (\<open>pending_pkts\<close>) and those sent and not yet
  acknowledged (\<open>outgoing_pkts\<close>). The responder half keeps its union as the words it lies in:
  \<open>resp_u\<close> is the pointer \<open>wr\<close> to the receive request in progress and the \<open>iova\<close> of the RDMA WRITE
  in progress at once; requests taken off the queue are in \<open>resp_heap\<close>, by address.
\<close>

record roce_qp = roce_res +
  qp_type :: roce_qp_type
  sq_sig_all :: bool
  use_srq :: bool
  qp_pd :: u32
  qp_scq :: u32
  qp_rcq :: u32
  qp_ctx :: u64
  qp_attr :: roce_qp_attr
  sq_wrs :: "send_wr_priv list"
  rq_wrs :: "recv_wr_priv list"
  req_psn :: u32
  pending_pkts :: "roce_netpkt list"
  outgoing_pkts :: "roce_netpkt list"
  resp_u :: u64
  resp_rkey :: u32
  resp_dmalen :: u32
  resp_writtenlen :: u32
  in_psn_nak :: bool
  resp_msn :: u32
  resp_heap :: "u64 \<Rightarrow> recv_wr_priv option"

subsection \<open>The life of work requests\<close>

text \<open>The argument \<open>ptr\<close> is the address \<open>roce_calloc\<close> returns, \<open>None\<close> for a null pointer.\<close>

definition roce_alloc_send_wr ::
  "'a roce_base_scheme \<Rightarrow> nat \<Rightarrow> u64 option \<Rightarrow> int \<times> send_wr_priv option" where
  "roce_alloc_send_wr ctx num_sge ptr =
     (if num_sge > unat (max_sge (dev_attr ctx)) then (- EINVAL, None)
      else case ptr of None \<Rightarrow> (- ENOMEM, None)
      | Some p \<Rightarrow> (0, Some \<lparr>swr_ptr = p, swr_error = 0, swr_mapped = False,
          swr = \<lparr>wr_id = 0, wr_opcode = ROCE_WR_SEND, send_flags = 0, wr_imm_data = 0, wr_u64_0 = 0,
            wr_u32_8 = 0, wr_sge = replicate num_sge \<lparr>sge_addr = 0, sge_length = 0, sge_lkey = 0\<rparr>\<rparr>\<rparr>))"

definition roce_alloc_recv_wr ::
  "'a roce_base_scheme \<Rightarrow> nat \<Rightarrow> u64 option \<Rightarrow> int \<times> recv_wr_priv option" where
  "roce_alloc_recv_wr ctx num_sge ptr =
     (if num_sge > unat (max_sge (dev_attr ctx)) then (- EINVAL, None)
      else case ptr of None \<Rightarrow> (- ENOMEM, None)
      | Some p \<Rightarrow> (0, Some \<lparr>rwr_ptr = p, rwr_byte_len = 0, rwr_sge_idx = 0, rwr_sge_off = 0,
          rwr = \<lparr>rwr_id = 0,
            rwr_sge = replicate num_sge \<lparr>sge_addr = 0, sge_length = 0, sge_lkey = 0\<rparr>\<rparr>\<rparr>))"

definition roce_free_send_wr :: "'a roce_base_scheme \<Rightarrow> send_wr_priv \<Rightarrow> 'a roce_base_scheme run" where
  "roce_free_send_wr ctx w = (if swr_mapped w then roce_put_mrs ctx (wr_sge (swr w)) else Inr ctx)"

definition roce_free_recv_wr :: "'a roce_base_scheme \<Rightarrow> recv_wr_priv \<Rightarrow> 'a roce_base_scheme run" where
  "roce_free_recv_wr ctx w = roce_put_mrs ctx (rwr_sge (rwr w))"

end
