(* ===== verification/Netpkt.thy ===== *)
theory Netpkt
  imports Qp_State
begin

text \<open>
  Building packets (\<open>netpkt.c\<close> and the accessors of \<open>include/private/netpkt.h\<close>): allocation with the
  fixed slots of the vector, the IPv4 and IPv6 encapsulation with checksum and ICRC, the base
  transport header, and acknowledge packets. The lemmas give the bytes that go on the wire.
\<close>

subsection \<open>Slots and accessors\<close>

abbreviation (input) ROCE_NETPKT_VNET_HDR :: nat where "ROCE_NETPKT_VNET_HDR \<equiv> 0"
abbreviation (input) ROCE_NETPKT_ETHERNET :: nat where "ROCE_NETPKT_ETHERNET \<equiv> 1"
abbreviation (input) ROCE_NETPKT_IPHDR :: nat where "ROCE_NETPKT_IPHDR \<equiv> 2"
abbreviation (input) ROCE_NETPKT_UDPHDR :: nat where "ROCE_NETPKT_UDPHDR \<equiv> 3"
abbreviation (input) ROCE_NETPKT_BTH :: nat where "ROCE_NETPKT_BTH \<equiv> 4"
abbreviation (input) ROCE_NETPKT_ETH :: nat where "ROCE_NETPKT_ETH \<equiv> 5"
abbreviation (input) ROCE_NETPKT_PAYLOAD :: nat where "ROCE_NETPKT_PAYLOAD \<equiv> 6"

definition ROCE_PKEY :: u16 where "ROCE_PKEY = 0xffff"
definition ROCE_V2_UDP_DPORT :: u16 where "ROCE_V2_UDP_DPORT = 4791"

text \<open>
  The members of the two unions as the accessors see them. The callers store values through the
  pointer an accessor returns right away, so the definition of an accessor does the stores.
\<close>

definition roce_netpkt_ip4 :: "roce_netpkt \<Rightarrow> ip_hdr" where
  "roce_netpkt_ip4 pkt = ip_hdr_of_bytes (take 20 (np_ip pkt))"

definition netpkt_put_ip4 :: "ip_hdr \<Rightarrow> roce_netpkt \<Rightarrow> roce_netpkt" where
  "netpkt_put_ip4 h pkt = pkt\<lparr>np_ip := ip_hdr_bytes h @ drop 20 (np_ip pkt)\<rparr>"

definition roce_netpkt_ip6 :: "roce_netpkt \<Rightarrow> ipv6_hdr" where
  "roce_netpkt_ip6 pkt = ipv6_hdr_of_bytes (np_ip pkt)"

definition netpkt_put_ip6 :: "ipv6_hdr \<Rightarrow> roce_netpkt \<Rightarrow> roce_netpkt" where
  "netpkt_put_ip6 h pkt = pkt\<lparr>np_ip := ipv6_hdr_bytes h\<rparr>"

definition ext_put :: "nat \<Rightarrow> u8 list \<Rightarrow> u8 list \<Rightarrow> u8 list" where
  "ext_put off bs ext = take off ext @ bs @ drop (off + length bs) ext"

definition roce_netpkt_immdt :: "u32 \<Rightarrow> roce_netpkt \<Rightarrow> roce_netpkt" where
  "roce_netpkt_immdt v pkt = pkt\<lparr>np_ext := ext_put 0
     (ib_immdt_bytes (ib_immdt_set_immdt (ib_immdt_of_bytes (np_ext pkt)) v)) (np_ext pkt)\<rparr>"

definition roce_netpkt_ieth :: "u32 \<Rightarrow> roce_netpkt \<Rightarrow> roce_netpkt" where
  "roce_netpkt_ieth rkey pkt = pkt\<lparr>np_ext := ext_put 0
     (ib_ieth_bytes (ib_ieth_set_rkey (ib_ieth_of_bytes (np_ext pkt)) rkey)) (np_ext pkt)\<rparr>"

definition roce_netpkt_aeth :: "ib_aeth_syndrome_type \<Rightarrow> u8 \<Rightarrow> u32 \<Rightarrow> roce_netpkt \<Rightarrow> roce_netpkt" where
  "roce_netpkt_aeth syndrome val msn pkt = pkt\<lparr>np_ext := ext_put 0
     (ib_aeth_bytes (ib_aeth_set (ib_aeth_of_bytes (np_ext pkt)) syndrome val msn)) (np_ext pkt)\<rparr>"

definition roce_netpkt_write_reth :: "u64 \<Rightarrow> u32 \<Rightarrow> u32 \<Rightarrow> roce_netpkt \<Rightarrow> roce_netpkt" where
  "roce_netpkt_write_reth va rkey dmalen pkt = pkt\<lparr>np_ext := ext_put 0
     (ib_reth_bytes (ib_reth_set_dmalen (ib_reth_set_rkey
        (ib_reth_set_va (ib_reth_of_bytes (np_ext pkt)) va) rkey) dmalen)) (np_ext pkt)\<rparr>"

definition roce_netpkt_write_immdt :: "u32 \<Rightarrow> roce_netpkt \<Rightarrow> roce_netpkt" where
  "roce_netpkt_write_immdt v pkt = pkt\<lparr>np_ext := ext_put 16
     (ib_immdt_bytes (ib_immdt_set_immdt (ib_immdt_of_bytes (drop 16 (np_ext pkt))) v)) (np_ext pkt)\<rparr>"

definition roce_netpkt_ud_deth :: "u32 \<Rightarrow> u32 \<Rightarrow> roce_netpkt \<Rightarrow> roce_netpkt" where
  "roce_netpkt_ud_deth dqkey srcqp pkt = pkt\<lparr>np_ext := ext_put 0
     (ib_deth_bytes (ib_deth_set_srcqp (ib_deth_set_qkey (ib_deth_of_bytes (np_ext pkt)) dqkey) srcqp))
     (np_ext pkt)\<rparr>"

definition roce_netpkt_ud_immdt :: "u32 \<Rightarrow> roce_netpkt \<Rightarrow> roce_netpkt" where
  "roce_netpkt_ud_immdt v pkt = pkt\<lparr>np_ext := ext_put 8
     (ib_immdt_bytes (ib_immdt_set_immdt (ib_immdt_of_bytes (drop 8 (np_ext pkt))) v)) (np_ext pkt)\<rparr>"

definition netpkt_set_iov :: "nat \<Rightarrow> nptr \<Rightarrow> nat \<Rightarrow> roce_netpkt \<Rightarrow> roce_netpkt" where
  "netpkt_set_iov slot p n pkt = pkt\<lparr>np_iovs := (np_iovs pkt)[slot := \<lparr>iov_base = Some p, iov_len = n\<rparr>]\<rparr>"

subsection \<open>Allocation\<close>

definition roce_vnet_hdr :: "'a roce_base_scheme \<Rightarrow> u8 \<Rightarrow> u8 run" where
  "roce_vnet_hdr ctx port_num = bindR (port_at ctx port_num) (\<lambda>p. Inr (vnet_hdr p))"

definition roce_qp_vnet_hdr :: "'a roce_base_scheme \<Rightarrow> roce_qp \<Rightarrow> u8 run" where
  "roce_qp_vnet_hdr ctx qp = roce_vnet_hdr ctx (qp_port_num (qp_attr qp))"

text \<open>The argument \<open>mem_ok\<close> tells whether \<open>roce_calloc\<close> finds memory; the packet is zeroed.\<close>

definition roce_netpkt_alloc ::
  "'a roce_base_scheme \<Rightarrow> roce_qp \<Rightarrow> u64 option \<Rightarrow> u16 \<Rightarrow> u8 \<Rightarrow> bool \<Rightarrow> roce_netpkt option run" where
  "roce_netpkt_alloc ctx qp opaque pages padcnt mem_ok =
     bindR (roce_qp_vnet_hdr ctx qp) (\<lambda>vnet.
     let num_iov = unat pages + 8 in
     if \<not> mem_ok then Inr None
     else
       let pkt0 = \<lparr>np_opaque = opaque, np_vneth = replicate 16 0, np_ethh = ethernet_hdr_zero,
             np_ip = replicate 40 0, np_udph = udp_hdr_zero, np_bth = ib_bth_zero,
             np_ext = replicate 20 0, np_pad = replicate 4 0, np_icrc = 0,
             np_iovs = replicate num_iov null_iov\<rparr>;
           pkt1 = (if vnet \<noteq> 0 then netpkt_set_iov ROCE_NETPKT_VNET_HDR N_vneth (unat vnet) pkt0 else pkt0);
           pkt2 = netpkt_set_iov ROCE_NETPKT_ETHERNET N_ethh 14 pkt1;
           pkt3 = netpkt_set_iov ROCE_NETPKT_UDPHDR N_udph 8 pkt2;
           pkt4 = netpkt_set_iov ROCE_NETPKT_BTH N_bth 12 pkt3;
           pkt5 = (if padcnt \<noteq> 0 then netpkt_set_iov (num_iov - 2) N_pad (unat padcnt) pkt4 else pkt4);
           pkt6 = netpkt_set_iov (num_iov - 1) N_icrc 4 pkt5
       in Inr (Some pkt6))"

subsection \<open>Encapsulation\<close>

text \<open>The vectors that the ICRC covers: from the extended header to the pad.\<close>

definition icrc_iovs :: "roce_netpkt \<Rightarrow> nptr iovec list" where
  "icrc_iovs pkt = take (length (np_iovs pkt) - ROCE_NETPKT_ETH - 1) (drop ROCE_NETPKT_ETH (np_iovs pkt))"

definition netpkt_icrc :: "mem \<Rightarrow> ip_any \<Rightarrow> roce_netpkt \<Rightarrow> u32" where
  "netpkt_icrc mm ip pkt =
     fst (roce_crc32_pkt (netpkt_rd mm pkt) ip [] (np_udph pkt) (np_bth pkt) (icrc_iovs pkt))"

definition roce_netpkt_set4 ::
  "mem \<Rightarrow> roce_netpkt \<Rightarrow> u8 list \<Rightarrow> u8 list \<Rightarrow> u8 \<Rightarrow> u8 list \<Rightarrow> u8 list \<Rightarrow> u16 \<Rightarrow> roce_netpkt" where
  "roce_netpkt_set4 mm pkt dmac smac hop_limit sgid dgid payload_len =
     (let pkt1 = pkt\<lparr>np_ethh := ethernet_hdr_set4 (np_ethh pkt) dmac smac\<rparr>;
          ip4 = ip_hdr_set_daddr (ip_hdr_set_saddr (ip_hdr_set_protocol (ip_hdr_set_ttl
                  (id_hdr_set_frag_off (ip_hdr_set_length
                    (ip_hdr_set_version_ihl (roce_netpkt_ip4 pkt1) 4 5)
                    (20 + 8 + payload_len + 4)) True False 0) hop_limit) 17)
                  (roce_gid_to_ipv4 sgid)) (roce_gid_to_ipv4 dgid);
          ip4' = ip_hdr_set_checksum ip4 (roce_checksum (ip_hdr_bytes ip4));
          pkt2 = netpkt_put_ip4 ip4' pkt1;
          pkt3 = pkt2\<lparr>np_udph := udp_hdr_set_length (udp_hdr_set_dport (udp_hdr_set_sport (np_udph pkt2)
                  ROCE_V2_UDP_DPORT) ROCE_V2_UDP_DPORT) (8 + payload_len + 4)\<rparr>;
          pkt4 = pkt3\<lparr>np_icrc := netpkt_icrc mm (Ip4 (roce_netpkt_ip4 pkt3)) pkt3\<rparr>
      in netpkt_set_iov ROCE_NETPKT_IPHDR N_ip 20 pkt4)"

definition roce_netpkt_set6 ::
  "mem \<Rightarrow> roce_netpkt \<Rightarrow> u8 list \<Rightarrow> u8 list \<Rightarrow> u8 \<Rightarrow> u8 \<Rightarrow> u8 list \<Rightarrow> u8 list \<Rightarrow> u16 \<Rightarrow> roce_netpkt" where
  "roce_netpkt_set6 mm pkt dmac smac hop_limit tclass sgid dgid payload_len =
     (let pkt1 = pkt\<lparr>np_ethh := ethernet_hdr_set6 (np_ethh pkt) dmac smac\<rparr>;
          ip6 = ipv6_hdr_set_daddr (ipv6_hdr_set_saddr (ipv6_hdr_set_hop_limit (ipv6_hdr_set_nexthdr
                  (ipv6_hdr_set_payload_len (ipv6_hdr_set_version_tc_fl (roce_netpkt_ip6 pkt1) 6 tclass 0)
                    (8 + payload_len + 4)) 17) hop_limit) sgid) dgid;
          pkt2 = netpkt_put_ip6 ip6 pkt1;
          pkt3 = pkt2\<lparr>np_udph := udp_hdr_set_length (udp_hdr_set_dport (udp_hdr_set_sport (np_udph pkt2)
                  ROCE_V2_UDP_DPORT) ROCE_V2_UDP_DPORT) (8 + payload_len + 4)\<rparr>;
          pkt4 = pkt3\<lparr>np_icrc := netpkt_icrc mm (Ip6 (roce_netpkt_ip6 pkt3)) pkt3\<rparr>
      in netpkt_set_iov ROCE_NETPKT_IPHDR N_ip 40 pkt4)"

definition roce_netpkt_set_eth :: "mem \<Rightarrow> roce_netpkt \<Rightarrow> roce_port \<Rightarrow> roce_ah_attr \<Rightarrow> roce_netpkt run" where
  "roce_netpkt_set_eth mm pkt port ah =
     bindR (gid_at port (ah_sgid_index ah)) (\<lambda>sgid.
     bindR (roce_iov_len (take (length (np_iovs pkt) - ROCE_NETPKT_UDPHDR - 2)
        (drop ROCE_NETPKT_BTH (np_iovs pkt)))) (\<lambda>payload_len.
     if roce_gid_is_ipv4 (ah_gid ah) then
       Inr (roce_netpkt_set4 mm pkt (ah_mac ah) (port_mac port) (ah_hop_limit ah) sgid (ah_gid ah)
         (of_nat payload_len))
     else
       Inr (roce_netpkt_set6 mm pkt (ah_mac ah) (port_mac port) (ah_hop_limit ah) (ah_traffic_class ah)
         sgid (ah_gid ah) (of_nat payload_len))))"

definition roce_netpkt_set_bth ::
  "ib_bth \<Rightarrow> roce_qp_type \<Rightarrow> u8 \<Rightarrow> bool \<Rightarrow> u8 \<Rightarrow> u32 \<Rightarrow> bool \<Rightarrow> u32 \<Rightarrow> ib_bth run" where
  "roce_netpkt_set_bth bth type opcode se padcnt destqp ack psn =
     bindR (roce_qp_type_to_ib type) (\<lambda>ib_type.
       let bth1 = ib_bth_set_opcode bth ib_type opcode;
           bth2 = ib_bth_set_tver (ib_bth_set_padcnt (ib_bth_set_mig (ib_bth_set_se bth1 se) False) padcnt) 0;
           bth3 = ib_bth_set_becn (ib_bth_set_fecn (ib_bth_set_pkey bth2 ROCE_PKEY) False) False;
           bth4 = ib_bth_set_destqp (ib_bth_clear_resv1 bth3) destqp
       in Inr (ib_bth_set_psn (ib_bth_clear_resv2 (ib_bth_set_ack bth4 ack)) psn))"

subsection \<open>Transmission\<close>

definition roce_netpkt_xmit :: "mem \<Rightarrow> roce_netpkt \<Rightarrow> roce_event" where
  "roce_netpkt_xmit mm pkt = Net_xmit 0 (iovs_bytes (netpkt_rd mm pkt) (np_iovs pkt))"

definition roce_netpkt_acknowledge ::
  "mem \<Rightarrow> 'a roce_base_scheme \<Rightarrow> roce_qp \<Rightarrow> ib_aeth_syndrome_type \<Rightarrow> u8 \<Rightarrow> u32 \<Rightarrow> bool \<Rightarrow>
   (roce_qp \<times> roce_event list) run" where
  "roce_netpkt_acknowledge mm ctx qp syndrome val psn mem_ok =
     bindR (assertR (qp_type qp = ROCE_QPT_RC)) (\<lambda>_.
     bindR (roce_netpkt_alloc ctx qp None 0 0 mem_ok) (\<lambda>opkt. case opkt of
         None \<Rightarrow> Inl Assert_failed
       | Some pkt \<Rightarrow>
           bindR (roce_netpkt_set_bth (np_bth pkt) (qp_type qp) IB_OPCODE_ACKNOWLEDGE False 0
             (dest_qp_num (qp_attr qp)) False psn) (\<lambda>bth.
           let pkt1 = netpkt_set_iov ROCE_NETPKT_ETH N_ext 4
                 (roce_netpkt_aeth syndrome val (resp_msn qp) (pkt\<lparr>np_bth := bth\<rparr>));
               qp' = qp\<lparr>resp_msn := resp_msn qp + 1\<rparr> in
           bindR (port_at ctx (qp_port_num (qp_attr qp))) (\<lambda>port.
           bindR (roce_netpkt_set_eth mm pkt1 port (qp_ah_attr (qp_attr qp))) (\<lambda>pkt2.
             Inr (qp', [roce_netpkt_xmit mm pkt2]))))))"

subsection \<open>The bytes on the wire\<close>

text \<open>
  The format of a packet as a function of what it carries: the size of the virtio-net header, the MAC
  and the GID of the sending port, the address handle, the BTH and the body (extended headers,
  payload and pad). No vectors and no buffers appear here.
\<close>

definition wire_ip4 :: "u8 \<Rightarrow> u8 list \<Rightarrow> u8 list \<Rightarrow> nat \<Rightarrow> ip_hdr" where
  "wire_ip4 hop sgid dgid plen =
     (let h = \<lparr>ip_u8_0 = 0x45, ip_tos = 0, ip_length = htobe16 (of_nat (32 + plen)), ip_id = 0,
        ip_frag_off = htobe16 0x4000, ip_ttl = hop, ip_protocol = 17, ip_checksum = 0,
        ip_saddr = htobe32 (roce_gid_to_ipv4 sgid), ip_daddr = htobe32 (roce_gid_to_ipv4 dgid)\<rparr>
      in h\<lparr>ip_checksum := roce_checksum (ip_hdr_bytes h)\<rparr>)"

definition wire_ip6 :: "u8 \<Rightarrow> u8 \<Rightarrow> u8 list \<Rightarrow> u8 list \<Rightarrow> nat \<Rightarrow> ipv6_hdr" where
  "wire_ip6 hop tclass sgid dgid plen =
     \<lparr>ip6_u32_0 = htobe32 (0x60000000 OR push_bit 20 (ucast tclass)),
      ip6_payload_len = htobe16 (of_nat (12 + plen)), ip6_nexthdr = 17, ip6_hop_limit = hop,
      ip6_saddr = take 16 sgid, ip6_daddr = take 16 dgid\<rparr>"

definition wire_ip :: "u8 list \<Rightarrow> roce_ah_attr \<Rightarrow> nat \<Rightarrow> ip_any" where
  "wire_ip sgid ah plen =
     (if roce_gid_is_ipv4 (ah_gid ah) then Ip4 (wire_ip4 (ah_hop_limit ah) sgid (ah_gid ah) plen)
      else Ip6 (wire_ip6 (ah_hop_limit ah) (ah_traffic_class ah) sgid (ah_gid ah) plen))"

definition wire_eth :: "u8 list \<Rightarrow> roce_ah_attr \<Rightarrow> ethernet_hdr" where
  "wire_eth smac ah = ethernet_hdr_set ethernet_hdr_zero (ah_mac ah) smac
     (if roce_gid_is_ipv4 (ah_gid ah) then ETHERNET_IP else ETHERNET_IPv6)"

definition wire_udp :: "nat \<Rightarrow> udp_hdr" where
  "wire_udp plen = \<lparr>udp_sport = htobe16 ROCE_V2_UDP_DPORT, udp_dport = htobe16 ROCE_V2_UDP_DPORT,
     udp_length = htobe16 (of_nat (12 + plen)), udp_checksum = 0\<rparr>"

definition ip_any_bytes :: "ip_any \<Rightarrow> u8 list" where
  "ip_any_bytes ip = (case ip of Ip4 h \<Rightarrow> ip_hdr_bytes h | Ip6 h \<Rightarrow> ipv6_hdr_bytes h)"

definition wire_icrc :: "ip_any \<Rightarrow> udp_hdr \<Rightarrow> ib_bth \<Rightarrow> u8 list \<Rightarrow> u32" where
  "wire_icrc ip udph bth body = NOT (crc_ref 0xffffffff (replicate 8 0xff @ icrc_masked ip
     @ udp_hdr_bytes (udph\<lparr>udp_checksum := 0xffff\<rparr>) @ ib_bth_bytes (icrc_bth bth) @ body))"

definition roce_wire :: "nat \<Rightarrow> u8 list \<Rightarrow> u8 list \<Rightarrow> roce_ah_attr \<Rightarrow> ib_bth \<Rightarrow> u8 list \<Rightarrow> u8 list" where
  "roce_wire vnet smac sgid ah bth body =
     (let plen = 12 + length body; ip = wire_ip sgid ah plen; udph = wire_udp plen in
      replicate vnet 0 @ ethernet_hdr_bytes (wire_eth smac ah) @ ip_any_bytes ip @ udp_hdr_bytes udph
        @ ib_bth_bytes bth @ body @ le_bytes 4 (wire_icrc ip udph bth body))"

text \<open>The vectors of the body point into the packet's \<open>ext\<close> and \<open>pad\<close> or out of it, and are as
  long as what they point at.\<close>

definition body_iov :: "mem \<Rightarrow> roce_netpkt \<Rightarrow> nptr iovec \<Rightarrow> bool" where
  "body_iov mm pkt v \<longleftrightarrow> length (iov_bytes (netpkt_rd mm pkt) v) = iov_len v \<and>
     iov_base v \<notin> Some ` {N_vneth, N_ethh, N_ip, N_udph, N_bth, N_icrc}"

definition vnet_iov :: "nat \<Rightarrow> nptr iovec" where
  "vnet_iov n = (if n = 0 then null_iov else \<lparr>iov_base = Some N_vneth, iov_len = n\<rparr>)"

text \<open>A packet whose body vectors describe \<open>body\<close> and whose outer headers are still blank.\<close>

definition netpkt_shape :: "mem \<Rightarrow> nat \<Rightarrow> u8 list \<Rightarrow> roce_netpkt \<Rightarrow> bool" where
  "netpkt_shape mm vnet body pkt \<longleftrightarrow> (\<exists>vs. np_iovs pkt =
       [vnet_iov vnet, \<lparr>iov_base = Some N_ethh, iov_len = 14\<rparr>, null_iov,
        \<lparr>iov_base = Some N_udph, iov_len = 8\<rparr>, \<lparr>iov_base = Some N_bth, iov_len = 12\<rparr>]
       @ vs @ [\<lparr>iov_base = Some N_icrc, iov_len = 4\<rparr>] \<and>
     (\<forall>v \<in> set vs. body_iov mm pkt v) \<and> body = iovs_bytes (netpkt_rd mm pkt) vs) \<and>
   np_vneth pkt = replicate 16 0 \<and> vnet \<le> 16 \<and> np_ethh pkt = ethernet_hdr_zero \<and>
   np_ip pkt = replicate 40 0 \<and> np_udph pkt = udp_hdr_zero"

lemma netpkt_rd_same:
  assumes "iov_base v \<notin> Some ` {N_vneth, N_ethh, N_ip, N_udph, N_bth, N_icrc}"
    "np_ext pkt' = np_ext pkt" "np_pad pkt' = np_pad pkt"
  shows "iov_bytes (netpkt_rd mm pkt') v = iov_bytes (netpkt_rd mm pkt) v"
proof (cases "iov_base v")
  case (Some p)
  then show ?thesis using assms by (cases p) (auto simp: iov_bytes_def)
qed (simp add: iov_bytes_def)

lemma netpkt_rd_zero: "netpkt_rd mm pkt p 0 = []"
  by (cases p) simp_all

lemma body_bytes_same:
  assumes "\<forall>v \<in> set vs. body_iov mm pkt v" "np_ext pkt' = np_ext pkt" "np_pad pkt' = np_pad pkt"
  shows "iovs_bytes (netpkt_rd mm pkt') vs = iovs_bytes (netpkt_rd mm pkt) vs"
  using assms(1)
proof (induction vs)
  case (Cons v vs)
  then have "iov_bytes (netpkt_rd mm pkt') v = iov_bytes (netpkt_rd mm pkt) v"
    using assms(2,3) by (intro netpkt_rd_same) (simp_all add: body_iov_def)
  then show ?case using Cons by simp
qed simp

lemma body_bytes_length:
  "\<forall>v \<in> set vs. body_iov mm pkt v \<Longrightarrow> length (iovs_bytes (netpkt_rd mm pkt) vs) = sum_list (map iov_len vs)"
  by (induction vs) (auto simp: body_iov_def)

lemma of_nat_u16_mod: "(of_nat (n mod 2 ^ 32) :: u16) = of_nat n"
proof -
  have "(2 :: nat) ^ 16 dvd 2 ^ 32" by (rule le_imp_power_dvd) simp
  then have "n mod 2 ^ 32 mod 2 ^ 16 = n mod 2 ^ 16" by (rule mod_mod_cancel)
  then show ?thesis unfolding word_of_nat_eq_iff take_bit_eq_mod by simp
qed

lemma blank_ip [simp]: "ip_hdr_of_bytes (replicate 20 0) = ip_hdr_zero"
  "ipv6_hdr_of_bytes (replicate 40 0) = ipv6_hdr_zero"
  by (simp_all add: ip_hdr_of_bytes_def ip_hdr_zero_def ipv6_hdr_of_bytes_def ipv6_hdr_zero_def
      eval_nat_numeral)

lemma set4_result:
  assumes "np_ip pkt = replicate 40 0" "np_ethh pkt = ethernet_hdr_zero" "np_udph pkt = udp_hdr_zero"
  shows "roce_netpkt_set4 mm pkt dmac smac hop sgid dgid (of_nat plen) =
    (let pkt' = pkt\<lparr>np_ethh := ethernet_hdr_set ethernet_hdr_zero dmac smac ETHERNET_IP,
           np_ip := ip_hdr_bytes (wire_ip4 hop sgid dgid plen) @ replicate 20 0, np_udph := wire_udp plen\<rparr>
     in netpkt_set_iov ROCE_NETPKT_IPHDR N_ip 20
          (pkt'\<lparr>np_icrc := netpkt_icrc mm (Ip4 (wire_ip4 hop sgid dgid plen)) pkt'\<rparr>))"
proof -
  have ip: "roce_netpkt_ip4 (pkt\<lparr>np_ethh := e\<rparr>) = ip_hdr_zero" for e
    using assms(1) by (simp add: roce_netpkt_ip4_def)
  have u: "udp_hdr_set_length (udp_hdr_set_dport (udp_hdr_set_sport udp_hdr_zero ROCE_V2_UDP_DPORT)
      ROCE_V2_UDP_DPORT) (8 + of_nat plen + 4) = wire_udp plen"
    by (simp add: udp_hdr_set_length_def udp_hdr_set_dport_def udp_hdr_set_sport_def udp_hdr_zero_def
        wire_udp_def add.commute)
  have h: "(let ip4 = ip_hdr_set_daddr (ip_hdr_set_saddr (ip_hdr_set_protocol (ip_hdr_set_ttl
                  (id_hdr_set_frag_off (ip_hdr_set_length
                    (ip_hdr_set_version_ihl ip_hdr_zero 4 5) (20 + 8 + of_nat plen + 4)) True False 0) hop) 17)
                  (roce_gid_to_ipv4 sgid)) (roce_gid_to_ipv4 dgid)
      in ip_hdr_set_checksum ip4 (roce_checksum (ip_hdr_bytes ip4))) = wire_ip4 hop sgid dgid plen"
    by (simp add: ip_hdr_set_daddr_def ip_hdr_set_saddr_def ip_hdr_set_protocol_def ip_hdr_set_ttl_def
        id_hdr_set_frag_off_def ip_hdr_set_length_def ip_hdr_set_version_ihl_def ip_hdr_zero_def
        ip_hdr_set_checksum_def wire_ip4_def Let_def IP_IHL_MASK_def IP_FRAG_OFFSET_MASK_def add.commute)
  show ?thesis
    using h u assms
    by (simp add: roce_netpkt_set4_def Let_def ip ethernet_hdr_set4_def netpkt_put_ip4_def
        roce_netpkt_ip4_def)
qed

lemma ip6_version_class:
  "ipv6_hdr_set_version_tc_fl ipv6_hdr_zero 6 tclass 0 =
   ipv6_hdr_zero\<lparr>ip6_u32_0 := htobe32 (0x60000000 OR push_bit 20 (ucast tclass))\<rparr>"
  unfolding ipv6_hdr_set_version_tc_fl_def Let_def IPV6_FLOW_LABEL_MASK_def by simp

lemma set6_result:
  assumes "np_ip pkt = replicate 40 0" "np_ethh pkt = ethernet_hdr_zero" "np_udph pkt = udp_hdr_zero"
    "length sgid \<ge> 16" "length dgid \<ge> 16"
  shows "roce_netpkt_set6 mm pkt dmac smac hop tclass sgid dgid (of_nat plen) =
    (let pkt' = pkt\<lparr>np_ethh := ethernet_hdr_set ethernet_hdr_zero dmac smac ETHERNET_IPv6,
           np_ip := ipv6_hdr_bytes (wire_ip6 hop tclass sgid dgid plen), np_udph := wire_udp plen\<rparr>
     in netpkt_set_iov ROCE_NETPKT_IPHDR N_ip 40
          (pkt'\<lparr>np_icrc := netpkt_icrc mm (Ip6 (wire_ip6 hop tclass sgid dgid plen)) pkt'\<rparr>))"
proof -
  have ip: "roce_netpkt_ip6 (pkt\<lparr>np_ethh := e\<rparr>) = ipv6_hdr_zero" for e
    using assms(1) by (simp add: roce_netpkt_ip6_def)
  have u: "udp_hdr_set_length (udp_hdr_set_dport (udp_hdr_set_sport udp_hdr_zero ROCE_V2_UDP_DPORT)
      ROCE_V2_UDP_DPORT) (8 + of_nat plen + 4) = wire_udp plen"
    by (simp add: udp_hdr_set_length_def udp_hdr_set_dport_def udp_hdr_set_sport_def udp_hdr_zero_def
        wire_udp_def add.commute)
  have h: "ipv6_hdr_set_daddr (ipv6_hdr_set_saddr (ipv6_hdr_set_hop_limit (ipv6_hdr_set_nexthdr
                  (ipv6_hdr_set_payload_len (ipv6_hdr_set_version_tc_fl ipv6_hdr_zero 6 tclass 0)
                    (8 + of_nat plen + 4)) 17) hop) sgid) dgid = wire_ip6 hop tclass sgid dgid plen"
    unfolding ip6_version_class
    by (simp add: ipv6_hdr_set_daddr_def ipv6_hdr_set_saddr_def ipv6_hdr_set_hop_limit_def
        ipv6_hdr_set_nexthdr_def ipv6_hdr_set_payload_len_def ipv6_hdr_zero_def wire_ip6_def)
  have l: "ipv6_hdr_of_bytes (ipv6_hdr_bytes (wire_ip6 hop tclass sgid dgid plen)) =
      wire_ip6 hop tclass sgid dgid plen"
    using assms(4,5) by (intro ipv6_hdr_of_bytes_bytes) (simp_all add: wire_ip6_def)
  show ?thesis
    unfolding roce_netpkt_set6_def Let_def ip h
    using u l assms(2,3)
    by (simp add: ethernet_hdr_set6_def netpkt_put_ip6_def roce_netpkt_ip6_def)
qed

lemma crc_pkt_wire:
  assumes "\<forall>v \<in> set vs. body_iov mm pkt v" "np_ext pkt' = np_ext pkt" "np_pad pkt' = np_pad pkt"
    "np_iovs pkt' = us @ vs @ [w]" "length us = 5" "length (iovs_bytes (netpkt_rd mm pkt) vs) < 2 ^ 32"
  shows "netpkt_icrc mm ip pkt' = wire_icrc ip (np_udph pkt') (np_bth pkt') (iovs_bytes (netpkt_rd mm pkt) vs)"
proof -
  have "icrc_iovs pkt' = vs" using assms(4,5) by (simp add: icrc_iovs_def)
  moreover have "iovs_32bit vs"
    using assms(6) body_bytes_length[OF assms(1)] by (intro iovs_32bit_total) (simp add: iovs_total_def)
  ultimately show ?thesis
    using crc32_pkt_eq[of "netpkt_rd mm pkt'" vs ip "[]" "np_udph pkt'" "np_bth pkt'"]
      netpkt_rd_zero body_bytes_same[OF assms(1-3)]
    by (simp add: netpkt_icrc_def wire_icrc_def)
qed

lemma iov_bytes_some [simp]: "iov_bytes rd \<lparr>iov_base = Some p, iov_len = n\<rparr> = rd p n"
  by (simp add: iov_bytes_def)

lemma vnet_iov_bytes:
  "np_vneth pkt = replicate 16 0 \<Longrightarrow> vnet \<le> 16 \<Longrightarrow>
   iov_bytes (netpkt_rd mm pkt) (vnet_iov vnet) = replicate vnet 0"
  by (simp add: vnet_iov_def)

text \<open>A finished packet, with its address header and ICRC in place.\<close>

lemma packet_bytes:
  assumes "np_iovs pkt' = [vnet_iov vnet, \<lparr>iov_base = Some N_ethh, iov_len = 14\<rparr>,
      \<lparr>iov_base = Some N_ip, iov_len = length ipb\<rparr>, \<lparr>iov_base = Some N_udph, iov_len = 8\<rparr>,
      \<lparr>iov_base = Some N_bth, iov_len = 12\<rparr>] @ vs @ [\<lparr>iov_base = Some N_icrc, iov_len = 4\<rparr>]"
    "np_vneth pkt' = replicate 16 0" "vnet \<le> 16" "length (ethernet_hdr_bytes (np_ethh pkt')) = 14"
    "take (length ipb) (np_ip pkt') = ipb"
  shows "iovs_bytes (netpkt_rd mm pkt') (np_iovs pkt') = replicate vnet 0
     @ ethernet_hdr_bytes (np_ethh pkt') @ ipb @ udp_hdr_bytes (np_udph pkt') @ ib_bth_bytes (np_bth pkt')
     @ iovs_bytes (netpkt_rd mm pkt') vs @ le_bytes 4 (np_icrc pkt')"
  using assms by (simp add: vnet_iov_bytes ib_bth_bytes_def)

lemma finished_wire:
  assumes iovs: "np_iovs pkt = [vnet_iov vnet, \<lparr>iov_base = Some N_ethh, iov_len = 14\<rparr>, null_iov,
        \<lparr>iov_base = Some N_udph, iov_len = 8\<rparr>, \<lparr>iov_base = Some N_bth, iov_len = 12\<rparr>]
       @ vs @ [\<lparr>iov_base = Some N_icrc, iov_len = 4\<rparr>]"
    and vs: "\<forall>v \<in> set vs. body_iov mm pkt v" and vnet: "np_vneth pkt = replicate 16 0" "vnet \<le> 16"
    and len: "length (port_mac port) = 6" "length (ah_mac ah) = 6"
    and plen: "plen = 12 + length (iovs_bytes (netpkt_rd mm pkt) vs)"
    and small: "length (iovs_bytes (netpkt_rd mm pkt) vs) < 2 ^ 32"
    and p1: "p1 = pkt\<lparr>np_ethh := wire_eth (port_mac port) ah, np_ip := ip_any_bytes (wire_ip sgid ah plen) @ rest,
       np_udph := wire_udp plen\<rparr>"
    and p2: "p2 = netpkt_set_iov 2 N_ip (length (ip_any_bytes (wire_ip sgid ah plen)))
       (p1\<lparr>np_icrc := netpkt_icrc mm (wire_ip sgid ah plen) p1\<rparr>)"
  shows "np_bth p2 = np_bth pkt \<and> np_opaque p2 = np_opaque pkt \<and> roce_netpkt_xmit mm p2 =
    Net_xmit 0 (roce_wire vnet (port_mac port) sgid ah (np_bth pkt) (iovs_bytes (netpkt_rd mm pkt) vs))"
proof -
  have eth: "length (ethernet_hdr_bytes (wire_eth (port_mac port) ah)) = 14"
    using len by (intro length_ethernet_hdr_bytes) (simp_all add: ethernet_hdr_set_def wire_eth_def)
  have icrc: "netpkt_icrc mm (wire_ip sgid ah plen) p1 =
      wire_icrc (wire_ip sgid ah plen) (wire_udp plen) (np_bth pkt) (iovs_bytes (netpkt_rd mm pkt) vs)"
    using crc_pkt_wire[OF vs, of p1 _ _ "wire_ip sgid ah plen"] iovs small by (simp add: p1)
  have "iovs_bytes (netpkt_rd mm p2) (np_iovs p2) = replicate vnet 0 @ ethernet_hdr_bytes (np_ethh p2)
      @ ip_any_bytes (wire_ip sgid ah plen) @ udp_hdr_bytes (np_udph p2) @ ib_bth_bytes (np_bth p2)
      @ iovs_bytes (netpkt_rd mm p2) vs @ le_bytes 4 (np_icrc p2)"
    using vnet eth by (intro packet_bytes) (simp_all add: p1 p2 netpkt_set_iov_def iovs numeral_2_eq_2)
  moreover have "iovs_bytes (netpkt_rd mm p2) vs = iovs_bytes (netpkt_rd mm pkt) vs"
    by (rule body_bytes_same[OF vs]) (simp_all add: p1 p2 netpkt_set_iov_def)
  ultimately show ?thesis
    using icrc by (simp add: roce_netpkt_xmit_def roce_wire_def Let_def netpkt_set_iov_def p1 p2 flip: plen)
qed

lemma set_eth_wire:
  assumes shape: "netpkt_shape mm vnet body pkt" and small: "length body < 2 ^ 32"
    and gid: "gid_at port (ah_sgid_index ah) = Inr sgid" "length sgid = 16"
    and len: "length (port_mac port) = 6" "length (ah_mac ah) = 6" "length (ah_gid ah) = 16"
  shows "\<exists>pkt'. roce_netpkt_set_eth mm pkt port ah = Inr pkt' \<and> np_bth pkt' = np_bth pkt \<and>
    np_opaque pkt' = np_opaque pkt \<and>
    roce_netpkt_xmit mm pkt' = Net_xmit 0 (roce_wire vnet (port_mac port) sgid ah (np_bth pkt) body)"
proof -
  obtain vs where iovs: "np_iovs pkt = [vnet_iov vnet, \<lparr>iov_base = Some N_ethh, iov_len = 14\<rparr>, null_iov,
        \<lparr>iov_base = Some N_udph, iov_len = 8\<rparr>, \<lparr>iov_base = Some N_bth, iov_len = 12\<rparr>]
       @ vs @ [\<lparr>iov_base = Some N_icrc, iov_len = 4\<rparr>]"
    and vs: "\<forall>v \<in> set vs. body_iov mm pkt v" and body: "body = iovs_bytes (netpkt_rd mm pkt) vs"
    using shape by (auto simp: netpkt_shape_def)
  have blank: "np_vneth pkt = replicate 16 0" "vnet \<le> 16" "np_ethh pkt = ethernet_hdr_zero"
    "np_ip pkt = replicate 40 0" "np_udph pkt = udp_hdr_zero" using shape by (auto simp: netpkt_shape_def)
  define plen where "plen = 12 + length body"
  have "sum_list (map iov_len vs) = length body" using body_bytes_length[OF vs] body by simp
  define m where "m = plen mod 2 ^ 32"
  have total: "roce_iov_len (take (length (np_iovs pkt) - 5) (drop 4 (np_iovs pkt))) = Inr m"
    using \<open>_ = length body\<close> by (simp add: iovs roce_iov_len_def plen_def m_def)
  have m: "(of_nat m :: u16) = of_nat plen" unfolding m_def by (rule of_nat_u16_mod)
  define ip where "ip = wire_ip sgid ah plen"
  have l6: "length (ipv6_hdr_bytes (wire_ip6 hop tc sgid (ah_gid ah) plen)) = 40" for hop tc
    using gid(2) len(3) by (intro length_ipv6_hdr_bytes) (simp_all add: wire_ip6_def)
  define p1 where "p1 = pkt\<lparr>np_ethh := wire_eth (port_mac port) ah,
    np_ip := ip_any_bytes ip @ drop (length (ip_any_bytes ip)) (replicate 40 0), np_udph := wire_udp plen\<rparr>"
  have "roce_netpkt_set_eth mm pkt port ah =
      Inr (netpkt_set_iov 2 N_ip (length (ip_any_bytes ip)) (p1\<lparr>np_icrc := netpkt_icrc mm ip p1\<rparr>))"
  proof (cases "roce_gid_is_ipv4 (ah_gid ah)")
    case True
    then show ?thesis
      using set4_result[OF blank(4,3,5), of mm "ah_mac ah" "port_mac port" "ah_hop_limit ah" sgid "ah_gid ah" plen]
      by (simp add: roce_netpkt_set_eth_def gid(1) total m p1_def ip_def
          Let_def wire_ip_def wire_eth_def ip_any_bytes_def)
  next
    case False
    then show ?thesis
      using set6_result[OF blank(4,3,5), of sgid "ah_gid ah" mm "ah_mac ah" "port_mac port" "ah_hop_limit ah"
          "ah_traffic_class ah" plen] gid(2) len(3)
      by (simp add: roce_netpkt_set_eth_def gid(1) total m p1_def ip_def
          Let_def wire_ip_def wire_eth_def ip_any_bytes_def l6)
  qed
  then show ?thesis
    using finished_wire[OF iovs vs blank(1,2) len(1,2) plen_def[unfolded body] small[unfolded body]
        p1_def[unfolded ip_def] refl]
    by (simp add: ip_def body)
qed

subsection \<open>Packets as they are built\<close>

definition ext_iov :: "nat \<Rightarrow> nptr iovec" where
  "ext_iov n = (if n = 0 then null_iov else \<lparr>iov_base = Some N_ext, iov_len = n\<rparr>)"

definition pad_iov :: "nat \<Rightarrow> nptr iovec" where
  "pad_iov n = (if n = 0 then null_iov else \<lparr>iov_base = Some N_pad, iov_len = n\<rparr>)"

definition mem_iov :: "iov \<Rightarrow> nptr iovec" where
  "mem_iov v = \<lparr>iov_base = map_option N_mem (iov_base v), iov_len = iov_len v\<rparr>"

text \<open>A packet before its outer headers: what the callers of \<open>roce_netpkt_set_eth\<close> have built.\<close>

definition built_pkt ::
  "nat \<Rightarrow> u64 option \<Rightarrow> ib_bth \<Rightarrow> nat \<Rightarrow> u8 list \<Rightarrow> nptr iovec list \<Rightarrow> nat \<Rightarrow> roce_netpkt" where
  "built_pkt vnet opaque bth n ext pl pc = \<lparr>np_opaque = opaque, np_vneth = replicate 16 0,
     np_ethh = ethernet_hdr_zero, np_ip = replicate 40 0, np_udph = udp_hdr_zero, np_bth = bth,
     np_ext = ext, np_pad = replicate 4 0, np_icrc = 0,
     np_iovs = [vnet_iov vnet, \<lparr>iov_base = Some N_ethh, iov_len = 14\<rparr>, null_iov,
        \<lparr>iov_base = Some N_udph, iov_len = 8\<rparr>, \<lparr>iov_base = Some N_bth, iov_len = 12\<rparr>]
       @ (ext_iov n # pl @ [pad_iov pc]) @ [\<lparr>iov_base = Some N_icrc, iov_len = 4\<rparr>]\<rparr>"

lemma built_sel [simp]:
  "np_bth (built_pkt vnet opaque bth n ext pl pc) = bth"
  "np_ext (built_pkt vnet opaque bth n ext pl pc) = ext"
  "np_opaque (built_pkt vnet opaque bth n ext pl pc) = opaque"
  by (simp_all add: built_pkt_def)

lemma built_upd [simp]:
  "(built_pkt vnet opaque bth n ext pl pc)\<lparr>np_bth := bth'\<rparr> = built_pkt vnet opaque bth' n ext pl pc"
  "(built_pkt vnet opaque bth n ext pl pc)\<lparr>np_ext := ext'\<rparr> = built_pkt vnet opaque bth n ext' pl pc"
  "0 < k \<Longrightarrow> netpkt_set_iov 5 N_ext k (built_pkt vnet opaque bth n ext pl pc) =
     built_pkt vnet opaque bth k ext pl pc"
  by (simp_all add: built_pkt_def netpkt_set_iov_def eval_nat_numeral ext_iov_def)

lemma replicate_slots: "replicate (k + 8) x = x # x # x # x # x # x # replicate k x @ [x, x]"
  by (simp add: eval_nat_numeral replicate_append_same flip: replicate_append_same)

lemma alloc_built:
  assumes "port_at ctx (qp_port_num (qp_attr qp)) = Inr port"
  shows "roce_netpkt_alloc ctx qp opaque pages padcnt mem_ok =
    Inr (if mem_ok then Some (built_pkt (unat (vnet_hdr port)) opaque ib_bth_zero 0 (replicate 20 0)
           (replicate (unat pages) null_iov) (unat padcnt)) else None)"
proof -
  have "unat (vnet_hdr port) = 0 \<longleftrightarrow> vnet_hdr port = 0" "unat padcnt = 0 \<longleftrightarrow> padcnt = 0"
    by (simp_all add: unat_0_iff)
  moreover have "unat pages + 8 - 2 = Suc (Suc (Suc (Suc (Suc (Suc (unat pages))))))"
    "unat pages + 8 - 1 = Suc (Suc (Suc (Suc (Suc (Suc (Suc (unat pages)))))))" by simp_all
  ultimately show ?thesis
    using assms
    unfolding roce_netpkt_alloc_def roce_qp_vnet_hdr_def roce_vnet_hdr_def Let_def replicate_slots
    by (simp add: netpkt_set_iov_def built_pkt_def vnet_iov_def pad_iov_def ext_iov_def numeral_2_eq_2
        numeral_3_eq_3 list_update_append)
qed

lemma mem_iovs_bytes: "iovs_bytes (netpkt_rd mm pkt) (map mem_iov ds) = iovs_bytes (load mm) ds"
proof (induction ds)
  case (Cons v ds)
  have "iov_bytes (netpkt_rd mm pkt) (mem_iov v) = iov_bytes (load mm) v"
    by (cases "iov_base v") (simp_all add: iov_bytes_def mem_iov_def)
  then show ?case using Cons by simp
qed simp

lemma body_mem_iov: "wf_iov v \<Longrightarrow> body_iov mm pkt (mem_iov v)"
  by (cases "iov_base v") (auto simp: body_iov_def mem_iov_def iov_bytes_def wf_iov_def)

lemma built_shape:
  assumes "\<forall>v \<in> set pl. body_iov mm (built_pkt vnet opaque bth n ext pl pc) v" "n \<le> length ext" "pc \<le> 4"
    "vnet \<le> 16"
  shows "netpkt_shape mm vnet (take n ext @ iovs_bytes (netpkt_rd mm (built_pkt vnet opaque bth n ext pl pc)) pl
    @ replicate pc 0) (built_pkt vnet opaque bth n ext pl pc)"
proof -
  let ?p = "built_pkt vnet opaque bth n ext pl pc" and ?vs = "ext_iov n # pl @ [pad_iov pc]"
  have parts: "iov_bytes (netpkt_rd mm ?p) (ext_iov n) = take n ext"
    "iov_bytes (netpkt_rd mm ?p) (pad_iov pc) = replicate pc 0"
    using assms(3) by (simp_all add: ext_iov_def pad_iov_def built_pkt_def)
  have "\<forall>v \<in> set ?vs. body_iov mm ?p v"
    using assms parts by (auto simp: body_iov_def ext_iov_def pad_iov_def)
  then show ?thesis
    using assms(4) parts unfolding netpkt_shape_def
    by (intro conjI exI[of _ ?vs]) (simp_all add: built_pkt_def)
qed

subsection \<open>The transport header\<close>

lemma set_bth_run:
  assumes "roce_qp_type_to_ib ty = Inr t" "unat opcode < 32"
  shows "\<exists>b. roce_netpkt_set_bth ib_bth_zero ty opcode se padcnt destqp ack psn = Inr b \<and>
    bth_view b = \<lparr>v_qp_type = 7 AND t, v_opcode = opcode, v_se = se, v_mig = False, v_padcnt = 3 AND padcnt,
      v_tver = 0, v_pkey = ROCE_PKEY, v_fecn = False, v_becn = False,
      v_destqp = IB_BTH_DESTQP_MASK AND destqp, v_ack = ack, v_psn = IB_BTH_PSN_MASK AND psn\<rparr>"
proof -
  have op: "IB_OPCODE_MASK AND opcode = opcode" "drop_bit 5 opcode = 0"
  proof -
    have "opcode = take_bit 5 opcode"
      using assms(2) by (simp add: word_unat_eq_iff unsigned_take_bit_eq take_bit_nat_eq_self)
    then show "IB_OPCODE_MASK AND opcode = opcode"
      by (simp add: IB_OPCODE_MASK_def and.commute take_bit_eq_mask mask_eq_exp_minus_1)
    show "drop_bit 5 opcode = 0"
      using assms(2) by (simp add: word_unat_eq_iff unat_div drop_bit_eq_div)
  qed
  show ?thesis
    using assms(1) op
    by (simp add: roce_netpkt_set_bth_def Let_def bth_view_simps)
qed

text \<open>The port and the address handle a packet leaves with.\<close>

definition path_ok :: "'a roce_base_scheme \<Rightarrow> u8 \<Rightarrow> roce_ah_attr \<Rightarrow> roce_port \<Rightarrow> u8 list \<Rightarrow> bool" where
  "path_ok ctx port_num ah port sgid \<longleftrightarrow> port_at ctx port_num = Inr port \<and>
     gid_at port (ah_sgid_index ah) = Inr sgid \<and> length sgid = 16 \<and> length (port_mac port) = 6 \<and>
     length (ah_mac ah) = 6 \<and> length (ah_gid ah) = 16 \<and> unat (vnet_hdr port) \<le> 16"

lemma path_ok_wf:
  assumes "ports_wf ctx" "port_num = 1" "unat (ah_sgid_index ah) < 8" "length (ah_mac ah) = 6"
    "length (ah_gid ah) = 16"
  shows "\<exists>port sgid. path_ok ctx port_num ah port sgid"
proof -
  obtain p where p: "ports ctx = [p]" using ports_wf_single[OF assms(1)] by auto
  then have "path_ok ctx port_num ah p (gids p ! unat (ah_sgid_index ah))"
    using assms by (auto simp: path_ok_def ports_wf_def port_at_def gid_at_def)
  then show ?thesis by blast
qed

lemma path_okD:
  "path_ok ctx port_num ah port sgid \<Longrightarrow> port_at ctx port_num = Inr port"
  "path_ok ctx port_num ah port sgid \<Longrightarrow> unat (vnet_hdr port) \<le> 16"
  by (simp_all add: path_ok_def)

text \<open>Payload vectors and the bytes they describe, whatever packet they are in.\<close>

definition payload_iovs :: "mem \<Rightarrow> nptr iovec list \<Rightarrow> u8 list \<Rightarrow> bool" where
  "payload_iovs mm pl bs \<longleftrightarrow> (\<forall>pkt. (\<forall>v \<in> set pl. body_iov mm pkt v) \<and> iovs_bytes (netpkt_rd mm pkt) pl = bs)"

lemma payload_mem: "\<forall>v \<in> set ds. wf_iov v \<Longrightarrow> payload_iovs mm (map mem_iov ds) (iovs_bytes (load mm) ds)"
  unfolding payload_iovs_def mem_iovs_bytes by (simp add: body_mem_iov)

lemma payload_inline:
  "payload_iovs mm [\<lparr>iov_base = Some (N_inline sges), iov_len = 16 * length sges\<rparr>] (concat (map roce_sge_bytes sges))"
proof -
  have "length (concat (map roce_sge_bytes sges)) = 16 * length sges"
    by (induction sges) (simp_all add: roce_sge_bytes_def)
  then show ?thesis by (auto simp: payload_iovs_def body_iov_def)
qed

lemma payload_none: "payload_iovs mm [] []"
  by (simp add: payload_iovs_def)

lemma built_wire:
  assumes "path_ok ctx port_num ah port sgid" "payload_iovs mm pl bs" "n \<le> length ext" "pc \<le> 4"
    "n \<le> 20" "length bs < 65536"
  shows "\<exists>pkt'. roce_netpkt_set_eth mm (built_pkt (unat (vnet_hdr port)) opaque bth n ext pl pc)
      port ah = Inr pkt' \<and> np_bth pkt' = bth \<and> np_opaque pkt' = opaque \<and>
    roce_netpkt_xmit mm pkt' = Net_xmit 0 (roce_wire (unat (vnet_hdr port)) (port_mac port) sgid ah bth
      (take n ext @ bs @ replicate pc 0))"
proof -
  let ?p = "built_pkt (unat (vnet_hdr port)) opaque bth n ext pl pc"
  have pl: "\<forall>v \<in> set pl. body_iov mm ?p v" "iovs_bytes (netpkt_rd mm ?p) pl = bs"
    using assms(2) by (simp_all add: payload_iovs_def)
  have "netpkt_shape mm (unat (vnet_hdr port)) (take n ext @ bs @ replicate pc 0) ?p"
    using built_shape[OF pl(1) assms(3,4) path_okD(2)[OF assms(1)]] unfolding pl(2) .
  then show ?thesis
    using set_eth_wire[of mm "unat (vnet_hdr port)" _ ?p port ah sgid] assms(1,4-6) by (simp add: path_ok_def)
qed

subsection \<open>A sample queue pair and path\<close>

definition sample_path :: roce_ah_attr where
  "sample_path = \<lparr>ah_gid = replicate 16 0, ah_mac = replicate 6 2, ah_flow_label = 0, ah_sgid_index = 0,
     ah_hop_limit = 64, ah_traffic_class = 0, ah_port_num = 1\<rparr>"

lemma zero_gid_ipv6: "\<not> roce_gid_is_ipv4 (replicate 16 0)"
  by code_simp

lemma port_base_one: "ports port_base = [one_port]" "length (port_mac one_port) = 6" "vnet_hdr one_port = 0"
  "port_mac one_port = ah_mac sample_path"
  by (simp_all add: port_base_def one_port_def sample_path_def)

text \<open>An RC queue pair, ready to send, on that path.\<close>

definition sample_qp :: roce_qp where
  "sample_qp = \<lparr>handle = 2, ref = 0, qp_type = ROCE_QPT_RC, sq_sig_all = True, use_srq = False, qp_pd = 0,
     qp_scq = 0, qp_rcq = 0, qp_ctx = 0,
     qp_attr = \<lparr>qp_state = ROCE_QPS_RTS, cur_qp_state = ROCE_QPS_RESET, rq_psn = 5, sq_psn = 16, path_mtu = 1024,
       path_mig_state = ROCE_MIG_MIGRATED, qkey = 0, dest_qp_num = 3,
       qp_access_flags = 0, qp_cap = \<lparr>max_send_wr = 4, max_recv_wr = 4, max_send_sge = 4, max_recv_sge = 4,
         cap_max_inline_data = 64\<rparr>, qp_ah_attr = sample_path, alt_ah_attr = roce_ah_attr_zero, pkey_index = 0,
       alt_pkey_index = 0, en_sqd_async_notify = 0, sq_draining = 0, max_rd_atomic = 0, max_dest_rd_atomic = 0,
       min_rnr_timer = 0, qp_port_num = 1, qp_timeout = 0, retry_cnt = 0, rnr_retry = 0, alt_port_num = 0, alt_timeout = 0\<rparr>,
     sq_wrs = [], rq_wrs = [], req_psn = 16, pending_pkts = [], outgoing_pkts = [], resp_u = 0, resp_rkey = 0,
     resp_dmalen = 0, resp_writtenlen = 0, in_psn_nak = False, resp_msn = 0, resp_heap = (\<lambda>_. None)\<rparr>"

lemma sample_path_ok: "path_ok port_base 1 sample_path one_port (replicate 16 0)"
  by (simp add: path_ok_def port_base_def one_port_def sample_path_def port_at_def gid_at_def)

subsection \<open>Acknowledges\<close>

text \<open>A frame that acknowledges: code, PSN and message counter for the peer of a queue pair.\<close>

definition ack_sent ::
  "roce_port \<Rightarrow> u8 list \<Rightarrow> roce_qp \<Rightarrow> ib_aeth_syndrome_type \<Rightarrow> u8 \<Rightarrow> u32 \<Rightarrow> roce_event \<Rightarrow> bool" where
  "ack_sent port sgid qp syndrome val psn ev \<longleftrightarrow> (\<exists>bth aeth. ev = Net_xmit 0
        (roce_wire (unat (vnet_hdr port)) (port_mac port) sgid (qp_ah_attr (qp_attr qp)) bth (ib_aeth_bytes aeth)) \<and>
    ib_bth_get_opcode bth = IB_OPCODE_ACKNOWLEDGE \<and> ib_bth_get_qp_type bth = IB_OPCODE_RC \<and>
    ib_bth_get_psn bth = IB_BTH_PSN_MASK AND psn \<and> \<not> ib_bth_get_ack bth \<and> ib_bth_get_padcnt bth = 0 \<and>
    ib_bth_get_destqp bth = IB_BTH_DESTQP_MASK AND dest_qp_num (qp_attr qp) \<and>
    ib_aeth_get_syndrome_type aeth = syndrome \<and> ib_aeth_get_syndrome_val aeth = val AND 0x1f \<and>
    ib_aeth_get_msn aeth = IB_AETH_MSN_MASK AND resp_msn qp)"

lemma acknowledge_sent:
  assumes "qp_type qp = ROCE_QPT_RC" "path_ok ctx (qp_port_num (qp_attr qp)) ah port sgid"
    "ah = qp_ah_attr (qp_attr qp)" "syndrome \<noteq> IB_AETH_SYNDROME_MAX"
  shows "\<exists>ev. roce_netpkt_acknowledge mm ctx qp syndrome val psn True =
      Inr (qp\<lparr>resp_msn := resp_msn qp + 1\<rparr>, [ev]) \<and> ack_sent port sgid qp syndrome val psn ev"
proof -
  obtain b where b: "roce_netpkt_set_bth ib_bth_zero ROCE_QPT_RC IB_OPCODE_ACKNOWLEDGE False 0
      (dest_qp_num (qp_attr qp)) False psn = Inr b" and view: "bth_view b = \<lparr>v_qp_type = 7 AND 0,
      v_opcode = IB_OPCODE_ACKNOWLEDGE, v_se = False, v_mig = False, v_padcnt = 3 AND 0, v_tver = 0,
      v_pkey = ROCE_PKEY, v_fecn = False, v_becn = False,
      v_destqp = IB_BTH_DESTQP_MASK AND dest_qp_num (qp_attr qp), v_ack = False, v_psn = IB_BTH_PSN_MASK AND psn\<rparr>"
    using set_bth_run[of ROCE_QPT_RC 0 IB_OPCODE_ACKNOWLEDGE False 0 "dest_qp_num (qp_attr qp)" False psn] by auto
  define aeth where "aeth = ib_aeth_set (ib_aeth_of_bytes (replicate 20 0)) syndrome val (resp_msn qp)"
  define ext where "ext = ext_put 0 (ib_aeth_bytes aeth) (replicate 20 0)"
  have ext: "take 4 ext = ib_aeth_bytes aeth" "4 \<le> length ext" by (simp_all add: ext_def ext_put_def)
  obtain pkt' where pkt': "roce_netpkt_set_eth mm (built_pkt (unat (vnet_hdr port)) None b 4 ext [] 0) port ah =
      Inr pkt'" "roce_netpkt_xmit mm pkt' = Net_xmit 0
        (roce_wire (unat (vnet_hdr port)) (port_mac port) sgid ah b (ib_aeth_bytes aeth))"
    using built_wire[OF assms(2) payload_none, of 4 ext 0 mm None b] ext by auto
  have "roce_netpkt_acknowledge mm ctx qp syndrome val psn True = Inr (qp\<lparr>resp_msn := resp_msn qp + 1\<rparr>,
      [Net_xmit 0 (roce_wire (unat (vnet_hdr port)) (port_mac port) sgid ah b (ib_aeth_bytes aeth))])"
    using assms(1,3) path_okD(1)[OF assms(2)] b pkt'
    by (simp add: roce_netpkt_acknowledge_def alloc_built Let_def roce_netpkt_aeth_def flip: aeth_def ext_def)
  moreover have "ib_bth_get_opcode b = IB_OPCODE_ACKNOWLEDGE" "ib_bth_get_qp_type b = IB_OPCODE_RC"
    "ib_bth_get_psn b = IB_BTH_PSN_MASK AND psn" "\<not> ib_bth_get_ack b" "ib_bth_get_padcnt b = 0"
    "ib_bth_get_destqp b = IB_BTH_DESTQP_MASK AND dest_qp_num (qp_attr qp)"
    using view by (simp_all flip: bth_view_sel)
  ultimately show ?thesis
    using aeth_get_set[OF assms(4)] unfolding ack_sent_def assms(3)[symmetric]
    by (intro exI[of _ "Net_xmit 0 (roce_wire (unat (vnet_hdr port)) (port_mac port) sgid ah b (ib_aeth_bytes aeth))"])
      (intro conjI exI[of _ b] exI[of _ aeth], simp_all add: aeth_def)
qed

subsection \<open>Properties\<close>

text \<open>C12: An acknowledge that an RC responder sends is one packet to the peer of its path: a well-formed
  RoCE frame with the ACK or NAK code, the PSN it answers, the message counter of before, the
  destination QP number and no request for an acknowledge, an IP checksum and the reference ICRC; and
  the message counter grows by one.\<close>

theorem roce_netpkt_acknowledge_frame:
  assumes "qp_type qp = ROCE_QPT_RC" "path_ok ctx (qp_port_num (qp_attr qp)) ah port sgid"
    "ah = qp_ah_attr (qp_attr qp)" "syndrome \<noteq> IB_AETH_SYNDROME_MAX"
  shows "\<exists>bth aeth. roce_netpkt_acknowledge mm ctx qp syndrome val psn True =
      Inr (qp\<lparr>resp_msn := resp_msn qp + 1\<rparr>, [Net_xmit 0
        (roce_wire (unat (vnet_hdr port)) (port_mac port) sgid ah bth (ib_aeth_bytes aeth))]) \<and>
    ib_bth_get_opcode bth = IB_OPCODE_ACKNOWLEDGE \<and> ib_bth_get_qp_type bth = IB_OPCODE_RC \<and>
    ib_bth_get_psn bth = IB_BTH_PSN_MASK AND psn \<and> \<not> ib_bth_get_ack bth \<and> ib_bth_get_padcnt bth = 0 \<and>
    ib_bth_get_destqp bth = IB_BTH_DESTQP_MASK AND dest_qp_num (qp_attr qp) \<and>
    ib_aeth_get_syndrome_type aeth = syndrome \<and> ib_aeth_get_syndrome_val aeth = val AND 0x1f \<and>
    ib_aeth_get_msn aeth = IB_AETH_MSN_MASK AND resp_msn qp"
  using acknowledge_sent[OF assms, of mm val psn] unfolding ack_sent_def assms(3)[symmetric] by blast

lemma roce_netpkt_acknowledge_frame_witness:
  "\<exists>bth aeth. roce_netpkt_acknowledge (\<lambda>_. 0) port_base sample_qp IB_AETH_SYNDROME_ACK 0x1f 7 True =
      Inr (sample_qp\<lparr>resp_msn := 1\<rparr>, [Net_xmit 0
        (roce_wire 0 (replicate 6 2) (replicate 16 0) sample_path bth (ib_aeth_bytes aeth))]) \<and>
    ib_bth_get_psn bth = IB_BTH_PSN_MASK AND 7 \<and> ib_aeth_get_syndrome_type aeth = IB_AETH_SYNDROME_ACK"
proof -
  have ok: "path_ok port_base (qp_port_num (qp_attr sample_qp)) sample_path one_port (replicate 16 0)"
    using sample_path_ok by (simp add: sample_qp_def)
  have "qp_type sample_qp = ROCE_QPT_RC" "sample_path = qp_ah_attr (qp_attr sample_qp)" "resp_msn sample_qp = 0"
    "port_mac one_port = replicate 6 2" "vnet_hdr one_port = 0"
    by (simp_all add: sample_qp_def one_port_def)
  then show ?thesis
    using roce_netpkt_acknowledge_frame[OF _ ok, of IB_AETH_SYNDROME_ACK "\<lambda>_. 0" "0x1f" 7] by auto
qed

end
