(* ===== verification/Decap.thy ===== *)
theory Decap
  imports Netpkt
begin

text \<open>
  The first half of the receive path (\<open>roce_net_decap\<close> of \<open>responder.c\<close>): taking the outer headers off
  a frame and checking them. The model works on the vectors of the caller as the code does;
  \<open>parse_frame\<close> says what it means on the bytes of the frame.
\<close>

subsection \<open>The code\<close>

text \<open>\<open>roce_iov_advance\<close> and \<open>roce_iov_reverse\<close> into a local buffer.\<close>

definition iov_read :: "mem \<Rightarrow> iov list \<Rightarrow> nat \<Rightarrow> (nat \<times> u8 list \<times> iov list) run" where
  "iov_read mm iovs n = bindR (roce_iov_advance iovs n) (\<lambda>(c, srcs, iovs').
     Inr (c, gather mm srcs, iovs'))"

definition iov_read_last :: "mem \<Rightarrow> iov list \<Rightarrow> nat \<Rightarrow> (nat \<times> u8 list \<times> iov list) run" where
  "iov_read_last mm iovs n = bindR (roce_iov_reverse iovs n) (\<lambda>(c, srcs, iovs').
     Inr (c, gather mm srcs, iovs'))"

text \<open>
  The IPv4 or IPv6 header: \<open>ip\<close> is the 40 byte buffer of the caller, \<open>ihl0\<close> what the 60 bytes of the
  uninitialised \<open>ihlbuf\<close> hold. The result has the header in the buffer, whether it is IPv4,
  \<open>ihllen\<close>, the buffer with the options and the remaining vectors.
\<close>

definition decap_ip ::
  "mem \<Rightarrow> u16 \<Rightarrow> u8 list \<Rightarrow> u8 list \<Rightarrow> iov list \<Rightarrow>
   (int + (u8 list \<times> bool \<times> u8 \<times> u8 list \<times> iov list)) run" where
  "decap_ip mm type ip ihl0 iovs =
     (if type = ETHERNET_IP then
        bindR (iov_read mm iovs 20) (\<lambda>(c, bs, iovs1).
        let ip' = bs @ drop (length bs) ip in
        if c \<noteq> 20 then Inr (Inl (- EPROTO))
        else
          let ihllen = push_bit 2 (ip_hdr_get_ihl (ip_hdr_of_bytes (take 20 ip'))) - 20 in
          if ihllen \<noteq> 0 then
            bindR (iov_read mm iovs1 (unat ihllen)) (\<lambda>(n, opts, iovs2).
            if n > length ihl0 then Inl Out_of_bounds
            else Inr (Inr (ip', True, ihllen, opts @ drop (length opts) ihl0, iovs2)))
          else Inr (Inr (ip', True, ihllen, ihl0, iovs1)))
      else if type = ETHERNET_IPv6 then
        bindR (iov_read mm iovs 40) (\<lambda>(c, bs, iovs1).
        if c \<noteq> 40 then Inr (Inl (- EPROTO))
        else Inr (Inr (bs @ drop (length bs) ip, False, 0, ihl0, iovs1)))
      else Inr (Inl (- EPROTO)))"

definition ip_view :: "u8 list \<Rightarrow> bool \<Rightarrow> ip_any" where
  "ip_view ip is_ipv4 = (if is_ipv4 then Ip4 (ip_hdr_of_bytes (take 20 ip)) else Ip6 (ipv6_hdr_of_bytes ip))"

text \<open>The rest of \<open>roce_net_decap\<close>: UDP header, BTH and ICRC. The ICRC routine masks the headers it is
  given in place, so the caller gets them masked.\<close>

definition decap_udp ::
  "mem \<Rightarrow> u8 list \<Rightarrow> bool \<Rightarrow> u8 \<Rightarrow> u8 list \<Rightarrow> iov list \<Rightarrow>
   (int + (ib_bth \<times> u8 list \<times> bool \<times> iov list)) run" where
  "decap_udp mm ip is_ipv4 ihllen ihlbuf iovs =
     bindR (iov_read mm iovs 8) (\<lambda>(c, ub, iovs1).
     if c \<noteq> 8 then Inr (Inl (- EPROTO))
     else
       let udph = udp_hdr_of_bytes ub in
       if udp_hdr_get_dport udph \<noteq> ROCE_V2_UDP_DPORT then Inr (Inl (- EPROTO))
       else bindR (roce_iov_len iovs1) (\<lambda>len.
         if (ucast (udp_hdr_get_length udph) :: u32) \<noteq> of_nat (c + len) then Inr (Inl (- EPROTO))
         else bindR (iov_read mm iovs1 12) (\<lambda>(c, bb, iovs2).
           if c \<noteq> 12 then Inr (Inl (- EPROTO))
           else bindR (iov_read_last mm iovs2 4) (\<lambda>(c, cb, iovs3).
             if c \<noteq> 4 then Inr (Inl (- EPROTO))
             else if unat ihllen > length ihlbuf then Inl Out_of_bounds
             else
               let (cal_icrc, ip', bth') = roce_crc32_pkt (load mm) (ip_view ip is_ipv4)
                     (if is_ipv4 then take (unat ihllen) ihlbuf else []) udph (ib_bth_of_bytes bb) iovs3 in
               if cal_icrc \<noteq> le_word cb then Inr (Inl (- EPROTO))
               else Inr (Inr (bth', ip_any_bytes ip' @ drop (length (ip_any_bytes ip')) ip, is_ipv4, iovs3))))))"

definition roce_net_decap ::
  "mem \<Rightarrow> 'a roce_base_scheme \<Rightarrow> u8 list \<Rightarrow> u8 list \<Rightarrow> iov list \<Rightarrow>
   (int + (ib_bth \<times> u8 list \<times> bool \<times> iov list)) run" where
  "roce_net_decap mm ctx ip ihl0 iovs =
     bindR (roce_vnet_hdr ctx 1) (\<lambda>vnethdr_len.
     bindR (iov_read mm iovs (unat vnethdr_len)) (\<lambda>(c, vb, iovs1).
     if c \<noteq> unat vnethdr_len then Inr (Inl (- EPROTO))
     else bindR (iov_read mm iovs1 14) (\<lambda>(c, eb, iovs2).
       if c \<noteq> 14 then Inr (Inl (- EPROTO))
       else bindR (port_at ctx 1) (\<lambda>port.
         let ethh = ethernet_hdr_of_bytes eb in
         if \<not> roce_mac_matched (port_mac port) (eth_dmac ethh) then Inr (Inl (- EPROTO))
         else bindR (decap_ip mm (ethernet_hdr_get_type ethh) ip ihl0 iovs2) (\<lambda>r. case r of
             Inl e \<Rightarrow> Inr (Inl e)
           | Inr (ip', is_ipv4, ihllen, ihlbuf, iovs3) \<Rightarrow>
               decap_udp mm ip' is_ipv4 ihllen ihlbuf iovs3)))))"

subsection \<open>The meaning on bytes\<close>

text \<open>A frame without its outer headers: the options of the IPv4 header, the UDP header, the transport
  header and the body, when the frame is one that the library has to accept.\<close>

definition parse_udp :: "ip_any \<Rightarrow> u8 list \<Rightarrow> u8 list \<Rightarrow> (ib_bth \<times> u8 list) option" where
  "parse_udp ip opts F =
     (let udph = udp_hdr_of_bytes (take 8 F); bth = ib_bth_of_bytes (take 12 (drop 8 F));
          body = drop_last 4 (drop 20 F) in
      if 24 \<le> length F \<and> udp_hdr_get_dport udph = ROCE_V2_UDP_DPORT \<and>
        ucast (udp_hdr_get_length udph) = (of_nat (length F) :: u32) \<and>
        NOT (crc_ref 0xffffffff (replicate 8 0xff @ icrc_masked ip @ opts
          @ udp_hdr_bytes (udph\<lparr>udp_checksum := 0xffff\<rparr>) @ ib_bth_bytes (icrc_bth bth) @ body)) =
          le_word (take_last 4 (drop 20 F))
      then Some (bth, body) else None)"

definition parse_ip :: "u16 \<Rightarrow> u8 list \<Rightarrow> (ip_any \<times> ib_bth \<times> u8 list) option" where
  "parse_ip type D =
     (if type = ETHERNET_IP then
        (let h = ip_hdr_of_bytes (take 20 D); n = 4 * unat (ip_hdr_get_ihl h) - 20 in
         if length D < 20 then None
         else map_option (\<lambda>(bth, body). (Ip4 h, bth, body)) (parse_udp (Ip4 h) (take n (drop 20 D)) (drop (20 + n) D)))
      else if type = ETHERNET_IPv6 then
        (let h = ipv6_hdr_of_bytes (take 40 D) in
         if length D < 40 then None
         else map_option (\<lambda>(bth, body). (Ip6 h, bth, body)) (parse_udp (Ip6 h) [] (drop 40 D)))
      else None)"

definition parse_frame :: "u8 list \<Rightarrow> nat \<Rightarrow> u8 list \<Rightarrow> (ip_any \<times> ib_bth \<times> u8 list) option" where
  "parse_frame mac vnet F =
     (let ethh = ethernet_hdr_of_bytes (take 14 (drop vnet F)) in
      if length F < vnet + 14 \<or> eth_dmac ethh \<noteq> mac then None
      else parse_ip (ethernet_hdr_get_type ethh) (drop (vnet + 14) F))"

subsection \<open>Lemmas\<close>

lemma iov_read_run:
  assumes "\<forall>v \<in> set vs. wf_iov v" "vs \<noteq> []"
  shows "\<exists>vs'. iov_read mm vs n = Inr (min n (length (iovs_bytes (load mm) vs)), take n (iovs_bytes (load mm) vs), vs') \<and>
    iovs_bytes (load mm) vs' = drop n (iovs_bytes (load mm) vs) \<and> (\<forall>v \<in> set vs'. wf_iov v) \<and> vs' \<noteq> []"
proof -
  obtain srcs vs' where r: "roce_iov_advance vs n = Inr (min n (iovs_total vs), srcs, vs')"
    "gather mm srcs = take n (iovs_bytes (load mm) vs)"
    "iovs_bytes (load mm) vs' = drop n (iovs_bytes (load mm) vs)" "length vs' = length vs"
    "\<forall>v \<in> set vs'. wf_iov v"
    using roce_iov_advance_run[OF assms, of n mm] by blast
  have "vs' \<noteq> []" using r(4) assms(2) by (cases vs') auto
  then show ?thesis
    using r unfolding length_iovs_bytes[OF assms(1)] by (intro exI[of _ vs']) (simp add: iov_read_def)
qed

lemma iov_read_last_run:
  assumes "\<forall>v \<in> set vs. wf_iov v" "vs \<noteq> []"
  shows "\<exists>vs'. iov_read_last mm vs n =
      Inr (min n (length (iovs_bytes (load mm) vs)), take_last n (iovs_bytes (load mm) vs), vs') \<and>
    iovs_bytes (load mm) vs' = drop_last n (iovs_bytes (load mm) vs) \<and> (\<forall>v \<in> set vs'. wf_iov v) \<and> vs' \<noteq> []"
proof -
  obtain srcs vs' where r: "roce_iov_reverse vs n = Inr (min n (iovs_total vs), srcs, vs')"
    "gather mm srcs = take_last n (iovs_bytes (load mm) vs)"
    "iovs_bytes (load mm) vs' = drop_last n (iovs_bytes (load mm) vs)" "length vs' = length vs"
    "\<forall>v \<in> set vs'. wf_iov v"
    using roce_iov_reverse_run[OF assms, of n mm] by blast
  have "vs' \<noteq> []" using r(4) assms(2) by (cases vs') auto
  then show ?thesis
    using r unfolding length_iovs_bytes[OF assms(1)] by (intro exI[of _ vs']) (simp add: iov_read_last_def)
qed

lemma take_last_drop: "take_last n xs = drop (length xs - n) xs"
  by (simp add: take_last_def)

lemma drop_last_take: "drop_last n xs = take (length xs - n) xs"
  by (simp add: drop_last_def)

lemma decap_udp_parse:
  assumes wf: "\<forall>v \<in> set vs. wf_iov v" "vs \<noteq> []" and ihl: "unat ihllen \<le> length ihlbuf"
    and small: "length (iovs_bytes (load mm) vs) < 2 ^ 32"
  shows "case parse_udp (ip_view ip four) (if four then take (unat ihllen) ihlbuf else []) (iovs_bytes (load mm) vs) of
      None \<Rightarrow> decap_udp mm ip four ihllen ihlbuf vs = Inr (Inl (- EPROTO))
    | Some (bth, body) \<Rightarrow> \<exists>vs'. decap_udp mm ip four ihllen ihlbuf vs =
        Inr (Inr (icrc_bth bth, ip_any_bytes (icrc_ip_hdr (ip_view ip four))
          @ drop (length (ip_any_bytes (icrc_ip_hdr (ip_view ip four)))) ip, four, vs')) \<and>
        iovs_bytes (load mm) vs' = body \<and> (\<forall>v \<in> set vs'. wf_iov v) \<and> vs' \<noteq> []"
proof -
  define F where "F = iovs_bytes (load mm) vs"
  obtain v1 where v1: "iov_read mm vs 8 = Inr (min 8 (length F), take 8 F, v1)"
    "iovs_bytes (load mm) v1 = drop 8 F" "\<forall>v \<in> set v1. wf_iov v" "v1 \<noteq> []"
    using iov_read_run[OF wf, of mm 8] by (auto simp: F_def)
  obtain v2 where v2: "iov_read mm v1 12 = Inr (min 12 (length F - 8), take 12 (drop 8 F), v2)"
    "iovs_bytes (load mm) v2 = drop 20 F" "\<forall>v \<in> set v2. wf_iov v" "v2 \<noteq> []"
    using iov_read_run[OF v1(3,4), of mm 12] v1(2) by auto
  obtain v3 where v3: "iov_read_last mm v2 4 = Inr (min 4 (length F - 20), take_last 4 (drop 20 F), v3)"
    "iovs_bytes (load mm) v3 = drop_last 4 (drop 20 F)" "\<forall>v \<in> set v3. wf_iov v" "v3 \<noteq> []"
    using iov_read_last_run[OF v2(3,4), of mm 4] v2(2) by auto
  define l where "l = (length F - 8) mod 2 ^ 32"
  have len: "roce_iov_len v1 = Inr l"
    using length_iovs_bytes[OF v1(3), of mm] v1(2,4) by (simp add: roce_iov_len_def iovs_total_def l_def)
  have "(of_nat (8 + l) :: u32) = 8 + of_nat (length F - 8)"
    by (simp add: l_def word_of_nat_eq_iff take_bit_eq_mod)
  then have udp: "(of_nat (8 + l) :: u32) = of_nat (length F)" if "8 \<le> length F"
    using that by (simp add: of_nat_diff)
  let ?u = "udp_hdr_of_bytes (take 8 F)" and ?b = "ib_bth_of_bytes (take 12 (drop 8 F))"
  let ?opts = "if four then take (unat ihllen) ihlbuf else []" and ?ip = "ip_view ip four"
  have "length (drop_last 4 (drop 20 F)) \<le> length F" by (simp add: drop_last_def)
  then have v3_small: "iovs_32bit v3"
    using small v3(2) length_iovs_bytes[OF v3(3), of mm] by (intro iovs_32bit_total) (simp flip: F_def)
  have crc: "roce_crc32_pkt (load mm) ?ip ?opts ?u ?b v3 =
      (NOT (crc_ref 0xffffffff (replicate 8 0xff @ icrc_masked ?ip @ ?opts
        @ udp_hdr_bytes (?u\<lparr>udp_checksum := 0xffff\<rparr>) @ ib_bth_bytes (icrc_bth ?b)
        @ drop_last 4 (drop 20 F))), icrc_ip_hdr ?ip, icrc_bth ?b)"
    unfolding v3(2)[symmetric] by (rule crc32_pkt_eq[OF _ v3_small]) (auto simp: ip_view_def split: if_splits)
  consider "length F < 8" | "8 \<le> length F" "length F < 24" | "24 \<le> length F" by linarith
  then show ?thesis
  proof cases
    case 1
    then show ?thesis using v1(1) by (simp add: decap_udp_def parse_udp_def Let_def F_def[symmetric])
  next
    case 2
    then have "decap_udp mm ip four ihllen ihlbuf vs = Inr (Inl (- EPROTO))"
      using v1(1) v2(1) v3(1) len by (auto simp: decap_udp_def Let_def min_def)
    then show ?thesis using 2 by (simp add: parse_udp_def Let_def F_def[symmetric])
  next
    case 3
    then show ?thesis
      using v1(1) v2(1) v3 len crc udp ihl
      by (auto simp: decap_udp_def parse_udp_def Let_def min_def simp flip: F_def)
  qed
qed

lemma ihl_length:
  assumes "5 \<le> unat (ip_hdr_get_ihl h)"
  shows "unat (push_bit 2 (ip_hdr_get_ihl h) - 20) = 4 * unat (ip_hdr_get_ihl h) - 20"
    "4 * unat (ip_hdr_get_ihl h) - 20 \<le> 40"
proof -
  have "ip_hdr_get_ihl h = take_bit 4 (ip_u8_0 h)"
    by (simp add: ip_hdr_get_ihl_def IP_IHL_MASK_def take_bit_eq_mask mask_eq_exp_minus_1)
  then have b: "unat (ip_hdr_get_ihl h) < 16" using take_bit_nat_less_exp[of 4 "unat (ip_u8_0 h)"] by (simp add: unsigned_take_bit_eq)
  then have "unat (push_bit 2 (ip_hdr_get_ihl h)) = 4 * unat (ip_hdr_get_ihl h)"
    by (simp add: push_bit_eq_mult unat_word_ariths)
  then show "unat (push_bit 2 (ip_hdr_get_ihl h) - 20) = 4 * unat (ip_hdr_get_ihl h) - 20"
    using assms by (simp add: unat_sub word_le_nat_alt)
  show "4 * unat (ip_hdr_get_ihl h) - 20 \<le> 40" using b by simp
qed

text \<open>The Internet header length of an IPv4 frame is at least 5.\<close>

definition ihl_ok :: "nat \<Rightarrow> u8 list \<Rightarrow> bool" where
  "ihl_ok vnet F \<longleftrightarrow> (ethernet_hdr_get_type (ethernet_hdr_of_bytes (take 14 (drop vnet F))) = ETHERNET_IP \<longrightarrow>
     vnet + 34 \<le> length F \<longrightarrow> 5 \<le> unat (ip_hdr_get_ihl (ip_hdr_of_bytes (take 20 (drop (vnet + 14) F)))))"

text \<open>The part after the Ethernet header, for the two IP versions.\<close>

lemma decap_ip4_parse:
  assumes wf: "\<forall>v \<in> set vs. wf_iov v" "vs \<noteq> []" and buf: "length ip0 = 40" "length ihl0 = 60"
    and D: "D = iovs_bytes (load mm) vs" "20 \<le> length D" and h: "h = ip_hdr_of_bytes (take 20 D)"
    and ihl: "5 \<le> unat (ip_hdr_get_ihl h)" and n: "n = 4 * unat (ip_hdr_get_ihl h) - 20"
  shows "\<exists>ihllen ihlbuf vs'. decap_ip mm ETHERNET_IP ip0 ihl0 vs =
      Inr (Inr (take 20 D @ drop 20 ip0, True, ihllen, ihlbuf, vs')) \<and> length ihlbuf = 60 \<and> unat ihllen \<le> 60 \<and>
    (20 + n \<le> length D \<longrightarrow> take (unat ihllen) ihlbuf = take n (drop 20 D)) \<and>
    iovs_bytes (load mm) vs' = drop (20 + n) D \<and> (\<forall>v \<in> set vs'. wf_iov v) \<and> vs' \<noteq> []"
proof -
  obtain v1 where v1: "iov_read mm vs 20 = Inr (min 20 (length D), take 20 D, v1)"
    "iovs_bytes (load mm) v1 = drop 20 D" "\<forall>v \<in> set v1. wf_iov v" "v1 \<noteq> []"
    using iov_read_run[OF wf, of mm 20] D(1) by auto
  define k where "k = push_bit 2 (ip_hdr_get_ihl h) - 20"
  have k: "unat k = n" "n \<le> 40" using ihl_length[OF ihl] n by (simp_all add: k_def)
  obtain v2 where v2: "iov_read mm v1 n = Inr (min n (length D - 20), take n (drop 20 D), v2)"
    "iovs_bytes (load mm) v2 = drop (20 + n) D" "\<forall>v \<in> set v2. wf_iov v" "v2 \<noteq> []"
    using iov_read_run[OF v1(3,4), of mm n] v1(2) by (auto simp: add.commute)
  define bs where "bs = take 20 D"
  have bs: "length bs = 20" using D(2) by (simp add: bs_def)
  have v1': "iov_read mm vs 20 = Inr (20, bs, v1)" using v1(1) D(2) by (simp add: bs_def)
  have cut: "take 20 (bs @ drop 20 ip0) = bs" using bs by simp
  show ?thesis
  proof (cases "k = 0")
    case True
    then have "decap_ip mm ETHERNET_IP ip0 ihl0 vs = Inr (Inr (bs @ drop 20 ip0, True, k, ihl0, v1))"
      using v1' bs cut by (simp add: decap_ip_def Let_def k_def h flip: bs_def)
    then show ?thesis using True v1 buf k(1) by (simp add: bs_def)
  next
    case False
    have "decap_ip mm ETHERNET_IP ip0 ihl0 vs = Inr (Inr (bs @ drop 20 ip0, True, k,
        take n (drop 20 D) @ drop (length (take n (drop 20 D))) ihl0, v2))"
      using v1' v2(1) bs cut k buf False by (simp add: decap_ip_def Let_def k_def h min_def flip: bs_def)
    then show ?thesis
      using v2 k buf by (intro exI[of _ k] exI[of _ "take n (drop 20 D) @ drop (length (take n (drop 20 D))) ihl0"]
        exI[of _ v2]) (auto simp: bs_def)
  qed
qed

lemma decap_ip6_parse:
  assumes wf: "\<forall>v \<in> set vs. wf_iov v" "vs \<noteq> []" and buf: "length ip0 = 40"
    and D: "D = iovs_bytes (load mm) vs" "40 \<le> length D"
  shows "\<exists>vs'. decap_ip mm ETHERNET_IPv6 ip0 ihl0 vs = Inr (Inr (take 40 D, False, 0, ihl0, vs')) \<and>
    iovs_bytes (load mm) vs' = drop 40 D \<and> (\<forall>v \<in> set vs'. wf_iov v) \<and> vs' \<noteq> []"
  using iov_read_run[OF wf, of mm 40] buf D by (auto simp: decap_ip_def Let_def min_def)

lemma decap_ip_short:
  assumes "\<forall>v \<in> set vs. wf_iov v" "vs \<noteq> []" "type = ETHERNET_IP \<longrightarrow> length (iovs_bytes (load mm) vs) < 20"
    "type = ETHERNET_IPv6 \<longrightarrow> length (iovs_bytes (load mm) vs) < 40"
  shows "decap_ip mm type ip0 ihl0 vs = Inr (Inl (- EPROTO))"
  using iov_read_run[OF assms(1,2), of mm 20] iov_read_run[OF assms(1,2), of mm 40] assms(3,4)
  by (auto simp: decap_ip_def Let_def min_def)

text \<open>The outcome that \<open>parse_frame\<close> predicts for \<open>roce_net_decap\<close>.\<close>

definition decap_outcome ::
  "mem \<Rightarrow> (ip_any \<times> ib_bth \<times> u8 list) option \<Rightarrow> (int + (ib_bth \<times> u8 list \<times> bool \<times> iov list)) run \<Rightarrow> bool" where
  "decap_outcome mm p r = (case p of
       None \<Rightarrow> r = Inr (Inl (- EPROTO))
     | Some (ip, bth, body) \<Rightarrow> \<exists>ipbuf vs. r = Inr (Inr (icrc_bth bth, ipbuf, (\<exists>h. ip = Ip4 h), vs)) \<and>
         take (length (ip_any_bytes ip)) ipbuf = ip_any_bytes (icrc_ip_hdr ip) \<and> length ipbuf = 40 \<and>
         iovs_bytes (load mm) vs = body \<and> (\<forall>v \<in> set vs. wf_iov v) \<and> vs \<noteq> [])"

lemma ip6_of_bytes_len:
  "length bs = 40 \<Longrightarrow> length (ipv6_hdr_bytes (ipv6_hdr_of_bytes bs)) = 40 \<and>
   length (ipv6_hdr_bytes (icrc_ip6 (ipv6_hdr_of_bytes bs))) = 40"
  by (auto intro!: length_ipv6_hdr_bytes simp: ipv6_hdr_of_bytes_def icrc_ip6_def ipv6_hdr_set_hop_limit_def
      ipv6_hdr_set_version_tc_fl_def Let_def)

lemma decap_udp_outcome:
  assumes "\<forall>v \<in> set vs. wf_iov v" "vs \<noteq> []" "unat ihllen \<le> length ihlbuf" "length ip = 40"
    "opts = (if four then take (unat ihllen) ihlbuf else [])" "length (iovs_bytes (load mm) vs) < 2 ^ 32"
  shows "decap_outcome mm (map_option (\<lambda>(bth, body). (ip_view ip four, bth, body))
      (parse_udp (ip_view ip four) opts (iovs_bytes (load mm) vs))) (decap_udp mm ip four ihllen ihlbuf vs)"
proof -
  let ?m = "ip_any_bytes (icrc_ip_hdr (ip_view ip four))"
  have "length ?m = length (ip_any_bytes (ip_view ip four)) \<and> length ?m \<le> 40"
    using assms(4) ip6_of_bytes_len[OF assms(4)]
    by (simp add: ip_view_def ip_any_bytes_def icrc_ip_hdr_def)
  then show ?thesis
    using decap_udp_parse[OF assms(1-3,6), where ip = ip and four = four] assms(4,5)
    by (cases "parse_udp (ip_view ip four) opts (iovs_bytes (load mm) vs)")
      (auto simp: decap_outcome_def ip_view_def)
qed

lemma decap_ip_outcome:
  assumes wf: "\<forall>v \<in> set vs. wf_iov v" "vs \<noteq> []" and buf: "length ip0 = 40" "length ihl0 = 60"
    and D: "D = iovs_bytes (load mm) vs" and small: "length D < 2 ^ 32"
    and ihl: "type = ETHERNET_IP \<Longrightarrow> 20 \<le> length D \<Longrightarrow> 5 \<le> unat (ip_hdr_get_ihl (ip_hdr_of_bytes (take 20 D)))"
  shows "decap_outcome mm (parse_ip type D) (bindR (decap_ip mm type ip0 ihl0 vs) (\<lambda>r. case r of
       Inl e \<Rightarrow> Inr (Inl e)
     | Inr (ip', is_ipv4, ihllen, ihlbuf, iovs3) \<Rightarrow> decap_udp mm ip' is_ipv4 ihllen ihlbuf iovs3))"
proof -
  consider "type = ETHERNET_IP" "20 \<le> length D" | "type = ETHERNET_IPv6" "40 \<le> length D"
    | "type = ETHERNET_IP \<longrightarrow> length D < 20" "type = ETHERNET_IPv6 \<longrightarrow> length D < 40" by fastforce
  then show ?thesis
  proof cases
    case 1
    define h where "h = ip_hdr_of_bytes (take 20 D)"
    define k where "k = 4 * unat (ip_hdr_get_ihl h) - 20"
    obtain ihllen ihlbuf v3 where r: "decap_ip mm ETHERNET_IP ip0 ihl0 vs =
        Inr (Inr (take 20 D @ drop 20 ip0, True, ihllen, ihlbuf, v3))" "length ihlbuf = 60" "unat ihllen \<le> 60"
      "20 + k \<le> length D \<longrightarrow> take (unat ihllen) ihlbuf = take k (drop 20 D)"
      "iovs_bytes (load mm) v3 = drop (20 + k) D" "\<forall>v \<in> set v3. wf_iov v" "v3 \<noteq> []"
      using decap_ip4_parse[OF wf buf D 1(2) h_def ihl[OF 1, folded h_def] k_def] by blast
    have view: "ip_view (take 20 D @ drop 20 ip0) True = Ip4 h" using 1(2) by (simp add: ip_view_def h_def)
    have "parse_udp (Ip4 h) (take (unat ihllen) ihlbuf) (drop (20 + k) D) =
        parse_udp (Ip4 h) (take k (drop 20 D)) (drop (20 + k) D)"
      using r(4) by (cases "20 + k \<le> length D") (simp_all add: parse_udp_def Let_def)
    then show ?thesis
      using decap_udp_outcome[OF r(6,7), of ihllen ihlbuf "take 20 D @ drop 20 ip0" _ True mm] r(1-3,5) 1 view buf small
      by (simp add: parse_ip_def Let_def flip: h_def k_def)
  next
    case 2
    obtain v3 where r: "decap_ip mm ETHERNET_IPv6 ip0 ihl0 vs = Inr (Inr (take 40 D, False, 0, ihl0, v3))"
      "iovs_bytes (load mm) v3 = drop 40 D" "\<forall>v \<in> set v3. wf_iov v" "v3 \<noteq> []"
      using decap_ip6_parse[OF wf buf(1) D 2(2)] by blast
    then show ?thesis
      using decap_udp_outcome[OF r(3,4), of 0 ihl0 "take 40 D" _ False mm] 2 r(2) small
      by (simp add: ip_view_def parse_ip_def Let_def)
  next
    case 3
    then show ?thesis
      using decap_ip_short[OF wf, of type mm] D by (auto simp: decap_outcome_def parse_ip_def Let_def)
  qed
qed

lemma net_decap_parses:
  assumes port: "ports ctx = [port]" "length (port_mac port) = 6"
    and wf: "\<forall>v \<in> set vs. wf_iov v" "vs \<noteq> []" and buf: "length ip0 = 40" "length ihl0 = 60"
    and F: "F = iovs_bytes (load mm) vs" and small: "length F < 2 ^ 32" and ihl: "ihl_ok (unat (vnet_hdr port)) F"
  shows "decap_outcome mm (parse_frame (port_mac port) (unat (vnet_hdr port)) F)
    (roce_net_decap mm ctx ip0 ihl0 vs)"
proof -
  define n where "n = unat (vnet_hdr port)"
  have at: "port_at ctx 1 = Inr port" using port(1) by (simp add: port_at_def)
  then have vn: "roce_vnet_hdr ctx 1 = Inr (vnet_hdr port)" by (simp add: roce_vnet_hdr_def)
  obtain v1 where v1: "iov_read mm vs n = Inr (min n (length F), take n F, v1)"
    "iovs_bytes (load mm) v1 = drop n F" "\<forall>v \<in> set v1. wf_iov v" "v1 \<noteq> []"
    using iov_read_run[OF wf, of mm n] by (auto simp: F)
  obtain v2 where v2: "iov_read mm v1 14 = Inr (min 14 (length F - n), take 14 (drop n F), v2)"
    "iovs_bytes (load mm) v2 = drop (n + 14) F" "\<forall>v \<in> set v2. wf_iov v" "v2 \<noteq> []"
    using iov_read_run[OF v1(3,4), of mm 14] v1(2) by (auto simp: add.commute)
  define e where "e = ethernet_hdr_of_bytes (take 14 (drop n F))"
  have mac: "roce_mac_matched (port_mac port) (eth_dmac e) \<longleftrightarrow> eth_dmac e = port_mac port"
    using port(2) by (auto simp: roce_mac_matched_def e_def ethernet_hdr_of_bytes_def)
  show ?thesis
  proof (cases "length F < n + 14 \<or> eth_dmac e \<noteq> port_mac port")
    case True
    then have "roce_net_decap mm ctx ip0 ihl0 vs = Inr (Inl (- EPROTO))"
      using v1(1) v2(1) at vn mac by (auto simp: roce_net_decap_def n_def[symmetric] Let_def min_def e_def)
    then show ?thesis using True by (simp add: decap_outcome_def parse_frame_def e_def n_def)
  next
    case False
    then have "iov_read mm v1 14 = Inr (14, take 14 (drop n F), v2)" "iov_read mm vs n = Inr (n, take n F, v1)"
      using v1(1) v2(1) by auto
    then have "roce_net_decap mm ctx ip0 ihl0 vs =
        bindR (decap_ip mm (ethernet_hdr_get_type e) ip0 ihl0 v2) (\<lambda>r. case r of
             Inl e \<Rightarrow> Inr (Inl e)
           | Inr (ip', is_ipv4, ihllen, ihlbuf, iovs3) \<Rightarrow> decap_udp mm ip' is_ipv4 ihllen ihlbuf iovs3)"
      using at vn mac False by (simp add: roce_net_decap_def n_def[symmetric] Let_def e_def[symmetric])
    then show ?thesis
      using decap_ip_outcome[OF v2(3,4) buf refl, where type = "ethernet_hdr_get_type e" and mm = mm] ihl small False v2(2)
      by (simp add: parse_frame_def Let_def ihl_ok_def e_def flip: n_def)
  qed
qed

subsection \<open>Frames of the library itself\<close>

lemma ip_any_wire:
  assumes "length sgid = 16" "length (ah_gid ah) = 16"
  shows "length (ip_any_bytes (wire_ip sgid ah plen)) = (if roce_gid_is_ipv4 (ah_gid ah) then 20 else 40)"
  using assms length_ipv6_hdr_bytes[of "wire_ip6 (ah_hop_limit ah) (ah_traffic_class ah) sgid (ah_gid ah) plen"]
  by (simp add: wire_ip_def ip_any_bytes_def wire_ip6_def)

lemma wire_udp_fields:
  "udp_hdr_get_dport (wire_udp plen) = ROCE_V2_UDP_DPORT" "udp_hdr_get_length (wire_udp plen) = of_nat (12 + plen)"
  by (simp_all add: wire_udp_def udp_hdr_get_dport_def udp_hdr_get_length_def)

lemma widen_len: "n < 65536 \<Longrightarrow> (ucast (of_nat n :: u16) :: u32) = of_nat n"
  by (simp add: word_unat_eq_iff unsigned_ucast_eq unsigned_of_nat take_bit_nat_eq_self)

lemma parse_udp_bytes:
  assumes "length body + 24 < 65536"
  shows "parse_udp ip [] (udp_hdr_bytes (wire_udp (12 + length body)) @ ib_bth_bytes bth @ body @ le_bytes 4 icrc) =
    (if icrc = wire_icrc ip (wire_udp (12 + length body)) bth body then Some (bth, body) else None)"
proof -
  have len: "(ucast (of_nat (12 + (12 + length body)) :: u16) :: u32) = of_nat (12 + (12 + length body))"
    using assms by (intro widen_len) simp
  show ?thesis
    unfolding parse_udp_def Let_def
    using len by (auto simp: wire_udp_fields take_last_def drop_last_def wire_icrc_def algebra_simps)
qed

lemma parse_ip_bytes:
  assumes "length sgid = 16" "length (ah_gid ah) = 16"
    "type = (if roce_gid_is_ipv4 (ah_gid ah) then ETHERNET_IP else ETHERNET_IPv6)"
  shows "parse_ip type (ip_any_bytes (wire_ip sgid ah plen) @ R) =
    map_option (\<lambda>(bth, body). (wire_ip sgid ah plen, bth, body)) (parse_udp (wire_ip sgid ah plen) [] R)"
proof (cases "roce_gid_is_ipv4 (ah_gid ah)")
  case True
  have "ip_hdr_get_ihl (wire_ip4 h s d l) = 5" for h s d l
    by (simp add: wire_ip4_def Let_def ip_hdr_get_ihl_def IP_IHL_MASK_def)
  then show ?thesis using True assms(3) by (simp add: parse_ip_def wire_ip_def ip_any_bytes_def Let_def)
next
  case False
  have l6: "length (ipv6_hdr_bytes (wire_ip6 h t sgid (ah_gid ah) l)) = 40" for h t l
    using assms(1,2) by (intro length_ipv6_hdr_bytes) (simp_all add: wire_ip6_def)
  have "ipv6_hdr_of_bytes (ipv6_hdr_bytes (wire_ip6 h t sgid (ah_gid ah) l)) = wire_ip6 h t sgid (ah_gid ah) l" for h t l
    using assms(1,2) by (intro ipv6_hdr_of_bytes_bytes) (simp_all add: wire_ip6_def)
  then show ?thesis using False assms(3) l6 by (simp add: parse_ip_def wire_ip_def ip_any_bytes_def Let_def)
qed

text \<open>A frame as \<open>roce_wire\<close> lays it out, with any body and ICRC.\<close>

definition wire_frame ::
  "nat \<Rightarrow> u8 list \<Rightarrow> u8 list \<Rightarrow> roce_ah_attr \<Rightarrow> ib_bth \<Rightarrow> u8 list \<Rightarrow> u32 \<Rightarrow> u8 list" where
  "wire_frame vnet smac sgid ah bth body icrc =
     (let plen = 12 + length body in
      replicate vnet 0 @ ethernet_hdr_bytes (wire_eth smac ah) @ ip_any_bytes (wire_ip sgid ah plen)
        @ udp_hdr_bytes (wire_udp plen) @ ib_bth_bytes bth @ body @ le_bytes 4 icrc)"

lemma roce_wire_frame:
  "roce_wire vnet smac sgid ah bth body = wire_frame vnet smac sgid ah bth body
     (wire_icrc (wire_ip sgid ah (12 + length body)) (wire_udp (12 + length body)) bth body)"
  by (simp add: roce_wire_def wire_frame_def Let_def)

lemma wire_eth_parse:
  assumes "length smac = 6" "length (ah_mac ah) = 6"
  shows "length (ethernet_hdr_bytes (wire_eth smac ah)) = 14"
    "ethernet_hdr_of_bytes (ethernet_hdr_bytes (wire_eth smac ah)) = wire_eth smac ah"
    "eth_dmac (wire_eth smac ah) = ah_mac ah"
    "ethernet_hdr_get_type (wire_eth smac ah) = (if roce_gid_is_ipv4 (ah_gid ah) then ETHERNET_IP else ETHERNET_IPv6)"
  using assms length_ethernet_hdr_bytes[of "wire_eth smac ah"] ethernet_hdr_of_bytes_bytes[of "wire_eth smac ah"]
  by (simp_all add: wire_eth_def ethernet_hdr_set_def ethernet_hdr_get_type_def)

lemma parse_wire_frame:
  assumes "length smac = 6" "length (ah_mac ah) = 6" "length sgid = 16" "length (ah_gid ah) = 16"
    "length body + 24 < 65536"
  shows "parse_frame mac vnet (wire_frame vnet smac sgid ah bth body icrc) =
    (if mac = ah_mac ah \<and>
        icrc = wire_icrc (wire_ip sgid ah (12 + length body)) (wire_udp (12 + length body)) bth body
     then Some (wire_ip sgid ah (12 + length body), bth, body) else None)"
proof -
  note e = wire_eth_parse[OF assms(1,2)]
  have "parse_frame mac vnet (wire_frame vnet smac sgid ah bth body icrc) =
    (if ah_mac ah \<noteq> mac then None else parse_ip (ethernet_hdr_get_type (wire_eth smac ah))
      (ip_any_bytes (wire_ip sgid ah (12 + length body)) @
       udp_hdr_bytes (wire_udp (12 + length body)) @ ib_bth_bytes bth @ body @ le_bytes 4 icrc))"
    unfolding parse_frame_def wire_frame_def Let_def by (simp add: e)
  then show ?thesis
    using parse_ip_bytes[OF assms(3,4) e(4)[symmetric, THEN sym], of "12 + length body"]
    by (auto simp: parse_udp_bytes[OF assms(5)])
qed

lemma wire_ihl_ok:
  assumes "length smac = 6" "length (ah_mac ah) = 6" "length sgid = 16" "length (ah_gid ah) = 16"
  shows "ihl_ok vnet (wire_frame vnet smac sgid ah bth body icrc)"
proof -
  note e = wire_eth_parse[OF assms(1,2)]
  have "ip_hdr_get_ihl (wire_ip4 h s d l) = 5" for h s d l
    by (simp add: wire_ip4_def Let_def ip_hdr_get_ihl_def IP_IHL_MASK_def)
  then show ?thesis
    by (simp add: ihl_ok_def wire_frame_def Let_def e wire_ip_def ip_any_bytes_def)
qed

lemma length_wire_frame:
  assumes "length smac = 6" "length (ah_mac ah) = 6" "length sgid = 16" "length (ah_gid ah) = 16" "length body + 24 < 65536"
  shows "length (wire_frame (unat (x :: u8)) smac sgid ah bth body icrc) < 2 ^ 32"
  using wire_eth_parse(1)[OF assms(1,2)] ip_any_wire[OF assms(3,4), of "12 + length body"] unat_bounds(1)[of x] assms(5)
  by (simp add: wire_frame_def Let_def)

lemma wire_frame_update:
  assumes "i < length body"
  shows "(wire_frame vnet smac sgid ah bth body icrc)
      [length (wire_frame vnet smac sgid ah bth body icrc) - 4 - length body + i := b] =
    wire_frame vnet smac sgid ah bth (body[i := b]) icrc"
proof -
  define H where "H = replicate vnet 0 @ ethernet_hdr_bytes (wire_eth smac ah)
    @ ip_any_bytes (wire_ip sgid ah (12 + length body)) @ udp_hdr_bytes (wire_udp (12 + length body))
    @ ib_bth_bytes bth"
  have "wire_frame vnet smac sgid ah bth bs icrc = H @ bs @ le_bytes 4 icrc" if "length bs = length body" for bs
    using that by (simp add: wire_frame_def Let_def H_def)
  then show ?thesis using assms by (simp add: list_update_append)
qed

lemma wire_icrc_byte:
  assumes "i < length body" "body ! i \<noteq> b"
  shows "wire_icrc ip udph bth (body[i := b]) \<noteq> wire_icrc ip udph bth body"
proof -
  have "crc_ref c (body[i := b]) \<noteq> crc_ref c body" for c
  proof
    assume eq: "crc_ref c (body[i := b]) = crc_ref c body"
    have "body = take i body @ body ! i # drop (Suc i) body" "body[i := b] = take i body @ b # drop (Suc i) body"
      using assms(1) by (simp_all add: id_take_nth_drop upd_conv_take_nth_drop)
    then have "crc_ref c (take i body @ b # drop (Suc i) body) = crc_ref c (take i body @ body ! i # drop (Suc i) body)"
      using eq by metis
    then show False
      using assms(2) by (auto simp: crc_ref_append crc_ref_Cons dest!: crc_ref_inject crc_byte_inject(2))
  qed
  then show ?thesis by (simp add: wire_icrc_def crc_ref_append)
qed

subsection \<open>Properties\<close>

definition sample_frame :: "u8 list" where
  "sample_frame = roce_wire 0 (replicate 6 2) (replicate 16 0) sample_path ib_bth_zero [1, 2, 3, 4]"

lemma length_sample_frame: "length sample_frame = 82"
  by (simp add: zero_gid_ipv6 sample_frame_def roce_wire_def Let_def wire_eth_def ethernet_hdr_set_def ethernet_hdr_bytes_def
      ip_any_bytes_def wire_ip_def wire_ip6_def ipv6_hdr_bytes_def sample_path_def ib_bth_bytes_def)

definition frame_iov :: "iov list" where
  "frame_iov = [\<lparr>iov_base = Some 0x1000, iov_len = 82\<rparr>]"

lemma frame_iov_bytes:
  "length F = 82 \<Longrightarrow> iovs_bytes (load (store (\<lambda>_. 0) 0x1000 F)) frame_iov = F"
  using load_store_same[of F "\<lambda>_. 0" "0x1000"] by (simp add: frame_iov_def)

lemma frame_iov_ok: "\<forall>v \<in> set frame_iov. wf_iov v" "frame_iov \<noteq> []"
  by (simp_all add: frame_iov_def wf_iov_def)

text \<open>C9: However the bytes of a frame are spread over the vectors of the caller, decapsulation does what
  \<open>parse_frame\<close> says of the bytes: it accepts a frame exactly when it is addressed to the port, has the Ethernet
  type of IPv4 or IPv6, the RoCE port where the UDP destination port is expected, the right UDP length, and the
  reference ICRC; then it hands on the transport header and exactly the body; otherwise it returns
  \<open>-EPROTO\<close>. Neither looks at the protocol field of the IP header. This is for frames shorter than 4 GiB whose IPv4
  header length, if they are IPv4, is at least five words; a smaller one is C40.\<close>

theorem roce_net_decap_refines_parse:
  assumes "ports ctx = [port]" "length (port_mac port) = 6" "\<forall>v \<in> set vs. wf_iov v" "vs \<noteq> []"
    "length ip0 = 40" "length ihl0 = 60" "length (iovs_bytes (load mm) vs) < 2 ^ 32"
    "ihl_ok (unat (vnet_hdr port)) (iovs_bytes (load mm) vs)"
  shows "decap_outcome mm (parse_frame (port_mac port) (unat (vnet_hdr port)) (iovs_bytes (load mm) vs))
    (roce_net_decap mm ctx ip0 ihl0 vs)"
  using net_decap_parses[OF assms(1-6) refl assms(7,8)] .

lemma sample_frame_wire:
  "sample_frame = wire_frame 0 (replicate 6 2) (replicate 16 0) sample_path ib_bth_zero [1, 2, 3, 4]
     (wire_icrc (wire_ip (replicate 16 0) sample_path 16) (wire_udp 16) ib_bth_zero [1, 2, 3, 4])"
  by (simp add: sample_frame_def roce_wire_frame)

lemma sample_frame_parses:
  "parse_frame (port_mac one_port) 0 sample_frame = Some (wire_ip (replicate 16 0) sample_path 16, ib_bth_zero, [1, 2, 3, 4])"
  "ihl_ok 0 sample_frame"
  unfolding sample_frame_wire
  using parse_wire_frame[of "replicate 6 2" sample_path "replicate 16 0" "[1, 2, 3, 4]" "port_mac one_port" 0 ib_bth_zero]
    wire_ihl_ok[of "replicate 6 2" sample_path "replicate 16 0"]
  by (simp_all add: sample_path_def port_base_one(4))

lemma roce_net_decap_refines_parse_witness:
  "\<exists>ipbuf is_ipv4 vs'. roce_net_decap (store (\<lambda>_. 0) 0x1000 sample_frame) port_base (replicate 40 0)
      (replicate 60 0) frame_iov = Inr (Inr (icrc_bth ib_bth_zero, ipbuf, is_ipv4, vs')) \<and>
    iovs_bytes (load (store (\<lambda>_. 0) 0x1000 sample_frame)) vs' = [1, 2, 3, 4]"
  using roce_net_decap_refines_parse[OF port_base_one(1,2) frame_iov_ok, of "replicate 40 0" "replicate 60 0"
      "store (\<lambda>_. 0) 0x1000 sample_frame"]
  unfolding frame_iov_bytes[OF length_sample_frame] port_base_one(3)
  by (auto simp: sample_frame_parses length_sample_frame decap_outcome_def)

text \<open>C10: What the library sends it accepts: from any vectors that hold a frame built for this port,
  decapsulation returns the transport header that was sent (its reserved fields masked by the ICRC
  computation) and vectors of exactly the body that was sent.\<close>

theorem roce_net_decap_wire:
  assumes "ports ctx = [port]" "\<forall>v \<in> set vs. wf_iov v" "vs \<noteq> []" "length ip0 = 40" "length ihl0 = 60"
    "length smac = 6" "ah_mac ah = port_mac port" "length (port_mac port) = 6" "length sgid = 16"
    "length (ah_gid ah) = 16" "length body + 24 < 65536"
    "iovs_bytes (load mm) vs = roce_wire (unat (vnet_hdr port)) smac sgid ah bth body"
  shows "\<exists>ipbuf is_ipv4 vs'. roce_net_decap mm ctx ip0 ihl0 vs = Inr (Inr (icrc_bth bth, ipbuf, is_ipv4, vs')) \<and>
    iovs_bytes (load mm) vs' = body \<and> is_ipv4 = roce_gid_is_ipv4 (ah_gid ah) \<and> (\<forall>v \<in> set vs'. wf_iov v) \<and> vs' \<noteq> []"
proof -
  have mac: "length (ah_mac ah) = 6" using assms(7,8) by simp
  note r = net_decap_parses[OF assms(1,8,2,3,4,5) refl, of mm,
      unfolded assms(12) roce_wire_frame, OF length_wire_frame[OF assms(6) mac assms(9-11)] wire_ihl_ok[OF assms(6) mac assms(9,10)]]
  have "parse_frame (port_mac port) (unat (vnet_hdr port)) (wire_frame (unat (vnet_hdr port)) smac sgid ah bth body
      (wire_icrc (wire_ip sgid ah (12 + length body)) (wire_udp (12 + length body)) bth body)) =
    Some (wire_ip sgid ah (12 + length body), bth, body)"
    unfolding parse_wire_frame[OF assms(6) mac assms(9,10,11)] using assms(7) by simp
  then show ?thesis using r by (auto simp: decap_outcome_def wire_ip_def)
qed

lemma roce_net_decap_wire_witness:
  "\<exists>ipbuf is_ipv4 vs'. roce_net_decap (store (\<lambda>_. 0) 0x1000 sample_frame) port_base (replicate 40 0)
      (replicate 60 0) frame_iov = Inr (Inr (icrc_bth ib_bth_zero, ipbuf, is_ipv4, vs')) \<and>
    iovs_bytes (load (store (\<lambda>_. 0) 0x1000 sample_frame)) vs' = [1, 2, 3, 4]"
proof -
  have "iovs_bytes (load (store (\<lambda>_. 0) 0x1000 sample_frame)) frame_iov =
      roce_wire (unat (vnet_hdr one_port)) (replicate 6 2) (replicate 16 0) sample_path ib_bth_zero [1, 2, 3, 4]"
    using frame_iov_bytes[OF length_sample_frame] port_base_one(3) by (simp add: sample_frame_def)
  then have "\<exists>ipbuf is_ipv4 vs'. roce_net_decap (store (\<lambda>_. 0) 0x1000 sample_frame) port_base (replicate 40 0)
      (replicate 60 0) frame_iov = Inr (Inr (icrc_bth ib_bth_zero, ipbuf, is_ipv4, vs')) \<and>
    iovs_bytes (load (store (\<lambda>_. 0) 0x1000 sample_frame)) vs' = [1, 2, 3, 4] \<and>
    is_ipv4 = roce_gid_is_ipv4 (ah_gid sample_path) \<and> (\<forall>v \<in> set vs'. wf_iov v) \<and> vs' \<noteq> []"
    by (intro roce_net_decap_wire[where port = one_port and smac = "replicate 6 2" and sgid = "replicate 16 0"])
      (use frame_iov_ok in \<open>simp_all add: port_base_one sample_path_def\<close>)
  then show ?thesis by blast
qed

text \<open>C11: A frame of the library in which one byte of the body, the part behind the transport header, was
  changed on the way is refused with \<open>-EPROTO\<close>.\<close>

theorem roce_net_decap_detects_corruption:
  assumes "ports ctx = [port]" "\<forall>v \<in> set vs. wf_iov v" "vs \<noteq> []" "length ip0 = 40" "length ihl0 = 60"
    "length smac = 6" "ah_mac ah = port_mac port" "length (port_mac port) = 6" "length sgid = 16"
    "length (ah_gid ah) = 16" "length body + 24 < 65536" "F = roce_wire (unat (vnet_hdr port)) smac sgid ah bth body"
    "i < length body" "body ! i \<noteq> b" "iovs_bytes (load mm) vs = F[length F - 4 - length body + i := b]"
  shows "roce_net_decap mm ctx ip0 ihl0 vs = Inr (Inl (- EPROTO))"
proof -
  have mac: "length (ah_mac ah) = 6" using assms(7,8) by simp
  let ?crc = "wire_icrc (wire_ip sgid ah (12 + length body)) (wire_udp (12 + length body)) bth body"
  have bytes: "iovs_bytes (load mm) vs = wire_frame (unat (vnet_hdr port)) smac sgid ah bth (body[i := b]) ?crc"
    unfolding assms(15) assms(12) roce_wire_frame by (rule wire_frame_update[OF assms(13)])
  have "length (body[i := b]) + 24 < 65536" using assms(11) by simp
  note r = net_decap_parses[OF assms(1,8,2,3,4,5) refl, of mm, unfolded bytes,
      OF length_wire_frame[OF assms(6) mac assms(9,10) this] wire_ihl_ok[OF assms(6) mac assms(9,10)]]
  note parse = parse_wire_frame[OF assms(6) mac assms(9,10) \<open>length (body[i := b]) + 24 < 65536\<close>]
  have "parse_frame (port_mac port) (unat (vnet_hdr port))
      (wire_frame (unat (vnet_hdr port)) smac sgid ah bth (body[i := b]) ?crc) = None"
    using wire_icrc_byte[OF assms(13,14)] by (simp add: parse eq_commute)
  then show ?thesis using r by (simp add: decap_outcome_def)
qed

lemma roce_net_decap_detects_corruption_witness:
  "roce_net_decap (store (\<lambda>_. 0) 0x1000 (sample_frame[75 := 9])) port_base (replicate 40 0)
     (replicate 60 0) frame_iov = Inr (Inl (- EPROTO))"
proof (rule roce_net_decap_detects_corruption[OF port_base_one(1) frame_iov_ok _ _ _
      port_base_one(4)[symmetric] port_base_one(2), where smac = "replicate 6 2" and sgid = "replicate 16 0"
      and bth = ib_bth_zero and body = "[1, 2, 3, 4]" and i = 1 and b = 9 and F = sample_frame])
  show "iovs_bytes (load (store (\<lambda>_. 0) 0x1000 (sample_frame[75 := 9]))) frame_iov =
      sample_frame[length sample_frame - 4 - length [1 :: u8, 2, 3, 4] + 1 := 9]"
    using frame_iov_bytes[of "sample_frame[75 := 9]"] by (simp add: length_sample_frame)
qed (simp_all add: sample_path_def sample_frame_def port_base_one(3))

text \<open>C40: An IPv4 frame to the port whose Internet header length is below five words makes the length of
  the options wrap to more than 235 bytes, and they are copied past the end of the 60 byte buffer on
  the stack.\<close>

theorem roce_net_decap_short_ihl_overflows:
  assumes "ports ctx = [port]" "length (port_mac port) = 6" "\<forall>v \<in> set vs. wf_iov v" "vs \<noteq> []"
    "length ip0 = 40" "length ihl0 = 60" "n = unat (vnet_hdr port)" "F = iovs_bytes (load mm) vs" "n + 95 \<le> length F"
    "take 6 (drop n F) = port_mac port" "take 2 (drop (n + 12) F) = [8, 0]"
    "unat (ip_hdr_get_ihl (ip_hdr_of_bytes (take 20 (drop (n + 14) F)))) < 5"
  shows "roce_net_decap mm ctx ip0 ihl0 vs = Inl Out_of_bounds"
proof -
  have at: "port_at ctx 1 = Inr port" using assms(1) by (simp add: port_at_def)
  then have vn: "roce_vnet_hdr ctx 1 = Inr (vnet_hdr port)" by (simp add: roce_vnet_hdr_def)
  obtain v1 where v1: "iov_read mm vs n = Inr (min n (length F), take n F, v1)"
    "iovs_bytes (load mm) v1 = drop n F" "\<forall>v \<in> set v1. wf_iov v" "v1 \<noteq> []"
    using iov_read_run[OF assms(3,4), of mm n] by (auto simp: assms(8))
  obtain v2 where v2: "iov_read mm v1 14 = Inr (min 14 (length F - n), take 14 (drop n F), v2)"
    "iovs_bytes (load mm) v2 = drop (n + 14) F" "\<forall>v \<in> set v2. wf_iov v" "v2 \<noteq> []"
    using iov_read_run[OF v1(3,4), of mm 14] v1(2) by (auto simp: add.commute)
  obtain v3 where v3: "iov_read mm v2 20 = Inr (20, take 20 (drop (n + 14) F), v3)"
    "iovs_bytes (load mm) v3 = drop (n + 34) F" "\<forall>v \<in> set v3. wf_iov v" "v3 \<noteq> []"
    using iov_read_run[OF v2(3,4), of mm 20] v2(2) assms(9) by (auto simp: add.commute)
  define k where "k = push_bit 2 (ip_hdr_get_ihl (ip_hdr_of_bytes (take 20 (drop (n + 14) F)))) - (20 :: u8)"
  have k: "unat k \<ge> 236"
  proof -
    define w where "w = ip_hdr_get_ihl (ip_hdr_of_bytes (take 20 (drop (n + 14) F)))"
    have "unat (push_bit 2 w) = 4 * unat w"
      using assms(12) by (simp add: push_bit_eq_mult unat_word_ariths flip: w_def)
    moreover from this have "unat (push_bit 2 w - 20) = unat (push_bit 2 w) + 256 - 20"
      using assms(12) by (simp add: unat_sub_if_size word_size word_le_nat_alt flip: w_def)
    ultimately show ?thesis by (simp add: k_def flip: w_def)
  qed
  obtain v4 where v4: "iov_read mm v3 (unat k) = Inr (min (unat k) (length F - (n + 34)), take (unat k) (drop (n + 34) F), v4)"
    using iov_read_run[OF v3(3,4), of mm "unat k"] v3(2) by auto
  have "min (unat k) (length F - (n + 34)) > 60" using k assms(9) by simp
  moreover have "push_bit 2 (ip_hdr_get_ihl (ip_hdr_of_bytes (take 20 (drop (n + 14) F)))) \<noteq> (20 :: u8)"
    using k by (auto simp: k_def)
  ultimately have ip: "decap_ip mm ETHERNET_IP ip0 ihl0 v2 = Inl Out_of_bounds"
    using v3(1) v4 assms(5,6,9) by (simp add: decap_ip_def Let_def flip: k_def)
  define e where "e = ethernet_hdr_of_bytes (take 14 (drop n F))"
  have e: "eth_dmac e = port_mac port" "ethernet_hdr_get_type e = ETHERNET_IP"
  proof -
    have "take 6 (take 14 (drop n F)) = take 6 (drop n F)" by simp
    then show "eth_dmac e = port_mac port" using assms(10) by (simp add: e_def ethernet_hdr_of_bytes_def)
    have "take 2 (drop 12 (take 14 (drop n F))) = take 2 (drop (n + 12) F)"
      by (simp add: drop_take add.commute[of n])
    then have "eth_type e = le_word [8, 0]" using assms(11) by (simp add: e_def ethernet_hdr_of_bytes_def)
    moreover have "be16toh (le_word [8, 0]) = ETHERNET_IP" by code_simp
    ultimately show "ethernet_hdr_get_type e = ETHERNET_IP" by (simp only: ethernet_hdr_get_type_def)
  qed
  show ?thesis
    using e v1(1) v2(1) at vn ip assms(2,9) assms(7)[symmetric]
    by (simp add: roce_net_decap_def Let_def roce_mac_matched_def flip: e_def)
qed

definition short_ihl_mem :: mem where
  "short_ihl_mem a = (if a < 6 then 2 else if a = 12 then 8 else if a = 14 then 0x40 else 0)"

lemma roce_net_decap_short_ihl_overflows_witness:
  "roce_net_decap short_ihl_mem port_base (replicate 40 0) (replicate 60 0)
     [\<lparr>iov_base = Some 0, iov_len = 200\<rparr>] = Inl Out_of_bounds"
proof (rule roce_net_decap_short_ihl_overflows[OF port_base_one(1,2), where n = 0 and F = "load short_ihl_mem 0 200"])
  have cut: "take k (drop i (load short_ihl_mem 0 200)) = map (\<lambda>j. short_ihl_mem (of_nat j)) [i..<i + k]"
    if "i + k \<le> 200" for i k using that by (simp add: load_def take_map drop_map)
  have ix: "[0..<0 + 6] = [0, 1, 2, 3, 4, 5]" "[12..<12 + 2] = [12, 13]" by (simp_all add: upt_rec)
  show "take 6 (drop 0 (load short_ihl_mem 0 200)) = port_mac one_port"
  proof -
    have "port_mac one_port = [2, 2, 2, 2, 2, 2]" by (simp add: one_port_def eval_nat_numeral)
    then show ?thesis using cut[of 0 6] ix by (simp add: short_ihl_mem_def)
  qed
  show "take 2 (drop (0 + 12) (load short_ihl_mem 0 200)) = [8, 0]"
    using cut[of 12 2] ix by (simp add: short_ihl_mem_def)
  have "ip_u8_0 (ip_hdr_of_bytes (take 20 (drop (0 + 14) (load short_ihl_mem 0 200)))) = 0x40"
    using cut[of 14 20] by (simp add: ip_hdr_of_bytes_def short_ihl_mem_def)
  then show "unat (ip_hdr_get_ihl (ip_hdr_of_bytes (take 20 (drop (0 + 14) (load short_ihl_mem 0 200))))) < 5"
    by (simp add: ip_hdr_get_ihl_def IP_IHL_MASK_def)
qed (simp_all add: wf_iov_def port_base_one(3))

end
