(* ===== verification/Requester.thy ===== *)
theory Requester
  imports Netpkt Ah Cq
begin

text \<open>
  The requester (\<open>requester.c\<close>): a work request of an RC queue pair is cut into packets of one path
  MTU with consecutive PSNs, which wait in a queue; up to a window of them is outgoing at a time;
  acknowledges complete them in order and a NAK has the outgoing ones sent again. A UD request is one
  packet, sent at once. A call gets and returns the context, the queue pair and the events.
\<close>

subsection \<open>Queues of packets\<close>

definition ROCE_MAX_OUTGOING_PACKETS :: u32 where "ROCE_MAX_OUTGOING_PACKETS = 8"

definition roce_get_mtu :: "'a roce_base_scheme \<Rightarrow> roce_qp \<Rightarrow> u16 run" where
  "roce_get_mtu ctx qp =
     (if qp_type qp = ROCE_QPT_RC \<or> qp_type qp = ROCE_QPT_UC then Inr (path_mtu (qp_attr qp))
      else bindR (port_at ctx 1) (\<lambda>p. Inr (active_mtu (port_attr p))))"

definition roce_netpkt_psn :: "roce_netpkt \<Rightarrow> u32" where
  "roce_netpkt_psn pkt = ib_bth_get_psn (np_bth pkt)"

definition roce_netpkt_pending_one :: "roce_qp \<Rightarrow> roce_netpkt \<Rightarrow> roce_qp" where
  "roce_netpkt_pending_one qp pkt = qp\<lparr>pending_pkts := pending_pkts qp @ [pkt]\<rparr>"

definition roce_netpkt_pending_multi :: "roce_qp \<Rightarrow> roce_netpkt list \<Rightarrow> roce_qp" where
  "roce_netpkt_pending_multi qp pkts = qp\<lparr>pending_pkts := pending_pkts qp @ pkts\<rparr>"

text \<open>The head of the pending packets moves to the tail of the outgoing ones.\<close>

definition roce_netpkt_outgoing :: "roce_qp \<Rightarrow> roce_netpkt \<Rightarrow> roce_qp" where
  "roce_netpkt_outgoing qp pkt =
     qp\<lparr>pending_pkts := tl (pending_pkts qp), outgoing_pkts := outgoing_pkts qp @ [pkt]\<rparr>"

subsection \<open>Packets of a request\<close>

text \<open>
  Storing the vectors of \<open>roce_mr_map_sge\<close> from slot 6 on; an entry that was counted and not written
  stays as it is. The C code keeps the result in an unsigned variable, so that an error is not seen
  as one and then fails the comparison with the number of pages (which counts at most 64 elements of
  4 GB; should it be that large, the vectors of the packet are not filled).
\<close>

fun put_iovs :: "iov option list \<Rightarrow> nptr iovec list \<Rightarrow> nptr iovec list" where
  "put_iovs [] ws = ws"
| "put_iovs (v # vs) [] = []"
| "put_iovs (v # vs) (w # ws) = (case v of None \<Rightarrow> w | Some x \<Rightarrow> mem_iov x) # put_iovs vs ws"

definition netpkt_map_payload ::
  "roce_env \<Rightarrow> 'a roce_base_scheme \<Rightarrow> roce_qp \<Rightarrow> roce_sge list \<Rightarrow> u32 \<Rightarrow> roce_netpkt \<Rightarrow>
   (roce_netpkt \<times> iov option list \<times> bool option) run" where
  "netpkt_map_payload env ctx qp sges pages pkt =
     bindR (roce_mr_map_sge ctx (qp_pd qp) (qp_type qp) sges True 0 (env_dma env)) (\<lambda>r. case r of
         Inl e \<Rightarrow> bindR (assertR (pages = word_of_int e)) (\<lambda>_. Inl Out_of_bounds)
       | Inr (vs, dmamap) \<Rightarrow>
           if length (np_iovs pkt) < ROCE_NETPKT_PAYLOAD + length vs then Inl Out_of_bounds
           else bindR (assertR (pages = of_nat (length vs))) (\<lambda>_.
             Inr (pkt\<lparr>np_iovs := take ROCE_NETPKT_PAYLOAD (np_iovs pkt)
                    @ put_iovs vs (drop ROCE_NETPKT_PAYLOAD (np_iovs pkt))\<rparr>, vs, dmamap)))"

text \<open>The transport header and the encapsulation, the last steps for every packet.\<close>

definition netpkt_finish ::
  "roce_env \<Rightarrow> 'a roce_base_scheme \<Rightarrow> roce_qp \<Rightarrow> roce_ah_attr \<Rightarrow> u8 \<Rightarrow> bool \<Rightarrow> u8 \<Rightarrow> u32 \<Rightarrow> bool \<Rightarrow> u32 \<Rightarrow>
   roce_netpkt \<Rightarrow> roce_netpkt run" where
  "netpkt_finish env ctx qp ah opcode se padcnt destqp ack psn pkt =
     bindR (roce_netpkt_set_bth (np_bth pkt) (qp_type qp) opcode se padcnt destqp ack psn) (\<lambda>bth.
     bindR (port_at ctx (qp_port_num (qp_attr qp))) (\<lambda>port.
     roce_netpkt_set_eth (env_mem env) (pkt\<lparr>np_bth := bth\<rparr>) port ah))"

definition pad_of :: "u32 \<Rightarrow> u8" where
  "pad_of payload = ucast ((- payload) AND 3)"

definition solicited :: "send_wr_priv \<Rightarrow> bool" where
  "solicited w \<longleftrightarrow> send_flags (swr w) AND ROCE_SEND_SOLICITED \<noteq> 0"

text \<open>The extended header of a SEND and of an RDMA WRITE.\<close>

definition send_ext :: "send_wr_priv \<Rightarrow> bool \<Rightarrow> bool \<Rightarrow> roce_netpkt \<Rightarrow> roce_netpkt" where
  "send_ext w invd imm pkt =
     (if invd then netpkt_set_iov ROCE_NETPKT_ETH N_ext IB_IETH_SIZE (roce_netpkt_ieth (wr_imm_data (swr w)) pkt)
      else if imm then
        netpkt_set_iov ROCE_NETPKT_ETH N_ext IB_IMMDT_SIZE (roce_netpkt_immdt (wr_imm_data (swr w)) pkt)
      else pkt)"

definition write_reth :: "send_wr_priv \<Rightarrow> u32 \<Rightarrow> roce_netpkt \<Rightarrow> roce_netpkt" where
  "write_reth w payload pkt = netpkt_set_iov ROCE_NETPKT_ETH N_ext IB_RETH_SIZE
     (roce_netpkt_write_reth (wr_rdma_remote_addr (swr w)) (wr_rdma_rkey (swr w)) payload pkt)"

text \<open>A packet that carries the whole request.\<close>

definition rc_only_pkt ::
  "roce_env \<Rightarrow> 'a roce_base_scheme \<Rightarrow> roce_qp \<Rightarrow> send_wr_priv \<Rightarrow> (roce_netpkt \<Rightarrow> roce_netpkt) \<Rightarrow> u8 \<Rightarrow> u32 \<Rightarrow> nat \<Rightarrow>
   (roce_qp \<times> send_wr_priv) run" where
  "rc_only_pkt env ctx qp w ext opcode payload room =
     bindR (if roce_send_wr_is_inline w then Inr 1 else roce_sge_pages (wr_sge (swr w)) (page_size ctx)) (\<lambda>pages.
     bindR (roce_netpkt_alloc ctx qp (Some (swr_ptr w)) (ucast pages) (pad_of payload) (room \<noteq> 0)) (\<lambda>opkt.
     case opkt of
       None \<Rightarrow> Inr (qp, w\<lparr>swr_error := ROCE_WC_LOC_QP_OP_ERR\<rparr>)
     | Some pkt \<Rightarrow>
         bindR (if roce_send_wr_is_inline w
                then Inr (netpkt_set_iov ROCE_NETPKT_PAYLOAD (N_inline (wr_sge (swr w))) (unat payload) (ext pkt))
                else bindR (netpkt_map_payload env ctx qp (wr_sge (swr w)) pages (ext pkt)) (\<lambda>(p, _). Inr p)) (\<lambda>pkt1.
         bindR (netpkt_finish env ctx qp (qp_ah_attr (qp_attr qp)) opcode (solicited w) (pad_of payload)
                  (dest_qp_num (qp_attr qp)) True (req_psn qp) pkt1) (\<lambda>pkt2.
         Inr ((roce_netpkt_pending_one qp pkt2)\<lparr>req_psn := roce_qp_psn_inc (req_psn qp)\<rparr>, w)))))"

definition roce_rc_send_only ::
  "roce_env \<Rightarrow> 'a roce_base_scheme \<Rightarrow> roce_qp \<Rightarrow> send_wr_priv \<Rightarrow> bool \<Rightarrow> bool \<Rightarrow> u32 \<Rightarrow> nat \<Rightarrow>
   (roce_qp \<times> send_wr_priv) run" where
  "roce_rc_send_only env ctx qp w invd imm payload room = rc_only_pkt env ctx qp w (send_ext w invd imm)
     (if invd then IB_OPCODE_SEND_ONLY_WITH_INVALIDATE
      else if imm then IB_OPCODE_SEND_ONLY_WITH_IMMEDIATE else IB_OPCODE_SEND_ONLY) payload room"

definition roce_rc_write_only ::
  "roce_env \<Rightarrow> 'a roce_base_scheme \<Rightarrow> roce_qp \<Rightarrow> send_wr_priv \<Rightarrow> bool \<Rightarrow> u32 \<Rightarrow> nat \<Rightarrow>
   (roce_qp \<times> send_wr_priv) run" where
  "roce_rc_write_only env ctx qp w imm payload room = rc_only_pkt env ctx qp w
     (\<lambda>pkt. if imm then netpkt_set_iov ROCE_NETPKT_ETH N_ext (IB_RETH_SIZE + IB_IMMDT_SIZE)
              (roce_netpkt_write_immdt (wr_imm_data (swr w)) (write_reth w payload pkt))
            else write_reth w payload pkt)
     (if imm then IB_OPCODE_RDMA_WRITE_ONLY_WITH_IMMEDIATE else IB_OPCODE_RDMA_WRITE_ONLY) payload room"


text \<open>
  \<open>roce_sge_advance\<close> into the local array \<open>dst_sges\<close>, with the cursor (\<open>sge_idx\<close>, \<open>off\<close>). A count that
  is larger than what was written makes the callers read a slot that was never set.
\<close>

definition rc_slice :: "roce_sge list \<Rightarrow> u32 \<Rightarrow> nat \<times> u32 \<Rightarrow> (roce_sge list \<times> nat \<times> u32) run" where
  "rc_slice sges bytes cur =
     bindR (roce_sge_advance sges bytes (fst cur) (snd cur)) (\<lambda>(n, i, off, dst).
       if n \<noteq> length dst \<or> n > ROCE_MAX_SGE then Inl Out_of_bounds else Inr (dst, i, off))"

text \<open>
  One packet of a request that needs several: its slice of the SGE list, its headers and payload. A
  failed allocation is not checked by the C code, which links the null pointer into the list.
\<close>

definition rc_part_pkt ::
  "roce_env \<Rightarrow> 'a roce_base_scheme \<Rightarrow> roce_qp \<Rightarrow> roce_sge list \<Rightarrow> u64 option \<Rightarrow> (roce_netpkt \<Rightarrow> roce_netpkt) \<Rightarrow>
   u8 \<Rightarrow> bool \<Rightarrow> u8 \<Rightarrow> bool \<Rightarrow> u32 \<Rightarrow> u32 \<Rightarrow> nat \<times> u32 \<Rightarrow> bool \<Rightarrow> (roce_netpkt \<times> nat \<times> u32) run" where
  "rc_part_pkt env ctx qp sges opaque ext opcode se padcnt ack bytes psn cur mem_ok =
     bindR (rc_slice sges bytes cur) (\<lambda>(dst, cur').
     bindR (roce_sge_pages dst (page_size ctx)) (\<lambda>pages.
     bindR (roce_netpkt_alloc ctx qp opaque (ucast pages) padcnt mem_ok) (\<lambda>opkt. case opkt of
       None \<Rightarrow> Inl Null_deref
     | Some pkt \<Rightarrow>
         bindR (netpkt_map_payload env ctx qp dst pages (ext pkt)) (\<lambda>(pkt1, _).
         bindR (netpkt_finish env ctx qp (qp_ah_attr (qp_attr qp)) opcode se padcnt
                  (dest_qp_num (qp_attr qp)) ack psn pkt1) (\<lambda>pkt2.
         Inr (pkt2, cur'))))))"

text \<open>One packet in so many asks for an acknowledge, and the last one.\<close>

definition ack_now :: "u32 \<Rightarrow> bool" where
  "ack_now psn \<longleftrightarrow> psn mod ROCE_MAX_OUTGOING_PACKETS = 0"

text \<open>
  The loop over the MIDDLE packets. \<open>room\<close> is the number of packets memory is left for, which also
  bounds the loop: with an MTU of zero it goes on until the allocation fails.
\<close>

primrec rc_middle_pkts ::
  "nat \<Rightarrow> roce_env \<Rightarrow> 'a roce_base_scheme \<Rightarrow> roce_qp \<Rightarrow> roce_sge list \<Rightarrow> u8 \<Rightarrow> u16 \<Rightarrow> u32 \<Rightarrow> u32 \<Rightarrow> nat \<times> u32 \<Rightarrow>
   (roce_netpkt list \<times> nat \<times> u32 \<times> u32 \<times> nat \<times> u32) run" where
  "rc_middle_pkts 0 env ctx qp sges opcode mtu payload psn cur =
     (if payload > ucast mtu then
        bindR (rc_part_pkt env ctx qp sges None id opcode False 0 (ack_now psn) (ucast mtu) psn cur False)
          (\<lambda>_. Inl Null_deref)
      else Inr ([], 0, payload, psn, cur))"
| "rc_middle_pkts (Suc room) env ctx qp sges opcode mtu payload psn cur =
     (if payload > ucast mtu then
        bindR (rc_part_pkt env ctx qp sges None id opcode False 0 (ack_now psn) (ucast mtu) psn cur True)
          (\<lambda>(pkt, cur').
        bindR (rc_middle_pkts room env ctx qp sges opcode mtu (payload - ucast mtu) (roce_qp_psn_inc psn) cur')
          (\<lambda>(pkts, rest). Inr (pkt # pkts, rest)))
      else Inr ([], Suc room, payload, psn, cur))"

text \<open>A request of several packets: FIRST, the MIDDLE ones, LAST.\<close>

definition rc_multi_pkts ::
  "roce_env \<Rightarrow> 'a roce_base_scheme \<Rightarrow> roce_qp \<Rightarrow> send_wr_priv \<Rightarrow> (roce_netpkt \<Rightarrow> roce_netpkt) \<Rightarrow> u8 \<Rightarrow> u8 \<Rightarrow>
   (roce_netpkt \<Rightarrow> roce_netpkt) \<Rightarrow> u8 \<Rightarrow> u32 \<Rightarrow> u16 \<Rightarrow> nat \<Rightarrow> (roce_qp \<times> send_wr_priv) run" where
  "rc_multi_pkts env ctx qp w ext1 op_first op_middle ext2 op_last payload mtu room =
     (let sges = wr_sge (swr w); psn = req_psn qp in
      bindR (rc_part_pkt env ctx qp sges None ext1 op_first False 0 (ack_now psn) (ucast mtu) psn (0, 0)
               (room \<noteq> 0)) (\<lambda>(pkt1, cur1).
      bindR (rc_middle_pkts (room - 1) env ctx qp sges op_middle mtu (payload - ucast mtu)
               (roce_qp_psn_inc psn) cur1) (\<lambda>(pkts, room2, payload2, psn2, cur2).
      bindR (rc_part_pkt env ctx qp sges (Some (swr_ptr w)) ext2 op_last (solicited w) (pad_of payload2) True
               payload2 psn2 cur2 (room2 \<noteq> 0)) (\<lambda>(pkt3, cur3).
      Inr ((roce_netpkt_pending_multi qp (pkt1 # pkts @ [pkt3]))\<lparr>req_psn := roce_qp_psn_inc psn2\<rparr>, w)))))"

definition roce_rc_send_multi ::
  "roce_env \<Rightarrow> 'a roce_base_scheme \<Rightarrow> roce_qp \<Rightarrow> send_wr_priv \<Rightarrow> bool \<Rightarrow> bool \<Rightarrow> u32 \<Rightarrow> u16 \<Rightarrow> nat \<Rightarrow>
   (roce_qp \<times> send_wr_priv) run" where
  "roce_rc_send_multi env ctx qp w invd imm payload mtu room = rc_multi_pkts env ctx qp w
     id IB_OPCODE_SEND_FIRST IB_OPCODE_SEND_MIDDLE (send_ext w invd imm)
     (if invd then IB_OPCODE_SEND_LAST_WITH_INVALIDATE
      else if imm then IB_OPCODE_SEND_LAST_WITH_IMMEDIATE else IB_OPCODE_SEND_LAST) payload mtu room"

definition roce_rc_write_multi ::
  "roce_env \<Rightarrow> 'a roce_base_scheme \<Rightarrow> roce_qp \<Rightarrow> send_wr_priv \<Rightarrow> bool \<Rightarrow> u32 \<Rightarrow> u16 \<Rightarrow> nat \<Rightarrow>
   (roce_qp \<times> send_wr_priv) run" where
  "roce_rc_write_multi env ctx qp w imm payload mtu room = rc_multi_pkts env ctx qp w
     (write_reth w payload) IB_OPCODE_RDMA_WRITE_FIRST IB_OPCODE_RDMA_WRITE_MIDDLE (send_ext w False imm)
     (if imm then IB_OPCODE_RDMA_WRITE_LAST_WITH_IMMEDIATE else IB_OPCODE_RDMA_WRITE_LAST) payload mtu room"

text \<open>The payload of an inline request is its \<open>sge\<close> array, 16 bytes an element.\<close>

definition wr_payload :: "send_wr_priv \<Rightarrow> u32 run" where
  "wr_payload w =
     (if roce_send_wr_is_inline w then Inr (16 * of_nat (length (wr_sge (swr w))))
      else roce_sge_len (wr_sge (swr w)) 0 0)"

definition roce_rc_send_pkts ::
  "roce_env \<Rightarrow> 'a roce_base_scheme \<Rightarrow> roce_qp \<Rightarrow> send_wr_priv \<Rightarrow> bool \<Rightarrow> bool \<Rightarrow> nat \<Rightarrow>
   (roce_qp \<times> send_wr_priv) run" where
  "roce_rc_send_pkts env ctx qp w invd imm room =
     bindR (roce_get_mtu ctx qp) (\<lambda>mtu.
     bindR (assertR (\<not> (invd \<and> imm))) (\<lambda>_.
     bindR (wr_payload w) (\<lambda>payload.
     if payload \<le> ucast mtu then roce_rc_send_only env ctx qp w invd imm payload room
     else bindR (assertR (\<not> roce_send_wr_is_inline w)) (\<lambda>_.
       roce_rc_send_multi env ctx qp w invd imm payload mtu room))))"

definition roce_rc_write_pkts ::
  "roce_env \<Rightarrow> 'a roce_base_scheme \<Rightarrow> roce_qp \<Rightarrow> send_wr_priv \<Rightarrow> bool \<Rightarrow> nat \<Rightarrow> (roce_qp \<times> send_wr_priv) run" where
  "roce_rc_write_pkts env ctx qp w imm room =
     bindR (roce_get_mtu ctx qp) (\<lambda>mtu.
     bindR (wr_payload w) (\<lambda>payload.
     if payload \<le> ucast mtu then roce_rc_write_only env ctx qp w imm payload room
     else roce_rc_write_multi env ctx qp w imm payload mtu room))"

definition roce_rc_build_pkts ::
  "roce_env \<Rightarrow> 'a roce_base_scheme \<Rightarrow> roce_qp \<Rightarrow> send_wr_priv \<Rightarrow> nat \<Rightarrow> (roce_qp \<times> send_wr_priv) run" where
  "roce_rc_build_pkts env ctx qp w room =
     (if roce_send_wr_is_inline w \<and>
         16 * of_nat (length (wr_sge (swr w))) > cap_max_inline_data (qp_cap (qp_attr qp))
      then Inr (qp, w\<lparr>swr_error := ROCE_WC_LOC_LEN_ERR\<rparr>)
      else case wr_opcode (swr w) of
          ROCE_WR_SEND_WITH_IMM \<Rightarrow> roce_rc_send_pkts env ctx qp w False True room
        | ROCE_WR_SEND_WITH_INV \<Rightarrow> roce_rc_send_pkts env ctx qp w True False room
        | ROCE_WR_SEND \<Rightarrow> roce_rc_send_pkts env ctx qp w False False room
        | ROCE_WR_RDMA_WRITE_WITH_IMM \<Rightarrow> roce_rc_write_pkts env ctx qp w True room
        | ROCE_WR_RDMA_WRITE \<Rightarrow> roce_rc_write_pkts env ctx qp w False room
        | _ \<Rightarrow> Inr (qp, w))"

subsection \<open>The window\<close>

text \<open>The loop of \<open>roce_xmit_pkts\<close> over the pending packets.\<close>

fun xmit_loop :: "roce_env \<Rightarrow> roce_qp \<Rightarrow> roce_netpkt list \<Rightarrow> roce_qp \<times> roce_event list" where
  "xmit_loop env qp [] = (qp, [])"
| "xmit_loop env qp (pkt # pkts) =
     (let qp' = roce_netpkt_outgoing qp pkt; ev = roce_netpkt_xmit (env_mem env) pkt in
      if roce_compare_psn (sq_psn (qp_attr qp') + ROCE_MAX_OUTGOING_PACKETS) (roce_netpkt_psn pkt) = 0
      then (qp', [ev])
      else let (qp'', evs) = xmit_loop env qp' pkts in (qp'', ev # evs))"

definition roce_xmit_pkts :: "roce_env \<Rightarrow> roce_qp \<Rightarrow> (roce_qp \<times> roce_event list) run" where
  "roce_xmit_pkts env qp =
     (if outgoing_pkts qp = [] then Inr (xmit_loop env qp (pending_pkts qp))
      else
        let psn = roce_netpkt_psn (last (outgoing_pkts qp));
            diff = roce_compare_psn (sq_psn (qp_attr qp) + ROCE_MAX_OUTGOING_PACKETS) psn in
        bindR (assertR (psn \<ge> sq_psn (qp_attr qp) \<and> psn \<le> req_psn qp)) (\<lambda>_.
        bindR (assertR (diff \<ge> 0)) (\<lambda>_.
        if diff = 0 then Inr (qp, []) else Inr (xmit_loop env qp (pending_pkts qp)))))"

subsection \<open>Completion\<close>

text \<open>Local and failed requests leave the head of the send queue; their completion is not written.\<close>

definition roce_complete_head :: "roce_qp \<Rightarrow> roce_qp" where
  "roce_complete_head qp =
     qp\<lparr>sq_wrs := dropWhile (\<lambda>w. roce_send_wr_is_local w \<or> swr_error w \<noteq> 0) (sq_wrs qp)\<rparr>"

text \<open>The \<open>cq_comp\<close> callback gets the handle and the cookie of the CQ that a QP points to.\<close>

definition cq_comp :: "'a roce_base_scheme \<Rightarrow> u32 \<Rightarrow> roce_wc \<Rightarrow> roce_event run" where
  "cq_comp ctx cq wc = (case res_map (cq_res ctx) cq of
       None \<Rightarrow> Inl Wild_pointer
     | Some q \<Rightarrow> Inr (Cq_comp wc (handle q) (cq_ctx q)))"

definition signaled :: "roce_qp \<Rightarrow> send_wr_priv \<Rightarrow> bool" where
  "signaled qp w \<longleftrightarrow> sq_sig_all qp \<or> send_flags (swr w) AND ROCE_SEND_SIGNALED \<noteq> 0"

text \<open>The completion of a signalled request.\<close>

definition send_completion :: "'a roce_base_scheme \<Rightarrow> roce_qp \<Rightarrow> send_wr_priv \<Rightarrow> roce_event list run" where
  "send_completion ctx qp w =
     (if signaled qp w then
        bindR (roce_sge_len (wr_sge (swr w)) 0 0) (\<lambda>len.
        bindR (roce_send_wr_opcode_to_wc (wr_opcode (swr w))
          (roce_wc_zero\<lparr>wc_wr_id := wr_id (swr w), wc_status := ROCE_WC_SUCCESS, wc_byte_len := len,
             wc_local_qpn := handle qp, wc_remote_qpn := dest_qp_num (qp_attr qp)\<rparr>)) (\<lambda>wc.
        bindR (cq_comp ctx (qp_scq qp) wc) (\<lambda>ev. Inr [ev])))
      else Inr [])"

definition roce_rc_complete_send_wr ::
  "'a roce_base_scheme \<Rightarrow> roce_qp \<Rightarrow> roce_netpkt \<Rightarrow> ('a roce_base_scheme \<times> roce_qp \<times> roce_event list) run" where
  "roce_rc_complete_send_wr ctx qp0 pkt =
     (let qp1 = roce_complete_head qp0;
          qp = qp1\<lparr>qp_attr := (qp_attr qp1)\<lparr>sq_psn := roce_qp_psn_inc (sq_psn (qp_attr qp1))\<rparr>\<rparr> in
      case np_opaque pkt of
        None \<Rightarrow> Inr (ctx, qp, [])
      | Some ptr \<Rightarrow> (case sq_wrs qp of
          [] \<Rightarrow> Inl Assert_failed
        | w # ws \<Rightarrow>
            let qp' = qp\<lparr>sq_wrs := ws\<rparr> in
            bindR (assertR (swr_ptr w = ptr)) (\<lambda>_.
            bindR (send_completion ctx qp w) (\<lambda>evs.
            bindR (roce_free_send_wr ctx w) (\<lambda>ctx'.
            Inr (ctx', roce_complete_head qp', evs))))))"

text \<open>The loop of \<open>roce_handle_ack\<close> over the outgoing packets.\<close>

fun ack_loop ::
  "'a roce_base_scheme \<Rightarrow> roce_qp \<Rightarrow> u32 \<Rightarrow> roce_netpkt list \<Rightarrow>
   ('a roce_base_scheme \<times> roce_qp \<times> roce_event list) run" where
  "ack_loop ctx qp psn [] = Inr (ctx, qp, [])"
| "ack_loop ctx qp psn (pkt # pkts) =
     (if roce_compare_psn (roce_netpkt_psn pkt) psn > 0 then Inr (ctx, qp, [])
      else bindR (roce_rc_complete_send_wr ctx (qp\<lparr>outgoing_pkts := pkts\<rparr>) pkt) (\<lambda>(ctx1, qp1, evs1).
           bindR (ack_loop ctx1 qp1 psn pkts) (\<lambda>(ctx2, qp2, evs2). Inr (ctx2, qp2, evs1 @ evs2))))"

definition roce_handle_ack ::
  "'a roce_base_scheme \<Rightarrow> roce_qp \<Rightarrow> u32 \<Rightarrow> ('a roce_base_scheme \<times> roce_qp \<times> roce_event list) run" where
  "roce_handle_ack ctx qp psn =
     (if roce_compare_psn (sq_psn (qp_attr qp)) psn > 0 then Inr (ctx, qp, [])
      else if roce_compare_psn (req_psn qp) psn < 0 then Inr (ctx, qp, [])
      else ack_loop ctx qp psn (outgoing_pkts qp))"

definition roce_handle_nak ::
  "roce_env \<Rightarrow> 'a roce_base_scheme \<Rightarrow> roce_qp \<Rightarrow> u32 \<Rightarrow> ('a roce_base_scheme \<times> roce_qp \<times> roce_event list) run" where
  "roce_handle_nak env ctx qp psn =
     bindR (roce_handle_ack ctx qp ((psn - 1) AND IB_BTH_PSN_MASK)) (\<lambda>(ctx1, qp1, evs1).
     bindR (roce_xmit_pkts env qp1) (\<lambda>(qp2, evs2).
     Inr (ctx1, qp2, evs1 @ map (roce_netpkt_xmit (env_mem env)) (outgoing_pkts qp1) @ evs2)))"

definition roce_handle_acknowledge ::
  "roce_env \<Rightarrow> 'a roce_base_scheme \<Rightarrow> roce_qp \<Rightarrow> ib_aeth_syndrome_type \<Rightarrow> u32 \<Rightarrow>
   ('a roce_base_scheme \<times> roce_qp \<times> roce_event list) run" where
  "roce_handle_acknowledge env ctx qp syndrome psn =
     (if syndrome = IB_AETH_SYNDROME_ACK then
        bindR (roce_handle_ack ctx qp psn) (\<lambda>(ctx1, qp1, evs1).
        bindR (roce_xmit_pkts env qp1) (\<lambda>(qp2, evs2). Inr (ctx1, qp2, evs1 @ evs2)))
      else if syndrome = IB_AETH_SYNDROME_NAK then roce_handle_nak env ctx qp psn
      else Inr (ctx, qp, []))"

subsection \<open>Requests\<close>

text \<open>
  A request is linked into the send queue before its packets are built; what the builder stores into
  it goes to its place there.
\<close>

definition sq_store :: "send_wr_priv \<Rightarrow> roce_qp \<Rightarrow> roce_qp" where
  "sq_store w qp = qp\<lparr>sq_wrs := map (\<lambda>x. if swr_ptr x = swr_ptr w then w else x) (sq_wrs qp)\<rparr>"

definition roce_request_rc ::
  "roce_env \<Rightarrow> 'a roce_base_scheme \<Rightarrow> roce_qp \<Rightarrow> send_wr_priv \<Rightarrow> nat \<Rightarrow> (roce_qp \<times> roce_event list) run" where
  "roce_request_rc env ctx qp w room =
     (let qp0 = qp\<lparr>sq_wrs := sq_wrs qp @ [w]\<rparr> in
      bindR (if swr_error w = 0
             then bindR (roce_rc_build_pkts env ctx qp0 w room) (\<lambda>(qp1, w1). Inr (sq_store w1 qp1))
             else Inr qp0) (\<lambda>qp1.
      bindR (roce_xmit_pkts env qp1) (\<lambda>(qp2, evs).
      Inr (roce_complete_head qp2, evs))))"

subsection \<open>Unreliable datagrams\<close>

definition roce_mr_unmap_sge :: "bool \<Rightarrow> iov list \<Rightarrow> roce_event list" where
  "roce_mr_unmap_sge dmamap iovs = (if dmamap then map (\<lambda>v. Dma_unmap (iov_base v) (iov_len v)) iovs else [])"

definition netpkt_payload_iovs :: "nat \<Rightarrow> roce_netpkt \<Rightarrow> iov list" where
  "netpkt_payload_iovs n pkt = map (\<lambda>v. \<lparr>iov_base = (case iov_base v of Some (N_mem p) \<Rightarrow> Some p | _ \<Rightarrow> None),
     iov_len = iov_len v\<rparr>) (take n (drop ROCE_NETPKT_PAYLOAD (np_iovs pkt)))"

text \<open>The extended header of a datagram.\<close>

definition ud_ext :: "roce_qp \<Rightarrow> send_wr_priv \<Rightarrow> bool \<Rightarrow> roce_netpkt \<Rightarrow> roce_netpkt" where
  "ud_ext qp w imm pkt =
     (let pkt1 = roce_netpkt_ud_deth (wr_ud_remote_qkey (swr w)) (handle qp) pkt in
      if imm then netpkt_set_iov ROCE_NETPKT_ETH N_ext (IB_DETH_SIZE + IB_IMMDT_SIZE)
        (roce_netpkt_ud_immdt (wr_imm_data (swr w)) pkt1)
      else netpkt_set_iov ROCE_NETPKT_ETH N_ext IB_DETH_SIZE pkt1)"

text \<open>From the allocated packet to the end of \<open>roce_ud_send_pkt\<close>: sent, unmapped and freed at once.\<close>

definition ud_xmit ::
  "roce_env \<Rightarrow> 'a roce_base_scheme \<Rightarrow> roce_qp \<Rightarrow> send_wr_priv \<Rightarrow> bool \<Rightarrow> u32 \<Rightarrow> roce_ah_attr \<Rightarrow> u32 \<Rightarrow>
   roce_netpkt \<Rightarrow> (roce_qp \<times> roce_event list) run" where
  "ud_xmit env ctx qp w imm payload ah pages pkt =
     bindR (if roce_send_wr_is_inline w
            then Inr (netpkt_set_iov ROCE_NETPKT_PAYLOAD (N_inline (wr_sge (swr w))) (unat payload)
                        (ud_ext qp w imm pkt), 0, False)
            else bindR (netpkt_map_payload env ctx qp (wr_sge (swr w)) pages (ud_ext qp w imm pkt))
                   (\<lambda>(p, vs, dm). Inr (p, length vs, dm = Some True))) (\<lambda>(pkt1, map_pages, dmamap).
     bindR (netpkt_finish env ctx qp ah
              (if imm then IB_OPCODE_SEND_ONLY_WITH_IMMEDIATE else IB_OPCODE_SEND_ONLY) (solicited w)
              (pad_of payload) (wr_ud_remote_qpn (swr w)) True (req_psn qp) pkt1) (\<lambda>pkt2.
     Inr (qp\<lparr>req_psn := roce_qp_psn_inc (req_psn qp)\<rparr>,
       roce_netpkt_xmit (env_mem env) pkt2
         # roce_mr_unmap_sge dmamap (netpkt_payload_iovs map_pages pkt2))))"

definition roce_ud_send_pkt ::
  "roce_env \<Rightarrow> 'a roce_base_scheme \<Rightarrow> roce_qp \<Rightarrow> send_wr_priv \<Rightarrow> bool \<Rightarrow> u32 \<Rightarrow> bool \<Rightarrow>
   ('a roce_base_scheme \<times> roce_qp \<times> send_wr_priv \<times> roce_event list) run" where
  "roce_ud_send_pkt env ctx qp w imm payload mem_ok =
     bindR (roce_get_ah ctx (wr_ud_ah (swr w))) (\<lambda>(oah, ctx1). case oah of
       None \<Rightarrow> Inr (ctx1, qp, w, [])
     | Some ah \<Rightarrow>
         bindR (if roce_send_wr_is_inline w then Inr 1
                else roce_sge_pages (wr_sge (swr w)) (page_size ctx1)) (\<lambda>pages.
         bindR (roce_netpkt_alloc ctx1 qp (Some (swr_ptr w)) (ucast pages) (pad_of payload) mem_ok) (\<lambda>opkt.
         bindR (case opkt of
             None \<Rightarrow> Inr (qp, w\<lparr>swr_error := ROCE_WC_LOC_QP_OP_ERR\<rparr>, [])
           | Some pkt \<Rightarrow> bindR (ud_xmit env ctx1 qp w imm payload (ah_attr ah) pages pkt)
               (\<lambda>(qp1, evs). Inr (qp1, w, evs))) (\<lambda>(qp1, w1, evs).
         bindR (roce_put_ah ctx1 (wr_ud_ah (swr w))) (\<lambda>(_, ctx2). Inr (ctx2, qp1, w1, evs))))))"

text \<open>The completion of a datagram and the end of its request, the label \<open>done\<close> of \<open>roce_request_ud\<close>.\<close>

definition ud_done ::
  "'a roce_base_scheme \<Rightarrow> roce_qp \<Rightarrow> send_wr_priv \<Rightarrow> u32 \<Rightarrow> roce_event list \<Rightarrow>
   ('a roce_base_scheme \<times> roce_qp \<times> roce_event list) run" where
  "ud_done ctx qp w byte_len evs =
     bindR (if signaled qp w \<or> swr_error w \<noteq> 0 then
              bindR (roce_send_wr_opcode_to_wc (wr_opcode (swr w))
                (roce_wc_zero\<lparr>wc_wr_id := wr_id (swr w), wc_status := swr_error w, wc_byte_len := byte_len,
                   wc_local_qpn := handle qp, wc_remote_qpn := dest_qp_num (qp_attr qp)\<rparr>)) (\<lambda>wc.
              bindR (cq_comp ctx (qp_scq qp) wc) (\<lambda>ev. Inr [ev]))
            else Inr []) (\<lambda>comp.
     bindR (roce_free_send_wr ctx w) (\<lambda>ctx'. Inr (ctx', qp, evs @ comp)))"

definition roce_request_ud ::
  "roce_env \<Rightarrow> 'a roce_base_scheme \<Rightarrow> roce_qp \<Rightarrow> send_wr_priv \<Rightarrow> bool \<Rightarrow>
   ('a roce_base_scheme \<times> roce_qp \<times> roce_event list) run" where
  "roce_request_ud env ctx qp w mem_ok =
     bindR (roce_get_mtu ctx qp) (\<lambda>mtu.
     if swr_error w \<noteq> 0 then ud_done ctx qp w 0 []
     else bindR (wr_payload w) (\<lambda>payload.
       if payload > ucast mtu then ud_done ctx qp (w\<lparr>swr_error := ROCE_WC_LOC_LEN_ERR\<rparr>) 0 []
       else if wr_opcode (swr w) = ROCE_WR_SEND \<or> wr_opcode (swr w) = ROCE_WR_SEND_WITH_IMM then
         bindR (roce_ud_send_pkt env ctx qp w (wr_opcode (swr w) = ROCE_WR_SEND_WITH_IMM) payload mem_ok)
           (\<lambda>(ctx1, qp1, w1, evs). ud_done ctx1 qp1 w1 payload evs)
       else ud_done ctx qp (w\<lparr>swr_error := ROCE_WC_LOC_QP_OP_ERR\<rparr>) 0 []))"

end
