(* ===== verification/Responder.thy ===== *)
theory Responder
  imports Decap Requester
begin

text \<open>
  The responder (\<open>responder.c\<close> behind the parser): what a queue pair does with the transport header and
  the body of an inbound packet. A SEND fills the buffers of a receive request, an RDMA WRITE the memory
  its header names; packets are taken in the order of their PSNs, a gap is answered by one NAK. A step
  gets and returns memory, context and queue pair, with a result code and the events.
\<close>

subsection \<open>Taking data off a packet\<close>

definition roce_get_eth :: "mem \<Rightarrow> iov list \<Rightarrow> nat \<Rightarrow> (int + (u8 list \<times> iov list)) run" where
  "roce_get_eth mm iovs n =
     bindR (roce_iov_len iovs) (\<lambda>buf_len.
     if buf_len < n then Inr (Inl (- EPROTO))
     else bindR (iov_read mm iovs n) (\<lambda>(_, bs, iovs'). Inr (Inr (bs, iovs'))))"

text \<open>
  The loop that copies the payload to the mapped vectors: each takes its length off the packet. A null
  address discards, as \<open>roce_iov_advance\<close> does; an entry that was counted and not written is read
  uninitialised.
\<close>

fun copy_payload :: "mem \<Rightarrow> iov list \<Rightarrow> iov option list \<Rightarrow> (mem \<times> iov list) run" where
  "copy_payload mm iovs [] = Inr (mm, iovs)"
| "copy_payload mm iovs (None # ds) = Inl Out_of_bounds"
| "copy_payload mm iovs (Some d # ds) =
     bindR (roce_iov_advance iovs (iov_len d)) (\<lambda>(_, srcs, iovs').
     copy_payload (case iov_base d of None \<Rightarrow> mm | Some p \<Rightarrow> scatter mm p srcs) iovs' ds)"

text \<open>Mapping SGEs to the local array \<open>dst_iovs\<close>, copying the payload there and unmapping.\<close>

definition map_and_copy ::
  "roce_env \<Rightarrow> 'a roce_base_scheme \<Rightarrow> roce_qp \<Rightarrow> roce_sge list \<Rightarrow> bool \<Rightarrow> u32 \<Rightarrow> iov list \<Rightarrow>
   (int + (mem \<times> roce_event list)) run" where
  "map_and_copy env ctx qp sges loc access iovs =
     bindR (roce_mr_map_sge ctx (qp_pd qp) (qp_type qp) sges loc access (env_dma env)) (\<lambda>r. case r of
         Inl e \<Rightarrow> Inr (Inl (- EACCES))
       | Inr (vs, dmamap) \<Rightarrow>
           if length vs > 2 * ROCE_MAX_SGE then Inl Out_of_bounds
           else bindR (roce_sge_pages sges (page_size ctx)) (\<lambda>pages.
             bindR (assertR (of_nat (length vs) = pages)) (\<lambda>_.
             bindR (copy_payload (env_mem env) iovs vs) (\<lambda>(mm, _).
             Inr (Inr (mm, roce_mr_unmap_sge (dmamap = Some True) (map the vs)))))))"

subsection \<open>Receive requests\<close>

text \<open>A request that leaves the receive queue stays on the heap at its address.\<close>

definition pop_recv_wr :: "roce_qp \<Rightarrow> recv_wr_priv option \<times> roce_qp" where
  "pop_recv_wr qp = (case rq_wrs qp of
       [] \<Rightarrow> (None, qp)
     | w # ws \<Rightarrow> (Some w, qp\<lparr>rq_wrs := ws, resp_heap := (resp_heap qp)(rwr_ptr w \<mapsto> w)\<rparr>))"

text \<open>The pointer \<open>resp.wr\<close> shares its place with the address of an RDMA WRITE.\<close>

definition roce_pop_recv_wr :: "roce_qp \<Rightarrow> bool \<Rightarrow> u64 \<times> roce_qp" where
  "roce_pop_recv_wr qp inprocess =
     (if inprocess \<noteq> (resp_u qp \<noteq> 0) then (0, qp)
      else if resp_u qp \<noteq> 0 then (resp_u qp, qp)
      else let (w, qp1) = pop_recv_wr qp; p = (case w of None \<Rightarrow> 0 | Some x \<Rightarrow> rwr_ptr x) in
        (p, qp1\<lparr>resp_u := p\<rparr>))"

definition recv_wr_at :: "roce_qp \<Rightarrow> u64 \<Rightarrow> recv_wr_priv run" where
  "recv_wr_at qp p = (case resp_heap qp p of None \<Rightarrow> Inl Wild_pointer | Some w \<Rightarrow> Inr w)"

definition recv_wr_set :: "recv_wr_priv \<Rightarrow> roce_qp \<Rightarrow> roce_qp" where
  "recv_wr_set w qp = qp\<lparr>resp_heap := (resp_heap qp)(rwr_ptr w \<mapsto> w)\<rparr>"

text \<open>\<open>roce_free_recv_wr\<close> of a popped request.\<close>

definition free_popped ::
  "'a roce_base_scheme \<Rightarrow> roce_qp \<Rightarrow> recv_wr_priv \<Rightarrow> ('a roce_base_scheme \<times> roce_qp) run" where
  "free_popped ctx qp w = bindR (roce_free_recv_wr ctx w) (\<lambda>ctx'.
     Inr (ctx', qp\<lparr>resp_heap := (resp_heap qp)(rwr_ptr w := None)\<rparr>))"

definition roce_recv_cq_comp ::
  "'a roce_base_scheme \<Rightarrow> roce_qp \<Rightarrow> u8 \<Rightarrow> u64 \<Rightarrow> u32 \<Rightarrow> ib_immdt option \<Rightarrow> u8 \<Rightarrow> (bool \<times> roce_event list) run" where
  "roce_recv_cq_comp ctx qp opcode wrid byte_len eth status =
     (let finish = (\<lambda>wc. bindR (cq_comp ctx (qp_rcq qp) (wc\<lparr>wc_wr_id := wrid, wc_status := status,
              wc_local_qpn := handle qp, wc_remote_qpn := dest_qp_num (qp_attr qp)\<rparr>)) (\<lambda>ev. Inr (True, [ev]))) in
      if status \<noteq> ROCE_WC_SUCCESS then finish roce_wc_zero
      else bindR (roce_recv_wr_opcode_to_wc opcode roce_wc_zero) (\<lambda>(wc, complete).
        if \<not> complete then Inr (False, [])
        else if wc_flags wc AND ROCE_WC_WITH_IMM \<noteq> 0 \<and> eth = None then
          finish (wc\<lparr>wc_status := ROCE_WC_BAD_RESP_ERR\<rparr>)
        else
          let wc1 = (case eth of Some h \<Rightarrow> if wc_flags wc AND ROCE_WC_WITH_IMM \<noteq> 0
                       then wc\<lparr>wc_imm_data := ib_immdt_get_immdt h\<rparr> else wc | None \<Rightarrow> wc);
              wc2 = wc1\<lparr>wc_byte_len := byte_len\<rparr> in
          finish (if qp_type qp = ROCE_QPT_GSI \<or> qp_type qp = ROCE_QPT_UD
                  then wc2\<lparr>wc_flags := wc_flags wc2 OR ROCE_WC_GRH\<rparr> else wc2)))"

subsection \<open>SEND\<close>

type_synonym 'a recv_step = "(int \<times> mem \<times> 'a roce_base_scheme \<times> roce_qp \<times> roce_event list) run"

definition roce_recv_payload ::
  "roce_env \<Rightarrow> 'a roce_base_scheme \<Rightarrow> roce_qp \<Rightarrow> iov list \<Rightarrow> ib_immdt option \<Rightarrow> bool \<Rightarrow> u8 \<Rightarrow> 'a recv_step" where
  "roce_recv_payload env ctx qp iovs eth inprocess opcode =
     bindR (roce_iov_len iovs) (\<lambda>len. let buf_len = of_nat len :: u32; (p, qp1) = roce_pop_recv_wr qp inprocess in
     if p = 0 then Inr (- EAGAIN, env_mem env, ctx, qp1, [])
     else bindR (recv_wr_at qp1 p) (\<lambda>w.
     bindR (roce_sge_len (rwr_sge (rwr w)) (rwr_sge_idx w) (rwr_sge_off w)) (\<lambda>sge_len.
     if sge_len < buf_len then Inr (- EFAULT, env_mem env, ctx, qp1, [])
     else bindR (rc_slice (rwr_sge (rwr w)) buf_len (rwr_sge_idx w, rwr_sge_off w)) (\<lambda>(dst, i, off).
       let w1 = w\<lparr>rwr_sge_idx := i, rwr_sge_off := off\<rparr> in
       bindR (map_and_copy env ctx qp1 dst True ROCE_ACCESS_LOCAL_WRITE iovs) (\<lambda>r. case r of
           Inl e \<Rightarrow> Inr (e, env_mem env, ctx, recv_wr_set w1 qp1, [])
         | Inr (mm, evs1) \<Rightarrow>
             let w2 = w1\<lparr>rwr_byte_len := rwr_byte_len w1 + buf_len\<rparr>; qp2 = recv_wr_set w2 qp1 in
             bindR (roce_recv_cq_comp ctx qp2 opcode (rwr_id (rwr w2)) (rwr_byte_len w2) eth ROCE_WC_SUCCESS)
               (\<lambda>(complete, evs2).
             if complete then bindR (free_popped ctx qp2 w2) (\<lambda>(ctx', qp3).
               Inr (0, mm, ctx', qp3\<lparr>resp_u := 0\<rparr>, evs1 @ evs2))
             else Inr (0, mm, ctx, qp2, evs1 @ evs2)))))))"

subsection \<open>RDMA WRITE\<close>

definition write_has_imm :: "u8 \<Rightarrow> bool" where
  "write_has_imm opcode \<longleftrightarrow> opcode = IB_OPCODE_RDMA_WRITE_ONLY_WITH_IMMEDIATE \<or>
     opcode = IB_OPCODE_RDMA_WRITE_LAST_WITH_IMMEDIATE"

text \<open>After the data is in place: the receive request that immediate data takes, and the completion.\<close>

definition write_complete ::
  "mem \<Rightarrow> 'a roce_base_scheme \<Rightarrow> roce_qp \<Rightarrow> ib_immdt option \<Rightarrow> u8 \<Rightarrow> roce_event list \<Rightarrow> 'a recv_step" where
  "write_complete mm ctx qp eth opcode evs =
     (let (w, qp1) = (if write_has_imm opcode then pop_recv_wr qp else (None, qp)) in
      if write_has_imm opcode \<and> w = None then Inr (- EAGAIN, mm, ctx, qp1, evs)
      else bindR (roce_recv_cq_comp ctx qp1 opcode (case w of None \<Rightarrow> 0 | Some x \<Rightarrow> rwr_id (rwr x))
                    (resp_writtenlen qp1) eth ROCE_WC_SUCCESS) (\<lambda>(complete, evs2).
        if complete then (case w of
            None \<Rightarrow> Inl Null_deref
          | Some x \<Rightarrow> bindR (free_popped ctx qp1 x) (\<lambda>(ctx', qp2).
              Inr (0, mm, ctx', qp2\<lparr>resp_u := 0, resp_writtenlen := 0\<rparr>, evs @ evs2)))
        else Inr (0, mm, ctx, qp1, evs @ evs2)))"

definition roce_rdma_write_payload ::
  "roce_env \<Rightarrow> 'a roce_base_scheme \<Rightarrow> roce_qp \<Rightarrow> iov list \<Rightarrow> ib_reth option \<Rightarrow> ib_immdt option \<Rightarrow> bool \<Rightarrow> u8 \<Rightarrow>
   bool \<Rightarrow> 'a recv_step" where
  "roce_rdma_write_payload env ctx qp iovs reth eth inprocess opcode mem_ok =
     bindR (roce_iov_len iovs) (\<lambda>len. let buf_len = of_nat len :: u32 in
     if inprocess \<noteq> (resp_writtenlen qp \<noteq> 0) then
       bindR (roce_netpkt_acknowledge (env_mem env) ctx qp IB_AETH_SYNDROME_NAK IB_NAK_INVALID_REQUEST
                (rq_psn (qp_attr qp)) mem_ok) (\<lambda>(qp1, evs). Inr (- EPROTO, env_mem env, ctx, qp1, evs))
     else bindR (if resp_writtenlen qp = 0 then (case reth of
              None \<Rightarrow> Inl Null_deref
            | Some h \<Rightarrow> Inr (qp\<lparr>resp_u := ib_reth_get_va h, resp_rkey := ib_reth_get_rkey h,
                resp_dmalen := ib_reth_get_dmalen h, resp_writtenlen := 0\<rparr>))
          else Inr qp) (\<lambda>qp1.
       bindR (map_and_copy env ctx qp1 [\<lparr>sge_addr = resp_u qp1 + ucast (resp_writtenlen qp1), sge_length = buf_len,
                sge_lkey = resp_rkey qp1\<rparr>] False ROCE_ACCESS_REMOTE_WRITE iovs) (\<lambda>r. case r of
           Inl e \<Rightarrow> Inr (e, env_mem env, ctx, qp1, [])
         | Inr (mm, evs) \<Rightarrow>
             write_complete mm ctx (qp1\<lparr>resp_writtenlen := resp_writtenlen qp1 + buf_len\<rparr>) eth opcode evs)))"

subsection \<open>Reliable connections\<close>

definition roce_out_of_seq ::
  "mem \<Rightarrow> 'a roce_base_scheme \<Rightarrow> roce_qp \<Rightarrow> bool \<Rightarrow> (roce_qp \<times> roce_event list) run" where
  "roce_out_of_seq mm ctx qp mem_ok =
     (if in_psn_nak qp then Inr (qp, [])
      else bindR (roce_netpkt_acknowledge mm ctx qp IB_AETH_SYNDROME_NAK IB_NAK_PSN_SEQUENCE_ERROR
                    (rq_psn (qp_attr qp)) mem_ok) (\<lambda>(qp1, evs). Inr (qp1\<lparr>in_psn_nak := True\<rparr>, evs)))"

text \<open>Taking an extended header of \<open>n\<close> bytes before the rest of the packet.\<close>

definition with_eth ::
  "roce_env \<Rightarrow> 'a roce_base_scheme \<Rightarrow> roce_qp \<Rightarrow> iov list \<Rightarrow> nat \<Rightarrow> (u8 list \<Rightarrow> iov list \<Rightarrow> 'a recv_step) \<Rightarrow> 'a recv_step" where
  "with_eth env ctx qp iovs n k = bindR (roce_get_eth (env_mem env) iovs n) (\<lambda>r. case r of
       Inl e \<Rightarrow> Inr (e, env_mem env, ctx, qp, [])
     | Inr (bs, iovs') \<Rightarrow> k bs iovs')"

text \<open>The switch of \<open>roce_recv_rc\<close> over the opcodes of requests.\<close>

definition rc_dispatch ::
  "roce_env \<Rightarrow> 'a roce_base_scheme \<Rightarrow> roce_qp \<Rightarrow> iov list \<Rightarrow> u8 \<Rightarrow> bool \<Rightarrow> 'a recv_step" where
  "rc_dispatch env ctx qp iovs opcode mem_ok =
     (if opcode = IB_OPCODE_SEND_FIRST \<or> opcode = IB_OPCODE_SEND_ONLY then
        roce_recv_payload env ctx qp iovs None False opcode
      else if opcode = IB_OPCODE_SEND_MIDDLE \<or> opcode = IB_OPCODE_SEND_LAST then
        roce_recv_payload env ctx qp iovs None True opcode
      else if opcode = IB_OPCODE_SEND_LAST_WITH_IMMEDIATE then
        with_eth env ctx qp iovs IB_IMMDT_SIZE (\<lambda>bs iovs'.
          roce_recv_payload env ctx qp iovs' (Some (ib_immdt_of_bytes bs)) True opcode)
      else if opcode = IB_OPCODE_SEND_ONLY_WITH_IMMEDIATE then
        with_eth env ctx qp iovs IB_IMMDT_SIZE (\<lambda>bs iovs'.
          roce_recv_payload env ctx qp iovs' (Some (ib_immdt_of_bytes bs)) False opcode)
      else if opcode = IB_OPCODE_RDMA_WRITE_ONLY \<or> opcode = IB_OPCODE_RDMA_WRITE_FIRST then
        with_eth env ctx qp iovs IB_RETH_SIZE (\<lambda>bs iovs'.
          roce_rdma_write_payload env ctx qp iovs' (Some (ib_reth_of_bytes bs)) None False opcode mem_ok)
      else if opcode = IB_OPCODE_RDMA_WRITE_ONLY_WITH_IMMEDIATE then
        with_eth env ctx qp iovs IB_RETH_SIZE (\<lambda>bs iovs'.
        with_eth env ctx qp iovs' IB_IMMDT_SIZE (\<lambda>cs iovs''.
          roce_rdma_write_payload env ctx qp iovs'' (Some (ib_reth_of_bytes bs)) (Some (ib_immdt_of_bytes cs))
            False opcode mem_ok))
      else if opcode = IB_OPCODE_RDMA_WRITE_MIDDLE \<or> opcode = IB_OPCODE_RDMA_WRITE_LAST then
        roce_rdma_write_payload env ctx qp iovs None None True opcode mem_ok
      else if opcode = IB_OPCODE_RDMA_WRITE_LAST_WITH_IMMEDIATE then
        with_eth env ctx qp iovs IB_IMMDT_SIZE (\<lambda>bs iovs'.
          roce_rdma_write_payload env ctx qp iovs' None (Some (ib_immdt_of_bytes bs)) True opcode mem_ok)
      else Inr (- EPROTO, env_mem env, ctx, qp, []))"

definition roce_recv_rc ::
  "roce_env \<Rightarrow> 'a roce_base_scheme \<Rightarrow> iov list \<Rightarrow> ib_bth \<Rightarrow> roce_qp \<Rightarrow> bool \<Rightarrow> 'a recv_step" where
  "roce_recv_rc env ctx iovs bth qp mem_ok =
     (let psn = ib_bth_get_psn bth; opcode = ib_bth_get_opcode bth;
          psn_diff = roce_compare_psn (rq_psn (qp_attr qp)) psn in
      if opcode = IB_OPCODE_ACKNOWLEDGE then
        with_eth env ctx qp iovs IB_AETH_SIZE (\<lambda>bs _.
          bindR (roce_handle_acknowledge env ctx qp (ib_aeth_get_syndrome_type (ib_aeth_of_bytes bs)) psn)
            (\<lambda>(ctx1, qp1, evs). Inr (0, env_mem env, ctx1, qp1, evs)))
      else if psn_diff > 0 then Inr (0, env_mem env, ctx, qp, [])
      else if psn_diff < 0 then
        bindR (roce_out_of_seq (env_mem env) ctx qp mem_ok) (\<lambda>(qp1, evs). Inr (0, env_mem env, ctx, qp1, evs))
      else bindR (rc_dispatch env ctx (qp\<lparr>in_psn_nak := False\<rparr>) iovs opcode mem_ok)
        (\<lambda>(ret, mm, ctx1, qp1, evs1).
        if ret \<noteq> 0 then Inr (ret, mm, ctx1, qp1, evs1)
        else bindR (if ib_bth_get_ack bth
                    then roce_netpkt_acknowledge mm ctx1 qp1 IB_AETH_SYNDROME_ACK 0x1f psn mem_ok
                    else Inr (qp1, [])) (\<lambda>(qp2, evs2).
          Inr (0, mm, ctx1, qp2\<lparr>qp_attr := (qp_attr qp2)\<lparr>rq_psn := roce_qp_psn_inc (rq_psn (qp_attr qp2))\<rparr>\<rparr>,
            evs1 @ evs2))))"

subsection \<open>Unreliable datagrams\<close>

text \<open>The IP header goes in front of a datagram in 40 bytes, an IPv4 header into the last 20.\<close>

definition roce_build_grh :: "u8 list \<Rightarrow> bool \<Rightarrow> u8 list" where
  "roce_build_grh ip is_ipv4 = (if is_ipv4 then replicate 20 0 @ take 20 ip else ip)"

text \<open>\<open>ip_addr\<close> is the address of the local variable that holds the IP header; its vector takes the
  slot in front of those of the packet.\<close>

definition roce_recv_ud ::
  "roce_env \<Rightarrow> 'a roce_base_scheme \<Rightarrow> iov list \<Rightarrow> ib_bth \<Rightarrow> roce_qp \<Rightarrow> u8 list \<Rightarrow> bool \<Rightarrow> u64 \<Rightarrow> 'a recv_step" where
  "roce_recv_ud env ctx iovs bth qp ip is_ipv4 ip_addr =
     (let opcode = ib_bth_get_opcode bth;
          env1 = env\<lparr>env_mem := store (env_mem env) ip_addr (roce_build_grh ip is_ipv4)\<rparr>;
          grh = \<lparr>iov_base = Some ip_addr, iov_len = 40\<rparr> in
      bindR (roce_get_eth (env_mem env) iovs IB_DETH_SIZE) (\<lambda>r. case r of
          Inl e \<Rightarrow> Inr (- EPROTO, env_mem env, ctx, qp, [])
        | Inr (db, iovs1) \<Rightarrow>
            let finish = (\<lambda>(ret, mm, ctx1, qp1, evs).
                  let qp2 = qp1\<lparr>qp_attr := (qp_attr qp1)\<lparr>dest_qp_num := ib_deth_get_srcqp (ib_deth_of_bytes db)\<rparr>\<rparr> in
                  if ret \<noteq> 0 then Inr (ret, mm, ctx1, qp2, evs)
                  else Inr (ret, mm, ctx1,
                    qp2\<lparr>qp_attr := (qp_attr qp2)\<lparr>rq_psn := roce_qp_psn_inc (rq_psn (qp_attr qp2))\<rparr>\<rparr>, evs)) in
            if opcode = IB_OPCODE_SEND_ONLY_WITH_IMMEDIATE then
              bindR (with_eth env ctx qp iovs1 IB_IMMDT_SIZE (\<lambda>bs iovs2.
                roce_recv_payload env1 ctx qp (grh # iovs2) (Some (ib_immdt_of_bytes bs)) False opcode)) finish
            else if opcode = IB_OPCODE_SEND_ONLY then
              bindR (roce_recv_payload env1 ctx qp (grh # iovs1) None False opcode) finish
            else Inr (- EPROTO, env_mem env, ctx, qp, [])))"

end
