(* ===== verification/Mr_Map.thy ===== *)
theory Mr_Map
  imports Mr
begin

text \<open>
  What \<open>roce_mr_map_sge\<close> guarantees: when it returns vectors, every SGE passed the checks of key,
  protection domain, state, access rights and range; for a region given by its pages, the vectors
  describe exactly the bytes of the region that the SGEs name.
\<close>

subsection \<open>The checks\<close>

definition sge_permitted ::
  "'a roce_base_scheme \<Rightarrow> u32 \<Rightarrow> bool \<Rightarrow> u32 \<Rightarrow> roce_sge \<Rightarrow> roce_mr \<Rightarrow> bool" where
  "sge_permitted ctx pd loc access sge m \<longleftrightarrow>
     mr_map ctx (roce_key_to_index (sge_lkey sge)) = Some m \<and>
     (if loc then mr_lkey m else mr_rkey m) = sge_lkey sge \<and> mr_pd m = pd \<and>
     mr_state m = ROCE_MR_STATE_VALID \<and> access AND mr_access m = access \<and>
     (mr_type m \<noteq> ROCE_MR_DMA \<longrightarrow> mr_iova m \<le> sge_addr sge \<and>
        sge_addr sge + ucast (sge_length sge) \<le> mr_iova m + ucast (mr_length m))"

lemma map_sge1_permitted:
  assumes "res_wf (mr_res ctx)"
    "map_sge1 ctx pd qp_type loc access dma sge cur = Inr (Inr (new, ty, dm))"
  shows "\<exists>m. sge_permitted ctx pd loc access sge m \<and> ty = mr_type m \<and> (mr_type m = ROCE_MR_DMA \<longrightarrow> qp_type = ROCE_QPT_GSI)"
  using assms
  by (auto simp: map_sge1_def roce_get_mr_noref_def res_get_map sge_permitted_def Let_def not_less
      bindR_eq_Inr split: option.splits if_splits)

lemma map_sge_loop_permitted:
  assumes "res_wf (mr_res ctx)"
    "map_sge_loop ctx pd qp_type loc access dma sges cur iovs dm = Inr (Inr r)"
  shows "\<forall>sge \<in> set sges. \<exists>m. sge_permitted ctx pd loc access sge m \<and> (mr_type m = ROCE_MR_DMA \<longrightarrow> qp_type = ROCE_QPT_GSI)"
  using assms(2)
proof (induction sges arbitrary: cur iovs dm)
  case (Cons sge sges)
  then obtain x where x: "map_sge1 ctx pd qp_type loc access dma sge cur = Inr x"
    by (auto simp: bindR_eq_Inr)
  then obtain new ty dm' where n: "x = Inr (new, ty, dm')"
    using Cons.prems by (cases x) auto
  then show ?case
    using map_sge1_permitted[OF assms(1), of pd qp_type loc access dma sge cur new ty dm'] x Cons
    by auto
qed simp

subsection \<open>The bytes\<close>

text \<open>A region given by its pages: vectors of one page each, from the page of \<open>iova\<close> on.\<close>

definition mr_paged :: "roce_mr \<Rightarrow> bool" where
  "mr_paged m \<longleftrightarrow> mr_type m = ROCE_MR_MEM \<and> mr_page_size m \<noteq> 0 \<and>
     (\<forall>v \<in> set (mr_iovs m). wf_iov v \<and> iov_len v = unat (mr_page_size m)) \<and>
     unat (mr_iova m) mod unat (mr_page_size m) + unat (mr_length m)
       \<le> length (mr_iovs m) * unat (mr_page_size m) \<and>
     unat (mr_iova m) + unat (mr_length m) < 2 ^ 64"

definition mr_window :: "mem \<Rightarrow> roce_mr \<Rightarrow> u64 \<Rightarrow> nat \<Rightarrow> u8 list" where
  "mr_window mm m addr n =
     (let page = unat (mr_page_size m) in
      take n (drop (unat addr - unat (mr_iova m) div page * page) (iovs_bytes (load mm) (mr_iovs m))))"

lemma unat_ucast_u32: "unat (ucast (w :: u64) :: u32) = unat w mod 2 ^ 32"
  by (simp add: unsigned_ucast_eq take_bit_eq_mod)

lemma unat_ucast_u64: "unat (ucast (w :: u32) :: u64) = unat w"
  using unat_bounds(3)[of w] by (simp add: unsigned_ucast_eq take_bit_nat_eq_self)

lemma iovs_bytes_drop:
  assumes "\<forall>v \<in> set vs. wf_iov v \<and> iov_len v = p"
  shows "iovs_bytes (load mm) (drop k vs) = drop (k * p) (iovs_bytes (load mm) vs)"
  using assms
proof (induction vs arbitrary: k)
  case (Cons v vs)
  then have "length (iov_bytes (load mm) v) = p" by (auto simp: length_iov_bytes)
  then show ?case using Cons by (cases k) auto
qed simp

lemma iovs_total_const: "\<forall>v \<in> set vs. wf_iov v \<and> iov_len v = p \<Longrightarrow> iovs_total vs = length vs * p"
  by (induction vs) auto

lemma div_grow:
  assumes "0 < (p :: nat)"
  shows "(i + d) div p \<le> i div p + d"
proof -
  have "d * 1 \<le> d * p" using assms by (intro mult_le_mono2) simp
  then have "(i + d) div p \<le> (i + d * p) div p" by (intro div_le_mono) simp
  then show ?thesis using assms by simp
qed

lemma map_sge1_window:
  assumes wf: "res_wf (mr_res ctx)" and perm: "sge_permitted ctx pd loc access sge m"
    and paged: "mr_paged m" and cur: "cur = ROCE_MR_MAX \<or> cur = ROCE_MR_MEM"
    and len: "sge_length sge \<noteq> 0" and nowrap: "unat (sge_addr sge) + unat (sge_length sge) < 2 ^ 64"
  shows "\<exists>ds. map_sge1 ctx pd qp_type loc access dma sge cur = Inr (Inr (map Some ds, ROCE_MR_MEM, False)) \<and>
    iovs_bytes (load mm) ds = mr_window mm m (sge_addr sge) (unat (sge_length sge)) \<and>
    (\<forall>v \<in> set ds. wf_iov v) \<and>
    length ds = pages_spanned (unat (mr_page_size m)) (unat (sge_addr sge)) (unat (sge_length sge))"
proof -
  define A where "A = unat (sge_addr sge)"
  define I where "I = unat (mr_iova m)"
  define P where "P = unat (mr_page_size m)"
  define n where "n = unat (sge_length sge)"
  define N where "N = length (mr_iovs m)"
  note p = perm[unfolded sge_permitted_def] and g = paged[unfolded mr_paged_def]
  have P: "0 < P" using g by (simp add: P_def unat_gt_0)
  have ty: "mr_type m = ROCE_MR_MEM" using g by simp
  have IA: "I \<le> A" using p ty by (simp add: I_def A_def word_le_nat_alt)
  have AL: "A + n \<le> I + unat (mr_length m)"
  proof -
    have "sge_addr sge + ucast (sge_length sge) \<le> mr_iova m + ucast (mr_length m)" using p ty by simp
    then show ?thesis
      using nowrap g by (simp add: word_le_nat_alt unat_word_ariths unat_ucast_u64 A_def I_def n_def)
  qed
  define k where "k = A div P - I div P"
  have base: "A - I div P * P = k * P + A mod P"
  proof -
    have "I div P \<le> A div P" using IA by (rule div_le_mono)
    then have "k * P + I div P * P = A div P * P" by (simp add: k_def flip: distrib_right)
    then show ?thesis using div_mult_mod_eq[of A P] by linarith
  qed
  have fit: "k * P + A mod P + n \<le> N * P"
  proof -
    have "A - I div P * P + n \<le> I mod P + unat (mr_length m)"
      using AL IA div_mult_mod_eq[of I P] div_times_less_eq_dividend[of I P] by linarith
    also have "\<dots> \<le> N * P" using g by (simp add: I_def P_def N_def)
    finally show ?thesis unfolding base .
  qed
  have n0: "0 < n" using len by (simp add: n_def unat_gt_0)
  have kN: "k < N"
  proof (rule ccontr)
    assume "\<not> k < N"
    then have "N * P \<le> k * P" by simp
    then show False using fit n0 by linarith
  qed
  have k32: "k < 2 ^ 32"
  proof -
    have "A div P \<le> I div P + (A - I)" using div_grow[OF P, of I "A - I"] IA by simp
    then have "k \<le> A - I" by (simp add: k_def)
    also have "\<dots> \<le> unat (mr_length m)" using AL by simp
    also have "\<dots> < 2 ^ 32" using unat_bounds(3) by simp
    finally show ?thesis .
  qed
  have off: "unat (ucast (sge_addr sge div ucast (mr_page_size m) -
      mr_iova m div ucast (mr_page_size m)) :: u32) = k"
  proof -
    have "mr_iova m div ucast (mr_page_size m) \<le> sge_addr sge div ucast (mr_page_size m)"
      using IA by (simp add: word_le_nat_alt unat_div div_le_mono I_def A_def)
    then have "unat (sge_addr sge div ucast (mr_page_size m) - mr_iova m div ucast (mr_page_size m)) = k"
      by (simp add: unat_sub unat_div unat_ucast_u64 k_def A_def I_def P_def)
    then show ?thesis using k32 by (simp only: unat_ucast_u32 mod_less)
  qed
  have offb: "unat (ucast (sge_addr sge mod ucast (mr_page_size m)) :: u32) = A mod P"
  proof -
    have "A mod P < 2 ^ 32"
      using mod_less_divisor[OF P, of A] unat_bounds(3)[of "mr_page_size m"] by (simp add: P_def)
    then show ?thesis by (simp add: unat_ucast_u32 unat_mod unat_ucast_u64 A_def P_def)
  qed
  have pages: "\<forall>v \<in> set (drop k (mr_iovs m)). wf_iov v \<and> iov_len v = P"
    using g by (auto simp: P_def dest: in_set_dropD)
  have "\<exists>d. roce_iov_copy (drop k (mr_iovs m)) (A mod P) n = Inr (length d, d) \<and>
    iovs_bytes (load mm) d = take n (drop (A mod P) (iovs_bytes (load mm) (drop k (mr_iovs m))))"
  proof (rule iov_copy_range)
    show "A mod P + n \<le> iovs_total (drop k (mr_iovs m))"
      using fit unfolding iovs_total_const[OF pages] by (simp add: N_def diff_mult_distrib)
  qed (use pages kN n0 in \<open>auto simp: N_def\<close>)
  then obtain d where d: "roce_iov_copy (drop k (mr_iovs m)) (A mod P) n = Inr (length d, d)"
    "iovs_bytes (load mm) d = take n (drop (A mod P) (iovs_bytes (load mm) (drop k (mr_iovs m))))" by blast
  have "\<forall>v \<in> set d. wf_iov v" using iov_copy_wf[OF _ d(1)] pages by blast
  moreover
  have "map_sge1 ctx pd qp_type loc access dma sge cur = Inr (Inr (map Some d, ROCE_MR_MEM, False))"
    using p ty cur wf d(1) kN
    by (auto simp: map_sge1_def roce_get_mr_noref_def res_get_map Let_def off offb N_def n_def not_le
        simp flip: not_less)
  moreover have "length d = pages_spanned P A n"
  proof -
    have "length d = (A mod P + n + P - 1) div P"
      using iov_copy_count[of "drop k (mr_iovs m)" P "A mod P" n "length d" d] pages P n0 fit d(1) kN
      by (simp add: N_def diff_mult_distrib)
    moreover have "A + n + P - 1 = A mod P + n + P - 1 + A div P * P"
      using P div_mult_mod_eq[of A P] by linarith
    then have "(A + n + P - 1) div P = (A mod P + n + P - 1) div P + A div P"
      using P by (metis add.commute bot_nat_0.not_eq_extremum div_mult_self1)
    ultimately show ?thesis by (simp add: pages_spanned_def)
  qed
  moreover have "iovs_bytes (load mm) d = mr_window mm m (sge_addr sge) n"
    using d(2) iovs_bytes_drop[of "mr_iovs m" P mm k] g base
    by (simp add: mr_window_def Let_def add.commute flip: A_def I_def P_def)
  ultimately show ?thesis by (intro exI[of _ d]) (simp add: n_def P_def A_def)
qed

lemma map_sge_loop_windows:
  assumes wf: "res_wf (mr_res ctx)" and cur: "cur = ROCE_MR_MAX \<or> cur = ROCE_MR_MEM"
    and sges: "\<forall>sge \<in> set sges. sge_permitted ctx pd loc access sge (mr_of sge) \<and> mr_paged (mr_of sge) \<and>
      sge_length sge \<noteq> 0 \<and> unat (sge_addr sge) + unat (sge_length sge) < 2 ^ 64"
  shows "\<exists>ds. map_sge_loop ctx pd qp_type loc access dma sges cur iovs dm =
      Inr (Inr (iovs @ map Some ds, if sges = [] then dm else Some False)) \<and>
    iovs_bytes (load mm) ds =
      concat (map (\<lambda>s. mr_window mm (mr_of s) (sge_addr s) (unat (sge_length s))) sges) \<and>
    (\<forall>v \<in> set ds. wf_iov v) \<and> length ds =
      (\<Sum>s\<leftarrow>sges. pages_spanned (unat (mr_page_size (mr_of s))) (unat (sge_addr s)) (unat (sge_length s)))"
  using sges cur
proof (induction sges arbitrary: cur iovs dm)
  case (Cons s sges)
  then have s: "sge_permitted ctx pd loc access s (mr_of s)" "mr_paged (mr_of s)" "sge_length s \<noteq> 0"
    "unat (sge_addr s) + unat (sge_length s) < 2 ^ 64" by simp_all
  obtain d where d: "map_sge1 ctx pd qp_type loc access dma s cur = Inr (Inr (map Some d, ROCE_MR_MEM, False))"
    "iovs_bytes (load mm) d = mr_window mm (mr_of s) (sge_addr s) (unat (sge_length s))"
    "\<forall>v \<in> set d. wf_iov v"
    "length d = pages_spanned (unat (mr_page_size (mr_of s))) (unat (sge_addr s)) (unat (sge_length s))"
    using map_sge1_window[OF wf s(1,2) Cons.prems(2) s(3,4)] by blast
  obtain ds where "map_sge_loop ctx pd qp_type loc access dma sges ROCE_MR_MEM (iovs @ map Some d) (Some False) =
      Inr (Inr ((iovs @ map Some d) @ map Some ds, if sges = [] then Some False else Some False))"
    "iovs_bytes (load mm) ds = concat (map (\<lambda>s. mr_window mm (mr_of s) (sge_addr s) (unat (sge_length s))) sges)"
    "\<forall>v \<in> set ds. wf_iov v" "length ds =
      (\<Sum>s\<leftarrow>sges. pages_spanned (unat (mr_page_size (mr_of s))) (unat (sge_addr s)) (unat (sge_length s)))"
    using Cons.IH[of ROCE_MR_MEM "iovs @ map Some d" "Some False"] Cons.prems(1) by auto
  then show ?case using d by (intro exI[of _ "d @ ds"]) auto
qed simp

subsection \<open>Properties\<close>

text \<open>C16: A work request gets host vectors only for memory it may touch: when
  \<open>roce_mr_map_sge\<close> succeeds, every SGE names a live, valid region by its exact key, in the
  protection domain of the QP, that grants the access asked for. A region that is not a DMA region
  also has the SGE in its range, compared by 64-bit sums that wrap; the code checks no range for DMA
  regions, which only the GSI queue pair gets.\<close>

theorem roce_mr_map_sge_checks:
  assumes "res_wf (mr_res ctx)" "roce_mr_map_sge ctx pd qp_type sges loc access dma = Inr (Inr r)"
  shows "\<forall>sge \<in> set sges. \<exists>m. mr_map ctx (roce_key_to_index (sge_lkey sge)) = Some m \<and>
    (if loc then mr_lkey m else mr_rkey m) = sge_lkey sge \<and> mr_pd m = pd \<and>
    mr_state m = ROCE_MR_STATE_VALID \<and> access AND mr_access m = access \<and>
    (if mr_type m = ROCE_MR_DMA then qp_type = ROCE_QPT_GSI
     else mr_iova m \<le> sge_addr sge \<and> sge_addr sge + ucast (sge_length sge) \<le> mr_iova m + ucast (mr_length m))"
proof
  fix sge assume "sge \<in> set sges"
  then obtain m where "sge_permitted ctx pd loc access sge m" "mr_type m = ROCE_MR_DMA \<longrightarrow> qp_type = ROCE_QPT_GSI"
    using map_sge_loop_permitted[OF assms(1), of pd qp_type loc access dma sges ROCE_MR_MAX "[]" None r] assms(2)
    by (auto simp: roce_mr_map_sge_def)
  then show "\<exists>m. mr_map ctx (roce_key_to_index (sge_lkey sge)) = Some m \<and>
      (if loc then mr_lkey m else mr_rkey m) = sge_lkey sge \<and> mr_pd m = pd \<and>
      mr_state m = ROCE_MR_STATE_VALID \<and> access AND mr_access m = access \<and>
      (if mr_type m = ROCE_MR_DMA then qp_type = ROCE_QPT_GSI
       else mr_iova m \<le> sge_addr sge \<and> sge_addr sge + ucast (sge_length sge) \<le> mr_iova m + ucast (mr_length m))"
    unfolding sge_permitted_def by (intro exI[of _ m]) simp
qed

lemma sample_map:
  "roce_mr_map_sge small_base3 0 ROCE_QPT_RC sample_sges True 0 (\<lambda>_ _. None) =
     Inr (Inr ([Some \<lparr>iov_base = Some 0x10ff0, iov_len = 16\<rparr>, Some \<lparr>iov_base = Some 0x50000, iov_len = 16\<rparr>],
       Some False))"
  using small_base3_wf
  by (simp add: roce_mr_map_sge_def map_sge1_def sample_sges_def roce_get_mr_noref_def res_get_map mr_wf_def
      roce_key_to_index_def small_base3_mrs sample_mr_def mr_init_def roce_new_key_def Let_def
      roce_iov_copy_def iov_offset_def)

lemma roce_mr_map_sge_checks_witness:
  "\<exists>m. mr_map small_base3 1 = Some m \<and> mr_lkey m = 0x111 \<and> mr_pd m = 0 \<and> mr_state m = ROCE_MR_STATE_VALID"
proof -
  have "hd sample_sges \<in> set sample_sges" "sge_lkey (hd sample_sges) = 0x111" by (simp_all add: sample_sges_def)
  moreover have "res_wf (mr_res small_base3)" using small_base3_wf by (simp add: mr_wf_def)
  moreover have "roce_key_to_index 0x111 = 1" by (simp add: roce_key_to_index_def)
  ultimately show ?thesis using roce_mr_map_sge_checks[OF _ sample_map] by (metis (no_types, lifting))
qed

text \<open>C17: For regions given by their pages, the vectors describe exactly the bytes of the region that
  the SGEs name, in order: nothing before, between or after them.\<close>

theorem roce_mr_map_sge_bytes:
  assumes "res_wf (mr_res ctx)"
    "\<forall>sge \<in> set sges. sge_permitted ctx pd loc access sge (mr_of sge) \<and> mr_paged (mr_of sge) \<and>
      sge_length sge \<noteq> 0 \<and> unat (sge_addr sge) + unat (sge_length sge) < 2 ^ 64"
  shows "\<exists>ds dm. roce_mr_map_sge ctx pd qp_type sges loc access dma = Inr (Inr (map Some ds, dm)) \<and>
    iovs_bytes (load mm) ds =
      concat (map (\<lambda>s. mr_window mm (mr_of s) (sge_addr s) (unat (sge_length s))) sges)"
  using map_sge_loop_windows[OF assms(1) _ assms(2), of ROCE_MR_MAX qp_type dma "[]" None mm]
  by (auto simp: roce_mr_map_sge_def)

lemma sample_permitted: "sge_permitted small_base3 0 True 0 (hd sample_sges) sample_mr" "mr_paged sample_mr"
  by (simp_all add: sge_permitted_def sample_sges_def small_base3_mrs sample_mr_def mr_init_def
      roce_key_to_index_def roce_new_key_def mr_paged_def wf_iov_def)

lemma roce_mr_map_sge_bytes_witness:
  "\<exists>ds dm. roce_mr_map_sge small_base3 0 ROCE_QPT_RC sample_sges True 0 (\<lambda>_ _. None) =
       Inr (Inr (map Some ds, dm)) \<and>
     iovs_bytes (load ucast) ds = mr_window ucast sample_mr 0x2ff0 32"
  using roce_mr_map_sge_bytes[of small_base3 sample_sges 0 True 0 "\<lambda>_. sample_mr" ROCE_QPT_RC "\<lambda>_ _. None" ucast]
    small_base3_wf sample_permitted
  by (simp add: sample_sges_def mr_wf_def)

text \<open>C38: The range check wraps: for a region that lies below the top of the address space, an SGE that begins in or
  behind it and whose end passes the top, by no more than where the region ends, is accepted although it is
  not inside, and when the page index computed from its address is beyond the pages of the region,
  the array of pages is read out of its bounds, whatever else the request holds.\<close>

theorem roce_mr_map_sge_wraps:
  assumes "res_wf (mr_res ctx)" "mr_map ctx (roce_key_to_index (sge_lkey sge)) = Some m"
    "(if loc then mr_lkey m else mr_rkey m) = sge_lkey sge" "mr_pd m = pd" "mr_state m = ROCE_MR_STATE_VALID"
    "access AND mr_access m = access" "mr_type m \<noteq> ROCE_MR_DMA"
    "mr_iova m \<le> sge_addr sge" "unat (mr_iova m) + unat (mr_length m) < 2 ^ 64"
    "2 ^ 64 \<le> unat (sge_addr sge) + unat (sge_length sge)"
    "unat (sge_addr sge) + unat (sge_length sge) - 2 ^ 64 \<le> unat (mr_iova m) + unat (mr_length m)"
    "length (mr_iovs m) < (unat (sge_addr sge) div unat (mr_page_size m) - unat (mr_iova m) div unat (mr_page_size m)) mod 2 ^ 32"
  shows "unat (mr_iova m) + unat (mr_length m) < unat (sge_addr sge) + unat (sge_length sge) \<and>
    roce_mr_map_sge ctx pd qp_type (sge # sges) loc access dma = Inl Out_of_bounds"
proof -
  define p where "p = (ucast (mr_page_size m) :: u64)"
  have p: "unat p = unat (mr_page_size m)" by (simp add: p_def unat_ucast_u64)
  have iova: "unat (mr_iova m) \<le> unat (sge_addr sge)" using assms(8) by (simp add: word_le_nat_alt)
  have "unat (sge_addr sge + ucast (sge_length sge)) = unat (sge_addr sge) + unat (sge_length sge) - 2 ^ 64"
    using assms(10) unat_bounds(4)[of "sge_addr sge"] unat_bounds(3)[of "sge_length sge"]
    by (simp add: unat_word_ariths unat_ucast_u64 le_mod_geq)
  moreover have "unat (mr_iova m + ucast (mr_length m)) = unat (mr_iova m) + unat (mr_length m)"
    using assms(9) by (simp add: unat_word_ariths unat_ucast_u64)
  ultimately have "sge_addr sge + ucast (sge_length sge) \<le> mr_iova m + ucast (mr_length m)"
    using assms(11) by (simp add: word_le_nat_alt)
  moreover have "unat (ucast (sge_addr sge div p - mr_iova m div p) :: u32) =
      (unat (sge_addr sge) div unat (mr_page_size m) - unat (mr_iova m) div unat (mr_page_size m)) mod 2 ^ 32"
  proof -
    have "mr_iova m div p \<le> sge_addr sge div p" using iova by (simp add: word_le_nat_alt unat_div div_le_mono)
    then show ?thesis by (simp add: unat_ucast_u32 unat_sub unat_div p)
  qed
  ultimately have "map_sge1 ctx pd qp_type loc access dma sge ROCE_MR_MAX = Inl Out_of_bounds"
    using assms(2-8,12) by (simp add: map_sge1_def roce_get_mr_noref_def res_get_map[OF assms(1)] Let_def not_less flip: p_def)
  then show ?thesis using assms(9,10) by (simp add: roce_mr_map_sge_def)
qed

lemma roce_mr_map_sge_wraps_witness:
  "roce_mr_map_sge small_base3 0 ROCE_QPT_RC
     [\<lparr>sge_addr = 0xfffffffffffffff0, sge_length = 0x20, sge_lkey = 0x111\<rparr>] True 0 (\<lambda>_ _. None) =
   Inl Out_of_bounds"
  using roce_mr_map_sge_wraps[of small_base3 "\<lparr>sge_addr = 0xfffffffffffffff0, sge_length = 0x20, sge_lkey = 0x111\<rparr>" sample_mr
      True 0 0 ROCE_QPT_RC "[]" "\<lambda>_ _. None"] small_base3_wf
  by (simp add: mr_wf_def roce_key_to_index_def small_base3_mrs sample_mr_def mr_init_def roce_new_key_def)

end
