(* ===== verification/Rc_Send.thy ===== *)
theory Rc_Send
  imports Requester Mr_Map
begin

text \<open>
  What the requester puts into packets. A request of an RC queue pair is specified by its segments:
  the bytes its SGEs name, cut into pieces of one path MTU, with opcodes FIRST, MIDDLE, LAST or ONLY,
  consecutive PSNs and the extended headers where the protocol wants them. The packets built for a
  SEND or an RDMA WRITE are those segments.
\<close>

subsection \<open>The bytes of a list of SGEs\<close>

definition mr_at :: "'a roce_base_scheme \<Rightarrow> u32 \<Rightarrow> roce_mr" where
  "mr_at ctx lkey = the (mr_map ctx (roce_key_to_index lkey))"

definition mr_byte :: "mem \<Rightarrow> roce_mr \<Rightarrow> u64 \<Rightarrow> u8" where
  "mr_byte mm m a = (let page = unat (mr_page_size m) in
     iovs_bytes (load mm) (mr_iovs m) ! (unat a - unat (mr_iova m) div page * page))"

definition sge_data :: "mem \<Rightarrow> 'a roce_base_scheme \<Rightarrow> (u32 \<times> u64) list \<Rightarrow> u8 list" where
  "sge_data mm ctx bs = map (\<lambda>(lkey, a). mr_byte mm (mr_at ctx lkey) a) bs"

text \<open>An SGE that the library can use: its region is there, given by pages of the device's size, and
  grants the access; it is not empty and does not cross a multiple of 4 GiB.\<close>

definition sge_granted :: "'a roce_base_scheme \<Rightarrow> u32 \<Rightarrow> bool \<Rightarrow> u32 \<Rightarrow> nat \<Rightarrow> roce_sge \<Rightarrow> bool" where
  "sge_granted ctx pd loc access k s \<longleftrightarrow> (let m = mr_at ctx (sge_lkey s) in
     sge_permitted ctx pd loc access s m \<and> mr_paged m \<and> mr_page_size m = 2 ^ k \<and>
     sge_length s \<noteq> 0 \<and> sge_below_line (2 ^ k) s)"

abbreviation sge_ok :: "'a roce_base_scheme \<Rightarrow> u32 \<Rightarrow> nat \<Rightarrow> roce_sge \<Rightarrow> bool" where
  "sge_ok ctx pd k \<equiv> sge_granted ctx pd True 0 k"

definition sge_part_of :: "roce_sge \<Rightarrow> roce_sge \<Rightarrow> bool" where
  "sge_part_of d s \<longleftrightarrow> sge_lkey d = sge_lkey s \<and> sge_length d \<noteq> 0 \<and>
     (\<exists>j :: u32. sge_addr d = sge_addr s + ucast j \<and> unat j + unat (sge_length d) \<le> unat (sge_length s))"

lemma square_bound:
  assumes "a mod N + b < N" "a < N * (N :: nat)"
  shows "a + b < N * N"
proof -
  have "a div N \<le> N - 1" using assms(2) less_mult_imp_div_less[of a N N] by simp
  then have "a div N * N \<le> (N - 1) * N" by (rule mult_le_mono1)
  moreover have "(N - 1) * N + N = N * N" using assms(1) by (cases N) auto
  ultimately show ?thesis using assms(1) div_mult_mod_eq[of a N] by linarith
qed

lemma below_line_nowrap:
  assumes "sge_below_line (2 ^ k) s"
  shows "unat (sge_addr s) + unat (sge_length s) < 2 ^ 64"
proof -
  have "unat (sge_addr s) mod 2 ^ 32 + unat (sge_length s) < 2 ^ 32"
    using assms one_le_power[of "2 :: nat" k] unfolding sge_below_line_def by linarith
  then show ?thesis
    using square_bound[of "unat (sge_addr s)" "2 ^ 32"] unat_bounds(4)[of "sge_addr s"] by simp
qed

lemma part_addr:
  assumes "sge_below_line (2 ^ k) s" "sge_addr d = sge_addr s + ucast (j :: u32)"
    "unat j + unat (sge_length d) \<le> unat (sge_length s)"
  shows "unat (sge_addr d) = unat (sge_addr s) + unat j"
    "unat (sge_addr d + ucast (sge_length d)) = unat (sge_addr s) + unat j + unat (sge_length d)"
    "unat (sge_addr d) mod 2 ^ 32 = unat (sge_addr s) mod 2 ^ 32 + unat j"
proof -
  have nw: "unat (sge_addr s) + unat (sge_length s) < 2 ^ 64" using assms(1) by (rule below_line_nowrap)
  then show u: "unat (sge_addr d) = unat (sge_addr s) + unat j"
    using assms(2,3) by (simp add: unat_word_ariths unat_ucast_u64)
  then show "unat (sge_addr d + ucast (sge_length d)) = unat (sge_addr s) + unat j + unat (sge_length d)"
    using assms(3) nw by (simp add: unat_word_ariths unat_ucast_u64)
  have "unat (sge_addr s) mod 2 ^ 32 + unat j < 2 ^ 32"
    using assms(1,3) one_le_power[of "2 :: nat" k] unfolding sge_below_line_def by linarith
  then show "unat (sge_addr d) mod 2 ^ 32 = unat (sge_addr s) mod 2 ^ 32 + unat j"
    unfolding u by (metis mod_add_left_eq mod_less)
qed

lemma sge_ok_part:
  assumes "sge_granted ctx pd loc access k s" "sge_part_of d s"
  shows "sge_granted ctx pd loc access k d"
proof -
  obtain j where j: "sge_addr d = sge_addr s + ucast (j :: u32)"
    "unat j + unat (sge_length d) \<le> unat (sge_length s)"
    using assms(2) by (auto simp: sge_part_of_def)
  note s = assms(1)[unfolded sge_granted_def Let_def]
  have line: "sge_below_line (2 ^ k) s" using s by simp
  note a = part_addr[OF line j]
  have "unat (sge_addr s + ucast (sge_length s)) = unat (sge_addr s) + unat (sge_length s)"
    using below_line_nowrap[OF line] by (simp add: unat_word_ariths unat_ucast_u64)
  then have "sge_addr d + ucast (sge_length d) \<le> sge_addr s + ucast (sge_length s)"
    "sge_addr s \<le> sge_addr d"
    using a j(2) by (simp_all add: word_le_nat_alt)
  then have "sge_permitted ctx pd loc access d (mr_at ctx (sge_lkey s))"
    using s assms(2) unfolding sge_permitted_def sge_part_of_def by (auto intro: order_trans)
  moreover have "sge_below_line (2 ^ k) d"
    using line a(3) j(2) by (simp add: sge_below_line_def)
  ultimately show ?thesis using s assms(2) by (simp add: sge_granted_def sge_part_of_def)
qed

lemma mr_window_data:
  assumes "sge_granted ctx pd loc access k s"
  shows "mr_window mm (mr_at ctx (sge_lkey s)) (sge_addr s) (unat (sge_length s)) = sge_data mm ctx (sge_bytes s)"
proof -
  define m where "m = mr_at ctx (sge_lkey s)"
  define P where "P = unat (mr_page_size m)"
  define B where "B = unat (mr_iova m) div P * P"
  note s = assms[unfolded sge_granted_def Let_def, folded m_def]
  have paged: "\<forall>v \<in> set (mr_iovs m). wf_iov v \<and> iov_len v = P" using s by (simp add: mr_paged_def P_def)
  then have len: "length (iovs_bytes (load mm) (mr_iovs m)) = length (mr_iovs m) * P"
    using iovs_total_const[OF paged] length_iovs_bytes[of "mr_iovs m" mm] by simp
  have nw: "unat (sge_addr s) + unat (sge_length s) < 2 ^ 64" using s by (blast intro: below_line_nowrap)
  have ty: "mr_type m \<noteq> ROCE_MR_DMA" using s by (simp add: mr_paged_def)
  have lo: "B \<le> unat (sge_addr s)"
    using s ty le_trans[OF div_times_less_eq_dividend[of "unat (mr_iova m)" P]]
    by (simp add: sge_permitted_def word_le_nat_alt B_def)
  have "unat (sge_addr s + ucast (sge_length s)) \<le> unat (mr_iova m + ucast (mr_length m))"
    using s ty by (simp add: sge_permitted_def word_le_nat_alt)
  moreover have "unat (mr_iova m + ucast (mr_length m)) = unat (mr_iova m) + unat (mr_length m)"
    using s by (simp add: mr_paged_def unat_word_ariths unat_ucast_u64)
  moreover have "unat (sge_addr s + ucast (sge_length s)) = unat (sge_addr s) + unat (sge_length s)"
    using nw by (simp add: unat_word_ariths unat_ucast_u64)
  moreover have "unat (mr_iova m) = B + unat (mr_iova m) mod P" by (simp add: B_def)
  moreover have "mr_paged m" using s by simp
  then have "unat (mr_iova m) mod P + unat (mr_length m) \<le> length (mr_iovs m) * P"
    by (simp add: mr_paged_def P_def)
  ultimately have hi: "unat (sge_addr s) - B + unat (sge_length s) \<le> length (mr_iovs m) * P"
    using lo by linarith
  show ?thesis
  proof (rule nth_equalityI)
    fix i assume "i < length (mr_window mm (mr_at ctx (sge_lkey s)) (sge_addr s) (unat (sge_length s)))"
    then have i: "i < unat (sge_length s)" using hi len by (simp add: mr_window_def Let_def flip: m_def P_def B_def)
    then have "unat (sge_addr s + of_nat i) = unat (sge_addr s) + i"
      using nw by (simp add: unat_word_ariths unat_of_nat)
    then show "mr_window mm (mr_at ctx (sge_lkey s)) (sge_addr s) (unat (sge_length s)) ! i =
        sge_data mm ctx (sge_bytes s) ! i"
      using i hi len lo
      by (simp add: mr_window_def sge_data_def sge_bytes_def mr_byte_def Let_def flip: m_def P_def B_def)
  qed (use hi len in \<open>simp add: mr_window_def sge_data_def Let_def flip: m_def P_def B_def\<close>)
qed

subsection \<open>Slices\<close>

text \<open>A cursor strictly inside an element, or at the end.\<close>

definition sge_inside :: "roce_sge list \<Rightarrow> nat \<Rightarrow> u32 \<Rightarrow> bool" where
  "sge_inside sges i off \<longleftrightarrow> i \<le> length sges \<and>
     (if i < length sges then off < sge_length (sges ! i) else off = 0)"

lemma sge_inside_cursor: "sge_inside sges i off \<Longrightarrow> sge_cursor sges i off"
  by (auto simp: sge_inside_def sge_cursor_def)

lemma sge_advance_parts:
  assumes "sge_advance_loop srcs bytes i off dst = (c, i', off', dst')" "bytes \<noteq> 0"
    "\<forall>s \<in> set srcs. sge_length s \<noteq> 0" "sge_inside srcs 0 off"
  shows "\<exists>new k. dst' = dst @ new \<and> length new \<le> length srcs \<and> i' = i + k \<and> sge_inside srcs k off' \<and>
    (\<forall>d \<in> set new. \<exists>s \<in> set srcs. sge_part_of d s)"
  using assms
proof (induction srcs bytes i off dst rule: sge_advance_loop.induct)
  case (1 bytes i off dst)
  then show ?case by (auto simp: sge_inside_def)
next
  case (2 src srcs bytes i off dst)
  define r where "r = sge_length src - off"
  define d where "d = src\<lparr>sge_addr := sge_addr src + ucast off\<rparr>"
  have off: "off < sge_length src" using 2(5) by (simp add: sge_inside_def)
  then have r: "unat r = unat (sge_length src) - unat off" "unat off < unat (sge_length src)"
    by (simp_all add: r_def unat_sub word_less_nat_alt less_imp_le)
  then have r0: "r \<noteq> 0" using unat_eq_zero[of r] by auto
  have part: "sge_part_of (d\<lparr>sge_length := n\<rparr>) src" if "n \<noteq> 0" "n \<le> r" for n
    using that r by (auto simp: sge_part_of_def d_def word_le_nat_alt)
  note step = 2(2)[unfolded sge_advance_loop.simps(2) Let_def, folded r_def, folded d_def]
  consider "r > bytes" | "r = bytes" | "r < bytes" by (metis linorder_neqE)
  then show ?case
  proof cases
    case 1
    then have "off + bytes < sge_length src"
      using r by (simp add: word_less_nat_alt unat_word_ariths)
    then show ?thesis
      using 1 step part[of bytes] 2(3) by (intro exI[of _ "[d\<lparr>sge_length := bytes\<rparr>]"] exI[of _ 0])
        (auto simp: sge_inside_def)
  next
    case 2
    then show ?thesis
      using step part[of r] r0 \<open>\<forall>s \<in> set (src # srcs). sge_length s \<noteq> 0\<close>
      by (intro exI[of _ "[d\<lparr>sge_length := r\<rparr>]"] exI[of _ 1]) (auto simp: sge_inside_def word_neq_0_conv)
  next
    case 3
    then have ne: "\<not> r > bytes" "r \<noteq> bytes" by auto
    have rec: "sge_advance_loop srcs (bytes - r) (i + 1) 0 (dst @ [d\<lparr>sge_length := r\<rparr>]) = (c, i', off', dst')"
      using step ne by simp
    have "\<exists>new k. dst' = (dst @ [d\<lparr>sge_length := r\<rparr>]) @ new \<and> length new \<le> length srcs \<and>
        i' = i + 1 + k \<and> sge_inside srcs k off' \<and> (\<forall>d \<in> set new. \<exists>s \<in> set srcs. sge_part_of d s)"
      using 2(4) ne
      by (intro "2.IH"[OF r_def d_def ne rec]) (auto simp: sge_inside_def word_neq_0_conv)
    then obtain new k where "dst' = (dst @ [d\<lparr>sge_length := r\<rparr>]) @ new" "length new \<le> length srcs"
      "i' = i + 1 + k" "sge_inside srcs k off'" "\<forall>d \<in> set new. \<exists>s \<in> set srcs. sge_part_of d s" by blast
    then show ?thesis
      using part[OF r0] by (intro exI[of _ "d\<lparr>sge_length := r\<rparr> # new"] exI[of _ "Suc k"]) (auto simp: sge_inside_def)
  qed
qed

lemma sge_inside_drop:
  assumes "sge_inside (drop i sges) k off" "i \<le> length sges"
  shows "sge_inside sges (i + k) off"
  using assms by (auto simp: sge_inside_def split: if_splits)

lemma rc_slice_run:
  assumes "length sges \<le> 64" "\<forall>s \<in> set sges. sge_granted ctx pd loc access k s" "sge_inside sges i off" "bytes \<noteq> 0"
    "unat bytes \<le> length (sge_stream sges i off)"
  shows "\<exists>dst i' off'. rc_slice sges bytes (i, off) = Inr (dst, i', off') \<and>
    sges_bytes dst = take (unat bytes) (sge_stream sges i off) \<and>
    sge_stream sges i' off' = drop (unat bytes) (sge_stream sges i off) \<and> sge_inside sges i' off' \<and>
    (\<forall>d \<in> set dst. sge_granted ctx pd loc access k d)"
proof -
  obtain dst i' off' where a: "roce_sge_advance sges bytes i off = Inr (length dst, i', off', dst)"
    "sges_bytes dst = take (unat bytes) (sge_stream sges i off)"
    "sge_stream sges i' off' = drop (unat bytes) (sge_stream sges i off)"
    using sge_advance_run[OF sge_inside_cursor[OF assms(3)] assms(4,5)] by blast
  then have run: "sge_advance_loop (drop i sges) bytes i off [] = (length dst, i', off', dst)" "i < length sges"
    using assms(4) by (auto simp: roce_sge_advance_def bindR_eq_Inr)
  have "sge_inside (drop i sges) 0 off" using assms(3) run(2) by (auto simp: sge_inside_def)
  moreover have "\<forall>s \<in> set (drop i sges). sge_length s \<noteq> 0"
    using assms(2) by (auto simp: sge_granted_def Let_def dest: in_set_dropD)
  ultimately obtain j where p: "length dst \<le> length (drop i sges)" "i' = i + j"
    "sge_inside (drop i sges) j off'" "\<forall>d \<in> set dst. \<exists>s \<in> set (drop i sges). sge_part_of d s"
    using sge_advance_parts[OF run(1) assms(4)] by auto
  have "rc_slice sges bytes (i, off) = Inr (dst, i', off')"
    using a(1) p(1) assms(1) by (simp add: rc_slice_def)
  moreover have "\<forall>d \<in> set dst. sge_granted ctx pd loc access k d"
    using p(4) assms(2) by (meson in_set_dropD sge_ok_part)
  ultimately show ?thesis
    using a p(2) sge_inside_drop[OF p(3)] run(2) by auto
qed

subsection \<open>The payload vectors\<close>

lemma pages_spanned_le:
  assumes "0 < n" "0 < P"
  shows "pages_spanned P a n \<le> n"
proof -
  define q r where "q = a div P" and "r = a mod P"
  have "a + n + P - 1 = q * P + (r + (n + P - 1))"
    using assms(1) div_mult_mod_eq[of a P] unfolding q_def r_def by linarith
  then have "(a + n + P - 1) div P = q + (r + (n + P - 1)) div P"
    using assms(2) by (simp only: div_mult_self3 bot_nat_0.not_eq_extremum)
  then have "pages_spanned P a n = (r + (n + P - 1)) div P"
    by (simp add: pages_spanned_def q_def)
  also have "\<dots> \<le> (P + (P - 1) + (n - 1)) div P"
  proof (rule div_le_mono)
    have "r \<le> P - 1" using assms(2) mod_less_divisor[of P a] unfolding r_def by linarith
    then show "r + (n + P - 1) \<le> P + (P - 1) + (n - 1)" using assms by linarith
  qed
  also have "\<dots> \<le> (P + (P - 1)) div P + (n - 1)" using assms(2) by (rule div_grow)
  also have "(P + (P - 1)) div P = 1" using assms(2) by (intro div_nat_eqI) auto
  finally show ?thesis using assms(1) by simp
qed

definition span_pages :: "nat \<Rightarrow> roce_sge list \<Rightarrow> nat" where
  "span_pages k sges = (\<Sum>s\<leftarrow>sges. pages_spanned (2 ^ k) (unat (sge_addr s)) (unat (sge_length s)))"

lemma span_pages_le:
  "\<forall>s \<in> set sges. sge_granted ctx pd loc access k s \<Longrightarrow> span_pages k sges \<le> length (sges_bytes sges)"
proof (induction sges)
  case (Cons s sges)
  then have "pages_spanned (2 ^ k) (unat (sge_addr s)) (unat (sge_length s)) \<le> unat (sge_length s)"
    by (intro pages_spanned_le) (auto simp: sge_granted_def Let_def unat_gt_0)
  then show ?case using Cons by (simp add: span_pages_def)
qed (simp add: span_pages_def)

lemma sges_windows_data:
  "\<forall>s \<in> set sges. sge_granted ctx pd loc access k s \<Longrightarrow>
   concat (map (\<lambda>s. mr_window mm (mr_at ctx (sge_lkey s)) (sge_addr s) (unat (sge_length s))) sges) =
     sge_data mm ctx (sges_bytes sges)"
proof (induction sges)
  case (Cons s sges)
  then show ?case using mr_window_data[of ctx pd loc access k s mm] by (simp add: sge_data_def)
qed (simp add: sge_data_def)

lemma put_iovs_all: "length ds = length ws \<Longrightarrow> put_iovs (map Some ds) ws = map mem_iov ds"
  by (induction ds arbitrary: ws) (simp, case_tac ws, auto)

lemma built_slots:
  "length (np_iovs (built_pkt vnet op bth n ext pl pc)) = length pl + 8"
  "take 6 (np_iovs (built_pkt vnet op bth n ext pl pc)) =
     take 6 (np_iovs (built_pkt vnet op bth n ext pl' pc))"
  "drop 6 (np_iovs (built_pkt vnet op bth n ext pl pc)) =
     pl @ [pad_iov pc, \<lparr>iov_base = Some N_icrc, iov_len = 4\<rparr>]"
  by (simp_all add: built_pkt_def eval_nat_numeral)

lemma put_iovs_app: "length vs = length ws \<Longrightarrow> put_iovs vs (ws @ ts) = put_iovs vs ws @ ts"
  by (induction vs arbitrary: ws) (simp, case_tac ws, auto)

lemma built_put_payload:
  assumes "length ds = length pl"
  shows "(built_pkt vnet op bth n ext pl pc)\<lparr>np_iovs := take 6 (np_iovs (built_pkt vnet op bth n ext pl pc)) @
      put_iovs (map Some ds) (drop 6 (np_iovs (built_pkt vnet op bth n ext pl pc)))\<rparr> =
    built_pkt vnet op bth n ext (map mem_iov ds) pc"
  using assms by (simp add: built_slots(3) put_iovs_app put_iovs_all) (simp add: built_pkt_def eval_nat_numeral)

lemma map_sges_run:
  assumes wf: "res_wf (mr_res ctx)" and k: "k < 32" "page_size ctx = 2 ^ k"
    and ok: "\<forall>s \<in> set sges. sge_granted ctx pd loc access k s"
  shows "roce_sge_pages sges (page_size ctx) = Inr (of_nat (span_pages k sges))"
    "\<exists>ds. roce_mr_map_sge ctx pd ty sges loc access dma =
        Inr (Inr (map Some ds, if sges = [] then None else Some False)) \<and>
      (\<forall>v \<in> set ds. wf_iov v) \<and> length ds = span_pages k sges \<and>
      (\<forall>mm. iovs_bytes (load mm) ds = sge_data mm ctx (sges_bytes sges))"
proof -
  show "roce_sge_pages sges (page_size ctx) = Inr (of_nat (span_pages k sges))"
    using ok k sge_pages_spanned[of k sges]
    by (simp add: list_all_iff sge_granted_def Let_def span_pages_def)
  have perm: "\<forall>s \<in> set sges. sge_permitted ctx pd loc access s (mr_at ctx (sge_lkey s)) \<and>
      mr_paged (mr_at ctx (sge_lkey s)) \<and> sge_length s \<noteq> 0 \<and> unat (sge_addr s) + unat (sge_length s) < 2 ^ 64"
    using ok below_line_nowrap by (auto simp: sge_granted_def Let_def)
  have "\<exists>ds. roce_mr_map_sge ctx pd ty sges loc access dma =
        Inr (Inr (map Some ds, if sges = [] then None else Some False)) \<and>
      iovs_bytes (load mm) ds = sge_data mm ctx (sges_bytes sges) \<and> (\<forall>v \<in> set ds. wf_iov v) \<and>
      length ds = (\<Sum>s\<leftarrow>sges. pages_spanned (unat (mr_page_size (mr_at ctx (sge_lkey s)))) (unat (sge_addr s)) (unat (sge_length s)))"
    for mm
    using map_sge_loop_windows[OF wf _ perm, of ROCE_MR_MAX ty dma "[]" None mm]
    unfolding sges_windows_data[OF ok] by (simp add: roce_mr_map_sge_def)
  note each = this
  have page: "unat (2 ^ k :: u32) = 2 ^ k" using k(1) by (rule unat_exp_u32)
  have "map (\<lambda>s. pages_spanned (unat (mr_page_size (mr_at ctx (sge_lkey s)))) (unat (sge_addr s)) (unat (sge_length s))) sges
      = map (\<lambda>s. pages_spanned (2 ^ k) (unat (sge_addr s)) (unat (sge_length s))) sges"
    using ok page by (simp add: sge_granted_def Let_def)
  then have len: "(\<Sum>s\<leftarrow>sges. pages_spanned (unat (mr_page_size (mr_at ctx (sge_lkey s)))) (unat (sge_addr s)) (unat (sge_length s)))
      = span_pages k sges" unfolding span_pages_def by (simp only:)
  obtain ds where ds: "roce_mr_map_sge ctx pd ty sges loc access dma =
        Inr (Inr (map Some ds, if sges = [] then None else Some False))" "\<forall>v \<in> set ds. wf_iov v"
      "length ds = span_pages k sges"
    using each unfolding len by blast
  have "iovs_bytes (load mm) ds = sge_data mm ctx (sges_bytes sges)" for mm
    using each[of mm] ds(1) by (auto dest!: map_injective[OF _ injI])
  with ds show "\<exists>ds. roce_mr_map_sge ctx pd ty sges loc access dma =
        Inr (Inr (map Some ds, if sges = [] then None else Some False)) \<and>
      (\<forall>v \<in> set ds. wf_iov v) \<and> length ds = span_pages k sges \<and>
      (\<forall>mm. iovs_bytes (load mm) ds = sge_data mm ctx (sges_bytes sges))" by blast
qed

lemma map_payload_run:
  assumes wf: "res_wf (mr_res ctx)" and k: "k < 32" "page_size ctx = 2 ^ k"
    and ok: "\<forall>s \<in> set sges. sge_ok ctx (qp_pd qp) k s" and len: "length (sges_bytes sges) < 65536"
  shows "\<exists>pages ds dm. roce_sge_pages sges (page_size ctx) = Inr pages \<and>
    unat (ucast pages :: u16) = span_pages k sges \<and> (\<forall>v \<in> set ds. wf_iov v) \<and>
    iovs_bytes (load mm) ds = sge_data mm ctx (sges_bytes sges) \<and> (sges \<noteq> [] \<longrightarrow> dm = Some False) \<and>
    (\<forall>vnet op bth n ext pc. netpkt_map_payload env ctx qp sges pages
        (built_pkt vnet op bth n ext (replicate (span_pages k sges) null_iov) pc) =
      Inr (built_pkt vnet op bth n ext (map mem_iov ds) pc, map Some ds, dm))"
proof -
  define N where "N = span_pages k sges"
  have N: "N < 65536" using span_pages_le[OF ok] len by (simp add: N_def)
  have u: "unat (ucast (of_nat N :: u32) :: u16) = N"
    using N by (simp add: unsigned_ucast_eq unsigned_of_nat take_bit_nat_eq_self)
  note run = map_sges_run(1)[OF wf k ok, folded N_def]
    map_sges_run(2)[OF wf k ok, where ty = "qp_type qp" and dma = "env_dma env", folded N_def]
  obtain ds where ds: "roce_mr_map_sge ctx (qp_pd qp) (qp_type qp) sges True 0 (env_dma env) =
      Inr (Inr (map Some ds, if sges = [] then None else Some False))" "\<forall>v \<in> set ds. wf_iov v" "length ds = N"
    "iovs_bytes (load mm) ds = sge_data mm ctx (sges_bytes sges)" using run(2) by blast
  have "netpkt_map_payload env ctx qp sges (of_nat N)
      (built_pkt vnet op bth n ext (replicate N null_iov) pc) =
    Inr (built_pkt vnet op bth n ext (map mem_iov ds) pc, map Some ds, if sges = [] then None else Some False)"
    for vnet op bth n ext pc
    using ds(1,3) by (simp add: netpkt_map_payload_def built_slots(1) built_put_payload)
  then show ?thesis
    using run(1) u ds(2,4) by (intro exI[of _ "of_nat N"] exI[of _ ds] exI[of _ "if sges = [] then None else Some False"])
      (simp flip: N_def)
qed

text \<open>The specification of a packet: no vectors, no buffers.\<close>

record rc_segment =
  seg_wr :: "u64 option"
  seg_opcode :: u8
  seg_se :: bool
  seg_ack :: bool
  seg_psn :: u32
  seg_ext :: "u8 list"
  seg_data :: "u8 list"

definition pad_len :: "nat \<Rightarrow> nat" where
  "pad_len n = (4 - n mod 4) mod 4"

definition seg_view :: "roce_qp \<Rightarrow> rc_segment \<Rightarrow> bth_fields" where
  "seg_view qp s = \<lparr>v_qp_type = IB_OPCODE_RC, v_opcode = seg_opcode s, v_se = seg_se s, v_mig = False,
     v_padcnt = of_nat (pad_len (length (seg_data s))), v_tver = 0, v_pkey = ROCE_PKEY, v_fecn = False,
     v_becn = False, v_destqp = IB_BTH_DESTQP_MASK AND dest_qp_num (qp_attr qp), v_ack = seg_ack s,
     v_psn = IB_BTH_PSN_MASK AND seg_psn s\<rparr>"

text \<open>A packet that is a segment: what the transport keeps of it and the frame it goes out as.\<close>

definition pkt_of_seg :: "mem \<Rightarrow> roce_port \<Rightarrow> u8 list \<Rightarrow> roce_qp \<Rightarrow> roce_netpkt \<Rightarrow> rc_segment \<Rightarrow> bool" where
  "pkt_of_seg mm port sgid qp pkt s \<longleftrightarrow> np_opaque pkt = seg_wr s \<and>
     bth_view (np_bth pkt) = seg_view qp s \<and>
     roce_netpkt_xmit mm pkt = Net_xmit 0 (roce_wire (unat (vnet_hdr port)) (port_mac port) sgid
       (qp_ah_attr (qp_attr qp)) (np_bth pkt)
       (seg_ext s @ seg_data s @ replicate (pad_len (length (seg_data s))) 0))"

text \<open>What the builders put into the extended header of a new packet.\<close>

definition ext_adds :: "(roce_netpkt \<Rightarrow> roce_netpkt) \<Rightarrow> u8 list \<Rightarrow> bool" where
  "ext_adds f bs \<longleftrightarrow> length bs \<le> 20 \<and> (\<forall>vnet op bth pl pc.
     f (built_pkt vnet op bth 0 (replicate 20 0) pl pc) =
       built_pkt vnet op bth (length bs) (bs @ replicate (20 - length bs) 0) pl pc)"

lemma ext_adds_id: "ext_adds id []"
  by (simp add: ext_adds_def)

lemma ext_put_front:
  "length bs \<le> 20 \<Longrightarrow> ext_put 0 bs (replicate 20 0) = bs @ replicate (20 - length bs) 0"
  by (simp add: ext_put_def)

lemma ext_adds_immdt: "ext_adds (\<lambda>pkt. netpkt_set_iov 5 N_ext 4 (roce_netpkt_immdt v pkt)) (le_bytes 4 v)"
  by (simp add: ext_adds_def roce_netpkt_immdt_def ext_put_front ib_immdt_bytes_def ib_immdt_set_immdt_def)

lemma ext_adds_ieth: "ext_adds (\<lambda>pkt. netpkt_set_iov 5 N_ext 4 (roce_netpkt_ieth v pkt)) (le_bytes 4 (htobe32 v))"
  by (simp add: ext_adds_def roce_netpkt_ieth_def ext_put_front ib_ieth_bytes_def ib_ieth_set_rkey_def)

definition reth_wire :: "u64 \<Rightarrow> u32 \<Rightarrow> u32 \<Rightarrow> u8 list" where
  "reth_wire va rkey dmalen = le_bytes 8 (htobe64 va) @ le_bytes 4 (htobe32 rkey) @ le_bytes 4 (htobe32 dmalen)"

lemma length_reth_wire [simp]: "length (reth_wire va rkey dmalen) = 16"
  by (simp add: reth_wire_def)

lemma reth_put:
  "roce_netpkt_write_reth va rkey dmalen (built_pkt vnet op bth n ext pl pc) =
     built_pkt vnet op bth n (ext_put 0 (reth_wire va rkey dmalen) ext) pl pc"
  by (simp add: roce_netpkt_write_reth_def ib_reth_bytes_def ib_reth_set_va_def ib_reth_set_rkey_def
      ib_reth_set_dmalen_def reth_wire_def)

lemma ext_adds_reth: "ext_adds (\<lambda>pkt. netpkt_set_iov 5 N_ext 16 (roce_netpkt_write_reth va rkey dmalen pkt))
    (reth_wire va rkey dmalen)"
  by (simp add: ext_adds_def reth_put ext_put_front)

lemma ext_adds_reth_immdt: "ext_adds (\<lambda>pkt. netpkt_set_iov 5 N_ext 20 (roce_netpkt_write_immdt v
      (netpkt_set_iov 5 N_ext 16 (roce_netpkt_write_reth va rkey dmalen pkt))))
    (reth_wire va rkey dmalen @ le_bytes 4 v)"
proof -
  have "ext_put 16 (le_bytes 4 v) (ext_put 0 (reth_wire va rkey dmalen) (replicate 20 0)) =
      reth_wire va rkey dmalen @ le_bytes 4 v"
    by (simp add: ext_put_def)
  then show ?thesis
    by (simp add: ext_adds_def reth_put roce_netpkt_write_immdt_def ib_immdt_bytes_def ib_immdt_set_immdt_def)
qed

text \<open>The extended headers as the protocol wants them.\<close>

definition send_ext_bytes :: "send_wr_priv \<Rightarrow> bool \<Rightarrow> bool \<Rightarrow> u8 list" where
  "send_ext_bytes w invd imm = (if invd then le_bytes 4 (htobe32 (wr_imm_data (swr w)))
     else if imm then le_bytes 4 (wr_imm_data (swr w)) else [])"

definition write_ext_bytes :: "send_wr_priv \<Rightarrow> u32 \<Rightarrow> bool \<Rightarrow> u8 list" where
  "write_ext_bytes w len imm = reth_wire (wr_rdma_remote_addr (swr w)) (wr_rdma_rkey (swr w)) len @
     (if imm then le_bytes 4 (wr_imm_data (swr w)) else [])"

lemma send_ext_adds: "ext_adds (send_ext w invd imm) (send_ext_bytes w invd imm)"
  using ext_adds_immdt[of "wr_imm_data (swr w)"] ext_adds_ieth[of "wr_imm_data (swr w)"] ext_adds_id
  by (auto simp: send_ext_def[abs_def] send_ext_bytes_def id_def)

lemma write_ext_adds:
  "ext_adds (write_reth w len) (write_ext_bytes w len False)"
  "ext_adds (\<lambda>pkt. if imm then netpkt_set_iov ROCE_NETPKT_ETH N_ext (IB_RETH_SIZE + IB_IMMDT_SIZE)
              (roce_netpkt_write_immdt (wr_imm_data (swr w)) (write_reth w len pkt))
            else write_reth w len pkt) (write_ext_bytes w len imm)"
  using ext_adds_reth ext_adds_reth_immdt[of "wr_imm_data (swr w)"]
  by (simp_all add: write_reth_def[abs_def] write_ext_bytes_def)

subsection \<open>Finishing a packet\<close>

lemma pad_from: "(n :: nat) \<le> 4 * m \<Longrightarrow> (4 * m - n) mod 4 = (4 - n mod 4) mod 4"
proof -
  assume le: "n \<le> 4 * m"
  define q r where "q = n div 4" and "r = n mod 4"
  have n: "n = 4 * q + r" "r < 4" by (simp_all add: q_def r_def)
  show ?thesis
  proof (cases "r = 0")
    case True
    then have "4 * m - n = 4 * (m - q)" using n by simp
    then show ?thesis using True by (simp flip: r_def)
  next
    case False
    then have "4 * m - n = (4 - r) + 4 * (m - q - 1)" using n le by linarith
    then show ?thesis by (simp flip: r_def)
  qed
qed

lemma unat_pad_of: "unat (pad_of x) = pad_len (unat x)"
proof -
  have m: "(3 :: u32) = mask 2" by (simp add: mask_eq_exp_minus_1)
  have "unat (- x AND 3) = unat (- x) mod 4"
    unfolding m by (simp add: take_bit_eq_mod unat_mod flip: take_bit_eq_mask)
  also have "\<dots> = pad_len (unat x)"
  proof (cases "x = 0")
    case False
    have "(unat (- x) + unat x) mod 4294967296 = 0"
      using unat_word_ariths(1)[of "- x" x] by simp
    moreover have "0 < unat x" using False by (simp add: unat_gt_0)
    ultimately have "unat (- x) = 4 * 1073741824 - unat x"
      using unat_bounds(3)[of x] unat_bounds(3)[of "- x"] by (simp add: mod_if split: if_splits)
    then show ?thesis using unat_bounds(3)[of x] pad_from[of "unat x" 1073741824] by (simp add: pad_len_def)
  qed (simp add: pad_len_def)
  finally have u: "unat (- x AND 3) = pad_len (unat x)" .
  moreover have "pad_len (unat x) < 256" by (simp add: pad_len_def)
  ultimately show ?thesis by (simp add: pad_of_def unsigned_ucast_eq take_bit_nat_eq_self)
qed

lemma pad_len_view: "unat pc = pad_len n \<Longrightarrow> 3 AND pc = (of_nat (pad_len n) :: u8)"
proof -
  assume pc: "unat pc = pad_len n"
  have "unat pc mod 4 = unat pc" unfolding pc by (simp add: pad_len_def)
  moreover have m: "(3 :: u8) = mask 2" by (simp add: mask_eq_exp_minus_1)
  have "unat (3 AND pc) = unat pc mod 4"
    unfolding m and.commute[of _ pc]
    by (simp add: take_bit_eq_mod unat_mod flip: take_bit_eq_mask)
  ultimately have "3 AND pc = pc" by (simp add: word_unat_eq_iff)
  moreover have "of_nat (unat pc) = pc" by simp
  ultimately show ?thesis unfolding pc by simp
qed

lemma finish_run:
  assumes path: "path_ok ctx (qp_port_num (qp_attr qp)) ah port sgid"
    and ty: "roce_qp_type_to_ib (qp_type qp) = Inr t" and op: "unat opcode < 32"
    and bs: "length bs \<le> 20" and pl: "payload_iovs (env_mem env) pl ps" and pc: "unat padcnt = pad_len n"
    and small: "length ps < 65536"
  shows "\<exists>pkt. netpkt_finish env ctx qp ah opcode se padcnt destqp ack psn
      (built_pkt (unat (vnet_hdr port)) opaque ib_bth_zero (length bs) (bs @ replicate (20 - length bs) 0)
        pl (unat padcnt)) = Inr pkt \<and> np_opaque pkt = opaque \<and>
    bth_view (np_bth pkt) = \<lparr>v_qp_type = 7 AND t, v_opcode = opcode, v_se = se, v_mig = False,
      v_padcnt = of_nat (pad_len n), v_tver = 0, v_pkey = ROCE_PKEY, v_fecn = False, v_becn = False,
      v_destqp = IB_BTH_DESTQP_MASK AND destqp, v_ack = ack, v_psn = IB_BTH_PSN_MASK AND psn\<rparr> \<and>
    roce_netpkt_xmit (env_mem env) pkt = Net_xmit 0 (roce_wire (unat (vnet_hdr port)) (port_mac port) sgid ah
      (np_bth pkt) (bs @ ps @ replicate (pad_len n) 0))"
proof -
  obtain b where b: "roce_netpkt_set_bth ib_bth_zero (qp_type qp) opcode se padcnt destqp ack psn = Inr b"
    and view: "bth_view b = \<lparr>v_qp_type = 7 AND t, v_opcode = opcode, v_se = se, v_mig = False,
      v_padcnt = 3 AND padcnt, v_tver = 0, v_pkey = ROCE_PKEY, v_fecn = False, v_becn = False,
      v_destqp = IB_BTH_DESTQP_MASK AND destqp, v_ack = ack, v_psn = IB_BTH_PSN_MASK AND psn\<rparr>"
    using set_bth_run[OF ty op] by blast
  have "pad_len n \<le> 4" by (simp add: pad_len_def)
  then obtain pkt where "roce_netpkt_set_eth (env_mem env) (built_pkt (unat (vnet_hdr port)) opaque b
      (length bs) (bs @ replicate (20 - length bs) 0) pl (unat padcnt)) port ah = Inr pkt"
    "np_bth pkt = b" "np_opaque pkt = opaque"
    "roce_netpkt_xmit (env_mem env) pkt = Net_xmit 0 (roce_wire (unat (vnet_hdr port)) (port_mac port) sgid ah b
      (take (length bs) (bs @ replicate (20 - length bs) 0) @ ps @
        replicate (unat padcnt) 0))"
    using built_wire[OF path pl, of "length bs" "bs @ replicate (20 - length bs) 0" "unat padcnt"
        opaque b] pc bs small by auto
  then show ?thesis
    using b view path_okD(1)[OF path] pc pad_len_view[OF pc]
    by (intro exI[of _ pkt]) (simp add: netpkt_finish_def)
qed

subsection \<open>One packet of several\<close>

text \<open>What a request needs to go out: an RC queue pair, its path, and SGEs in regions it may read.\<close>

definition rc_ready ::
  "'a roce_base_scheme \<Rightarrow> roce_qp \<Rightarrow> roce_sge list \<Rightarrow> roce_port \<Rightarrow> u8 list \<Rightarrow> nat \<Rightarrow> bool" where
  "rc_ready ctx qp sges port sgid k \<longleftrightarrow>
     path_ok ctx (qp_port_num (qp_attr qp)) (qp_ah_attr (qp_attr qp)) port sgid \<and> qp_type qp = ROCE_QPT_RC \<and>
     res_wf (mr_res ctx) \<and> k < 32 \<and> page_size ctx = 2 ^ k \<and> (\<forall>s \<in> set sges. sge_ok ctx (qp_pd qp) k s) \<and>
     length sges \<le> 64"

lemma rc_readyD:
  assumes "rc_ready ctx qp sges port sgid k"
  shows "path_ok ctx (qp_port_num (qp_attr qp)) (qp_ah_attr (qp_attr qp)) port sgid"
    "qp_type qp = ROCE_QPT_RC" "res_wf (mr_res ctx)" "k < 32" "page_size ctx = 2 ^ k"
    "\<forall>s \<in> set sges. sge_ok ctx (qp_pd qp) k s" "length sges \<le> 64"
  using assms by (simp_all add: rc_ready_def)

lemma part_pkt_run:
  assumes ready: "rc_ready ctx qp sges port sgid k"
    and "sge_inside sges i off" "bytes \<noteq> 0"
    "unat bytes \<le> length (sge_stream sges i off)" "unat bytes < 65536"
    "ext_adds ext bs" "unat opcode < 32" "unat padcnt = pad_len (unat bytes)"
  shows "\<exists>pkt i' off'. rc_part_pkt env ctx qp sges opaque ext opcode se padcnt ack bytes psn (i, off) True =
      Inr (pkt, i', off') \<and>
    pkt_of_seg (env_mem env) port sgid qp pkt \<lparr>seg_wr = opaque, seg_opcode = opcode, seg_se = se, seg_ack = ack,
      seg_psn = psn, seg_ext = bs,
      seg_data = sge_data (env_mem env) ctx (take (unat bytes) (sge_stream sges i off))\<rparr> \<and>
    sge_stream sges i' off' = drop (unat bytes) (sge_stream sges i off) \<and>
    sge_inside sges i' off'"
proof -
  note path = rc_readyD(1)[OF ready] and rc = rc_readyD(2)[OF ready] and regions = rc_readyD(3)[OF ready]
    and pages = rc_readyD(4,5)[OF ready] and sges = rc_readyD(6)[OF ready] and few = rc_readyD(7)[OF ready]
  obtain dst i' off' where sl: "rc_slice sges bytes (i, off) = Inr (dst, i', off')"
    and dst: "sges_bytes dst = take (unat bytes) (sge_stream sges i off)"
    and rest: "sge_stream sges i' off' = drop (unat bytes) (sge_stream sges i off)"
      "sge_inside sges i' off'"
    and ok: "\<forall>d \<in> set dst. sge_ok ctx (qp_pd qp) k d"
    using rc_slice_run[OF few sges assms(2-4)] by blast
  have "length (sges_bytes dst) < 65536" using dst assms(5) by simp
  from map_payload_run[OF regions pages ok this, of "env_mem env" env]
  obtain pgs ds dm where p: "roce_sge_pages dst (page_size ctx) = Inr pgs"
    "unat (ucast pgs :: u16) = span_pages k dst" "\<forall>v \<in> set ds. wf_iov v"
    "iovs_bytes (load (env_mem env)) ds = sge_data (env_mem env) ctx (sges_bytes dst)"
    "\<And>vnet op bth n ext pc. netpkt_map_payload env ctx qp dst pgs
        (built_pkt vnet op bth n ext (replicate (span_pages k dst) null_iov) pc) =
      Inr (built_pkt vnet op bth n ext (map mem_iov ds) pc, map Some ds, dm)" by blast
  have bs: "length bs \<le> 20" "ext (built_pkt vnet op bth 0 (replicate 20 0) pl pc) =
      built_pkt vnet op bth (length bs) (bs @ replicate (20 - length bs) 0) pl pc" for vnet op bth pl pc
    using assms(6) by (simp_all add: ext_adds_def)
  have ty: "roce_qp_type_to_ib (qp_type qp) = Inr IB_OPCODE_RC" by (simp add: rc)
  have "length (iovs_bytes (load (env_mem env)) ds) < 65536" using p(4) dst assms(5) by (simp add: sge_data_def)
  from finish_run[OF path ty assms(7) bs(1) payload_mem[OF p(3)] assms(8) this]
  obtain pkt where f: "netpkt_finish env ctx qp (qp_ah_attr (qp_attr qp)) opcode se padcnt
      (dest_qp_num (qp_attr qp)) ack psn (built_pkt (unat (vnet_hdr port)) opaque ib_bth_zero (length bs)
        (bs @ replicate (20 - length bs) 0) (map mem_iov ds) (unat padcnt)) = Inr pkt"
    "np_opaque pkt = opaque" "bth_view (np_bth pkt) = \<lparr>v_qp_type = 7 AND IB_OPCODE_RC, v_opcode = opcode,
      v_se = se, v_mig = False, v_padcnt = of_nat (pad_len (unat bytes)), v_tver = 0, v_pkey = ROCE_PKEY,
      v_fecn = False, v_becn = False, v_destqp = IB_BTH_DESTQP_MASK AND dest_qp_num (qp_attr qp), v_ack = ack,
      v_psn = IB_BTH_PSN_MASK AND psn\<rparr>"
    "roce_netpkt_xmit (env_mem env) pkt = Net_xmit 0 (roce_wire (unat (vnet_hdr port)) (port_mac port) sgid
      (qp_ah_attr (qp_attr qp)) (np_bth pkt) (bs @ iovs_bytes (load (env_mem env)) ds @
        replicate (pad_len (unat bytes)) 0))" by blast
  have "rc_part_pkt env ctx qp sges opaque ext opcode se padcnt ack bytes psn (i, off) True =
      Inr (pkt, i', off')"
    by (simp add: rc_part_pkt_def sl p(1,2,5) alloc_built[OF path_okD(1)[OF path]] bs(2) f(1))
  moreover have "length (sge_data (env_mem env) ctx (sges_bytes dst)) = unat bytes"
    using assms(4) dst by (simp add: sge_data_def)
  ultimately show ?thesis
    using f(2-4) p(4) rest dst
    by (intro exI[of _ pkt] exI[of _ i'] exI[of _ off']) (simp add: pkt_of_seg_def seg_view_def)
qed

subsection \<open>The segments of a request\<close>

function chunks :: "nat \<Rightarrow> 'b list \<Rightarrow> 'b list list" where
  "chunks n xs = (if n = 0 \<or> length xs \<le> n then [xs] else take n xs # chunks n (drop n xs))"
  by pat_completeness auto
termination by (relation "measure (\<lambda>(n, xs). length xs)") auto

declare chunks.simps [simp del]

datatype seg_pos = Seg_only | Seg_first | Seg_middle | Seg_last

fun rc_opcode :: "roce_wr_opcode \<Rightarrow> seg_pos \<Rightarrow> u8" where
  "rc_opcode ROCE_WR_SEND Seg_only = IB_OPCODE_SEND_ONLY"
| "rc_opcode ROCE_WR_SEND Seg_last = IB_OPCODE_SEND_LAST"
| "rc_opcode ROCE_WR_SEND_WITH_IMM Seg_only = IB_OPCODE_SEND_ONLY_WITH_IMMEDIATE"
| "rc_opcode ROCE_WR_SEND_WITH_IMM Seg_last = IB_OPCODE_SEND_LAST_WITH_IMMEDIATE"
| "rc_opcode ROCE_WR_SEND_WITH_INV Seg_only = IB_OPCODE_SEND_ONLY_WITH_INVALIDATE"
| "rc_opcode ROCE_WR_SEND_WITH_INV Seg_last = IB_OPCODE_SEND_LAST_WITH_INVALIDATE"
| "rc_opcode ROCE_WR_RDMA_WRITE Seg_only = IB_OPCODE_RDMA_WRITE_ONLY"
| "rc_opcode ROCE_WR_RDMA_WRITE Seg_last = IB_OPCODE_RDMA_WRITE_LAST"
| "rc_opcode ROCE_WR_RDMA_WRITE_WITH_IMM Seg_only = IB_OPCODE_RDMA_WRITE_ONLY_WITH_IMMEDIATE"
| "rc_opcode ROCE_WR_RDMA_WRITE_WITH_IMM Seg_last = IB_OPCODE_RDMA_WRITE_LAST_WITH_IMMEDIATE"
| "rc_opcode ROCE_WR_RDMA_WRITE Seg_first = IB_OPCODE_RDMA_WRITE_FIRST"
| "rc_opcode ROCE_WR_RDMA_WRITE_WITH_IMM Seg_first = IB_OPCODE_RDMA_WRITE_FIRST"
| "rc_opcode ROCE_WR_RDMA_WRITE Seg_middle = IB_OPCODE_RDMA_WRITE_MIDDLE"
| "rc_opcode ROCE_WR_RDMA_WRITE_WITH_IMM Seg_middle = IB_OPCODE_RDMA_WRITE_MIDDLE"
| "rc_opcode opcode Seg_first = IB_OPCODE_SEND_FIRST"
| "rc_opcode opcode pos = IB_OPCODE_SEND_MIDDLE"

definition wr_is_write :: "roce_wr_opcode \<Rightarrow> bool" where
  "wr_is_write opcode \<longleftrightarrow> opcode = ROCE_WR_RDMA_WRITE \<or> opcode = ROCE_WR_RDMA_WRITE_WITH_IMM"

definition wr_has_imm :: "roce_wr_opcode \<Rightarrow> bool" where
  "wr_has_imm opcode \<longleftrightarrow> opcode = ROCE_WR_SEND_WITH_IMM \<or> opcode = ROCE_WR_RDMA_WRITE_WITH_IMM"

definition wr_has_inv :: "roce_wr_opcode \<Rightarrow> bool" where
  "wr_has_inv opcode \<longleftrightarrow> opcode = ROCE_WR_SEND_WITH_INV"

text \<open>The address of an RDMA WRITE goes out with its first packet, immediate data and a key to
  invalidate with the last one.\<close>

definition rc_ext :: "send_wr_priv \<Rightarrow> u32 \<Rightarrow> seg_pos \<Rightarrow> u8 list" where
  "rc_ext w len pos = (let opcode = wr_opcode (swr w) in
     (if wr_is_write opcode \<and> pos \<in> {Seg_only, Seg_first}
      then reth_wire (wr_rdma_remote_addr (swr w)) (wr_rdma_rkey (swr w)) len else []) @
     (if pos \<in> {Seg_only, Seg_last} then send_ext_bytes w (wr_has_inv opcode) (wr_has_imm opcode) else []))"

fun middle_segments :: "u8 \<Rightarrow> u32 \<Rightarrow> u8 list list \<Rightarrow> rc_segment list" where
  "middle_segments opcode psn [] = []"
| "middle_segments opcode psn (c # cs) =
     \<lparr>seg_wr = None, seg_opcode = opcode, seg_se = False, seg_ack = ack_now psn, seg_psn = psn, seg_ext = [],
       seg_data = c\<rparr> # middle_segments opcode (roce_qp_psn_inc psn) cs"

definition rc_segments :: "send_wr_priv \<Rightarrow> u16 \<Rightarrow> u32 \<Rightarrow> u8 list \<Rightarrow> rc_segment list" where
  "rc_segments w mtu psn data =
     (let cs = chunks (unat mtu) data; op = rc_opcode (wr_opcode (swr w)); len = of_nat (length data) in
      if length cs = 1 then
        [\<lparr>seg_wr = Some (swr_ptr w), seg_opcode = op Seg_only, seg_se = solicited w, seg_ack = True,
           seg_psn = psn, seg_ext = rc_ext w len Seg_only, seg_data = hd cs\<rparr>]
      else
        \<lparr>seg_wr = None, seg_opcode = op Seg_first, seg_se = False, seg_ack = ack_now psn, seg_psn = psn,
           seg_ext = rc_ext w len Seg_first, seg_data = hd cs\<rparr>
        # middle_segments (op Seg_middle) (roce_qp_psn_inc psn) (butlast (tl cs))
        @ [\<lparr>seg_wr = Some (swr_ptr w), seg_opcode = op Seg_last, seg_se = solicited w, seg_ack = True,
           seg_psn = (roce_qp_psn_inc ^^ (length cs - 1)) psn, seg_ext = rc_ext w len Seg_last,
           seg_data = last cs\<rparr>])"

lemma chunks_le: "length xs \<le> n \<Longrightarrow> chunks n xs = [xs]"
  by (simp add: chunks.simps)

lemma chunks_gt: "0 < n \<Longrightarrow> n < length xs \<Longrightarrow> chunks n xs = take n xs # chunks n (drop n xs)"
  by (simp add: chunks.simps)

lemma chunks_nonempty [simp]: "chunks n xs \<noteq> []"
  by (subst chunks.simps) simp

lemma length_chunks: "length xs = length ys \<Longrightarrow> length (chunks n xs) = length (chunks n ys)"
proof (induction n xs arbitrary: ys rule: chunks.induct)
  case (1 n xs)
  then show ?case by (subst (1 2) chunks.simps) simp
qed

lemma concat_chunks: "concat (chunks n xs) = xs"
  by (induction n xs rule: chunks.induct) (simp add: chunks.simps)

lemma sge_data_take: "sge_data mm ctx (take n bs) = take n (sge_data mm ctx bs)"
  by (simp add: sge_data_def take_map)

lemma sge_data_drop: "sge_data mm ctx (drop n bs) = drop n (sge_data mm ctx bs)"
  by (simp add: sge_data_def drop_map)

lemma length_sge_data [simp]: "length (sge_data mm ctx bs) = length bs"
  by (simp add: sge_data_def)

lemma unat_mtu: "unat (ucast (mtu :: u16) :: u32) = unat mtu"
  using unat_bounds(2)[of mtu] by (simp add: unsigned_ucast_eq take_bit_nat_eq_self)

lemma mtu_cmp:
  "payload > ucast (mtu :: u16) \<longleftrightarrow> unat mtu < unat (payload :: u32)"
  "payload \<le> ucast mtu \<longleftrightarrow> unat payload \<le> unat mtu"
  by (simp_all add: word_less_nat_alt word_le_nat_alt unat_mtu)

lemma middle_pkts_stop:
  assumes "unat payload \<le> unat mtu"
  shows "rc_middle_pkts room env ctx qp sges opcode mtu payload psn cur = Inr ([], room, payload, psn, cur)"
  using assms by (cases room) (simp_all add: mtu_cmp)

lemma middle_pkts_run:
  assumes "rc_ready ctx qp sges port sgid k" "sge_inside sges i off"
    "unat payload = length (sge_stream sges i off)" "payload \<noteq> 0" "mtu \<noteq> 0" "4 dvd unat mtu" "unat opcode < 32"
    "length (chunks (unat mtu) (sge_stream sges i off)) \<le> Suc room"
  shows "\<exists>pkts cs payload' i' off'. rc_middle_pkts room env ctx qp sges opcode mtu payload psn (i, off) =
      Inr (pkts, room - length cs, payload', (roce_qp_psn_inc ^^ length cs) psn, i', off') \<and>
    chunks (unat mtu) (sge_data (env_mem env) ctx (sge_stream sges i off)) =
      cs @ [sge_data (env_mem env) ctx (sge_stream sges i' off')] \<and>
    list_all2 (pkt_of_seg (env_mem env) port sgid qp) pkts (middle_segments opcode psn cs) \<and>
    unat payload' = length (sge_stream sges i' off') \<and> payload' \<noteq> 0 \<and> payload' \<le> ucast mtu \<and>
    sge_inside sges i' off' \<and>
    length (chunks (unat mtu) (sge_stream sges i off)) = Suc (length cs)"
  using assms(2-4,8)
proof (induction room arbitrary: payload psn i off)
  case 0
  have le: "unat payload \<le> unat mtu"
  proof (rule ccontr)
    assume "\<not> unat payload \<le> unat mtu"
    then show False using 0 assms(5) chunks_gt[of "unat mtu" "sge_stream sges i off"] by (simp add: unat_gt_0)
  qed
  show ?case
    by (intro exI[of _ "[]"] exI[of _ payload] exI[of _ i] exI[of _ off])
      (use 0 le middle_pkts_stop[OF le, of 0] in \<open>simp add: chunks_le mtu_cmp del: rc_middle_pkts.simps\<close>)
next
  case (Suc room)
  show ?case
  proof (cases "unat mtu < unat payload")
    case False
    then have le: "unat payload \<le> unat mtu" by simp
    show ?thesis
      by (intro exI[of _ "[]"] exI[of _ payload] exI[of _ i] exI[of _ off])
        (use Suc.prems le middle_pkts_stop[OF le, of "Suc room"] in
          \<open>simp add: chunks_le mtu_cmp del: rc_middle_pkts.simps\<close>)
  next
    case True
    have mtu: "ucast mtu \<noteq> (0 :: u32)" "unat (ucast mtu :: u32) \<le> length (sge_stream sges i off)"
      "unat (ucast mtu :: u32) < 65536" "unat (0 :: u8) = pad_len (unat (ucast mtu :: u32))"
    proof -
      have "unat mtu \<noteq> 0" using assms(5) by (simp add: unat_0_iff)
      then show "ucast mtu \<noteq> (0 :: u32)" using unat_mtu[of mtu] by (metis unat_0)
      show "unat (ucast mtu :: u32) \<le> length (sge_stream sges i off)"
        using True Suc.prems(2) unfolding unat_mtu by linarith
      show "unat (ucast mtu :: u32) < 65536" unfolding unat_mtu by (rule unat_bounds(2))
      show "unat (0 :: u8) = pad_len (unat (ucast mtu :: u32))"
        using assms(6) unfolding unat_mtu pad_len_def by auto
    qed
    obtain pkt i1 off1 where p: "rc_part_pkt env ctx qp sges None id opcode False 0 (ack_now psn) (ucast mtu) psn
        (i, off) True = Inr (pkt, i1, off1)"
      "pkt_of_seg (env_mem env) port sgid qp pkt \<lparr>seg_wr = None, seg_opcode = opcode, seg_se = False,
         seg_ack = ack_now psn, seg_psn = psn, seg_ext = [],
         seg_data = take (unat mtu) (sge_data (env_mem env) ctx (sge_stream sges i off))\<rparr>"
      "sge_stream sges i1 off1 = drop (unat mtu) (sge_stream sges i off)" "sge_inside sges i1 off1"
      using part_pkt_run[OF assms(1) Suc.prems(1) mtu(1-3) ext_adds_id assms(7) mtu(4), of env None False
          "ack_now psn" psn] unfolding unat_mtu sge_data_take by blast
    have le: "unat (payload - ucast mtu) = unat payload - unat mtu"
      using True by (subst unat_sub) (simp_all add: word_le_nat_alt unat_mtu)
    then have rest: "unat (payload - ucast mtu) = length (sge_stream sges i1 off1)" "payload - ucast mtu \<noteq> 0"
      using True Suc.prems(2) p(3) le by (simp_all add: unat_gt_0 flip: unat_0_iff)
    have mtu0: "0 < unat mtu" using assms(5) by (simp add: unat_gt_0)
    have cut: "chunks (unat mtu) (sge_stream sges i off) =
        take (unat mtu) (sge_stream sges i off) # chunks (unat mtu) (sge_stream sges i1 off1)"
      "chunks (unat mtu) (sge_data (env_mem env) ctx (sge_stream sges i off)) =
        take (unat mtu) (sge_data (env_mem env) ctx (sge_stream sges i off)) #
          chunks (unat mtu) (sge_data (env_mem env) ctx (sge_stream sges i1 off1))"
      using chunks_gt[OF mtu0, of "sge_stream sges i off"]
        chunks_gt[OF mtu0, of "sge_data (env_mem env) ctx (sge_stream sges i off)"] True Suc.prems(2) p(3)
      by (simp_all add: sge_data_drop)
    then have "length (chunks (unat mtu) (sge_stream sges i1 off1)) \<le> Suc room" using Suc.prems(4) by simp
    from Suc.IH[OF p(4) rest this, of "roce_qp_psn_inc psn"]
    obtain pkts cs payload' i' off' where r: "rc_middle_pkts room env ctx qp sges opcode mtu (payload - ucast mtu)
        (roce_qp_psn_inc psn) (i1, off1) =
        Inr (pkts, room - length cs, payload', (roce_qp_psn_inc ^^ length cs) (roce_qp_psn_inc psn), i', off')"
      "chunks (unat mtu) (sge_data (env_mem env) ctx (sge_stream sges i1 off1)) =
        cs @ [sge_data (env_mem env) ctx (sge_stream sges i' off')]"
      "list_all2 (pkt_of_seg (env_mem env) port sgid qp) pkts (middle_segments opcode (roce_qp_psn_inc psn) cs)"
      "unat payload' = length (sge_stream sges i' off')" "payload' \<noteq> 0" "payload' \<le> ucast mtu"
      "sge_inside sges i' off'" "length (chunks (unat mtu) (sge_stream sges i1 off1)) = Suc (length cs)" by blast
    have "rc_middle_pkts (Suc room) env ctx qp sges opcode mtu payload psn (i, off) = Inr (pkt # pkts,
        Suc room - length (take (unat mtu) (sge_data (env_mem env) ctx (sge_stream sges i off)) # cs), payload',
        (roce_qp_psn_inc ^^ length (take (unat mtu) (sge_data (env_mem env) ctx (sge_stream sges i off)) # cs)) psn,
        i', off')"
      using True by (simp add: mtu_cmp p(1) r(1) funpow_swap1)
    then show ?thesis using p(2) r cut by (intro exI) auto
  qed
qed

lemma stream_start:
  assumes "rc_ready ctx qp sges port sgid k"
  shows "sge_inside sges 0 0" "sge_stream sges 0 0 = sges_bytes sges"
  using rc_readyD(6)[OF assms] by (auto simp: sge_inside_def sge_stream_def sge_granted_def Let_def word_neq_0_conv)

lemma multi_pkts_run:
  assumes ready: "rc_ready ctx qp (wr_sge (swr w)) port sgid k"
    and payload: "unat payload = length (sges_bytes (wr_sge (swr w)))" "unat mtu < unat payload"
    and mtu: "mtu \<noteq> 0" "4 dvd unat mtu"
    and exts: "ext_adds ext1 bs1" "ext_adds ext2 bs2"
    and ops: "unat op1 < 32" "unat op2 < 32" "unat op3 < 32"
    and room: "length (chunks (unat mtu) (sges_bytes (wr_sge (swr w)))) \<le> room"
    and data: "data = sge_data (env_mem env) ctx (sges_bytes (wr_sge (swr w)))"
  shows "\<exists>pkts. rc_multi_pkts env ctx qp w ext1 op1 op2 ext2 op3 payload mtu room =
      Inr (qp\<lparr>pending_pkts := pending_pkts qp @ pkts,
        req_psn := (roce_qp_psn_inc ^^ length (chunks (unat mtu) data)) (req_psn qp)\<rparr>, w) \<and>
    list_all2 (pkt_of_seg (env_mem env) port sgid qp) pkts
      (\<lparr>seg_wr = None, seg_opcode = op1, seg_se = False, seg_ack = ack_now (req_psn qp), seg_psn = req_psn qp,
         seg_ext = bs1, seg_data = hd (chunks (unat mtu) data)\<rparr>
       # middle_segments op2 (roce_qp_psn_inc (req_psn qp)) (butlast (tl (chunks (unat mtu) data)))
       @ [\<lparr>seg_wr = Some (swr_ptr w), seg_opcode = op3, seg_se = solicited w, seg_ack = True,
           seg_psn = (roce_qp_psn_inc ^^ (length (chunks (unat mtu) data) - 1)) (req_psn qp), seg_ext = bs2,
           seg_data = last (chunks (unat mtu) data)\<rparr>])"
proof -
  define sges where "sges = wr_sge (swr w)"
  note ready = ready[folded sges_def] and payload = payload[folded sges_def] and room = room[folded sges_def]
    and data = data[folded sges_def] and start = stream_start[OF ready[folded sges_def]]
  have m0: "0 < unat mtu" using mtu(1) by (simp add: unat_gt_0)
  have m: "ucast mtu \<noteq> (0 :: u32)" using m0 unat_mtu[of mtu] by (metis unat_0 less_irrefl)
  have mlen: "unat (ucast mtu :: u32) \<le> length (sge_stream sges 0 0)" "unat (ucast mtu :: u32) < 65536"
    "unat (0 :: u8) = pad_len (unat (ucast mtu :: u32))"
    using payload mtu(2) start(2) unat_bounds(2)[of mtu] by (auto simp: unat_mtu pad_len_def)
  obtain pkt1 i1 off1 where p1: "rc_part_pkt env ctx qp sges None ext1 op1 False 0 (ack_now (req_psn qp))
      (ucast mtu) (req_psn qp) (0, 0) True = Inr (pkt1, i1, off1)"
    "pkt_of_seg (env_mem env) port sgid qp pkt1 \<lparr>seg_wr = None, seg_opcode = op1, seg_se = False,
       seg_ack = ack_now (req_psn qp), seg_psn = req_psn qp, seg_ext = bs1, seg_data = take (unat mtu) data\<rparr>"
    "sge_stream sges i1 off1 = drop (unat mtu) (sges_bytes sges)" "sge_inside sges i1 off1"
    using part_pkt_run[OF ready start(1) m mlen(1,2) exts(1) ops(1) mlen(3), of env None False
        "ack_now (req_psn qp)" "req_psn qp"]
    unfolding unat_mtu sge_data_take start(2) data by blast
  have le: "unat (payload - ucast mtu) = unat payload - unat mtu"
    using payload(2) by (subst unat_sub) (simp_all add: word_le_nat_alt unat_mtu)
  then have rest: "unat (payload - ucast mtu) = length (sge_stream sges i1 off1)" "payload - ucast mtu \<noteq> 0"
    using payload p1(3) by (simp_all add: unat_gt_0 flip: unat_0_iff)
  define cs1 where "cs1 = chunks (unat mtu) (sge_stream sges i1 off1)"
  have cut: "chunks (unat mtu) (sges_bytes sges) = take (unat mtu) (sges_bytes sges) # cs1"
    "chunks (unat mtu) data =
       take (unat mtu) data # chunks (unat mtu) (sge_data (env_mem env) ctx (sge_stream sges i1 off1))"
    using chunks_gt[OF m0, of "sges_bytes sges"] chunks_gt[OF m0, of data] payload p1(3)
    by (simp_all add: data sge_data_drop cs1_def)
  have room1: "length cs1 \<le> Suc (room - 1)" "room \<noteq> 0" using room cut(1) by auto
  obtain pkts cs payload' i' off' where mid: "rc_middle_pkts (room - 1) env ctx qp sges op2 mtu
      (payload - ucast mtu) (roce_qp_psn_inc (req_psn qp)) (i1, off1) =
      Inr (pkts, room - 1 - length cs, payload', (roce_qp_psn_inc ^^ length cs) (roce_qp_psn_inc (req_psn qp)), i', off')"
    "chunks (unat mtu) (sge_data (env_mem env) ctx (sge_stream sges i1 off1)) =
      cs @ [sge_data (env_mem env) ctx (sge_stream sges i' off')]"
    "list_all2 (pkt_of_seg (env_mem env) port sgid qp) pkts (middle_segments op2 (roce_qp_psn_inc (req_psn qp)) cs)"
    "unat payload' = length (sge_stream sges i' off')" "payload' \<noteq> 0" "payload' \<le> ucast mtu"
    "sge_inside sges i' off'" "length cs1 = Suc (length cs)"
    using middle_pkts_run[OF ready p1(4) rest mtu ops(2) room1(1)[unfolded cs1_def], of env
        "roce_qp_psn_inc (req_psn qp)"] unfolding cs1_def by blast
  have left: "room - 1 - length cs \<noteq> 0" using mid(8) room cut(1) by simp
  have "unat payload' < 65536" using mid(6) unat_bounds(2)[of mtu] by (simp add: mtu_cmp)
  from part_pkt_run[OF ready mid(7,5) eq_imp_le[OF mid(4)] this exts(2) ops(3) unat_pad_of, of env
      "Some (swr_ptr w)" "solicited w" True "(roce_qp_psn_inc ^^ length cs) (roce_qp_psn_inc (req_psn qp))"]
  obtain pkt3 cur3 where p3: "rc_part_pkt env ctx qp sges (Some (swr_ptr w)) ext2 op3 (solicited w)
      (pad_of payload') True payload' ((roce_qp_psn_inc ^^ length cs) (roce_qp_psn_inc (req_psn qp))) (i', off') True =
      Inr (pkt3, cur3)"
    "pkt_of_seg (env_mem env) port sgid qp pkt3 \<lparr>seg_wr = Some (swr_ptr w), seg_opcode = op3,
       seg_se = solicited w, seg_ack = True,
       seg_psn = (roce_qp_psn_inc ^^ length cs) (roce_qp_psn_inc (req_psn qp)), seg_ext = bs2,
       seg_data = sge_data (env_mem env) ctx (sge_stream sges i' off')\<rparr>"
    unfolding mid(4) take_all[OF order_refl] by blast
  have psn: "(roce_qp_psn_inc ^^ Suc (length cs)) x = (roce_qp_psn_inc ^^ length cs) (roce_qp_psn_inc x)" for x
    by (simp add: funpow_swap1)
  have "rc_multi_pkts env ctx qp w ext1 op1 op2 ext2 op3 payload mtu room =
      Inr (qp\<lparr>pending_pkts := pending_pkts qp @ (pkt1 # pkts @ [pkt3]),
        req_psn := (roce_qp_psn_inc ^^ length (chunks (unat mtu) data)) (req_psn qp)\<rparr>, w)"
    unfolding cut(2) mid(2)
    using p1(1) mid(1) p3(1) room1(2) left psn[of "req_psn qp"]
    by (simp add: rc_multi_pkts_def Let_def roce_netpkt_pending_multi_def flip: sges_def)
  moreover have "list_all2 (pkt_of_seg (env_mem env) port sgid qp) (pkts @ [pkt3])
      (middle_segments op2 (roce_qp_psn_inc (req_psn qp)) cs @ [\<lparr>seg_wr = Some (swr_ptr w), seg_opcode = op3,
       seg_se = solicited w, seg_ack = True, seg_psn = (roce_qp_psn_inc ^^ Suc (length cs)) (req_psn qp),
       seg_ext = bs2, seg_data = sge_data (env_mem env) ctx (sge_stream sges i' off')\<rparr>])"
    unfolding psn using mid(3) p3(2) by (intro list_all2_appendI) simp_all
  ultimately show ?thesis
    using p1(2) cut(2) mid(2) by (intro exI[of _ "pkt1 # pkts @ [pkt3]"]) simp
qed

subsection \<open>Whole requests\<close>

text \<open>The bytes a request carries: the SGE array itself when inline, else what its SGEs name.\<close>

definition wr_data :: "mem \<Rightarrow> 'a roce_base_scheme \<Rightarrow> send_wr_priv \<Rightarrow> u8 list" where
  "wr_data mm ctx w = (if roce_send_wr_is_inline w then concat (map roce_sge_bytes (wr_sge (swr w)))
     else sge_data mm ctx (sges_bytes (wr_sge (swr w))))"

text \<open>A request that can be sent on its queue pair.\<close>

definition wr_ready ::
  "'a roce_base_scheme \<Rightarrow> roce_qp \<Rightarrow> send_wr_priv \<Rightarrow> roce_port \<Rightarrow> u8 list \<Rightarrow> nat \<Rightarrow> bool" where
  "wr_ready ctx qp w port sgid k \<longleftrightarrow>
     wr_opcode (swr w) \<in> {ROCE_WR_SEND, ROCE_WR_SEND_WITH_IMM, ROCE_WR_SEND_WITH_INV, ROCE_WR_RDMA_WRITE,
       ROCE_WR_RDMA_WRITE_WITH_IMM} \<and>
     path_mtu (qp_attr qp) \<noteq> 0 \<and> 4 dvd unat (path_mtu (qp_attr qp)) \<and>
     (if roce_send_wr_is_inline w
      then rc_ready ctx qp [] port sgid k \<and> 16 * length (wr_sge (swr w)) \<le> unat (path_mtu (qp_attr qp)) \<and>
        16 * length (wr_sge (swr w)) \<le> unat (cap_max_inline_data (qp_cap (qp_attr qp)))
      else rc_ready ctx qp (wr_sge (swr w)) port sgid k \<and> wr_sge (swr w) \<noteq> [] \<and>
        length (sges_bytes (wr_sge (swr w))) < 2 ^ 32)"

lemma length_sge_array: "length (concat (map roce_sge_bytes sges)) = 16 * length sges"
  by (induction sges) (simp_all add: roce_sge_bytes_def)

lemma wr_payload_run:
  assumes "wr_ready ctx qp w port sgid k"
  shows "wr_payload w = Inr (of_nat (length (wr_data mm ctx w)))"
    "unat (of_nat (length (wr_data mm ctx w)) :: u32) = length (wr_data mm ctx w)"
proof -
  have "wr_payload w = Inr (of_nat (length (wr_data mm ctx w))) \<and> length (wr_data mm ctx w) < 2 ^ 32"
  proof (cases "roce_send_wr_is_inline w")
    case True
    then show ?thesis
      using assms unat_bounds(2)[of "path_mtu (qp_attr qp)"]
      by (simp add: wr_payload_def wr_data_def length_sge_array wr_ready_def)
  next
    case False
    then have r: "rc_ready ctx qp (wr_sge (swr w)) port sgid k" "wr_sge (swr w) \<noteq> []"
      "length (sges_bytes (wr_sge (swr w))) < 2 ^ 32"
      using assms by (simp_all add: wr_ready_def)
    then have "length (wr_sge (swr w)) < 2 ^ 32" using rc_readyD(7)[OF r(1)] by simp
    from sge_len_stream[OF this sge_inside_cursor[OF stream_start(1)[OF r(1)]]]
    show ?thesis
      using False r(2,3) stream_start(2)[OF r(1)] by (simp add: wr_payload_def wr_data_def)
  qed
  then show "wr_payload w = Inr (of_nat (length (wr_data mm ctx w)))"
    "unat (of_nat (length (wr_data mm ctx w)) :: u32) = length (wr_data mm ctx w)"
    by (simp_all add: unat_of_nat)
qed

lemma only_pkt_run:
  assumes ready: "wr_ready ctx qp w port sgid k" and data: "data = wr_data (env_mem env) ctx w"
    and fits: "length data \<le> unat (path_mtu (qp_attr qp))" and ext: "ext_adds ext bs"
    and op: "unat opcode < 32" and room: "room \<noteq> 0"
  shows "\<exists>pkt. rc_only_pkt env ctx qp w ext opcode (of_nat (length data)) room =
      Inr (qp\<lparr>pending_pkts := pending_pkts qp @ [pkt], req_psn := roce_qp_psn_inc (req_psn qp)\<rparr>, w) \<and>
    pkt_of_seg (env_mem env) port sgid qp pkt \<lparr>seg_wr = Some (swr_ptr w), seg_opcode = opcode,
      seg_se = solicited w, seg_ack = True, seg_psn = req_psn qp, seg_ext = bs, seg_data = data\<rparr>"
proof -
  have u: "unat (of_nat (length data) :: u32) = length data"
    using wr_payload_run(2)[OF ready] unfolding data .
  have pc: "unat (pad_of (of_nat (length data))) = pad_len (length data)" by (simp only: unat_pad_of u)
  obtain sges where r: "rc_ready ctx qp sges port sgid k"
    using ready by (auto simp: wr_ready_def split: if_splits)
  note path = rc_readyD(1)[OF r]
  have ty: "roce_qp_type_to_ib (qp_type qp) = Inr IB_OPCODE_RC" by (simp add: rc_readyD(2)[OF r])
  have bs: "length bs \<le> 20" "ext (built_pkt vnet op bth 0 (replicate 20 0) pl pc) =
      built_pkt vnet op bth (length bs) (bs @ replicate (20 - length bs) 0) pl pc" for vnet op bth pl pc
    using ext by (simp_all add: ext_adds_def)
  obtain pages n pl where pl: "payload_iovs (env_mem env) pl data"
    "(if roce_send_wr_is_inline w then Inr 1 else roce_sge_pages (wr_sge (swr w)) (page_size ctx)) = Inr pages"
    "unat (ucast pages :: u16) = n"
    "\<And>vnet op bth m ex pc. (if roce_send_wr_is_inline w
        then Inr (netpkt_set_iov 6 (N_inline (wr_sge (swr w))) (length data)
               (built_pkt vnet op bth m ex (replicate n null_iov) pc))
        else bindR (netpkt_map_payload env ctx qp (wr_sge (swr w)) pages
               (built_pkt vnet op bth m ex (replicate n null_iov) pc)) (\<lambda>(p, _). Inr p)) =
      Inr (built_pkt vnet op bth m ex pl pc)"
  proof (cases "roce_send_wr_is_inline w")
    case True
    then show ?thesis
      using that[of "[\<lparr>iov_base = Some (N_inline (wr_sge (swr w))), iov_len = 16 * length (wr_sge (swr w))\<rparr>]" 1 1]
        payload_inline[of "env_mem env" "wr_sge (swr w)"]
      by (simp add: data wr_data_def length_sge_array netpkt_set_iov_def built_pkt_def eval_nat_numeral)
  next
    case False
    then have rs: "rc_ready ctx qp (wr_sge (swr w)) port sgid k" using ready by (simp add: wr_ready_def)
    have "length (sges_bytes (wr_sge (swr w))) < 65536"
      using False fits unat_bounds(2)[of "path_mtu (qp_attr qp)"] by (simp add: data wr_data_def)
    from map_payload_run[OF rc_readyD(3-6)[OF rs] this, of "env_mem env" env]
    obtain pgs ds dm where p: "roce_sge_pages (wr_sge (swr w)) (page_size ctx) = Inr pgs"
      "unat (ucast pgs :: u16) = span_pages k (wr_sge (swr w))" "\<forall>v \<in> set ds. wf_iov v"
      "iovs_bytes (load (env_mem env)) ds = sge_data (env_mem env) ctx (sges_bytes (wr_sge (swr w)))"
      "\<And>vnet op bth n ext pc. netpkt_map_payload env ctx qp (wr_sge (swr w)) pgs
          (built_pkt vnet op bth n ext (replicate (span_pages k (wr_sge (swr w))) null_iov) pc) =
        Inr (built_pkt vnet op bth n ext (map mem_iov ds) pc, map Some ds, dm)" by blast
    show ?thesis
      using that[of "map mem_iov ds" pgs "span_pages k (wr_sge (swr w))"] False p(1,2,5) p(4)
        payload_mem[OF p(3), of "env_mem env"]
      by (simp add: data wr_data_def)
  qed
  have "length data < 65536" using fits unat_bounds(2)[of "path_mtu (qp_attr qp)"] by linarith
  from finish_run[OF path ty op bs(1) pl(1) pc this]
  obtain pkt where f: "netpkt_finish env ctx qp (qp_ah_attr (qp_attr qp)) opcode (solicited w)
      (pad_of (of_nat (length data))) (dest_qp_num (qp_attr qp)) True (req_psn qp)
      (built_pkt (unat (vnet_hdr port)) (Some (swr_ptr w)) ib_bth_zero (length bs)
        (bs @ replicate (20 - length bs) 0) pl (unat (pad_of (of_nat (length data))))) = Inr pkt"
    "np_opaque pkt = Some (swr_ptr w)" "bth_view (np_bth pkt) = \<lparr>v_qp_type = 7 AND IB_OPCODE_RC,
      v_opcode = opcode, v_se = solicited w, v_mig = False, v_padcnt = of_nat (pad_len (length data)), v_tver = 0,
      v_pkey = ROCE_PKEY, v_fecn = False, v_becn = False,
      v_destqp = IB_BTH_DESTQP_MASK AND dest_qp_num (qp_attr qp), v_ack = True,
      v_psn = IB_BTH_PSN_MASK AND req_psn qp\<rparr>"
    "roce_netpkt_xmit (env_mem env) pkt = Net_xmit 0 (roce_wire (unat (vnet_hdr port)) (port_mac port) sgid
      (qp_ah_attr (qp_attr qp)) (np_bth pkt) (bs @ data @ replicate (pad_len (length data)) 0))" by blast
  have alloc: "roce_netpkt_alloc ctx qp (Some (swr_ptr w)) (ucast pages) (pad_of (of_nat (length data))) (room \<noteq> 0) =
      Inr (Some (built_pkt (unat (vnet_hdr port)) (Some (swr_ptr w)) ib_bth_zero 0 (replicate 20 0)
        (replicate n null_iov) (unat (pad_of (of_nat (length data))))))"
    using room by (simp add: alloc_built[OF path_okD(1)[OF path]] pl(3))
  have "rc_only_pkt env ctx qp w ext opcode (of_nat (length data)) room =
      Inr (qp\<lparr>pending_pkts := pending_pkts qp @ [pkt], req_psn := roce_qp_psn_inc (req_psn qp)\<rparr>, w)"
    unfolding rc_only_pkt_def pl(2) bindR_Inr alloc option.case bs(2) u pl(4) f(1)
    by (simp add: roce_netpkt_pending_one_def)
  then show ?thesis using f(2-4) by (intro exI[of _ pkt]) (simp add: pkt_of_seg_def seg_view_def)
qed

lemma rc_opcode_small: "unat (rc_opcode opcode pos) < 32"
  by (cases "(opcode, pos)" rule: rc_opcode.cases) simp_all

lemma build_by_kind:
  assumes "wr_ready ctx qp w port sgid k"
  shows "roce_rc_build_pkts env ctx qp w room =
    (let op = wr_opcode (swr w) in
     if wr_is_write op then roce_rc_write_pkts env ctx qp w (wr_has_imm op) room
     else roce_rc_send_pkts env ctx qp w (wr_has_inv op) (wr_has_imm op) room)"
proof -
  have "\<not> (roce_send_wr_is_inline w \<and>
      16 * of_nat (length (wr_sge (swr w))) > cap_max_inline_data (qp_cap (qp_attr qp)))"
  proof
    assume a: "roce_send_wr_is_inline w \<and>
      16 * of_nat (length (wr_sge (swr w))) > cap_max_inline_data (qp_cap (qp_attr qp))"
    then have "unat (of_nat (16 * length (wr_sge (swr w))) :: u32) \<le> unat (cap_max_inline_data (qp_cap (qp_attr qp)))"
      using assms unat_bounds(3)[of "cap_max_inline_data (qp_cap (qp_attr qp))"]
      by (simp only: wr_ready_def if_True unat_of_nat) simp
    with a show False by (simp add: word_less_nat_alt)
  qed
  then show ?thesis
    using assms unfolding roce_rc_build_pkts_def
    by (simp only: if_False wr_ready_def)
      (auto simp: wr_is_write_def wr_has_imm_def wr_has_inv_def)
qed

lemma build_pkts_run:
  assumes ready: "wr_ready ctx qp w port sgid k" and data: "data = wr_data (env_mem env) ctx w"
    and mtu: "mtu = path_mtu (qp_attr qp)" and room: "length (chunks (unat mtu) data) \<le> room"
  shows "\<exists>pkts. roce_rc_build_pkts env ctx qp w room =
      Inr (qp\<lparr>pending_pkts := pending_pkts qp @ pkts,
        req_psn := (roce_qp_psn_inc ^^ length (chunks (unat mtu) data)) (req_psn qp)\<rparr>, w) \<and>
    list_all2 (pkt_of_seg (env_mem env) port sgid qp) pkts (rc_segments w mtu (req_psn qp) data)"
proof -
  define op where "op = wr_opcode (swr w)"
  define len where "len = (of_nat (length data) :: u32)"
  note run = wr_payload_run[OF ready, of "env_mem env", folded data, folded len_def]
  obtain sges where "rc_ready ctx qp sges port sgid k" using ready by (auto simp: wr_ready_def split: if_splits)
  then have m: "roce_get_mtu ctx qp = Inr mtu" by (simp add: roce_get_mtu_def rc_readyD(2) mtu)
  have not_both: "\<not> (wr_has_inv op \<and> wr_has_imm op)" by (auto simp: wr_has_inv_def wr_has_imm_def)
  have room0: "room \<noteq> 0" using room by (cases room) auto
  note build = build_by_kind[OF ready, of env room, folded op_def]
  have ops: "op \<in> {ROCE_WR_SEND, ROCE_WR_SEND_WITH_IMM, ROCE_WR_SEND_WITH_INV, ROCE_WR_RDMA_WRITE,
    ROCE_WR_RDMA_WRITE_WITH_IMM}" using ready by (simp add: wr_ready_def op_def)
  show ?thesis
  proof (cases "length data \<le> unat mtu")
    case True
    then have "len \<le> ucast mtu" by (simp add: mtu_cmp run(2))
    then have "roce_rc_build_pkts env ctx qp w room = rc_only_pkt env ctx qp w
        (if wr_is_write op then (\<lambda>pkt. if wr_has_imm op
             then netpkt_set_iov ROCE_NETPKT_ETH N_ext (IB_RETH_SIZE + IB_IMMDT_SIZE)
               (roce_netpkt_write_immdt (wr_imm_data (swr w)) (write_reth w len pkt))
             else write_reth w len pkt)
         else send_ext w (wr_has_inv op) (wr_has_imm op)) (rc_opcode op Seg_only) len room"
      using ops by (auto simp: build m run(1) roce_rc_write_pkts_def roce_rc_write_only_def
          roce_rc_send_pkts_def roce_rc_send_only_def wr_is_write_def wr_has_imm_def wr_has_inv_def)
    moreover have "ext_adds (if wr_is_write op then (\<lambda>pkt. if wr_has_imm op
             then netpkt_set_iov ROCE_NETPKT_ETH N_ext (IB_RETH_SIZE + IB_IMMDT_SIZE)
               (roce_netpkt_write_immdt (wr_imm_data (swr w)) (write_reth w len pkt))
             else write_reth w len pkt)
         else send_ext w (wr_has_inv op) (wr_has_imm op)) (rc_ext w len Seg_only)"
      using write_ext_adds(2)[of "wr_has_imm op" w len] send_ext_adds[of w "wr_has_inv op" "wr_has_imm op"]
      by (auto simp: rc_ext_def write_ext_bytes_def send_ext_bytes_def wr_is_write_def wr_has_inv_def
          simp flip: op_def)
    note only_pkt_run[OF ready data _ this rc_opcode_small room0]
    ultimately show ?thesis
      using True by (fastforce simp: chunks_le rc_segments_def mtu op_def len_def)
  next
    case False
    then have big: "\<not> len \<le> ucast mtu" "unat mtu < unat len" by (simp_all add: mtu_cmp run(2))
    have inl: "\<not> roce_send_wr_is_inline w"
      using False ready by (auto simp: data mtu wr_data_def wr_ready_def length_sge_array)
    then have r: "rc_ready ctx qp (wr_sge (swr w)) port sgid k" "mtu \<noteq> 0" "4 dvd unat mtu"
      "data = sge_data (env_mem env) ctx (sges_bytes (wr_sge (swr w)))"
      using ready by (simp_all add: wr_ready_def data wr_data_def mtu)
    have lens: "unat len = length (sges_bytes (wr_sge (swr w)))" using run(2) r(4) by simp
    have same: "length (chunks (unat mtu) (sges_bytes (wr_sge (swr w)))) = length (chunks (unat mtu) data)"
      unfolding r(4) by (rule length_chunks) simp
    have "roce_rc_build_pkts env ctx qp w room = rc_multi_pkts env ctx qp w
        (if wr_is_write op then write_reth w len else id) (rc_opcode op Seg_first) (rc_opcode op Seg_middle)
        (send_ext w (wr_has_inv op) (wr_has_imm op)) (rc_opcode op Seg_last) len mtu room"
      using ops big(1) inl by (auto simp: build m run(1) roce_rc_write_pkts_def roce_rc_write_multi_def
          roce_rc_send_pkts_def roce_rc_send_multi_def wr_is_write_def wr_has_imm_def wr_has_inv_def)
    moreover have "ext_adds (if wr_is_write op then write_reth w len else id) (rc_ext w len Seg_first)"
      using write_ext_adds(1)[of w len] ext_adds_id
      by (simp add: rc_ext_def write_ext_bytes_def flip: op_def)
    moreover have "ext_adds (send_ext w (wr_has_inv op) (wr_has_imm op)) (rc_ext w len Seg_last)"
      using send_ext_adds by (simp add: rc_ext_def flip: op_def)
    ultimately show ?thesis
      using multi_pkts_run[OF r(1) lens big(2) r(2,3) _ _ rc_opcode_small rc_opcode_small rc_opcode_small
          room[folded same] r(4)] False chunks_gt[of "unat mtu" data] r(2)
      by (simp add: rc_segments_def Let_def unat_gt_0 flip: op_def len_def)
  qed
qed

lemma segments_data: "concat (map seg_data (rc_segments w mtu psn data)) = data"
proof -
  have mid: "map seg_data (middle_segments op p cs) = cs" for op p cs
    by (induction cs arbitrary: p) simp_all
  define cs where "cs = chunks (unat mtu) data"
  have cs: "concat cs = data" "cs \<noteq> []" by (simp_all add: cs_def concat_chunks)
  then obtain c ds where c: "cs = c # ds" by (cases cs) auto
  show ?thesis
  proof (cases "ds = []")
    case False
    then have "c @ concat (butlast ds @ [last ds]) = data" using cs(1) c by simp
    then show ?thesis
      using False c by (simp add: rc_segments_def Let_def mid flip: cs_def)
  qed (use cs c in \<open>simp add: rc_segments_def Let_def flip: cs_def\<close>)
qed

lemma iterates_Suc: "map (\<lambda>i. (f ^^ i) x) [0..<Suc n] = x # map (\<lambda>i. (f ^^ i) (f x)) [0..<n]"
  by (induction n) (simp_all add: funpow_swap1)

lemma segments_psn:
  "map seg_psn (rc_segments w mtu psn data) =
     map (\<lambda>i. (roce_qp_psn_inc ^^ i) psn) [0..<length (chunks (unat mtu) data)]"
proof -
  have mid: "map seg_psn (middle_segments op p ds) = map (\<lambda>i. (roce_qp_psn_inc ^^ i) p) [0..<length ds]"
    for op p and ds :: "u8 list list"
    by (induction ds arbitrary: p) (simp_all only: middle_segments.simps list.size add_Suc_right add_0_right
        iterates_Suc, simp_all)
  obtain c ds where c: "chunks (unat mtu) data = c # ds" by (cases "chunks (unat mtu) data") auto
  show ?thesis
  proof (cases "ds = []")
    case False
    then obtain n where n: "length ds = Suc n" by (cases ds) auto
    have "map (\<lambda>i. (roce_qp_psn_inc ^^ i) psn) [0..<Suc (Suc n)] =
        psn # map (\<lambda>i. (roce_qp_psn_inc ^^ i) (roce_qp_psn_inc psn)) [0..<n] @ [(roce_qp_psn_inc ^^ Suc n) psn]"
      by (simp only: iterates_Suc[of roce_qp_psn_inc psn n, symmetric] upt_Suc[of 0 "Suc n"])
        (simp add: iterates_Suc del: upt_Suc)
    then show ?thesis using False c n by (simp add: rc_segments_def Let_def mid)
  qed (use c in \<open>simp add: rc_segments_def Let_def\<close>)
qed

subsection \<open>A sample request\<close>

text \<open>A SEND of 32 bytes over two pages, on a queue pair with a path MTU of 16 bytes.\<close>

definition send_base :: roce_base where
  "send_base = small_base3\<lparr>ports := [one_port]\<rparr>"

definition send_qp :: roce_qp where
  "send_qp = sample_qp\<lparr>qp_attr := (qp_attr sample_qp)\<lparr>path_mtu := 16\<rparr>\<rparr>"

definition send_wr :: send_wr_priv where
  "send_wr = \<lparr>swr_ptr = 0x7000, swr_error = 0, swr_mapped = True, swr = \<lparr>wr_id = 1, wr_opcode = ROCE_WR_SEND,
     send_flags = 0, wr_imm_data = 0, wr_u64_0 = 0, wr_u32_8 = 0, wr_sge = sample_sges\<rparr>\<rparr>"

definition send_env :: roce_env where
  "send_env = \<lparr>env_mem = ucast, env_dma = (\<lambda>_ _. None)\<rparr>"

lemma send_base_sel: "mr_res send_base = mr_res small_base3" "page_size send_base = 4096" "ports send_base = [one_port]"
  by (simp_all add: send_base_def small_base3_def small_base1_def small_base_def)

lemma send_wr_ready: "wr_ready send_base send_qp send_wr one_port (replicate 16 0) 12"
proof -
  have "mr_at send_base 0x111 = sample_mr"
    by (simp add: mr_at_def send_base_sel small_base3_mrs roce_key_to_index_def)
  moreover have "sge_permitted send_base 0 True 0 (hd sample_sges) sample_mr"
    using sample_permitted(1) by (simp add: sge_permitted_def send_base_sel)
  ultimately have "\<forall>s \<in> set sample_sges. sge_ok send_base 0 12 s"
    using sample_permitted(2) unfolding sge_granted_def Let_def
    by (simp add: sample_sges_def sge_below_line_def sample_mr_def mr_init_def)
  moreover have "path_ok send_base 1 sample_path one_port (replicate 16 0)"
    using sample_path_ok by (simp add: path_ok_def port_at_def send_base_sel port_base_def)
  moreover have "res_wf (mr_res send_base)" using small_base3_wf by (simp add: send_base_sel mr_wf_def)
  ultimately show ?thesis
    by (simp add: wr_ready_def rc_ready_def send_wr_def send_qp_def sample_qp_def send_base_sel sample_sges_def
        roce_send_wr_is_inline_def)
qed

subsection \<open>Properties\<close>

text \<open>C1: The packets of an RC request are its segments: for a SEND or an RDMA WRITE whose memory is
  registered, the builder appends to the pending packets exactly the packets of the specification, one
  for each path MTU of the data, in order: opcodes ONLY, or FIRST, MIDDLE and LAST, consecutive PSNs,
  acknowledge requests, extended headers, padding and the data itself, as frames with reference
  checksum and ICRC; and together they carry the data of the request, no byte lost or repeated.\<close>

theorem roce_rc_build_pkts_segments:
  assumes "wr_ready ctx qp w port sgid k" "data = wr_data (env_mem env) ctx w" "mtu = path_mtu (qp_attr qp)"
    "length (chunks (unat mtu) data) \<le> room"
  shows "\<exists>pkts segs. roce_rc_build_pkts env ctx qp w room =
      Inr (qp\<lparr>pending_pkts := pending_pkts qp @ pkts,
        req_psn := (roce_qp_psn_inc ^^ length segs) (req_psn qp)\<rparr>, w) \<and>
    segs = rc_segments w mtu (req_psn qp) data \<and>
    list_all2 (pkt_of_seg (env_mem env) port sgid qp) pkts segs \<and>
    map seg_psn segs = map (\<lambda>i. (roce_qp_psn_inc ^^ i) (req_psn qp)) [0..<length segs] \<and>
    concat (map seg_data segs) = data"
proof -
  define segs where "segs = rc_segments w mtu (req_psn qp) data"
  have psn: "map seg_psn segs = map (\<lambda>i. (roce_qp_psn_inc ^^ i) (req_psn qp)) [0..<length (chunks (unat mtu) data)]"
    unfolding segs_def by (rule segments_psn)
  then have "length segs = length (chunks (unat mtu) data)" by (metis length_map length_upt minus_nat.diff_0)
  then show ?thesis
    using build_pkts_run[OF assms] psn segments_data[of w mtu "req_psn qp" data] by (auto simp: segs_def)
qed

lemma roce_rc_build_pkts_segments_witness:
  "\<exists>p1 p2. roce_rc_build_pkts send_env send_base send_qp send_wr 2 =
      Inr (send_qp\<lparr>pending_pkts := [p1, p2], req_psn := 18\<rparr>, send_wr) \<and>
    ib_bth_get_opcode (np_bth p1) = IB_OPCODE_SEND_FIRST \<and> ib_bth_get_opcode (np_bth p2) = IB_OPCODE_SEND_LAST"
proof -
  define data where "data = wr_data (env_mem send_env) send_base send_wr"
  have len: "length data = 32"
    by (simp add: data_def wr_data_def roce_send_wr_is_inline_def send_wr_def sample_sges_def)
  then have cs: "chunks 16 data = [take 16 data, drop 16 data]"
    by (simp add: chunks_gt chunks_le)
  have mtu: "unat (path_mtu (qp_attr send_qp)) = 16" by (simp add: send_qp_def)
  have room: "length (chunks (unat (path_mtu (qp_attr send_qp))) data) \<le> 2" unfolding mtu cs by simp
  obtain pkts segs where r: "roce_rc_build_pkts send_env send_base send_qp send_wr 2 =
      Inr (send_qp\<lparr>pending_pkts := pending_pkts send_qp @ pkts,
        req_psn := (roce_qp_psn_inc ^^ length segs) (req_psn send_qp)\<rparr>, send_wr)"
    "segs = rc_segments send_wr (path_mtu (qp_attr send_qp)) (req_psn send_qp) data"
    "list_all2 (pkt_of_seg (env_mem send_env) one_port (replicate 16 0) send_qp) pkts segs"
    using roce_rc_build_pkts_segments[OF send_wr_ready data_def refl room] by blast
  have segs: "map seg_opcode segs = [IB_OPCODE_SEND_FIRST, IB_OPCODE_SEND_LAST]"
    unfolding r(2) rc_segments_def Let_def mtu cs by (simp add: send_wr_def)
  then obtain s1 s2 where s: "segs = [s1, s2]" "seg_opcode s1 = IB_OPCODE_SEND_FIRST" "seg_opcode s2 = IB_OPCODE_SEND_LAST"
    by (auto simp: map_eq_Cons_conv)
  then obtain p1 p2 where p: "pkts = [p1, p2]" "pkt_of_seg (env_mem send_env) one_port (replicate 16 0) send_qp p1 s1"
    "pkt_of_seg (env_mem send_env) one_port (replicate 16 0) send_qp p2 s2"
    using r(3) by (auto simp: list_all2_Cons2)
  have "roce_qp_psn_inc (roce_qp_psn_inc 16) = 18" by (simp add: roce_qp_psn_inc_def IB_BTH_PSN_MASK_def)
  then show ?thesis
    using r(1) s p by (intro exI[of _ p1] exI[of _ p2])
      (simp add: pkt_of_seg_def seg_view_def send_qp_def sample_qp_def flip: bth_view_sel)
qed

end
