(* ===== verification/Recv_Mem.thy ===== *)
theory Recv_Mem
  imports Responder Rc_Send
begin

text \<open>
  Where the responder writes. Vectors and SGEs are lists of addresses; copying a payload to vectors whose
  addresses are distinct and apart from the packet puts its bytes there, in order, and leaves every other
  byte of memory as it was.
\<close>

subsection \<open>Addresses\<close>

definition addrs :: "u64 \<Rightarrow> nat \<Rightarrow> u64 list" where
  "addrs p n = map (\<lambda>i. p + of_nat i) [0..<n]"

definition iovs_addrs :: "iov list \<Rightarrow> u64 list" where
  "iovs_addrs vs = concat (map (\<lambda>v. case iov_base v of None \<Rightarrow> [] | Some p \<Rightarrow> addrs p (iov_len v)) vs)"

lemma length_addrs [simp]: "length (addrs p n) = n"
  by (simp add: addrs_def)

lemma load_addrs: "load m p n = map m (addrs p n)"
  by (simp add: load_def addrs_def)

lemma iovs_addrs_simps [simp]:
  "iovs_addrs [] = []"
  "iovs_addrs (v # vs) = (case iov_base v of None \<Rightarrow> [] | Some p \<Rightarrow> addrs p (iov_len v)) @ iovs_addrs vs"
  by (simp_all add: iovs_addrs_def)

lemma iovs_bytes_addrs: "iovs_bytes (load m) vs = map m (iovs_addrs vs)"
  by (induction vs) (auto simp: iov_bytes_def load_addrs split: option.splits)

text \<open>What holds of the bytes for every memory holds of the addresses.\<close>

lemma map_all_eq:
  assumes "\<And>m :: u64 \<Rightarrow> u8. map m xs = map m ys"
  shows "xs = ys"
proof (rule nth_equalityI)
  show len: "length xs = length ys" using assms[of "\<lambda>_. 0"] by (metis length_map)
  fix i assume i: "i < length xs"
  have "map (\<lambda>a. if a = xs ! i then 1 else 0 :: u8) xs ! i = map (\<lambda>a. if a = xs ! i then 1 else 0) ys ! i"
    using assms by metis
  then show "xs ! i = ys ! i" using i len by (simp split: if_splits)
qed

lemma advance_loop_srcs_wf:
  assumes "iov_advance_loop bytes copied vs = (c, srcs, vs')" "\<forall>v \<in> set vs. wf_iov v"
  shows "\<forall>v \<in> set srcs. wf_iov v"
  using assms
proof (induction bytes copied vs arbitrary: c srcs vs' rule: iov_advance_loop.induct)
  case (1 bytes copied)
  then show ?case by simp
next
  case (2 bytes copied v vs)
  let ?t = "bytes - copied"
  have wf: "wf_iov v" "\<forall>v \<in> set vs. wf_iov v" using "2.prems"(2) by simp_all
  consider "iov_len v = 0" | "iov_len v > ?t" | "iov_len v = ?t" "iov_len v \<noteq> 0" | "iov_len v \<noteq> 0" "iov_len v < ?t"
    by linarith
  then show ?case
  proof cases
    case 1
    obtain c1 s1 v1 where r: "iov_advance_loop bytes copied vs = (c1, s1, v1)" by (metis prod_cases3)
    from "2.IH"(1)[OF 1 r wf(2)] show ?thesis using "2.prems"(1) 1 r by simp
  next
    case 4
    obtain c1 s1 v1 where r: "iov_advance_loop bytes (copied + iov_len v) vs = (c1, s1, v1)" by (metis prod_cases3)
    from "2.IH"(2)[OF _ refl _ _ r wf(2)] 4 show ?thesis using "2.prems"(1) 4 r wf(1) by (auto simp: Let_def)
  qed (use "2.prems"(1) wf(1) in \<open>auto simp: Let_def wf_iov_def\<close>)
qed

lemma advance_srcs_wf:
  "\<forall>v \<in> set vs. wf_iov v \<Longrightarrow> roce_iov_advance vs n = Inr (c, srcs, vs') \<Longrightarrow> \<forall>v \<in> set srcs. wf_iov v"
  by (auto simp: roce_iov_advance_def bindR_eq_Inr split: if_splits dest: advance_loop_srcs_wf)

lemma advance_addrs:
  assumes "\<forall>v \<in> set vs. wf_iov v" "vs \<noteq> []"
  shows "\<exists>srcs vs'. roce_iov_advance vs n = Inr (min n (iovs_total vs), srcs, vs') \<and>
    iovs_addrs srcs = take n (iovs_addrs vs) \<and> iovs_addrs vs' = drop n (iovs_addrs vs) \<and>
    (\<forall>v \<in> set vs'. wf_iov v) \<and> vs' \<noteq> [] \<and> (\<forall>v \<in> set srcs. wf_iov v)"
proof -
  obtain srcs vs' where r: "roce_iov_advance vs n = Inr (min n (iovs_total vs), srcs, vs')"
    "length vs' = length vs" "\<forall>v \<in> set vs'. wf_iov v"
    using roce_iov_advance_run[OF assms, of n "\<lambda>_. 0"] by blast
  have all: "map m (iovs_addrs srcs) = map m (take n (iovs_addrs vs)) \<and>
      map m (iovs_addrs vs') = map m (drop n (iovs_addrs vs))" for m :: mem
    using roce_iov_advance_run[OF assms, of n m] r(1)
    by (auto simp: gather_def iovs_bytes_addrs take_map drop_map)
  have "iovs_addrs srcs = take n (iovs_addrs vs)" by (rule map_all_eq) (rule all[THEN conjunct1])
  moreover have "iovs_addrs vs' = drop n (iovs_addrs vs)" by (rule map_all_eq) (rule all[THEN conjunct2])
  moreover have "\<forall>v \<in> set srcs. wf_iov v" using advance_srcs_wf[OF assms(1)] r(1) by blast
  ultimately show ?thesis using r assms(2) by (intro exI[of _ srcs] exI[of _ vs']) auto
qed

subsection \<open>Stores\<close>

lemma store_other: "a \<notin> set (addrs p (length bs)) \<Longrightarrow> store m p bs a = m a"
proof -
  assume a: "a \<notin> set (addrs p (length bs))"
  have "\<not> unat (a - p) < length bs"
  proof
    assume k: "unat (a - p) < length bs"
    then have "addrs p (length bs) ! unat (a - p) = a" by (simp add: addrs_def)
    then show False using a k nth_mem[of "unat (a - p)" "addrs p (length bs)"] by simp
  qed
  then show ?thesis by (simp add: store_def)
qed

lemma store_nil [simp]: "store m p [] = m"
  by (rule ext) (simp add: store_def)

lemma addrs_add: "addrs p (i + j) = addrs p i @ addrs (p + of_nat i) j"
  by (rule nth_equalityI) (auto simp: addrs_def nth_append algebra_simps of_nat_diff)

lemma addrs_distinct_bound:
  assumes "distinct (addrs p n)"
  shows "n \<le> 2 ^ 64"
proof -
  have "n = card (set (addrs p n))" using distinct_card[OF assms] by simp
  also have "\<dots> \<le> card (UNIV :: u64 set)" by (rule card_mono) auto
  finally show ?thesis by (simp add: card_word)
qed

lemma map_store:
  assumes "distinct (addrs p (length bs))"
  shows "map (store m p bs) (addrs p (length bs)) = bs"
proof (rule nth_equalityI)
  fix i assume "i < length (map (store m p bs) (addrs p (length bs)))"
  then have i: "i < length bs" by simp
  then have "unat (of_nat i :: u64) = i"
    using addrs_distinct_bound[OF assms] by (simp add: unat_of_nat)
  then show "map (store m p bs) (addrs p (length bs)) ! i = bs ! i"
    using i by (simp add: addrs_def store_def)
qed simp

lemma scatter_run:
  assumes "distinct (addrs p (length (iovs_addrs srcs)))" "\<forall>v \<in> set srcs. wf_iov v"
    "set (addrs p (length (iovs_addrs srcs))) \<inter> set (iovs_addrs srcs) = {}"
  shows "map (scatter m p srcs) (addrs p (length (iovs_addrs srcs))) = map m (iovs_addrs srcs) \<and>
    (\<forall>a. a \<notin> set (addrs p (length (iovs_addrs srcs))) \<longrightarrow> scatter m p srcs a = m a)"
  using assms
proof (induction srcs arbitrary: p m)
  case Nil
  then show ?case by (simp add: addrs_def)
next
  case (Cons v srcs)
  define bs where "bs = iov_bytes (load m) v"
  define as where "as = (case iov_base v of None \<Rightarrow> [] | Some p \<Rightarrow> addrs p (iov_len v))"
  define p2 where "p2 = p + of_nat (iov_len v)"
  define n where "n = length (iovs_addrs srcs)"
  have bs: "bs = map m as" by (simp add: bs_def as_def iov_bytes_def load_addrs split: option.splits)
  have len: "length as = iov_len v" "length bs = iov_len v"
    using Cons.prems(2) length_iov_bytes[of v m] by (auto simp: as_def bs_def wf_iov_def split: option.splits)
  have cut: "addrs p (length (iovs_addrs (v # srcs))) = addrs p (iov_len v) @ addrs p2 n"
    unfolding p2_def n_def addrs_add[symmetric] using len(1) by (simp add: as_def)
  have dist: "distinct (addrs p (iov_len v))" "distinct (addrs p2 n)"
    "set (addrs p (iov_len v)) \<inter> set (addrs p2 n) = {}"
    using Cons.prems(1) unfolding cut by simp_all
  have apart: "set (addrs p (iov_len v)) \<inter> set (iovs_addrs srcs) = {}" "set (addrs p2 n) \<inter> set (iovs_addrs srcs) = {}"
    using Cons.prems(3) unfolding cut by auto
  define m1 where "m1 = store m p bs"
  have IH: "map (scatter m1 p2 srcs) (addrs p2 n) = map m1 (iovs_addrs srcs)"
    "\<And>a. a \<notin> set (addrs p2 n) \<Longrightarrow> scatter m1 p2 srcs a = m1 a"
    using Cons.IH[of p2 m1] dist(2) apart(2) Cons.prems(2) by (auto simp: n_def)
  have m1: "map m1 (addrs p (iov_len v)) = bs" using map_store[of p bs m] dist(1) len(2) by (simp add: m1_def)
  have old: "m1 a = m a" if "a \<notin> set (addrs p (iov_len v))" for a
    using that store_other[of a p bs m] len(2) by (simp add: m1_def)
  have "map m1 (iovs_addrs srcs) = map m (iovs_addrs srcs)" using apart(1) old by auto
  moreover have "map (scatter m1 p2 srcs) (addrs p (iov_len v)) = map m1 (addrs p (iov_len v))"
    using dist(3) IH(2) by auto
  moreover have S: "scatter m p (v # srcs) = scatter m1 p2 srcs" by (simp add: m1_def bs_def p2_def)
  moreover have "iovs_addrs (v # srcs) = as @ iovs_addrs srcs" by (simp add: as_def)
  ultimately show ?case unfolding cut S using IH m1 old bs by simp
qed

subsection \<open>Copying a payload\<close>

lemma copy_payload_run:
  assumes "\<forall>v \<in> set vs. wf_iov v" "vs \<noteq> []" "\<forall>d \<in> set ds. wf_iov d" "distinct (iovs_addrs ds)"
    "set (iovs_addrs ds) \<inter> set (iovs_addrs vs) = {}" "length (iovs_addrs ds) \<le> length (iovs_addrs vs)"
  shows "\<exists>mm' vs'. copy_payload mm vs (map Some ds) = Inr (mm', vs') \<and>
    map mm' (iovs_addrs ds) = map mm (take (length (iovs_addrs ds)) (iovs_addrs vs)) \<and>
    (\<forall>a. a \<notin> set (iovs_addrs ds) \<longrightarrow> mm' a = mm a)"
  using assms
proof (induction ds arbitrary: mm vs)
  case (Cons d ds)
  define as where "as = (case iov_base d of None \<Rightarrow> [] | Some p \<Rightarrow> addrs p (iov_len d))"
  have len: "length as = iov_len d" using Cons.prems(3) by (auto simp: as_def wf_iov_def split: option.splits)
  have cut: "iovs_addrs (d # ds) = as @ iovs_addrs ds" by (simp add: as_def)
  obtain srcs vs1 where adv: "roce_iov_advance vs (iov_len d) = Inr (min (iov_len d) (iovs_total vs), srcs, vs1)"
    "iovs_addrs srcs = take (iov_len d) (iovs_addrs vs)" "iovs_addrs vs1 = drop (iov_len d) (iovs_addrs vs)"
    "\<forall>v \<in> set vs1. wf_iov v" "vs1 \<noteq> []" and wfs: "\<forall>v \<in> set srcs. wf_iov v" using advance_addrs[OF Cons.prems(1,2)] by blast
  have srcs: "length (iovs_addrs srcs) = length as"
    using Cons.prems(6) len unfolding cut adv(2) by simp
  define mm1 where "mm1 = (case iov_base d of None \<Rightarrow> mm | Some p \<Rightarrow> scatter mm p srcs)"
  have one: "map mm1 as = map mm (iovs_addrs srcs) \<and> (\<forall>a. a \<notin> set as \<longrightarrow> mm1 a = mm a)"
  proof (cases "iov_base d")
    case None
    then show ?thesis using srcs by (simp add: mm1_def as_def)
  next
    case (Some p)
    then have as: "as = addrs p (length (iovs_addrs srcs))" using srcs by (simp add: as_def)
    have "distinct as" "set as \<inter> set (iovs_addrs srcs) = {}"
      using Cons.prems(4,5) unfolding cut adv(2) by (auto dest: in_set_takeD)
    then show ?thesis using scatter_run[OF _ wfs, of p mm] Some by (simp add: as mm1_def)
  qed
  obtain mm' vs' where r: "copy_payload mm1 vs1 (map Some ds) = Inr (mm', vs')"
    "map mm' (iovs_addrs ds) = map mm1 (take (length (iovs_addrs ds)) (iovs_addrs vs1))"
    "\<forall>a. a \<notin> set (iovs_addrs ds) \<longrightarrow> mm' a = mm1 a"
  proof -
    have "set (iovs_addrs ds) \<inter> set (iovs_addrs vs1) = {}"
      using Cons.prems(5) unfolding cut adv(3) by (auto dest: in_set_dropD)
    moreover have "length (iovs_addrs ds) \<le> length (iovs_addrs vs1)" using Cons.prems(6) len unfolding cut adv(3) by simp
    ultimately show ?thesis using Cons.IH[OF adv(4,5), of mm1] Cons.prems(3,4) that unfolding cut by auto
  qed
  have "copy_payload mm vs (map Some (d # ds)) = Inr (mm', vs')"
    using adv(1) r(1) by (simp add: mm1_def)
  moreover have "map mm' as = map mm1 as" using r(3) Cons.prems(4) unfolding cut by auto
  moreover have "map mm1 (take (length (iovs_addrs ds)) (iovs_addrs vs1)) = map mm (take (length (iovs_addrs ds)) (iovs_addrs vs1))"
    using one Cons.prems(5) unfolding cut adv(3) by (auto dest!: in_set_takeD in_set_dropD)
  ultimately show ?case
    using r(2,3) one unfolding cut by (intro exI[of _ mm'] exI[of _ vs']) (simp add: adv(2,3) len take_add)
qed (simp add: addrs_def)

subsection \<open>The memory behind SGEs\<close>

text \<open>The host address of a byte of a region, and those of the bytes of SGEs.\<close>

definition mr_loc :: "roce_mr \<Rightarrow> u64 \<Rightarrow> u64" where
  "mr_loc m a = (let page = unat (mr_page_size m) in
     iovs_addrs (mr_iovs m) ! (unat a - unat (mr_iova m) div page * page))"

definition sge_locs :: "'a roce_base_scheme \<Rightarrow> (u32 \<times> u64) list \<Rightarrow> u64 list" where
  "sge_locs ctx bs = map (\<lambda>(lkey, a). mr_loc (mr_at ctx lkey) a) bs"

lemma sge_locs_simps [simp]:
  "sge_locs ctx [] = []" "sge_locs ctx (bs @ cs) = sge_locs ctx bs @ sge_locs ctx cs"
  "length (sge_locs ctx bs) = length bs"
  by (simp_all add: sge_locs_def)

lemma sge_locs_take: "sge_locs ctx (take n bs) = take n (sge_locs ctx bs)"
  by (simp add: sge_locs_def take_map)

lemma window_locs:
  assumes "sge_granted ctx pd loc access k s"
  shows "map mm (sge_locs ctx (sge_bytes s)) = sge_data mm ctx (sge_bytes s)"
proof -
  define m where "m = mr_at ctx (sge_lkey s)"
  define off where "off = unat (sge_addr s) - unat (mr_iova m) div unat (mr_page_size m) * unat (mr_page_size m)"
  define n where "n = unat (sge_length s)"
  define A where "A = iovs_addrs (mr_iovs m)"
  have w: "map mm (take n (drop off A)) = sge_data mm ctx (sge_bytes s)"
    using mr_window_data[OF assms, of mm]
    by (simp add: mr_window_def Let_def iovs_bytes_addrs take_map drop_map flip: m_def off_def n_def A_def)
  have len: "length (take n (drop off A)) = n"
    using arg_cong[OF w, of length] by (simp only: length_map) (simp add: sge_data_def n_def)
  have lo: "unat (mr_iova m) div unat (mr_page_size m) * unat (mr_page_size m) \<le> unat (sge_addr s)"
    using assms le_trans[OF div_times_less_eq_dividend[of "unat (mr_iova m)" "unat (mr_page_size m)"]]
    unfolding sge_granted_def Let_def by (simp add: sge_permitted_def mr_paged_def word_le_nat_alt flip: m_def)
  have nw: "unat (sge_addr s) + unat (sge_length s) < 2 ^ 64"
    using assms below_line_nowrap[of k s] by (simp add: sge_granted_def Let_def)
  have "take n (drop off A) = sge_locs ctx (sge_bytes s)"
  proof (rule nth_equalityI)
    fix i assume "i < length (take n (drop off A))"
    then have i: "i < n" "off + i < length A" by auto
    then have "unat (sge_addr s + of_nat i) = unat (sge_addr s) + i"
      using nw by (simp add: n_def unat_word_ariths unat_of_nat)
    then show "take n (drop off A) ! i = sge_locs ctx (sge_bytes s) ! i"
      using i lo by (simp add: sge_locs_def sge_bytes_def mr_loc_def Let_def off_def n_def A_def flip: m_def)
  qed (use len in \<open>simp add: n_def\<close>)
  then show ?thesis using w by simp
qed

lemma sges_locs:
  "\<forall>s \<in> set sges. sge_granted ctx pd loc access k s \<Longrightarrow>
   map mm (sge_locs ctx (sges_bytes sges)) = sge_data mm ctx (sges_bytes sges)"
proof (induction sges)
  case (Cons s sges)
  then show ?case using window_locs[of ctx pd loc access k s mm] by (simp add: sge_data_def)
qed (simp add: sge_data_def)

text \<open>A target in memory that a packet can be copied to: its bytes are apart from each other and from the
  packet, and it is in few enough pages.\<close>

definition locs_ok :: "u64 list \<Rightarrow> iov list \<Rightarrow> bool" where
  "locs_ok as vs \<longleftrightarrow> distinct as \<and> set as \<inter> set (iovs_addrs vs) = {}"

text \<open>Memory after \<open>bs\<close> was put at the addresses \<open>as\<close>.\<close>

definition put_at :: "mem \<Rightarrow> u64 list \<Rightarrow> u8 list \<Rightarrow> mem \<Rightarrow> bool" where
  "put_at mm as bs mm' \<longleftrightarrow> map mm' as = bs \<and> (\<forall>a. a \<notin> set as \<longrightarrow> mm' a = mm a)"

lemma map_and_copy_run:
  assumes wf: "res_wf (mr_res ctx)" and k: "k < 32" "page_size ctx = 2 ^ k"
    and ok: "\<forall>s \<in> set sges. sge_granted ctx (qp_pd qp) loc access k s" "span_pages k sges \<le> 128"
    and vs: "\<forall>v \<in> set vs. wf_iov v" "vs \<noteq> []"
    and locs: "locs_ok (sge_locs ctx (sges_bytes sges)) vs"
    and len: "length (sges_bytes sges) = length (iovs_bytes (load (env_mem env)) vs)"
  shows "\<exists>mm'. map_and_copy env ctx qp sges loc access vs = Inr (Inr (mm', [])) \<and>
    put_at (env_mem env) (sge_locs ctx (sges_bytes sges)) (iovs_bytes (load (env_mem env)) vs) mm'"
proof -
  obtain ds where ds: "roce_mr_map_sge ctx (qp_pd qp) (qp_type qp) sges loc access (env_dma env) =
      Inr (Inr (map Some ds, if sges = [] then None else Some False))" "\<forall>v \<in> set ds. wf_iov v"
    "length ds = span_pages k sges" "\<And>mm. iovs_bytes (load mm) ds = sge_data mm ctx (sges_bytes sges)"
    using map_sges_run(2)[OF wf k ok(1), of "qp_type qp" "env_dma env"] by blast
  have as: "iovs_addrs ds = sge_locs ctx (sges_bytes sges)"
    using ds(4) by (intro map_all_eq) (simp add: sges_locs[OF ok(1)] flip: iovs_bytes_addrs)
  have n: "length (iovs_addrs ds) = length (iovs_addrs vs)"
    using len unfolding as by (simp add: iovs_bytes_addrs)
  obtain mm' vs' where "copy_payload (env_mem env) vs (map Some ds) = Inr (mm', vs')"
    "map mm' (iovs_addrs ds) = map (env_mem env) (take (length (iovs_addrs ds)) (iovs_addrs vs))"
    "\<forall>a. a \<notin> set (iovs_addrs ds) \<longrightarrow> mm' a = env_mem env a"
    using copy_payload_run[OF vs ds(2), of "env_mem env"] locs n unfolding locs_ok_def as by auto
  then show ?thesis
    using ds(1,3) ok(2) map_sges_run(1)[OF wf k ok(1)] n
    unfolding map_and_copy_def as put_at_def iovs_bytes_addrs
    by (simp add: roce_mr_unmap_sge_def comp_def)
qed

end
