(* ===== verification/Rc_Window.thy ===== *)
theory Rc_Window
  imports Rc_Send
begin

text \<open>
  The window of the requester: over all posts and acknowledges, the packets of an RC queue pair have
  consecutive PSNs from the oldest unacknowledged one on, at most nine are outgoing, and the packets that
  end a request match the live requests of the send queue in order. An acknowledge takes exactly the
  packets up to its PSN, completes their requests in order, and lets the next packets out.
\<close>

subsection \<open>Distances of PSNs\<close>

lemma unat_psn_steps:
  assumes "unat p < psn_mod"
  shows "unat ((roce_qp_psn_inc ^^ i) p) = (unat p + i) mod psn_mod"
  using assms by (induction i) (simp_all add: unat_psn_inc mod_Suc_eq)

lemma psn_distI:
  assumes "(uint a - uint b) mod 16777216 = d mod 16777216" "- 8388608 \<le> d" "d < 8388608"
  shows "psn_dist a b = d"
proof (cases "0 \<le> d")
  case True
  then have "d mod 16777216 = d" using assms(3) by simp
  then show ?thesis using assms by (simp add: psn_dist_def Let_def)
next
  case False
  then have "(d + 16777216) mod 16777216 = d + 16777216"
    using assms(2) by (intro mod_pos_pos_trivial) auto
  then have "d mod 16777216 = d + 16777216" unfolding mod_add_self2 .
  then show ?thesis using assms False by (simp add: psn_dist_def Let_def)
qed

lemma psn_dist_bounds: "- 8388608 \<le> psn_dist a b" "psn_dist a b < 8388608"
proof -
  have "0 \<le> (uint a - uint b) mod 16777216" "(uint a - uint b) mod 16777216 < 16777216" by simp_all
  then show "- 8388608 \<le> psn_dist a b" "psn_dist a b < 8388608"
    by (auto simp: psn_dist_def Let_def)
qed

lemma psn_dist_mod: "psn_dist a b mod 16777216 = (uint a - uint b) mod 16777216"
  by (simp add: psn_dist_def Let_def mod_diff_left_eq minus_mod_self2)

lemma psn_dist_inc:
  assumes "psn_dist p q + 1 < 8388608"
  shows "psn_dist (roce_qp_psn_inc p) q = psn_dist p q + 1"
proof (rule psn_distI)
  have u: "uint (roce_qp_psn_inc p) = (uint p + 1) mod 16777216"
    unfolding uint_nat unat_psn_inc zmod_int by (simp add: add.commute)
  have "(uint (roce_qp_psn_inc p) - uint q) mod 16777216 = (uint p + 1 - uint q) mod 16777216"
    unfolding u by (rule mod_diff_left_eq)
  also have "uint p + 1 - uint q = (uint p - uint q) + 1" by simp
  also have "\<dots> mod 16777216 = ((uint p - uint q) mod 16777216 + 1) mod 16777216"
    by (rule mod_add_left_eq[symmetric])
  also have "\<dots> = (psn_dist p q + 1) mod 16777216" unfolding psn_dist_mod[symmetric] by (rule mod_add_left_eq)
  finally show "(uint (roce_qp_psn_inc p) - uint q) mod 16777216 = (psn_dist p q + 1) mod 16777216" .
qed (use assms psn_dist_bounds[of p q] in auto)

lemma psn_dist_steps:
  assumes "psn_dist p q + int i < 8388608"
  shows "psn_dist ((roce_qp_psn_inc ^^ i) p) q = psn_dist p q + int i"
  using assms by (induction i) (simp_all add: psn_dist_inc)

lemma window_end:
  assumes "unat p < psn_mod" "i < 9"
  shows "roce_compare_psn (p + ROCE_MAX_OUTGOING_PACKETS) ((roce_qp_psn_inc ^^ i) p) = 256 * (8 - int i)"
proof -
  have "psn_dist (p + 8) ((roce_qp_psn_inc ^^ i) p) = 8 - int i"
  proof (rule psn_distI)
    have "uint p < 16777216" unfolding uint_nat using assms(1) by linarith
    then have "uint (p + 8) = uint p + 8" using uint_ge_0[of p] by (simp add: uint_word_ariths)
    moreover have "uint ((roce_qp_psn_inc ^^ i) p) = (uint p + int i) mod 16777216"
      unfolding uint_nat unat_psn_steps[OF assms(1), of i] zmod_int by simp
    ultimately have "(uint (p + 8) - uint ((roce_qp_psn_inc ^^ i) p)) mod 16777216 =
        (uint p + 8 - (uint p + int i)) mod 16777216"
      by (simp only: mod_diff_right_eq)
    then show "(uint (p + 8) - uint ((roce_qp_psn_inc ^^ i) p)) mod 16777216 = (8 - int i) mod 16777216"
      by simp
  qed (use assms(2) in auto)
  then show ?thesis by (simp add: compare_psn_dist ROCE_MAX_OUTGOING_PACKETS_def)
qed

subsection \<open>The invariant\<close>

definition psns :: "u32 \<Rightarrow> nat \<Rightarrow> u32 list" where
  "psns p n = map (\<lambda>i. (roce_qp_psn_inc ^^ i) p) [0..<n]"

definition rc_pkts :: "roce_qp \<Rightarrow> roce_netpkt list" where
  "rc_pkts qp = outgoing_pkts qp @ pending_pkts qp"

text \<open>Requests that packets stand for: neither local nor failed.\<close>

definition wr_live :: "send_wr_priv \<Rightarrow> bool" where
  "wr_live w \<longleftrightarrow> \<not> roce_send_wr_is_local w \<and> swr_error w = 0"

definition pkt_wrs :: "roce_netpkt list \<Rightarrow> u64 list" where
  "pkt_wrs pkts = List.map_filter np_opaque pkts"

definition rc_wf :: "roce_qp \<Rightarrow> bool" where
  "rc_wf qp \<longleftrightarrow> unat (sq_psn (qp_attr qp)) < psn_mod \<and>
     map roce_netpkt_psn (rc_pkts qp) = psns (sq_psn (qp_attr qp)) (length (rc_pkts qp)) \<and>
     req_psn qp = (roce_qp_psn_inc ^^ length (rc_pkts qp)) (sq_psn (qp_attr qp)) \<and>
     length (outgoing_pkts qp) \<le> 9 \<and>
     pkt_wrs (rc_pkts qp) = map swr_ptr (filter wr_live (sq_wrs qp))"

lemma length_psns [simp]: "length (psns p n) = n"
  by (simp add: psns_def)

lemma psns_nth: "i < n \<Longrightarrow> psns p n ! i = (roce_qp_psn_inc ^^ i) p"
  by (simp add: psns_def)

lemma psns_Suc: "psns p (Suc n) = p # psns (roce_qp_psn_inc p) n"
  unfolding psns_def by (rule iterates_Suc)

lemma pkt_wrs_simps [simp]:
  "pkt_wrs [] = []" "pkt_wrs (ps @ qs) = pkt_wrs ps @ pkt_wrs qs"
  "pkt_wrs (p # ps) = (case np_opaque p of None \<Rightarrow> [] | Some x \<Rightarrow> [x]) @ pkt_wrs ps"
  by (simp_all add: pkt_wrs_def map_filter_def split: option.splits)

subsection \<open>Sending what the window allows\<close>

lemma xmit_loop_run:
  assumes "unat (sq_psn (qp_attr qp)) < psn_mod" "n < 9"
    "map roce_netpkt_psn pkts = map (\<lambda>i. (roce_qp_psn_inc ^^ (n + i)) (sq_psn (qp_attr qp))) [0..<length pkts]"
    "pending_pkts qp = pkts"
  shows "xmit_loop env qp pkts = (qp\<lparr>pending_pkts := drop (9 - n) pkts,
      outgoing_pkts := outgoing_pkts qp @ take (9 - n) pkts\<rparr>,
    map (roce_netpkt_xmit (env_mem env)) (take (9 - n) pkts))"
  using assms
proof (induction pkts arbitrary: qp n)
  case (Cons pkt pkts)
  have psn: "roce_netpkt_psn pkt = (roce_qp_psn_inc ^^ n) (sq_psn (qp_attr qp))"
    "map roce_netpkt_psn pkts = map (\<lambda>i. (roce_qp_psn_inc ^^ (Suc n + i)) (sq_psn (qp_attr qp))) [0..<length pkts]"
    using Cons.prems(3) by (simp_all add: upt_conv_Cons flip: map_Suc_upt del: upt_Suc funpow.simps)
  show ?case
  proof (cases "n = 8")
    case True
    then show ?thesis
      using window_end[OF Cons.prems(1), of 8] psn(1) Cons.prems(4)
      by (simp add: roce_netpkt_outgoing_def Let_def)
  next
    case False
    then have n: "n < 8" "Suc n < 9" "9 - n = Suc (9 - Suc n)" using Cons.prems(2) by simp_all
    have "xmit_loop env (roce_netpkt_outgoing qp pkt) pkts =
        ((roce_netpkt_outgoing qp pkt)\<lparr>pending_pkts := drop (9 - Suc n) pkts,
           outgoing_pkts := outgoing_pkts (roce_netpkt_outgoing qp pkt) @ take (9 - Suc n) pkts\<rparr>,
         map (roce_netpkt_xmit (env_mem env)) (take (9 - Suc n) pkts))"
      using Cons.prems(1,4) psn(2) n(2)
      by (intro Cons.IH) (simp_all add: roce_netpkt_outgoing_def)
    then show ?thesis
      using window_end[OF Cons.prems(1), of n] psn(1) n
      by (simp add: Let_def roce_netpkt_outgoing_def)
  qed
qed simp

text \<open>What the window lets out: as many pending packets as fit in nine outgoing ones.\<close>

definition let_out :: "roce_qp \<Rightarrow> roce_netpkt list" where
  "let_out qp = take (9 - length (outgoing_pkts qp)) (pending_pkts qp)"

definition window_moved :: "roce_qp \<Rightarrow> roce_qp" where
  "window_moved qp = qp\<lparr>outgoing_pkts := outgoing_pkts qp @ let_out qp,
     pending_pkts := drop (9 - length (outgoing_pkts qp)) (pending_pkts qp)\<rparr>"

lemma moved_pkts: "rc_pkts (window_moved qp) = rc_pkts qp"
  by (simp add: rc_pkts_def window_moved_def let_out_def)

lemma moved_wf: "rc_wf qp \<Longrightarrow> rc_wf (window_moved qp)"
  using moved_pkts[of qp] unfolding rc_wf_def by (auto simp: window_moved_def let_out_def min_def)

lemma rc_wfD:
  assumes "rc_wf qp"
  shows "unat (sq_psn (qp_attr qp)) < psn_mod" "length (outgoing_pkts qp) \<le> 9"
    "i < length (outgoing_pkts qp) \<Longrightarrow> roce_netpkt_psn (outgoing_pkts qp ! i) = (roce_qp_psn_inc ^^ i) (sq_psn (qp_attr qp))"
    "i < length (pending_pkts qp) \<Longrightarrow> roce_netpkt_psn (pending_pkts qp ! i) =
       (roce_qp_psn_inc ^^ (length (outgoing_pkts qp) + i)) (sq_psn (qp_attr qp))"
proof -
  have m: "map roce_netpkt_psn (rc_pkts qp) ! i = psns (sq_psn (qp_attr qp)) (length (rc_pkts qp)) ! i" for i
    using assms by (simp add: rc_wf_def)
  show "i < length (outgoing_pkts qp) \<Longrightarrow> roce_netpkt_psn (outgoing_pkts qp ! i) = (roce_qp_psn_inc ^^ i) (sq_psn (qp_attr qp))"
    using m[of i] by (simp add: rc_pkts_def psns_nth nth_append)
  show "i < length (pending_pkts qp) \<Longrightarrow> roce_netpkt_psn (pending_pkts qp ! i) =
       (roce_qp_psn_inc ^^ (length (outgoing_pkts qp) + i)) (sq_psn (qp_attr qp))"
    using m[of "length (outgoing_pkts qp) + i"] by (simp add: rc_pkts_def psns_nth nth_append)
qed (use assms in \<open>simp_all add: rc_wf_def\<close>)

lemma xmit_loop_window:
  assumes "rc_wf qp" "length (outgoing_pkts qp) < 9"
  shows "xmit_loop env qp (pending_pkts qp) =
    (window_moved qp, map (roce_netpkt_xmit (env_mem env)) (let_out qp))"
proof -
  have "map roce_netpkt_psn (pending_pkts qp) =
      map (\<lambda>i. (roce_qp_psn_inc ^^ (length (outgoing_pkts qp) + i)) (sq_psn (qp_attr qp))) [0..<length (pending_pkts qp)]"
    by (rule nth_equalityI) (simp_all add: rc_wfD(4)[OF assms(1)])
  from xmit_loop_run[OF rc_wfD(1)[OF assms(1)] assms(2) this refl, of env]
  show ?thesis by (simp add: window_moved_def let_out_def)
qed

text \<open>The assertion on plain integers holds when the PSNs in use do not wrap.\<close>

lemma xmit_pkts_run:
  assumes wf: "rc_wf qp"
  shows "roce_xmit_pkts env qp =
    (if outgoing_pkts qp = [] \<or> (sq_psn (qp_attr qp) \<le> roce_netpkt_psn (last (outgoing_pkts qp)) \<and>
         roce_netpkt_psn (last (outgoing_pkts qp)) \<le> req_psn qp)
     then Inr (window_moved qp, map (roce_netpkt_xmit (env_mem env)) (let_out qp)) else Inl Assert_failed)"
proof (cases "outgoing_pkts qp = []")
  case True
  then show ?thesis using xmit_loop_window[OF wf] by (simp add: roce_xmit_pkts_def)
next
  case False
  define n where "n = length (outgoing_pkts qp) - 1"
  have n: "length (outgoing_pkts qp) = Suc n" "n < 9"
    using False rc_wfD(2)[OF wf] by (simp_all add: n_def)
  have last: "roce_netpkt_psn (last (outgoing_pkts qp)) = (roce_qp_psn_inc ^^ n) (sq_psn (qp_attr qp))"
    using False rc_wfD(3)[OF wf, of n] n by (simp add: last_conv_nth)
  note diff = window_end[OF rc_wfD(1)[OF wf] n(2), folded last]
  show ?thesis
  proof (cases "n = 8")
    case True
    then have "window_moved qp = qp" "let_out qp = []" using n by (simp_all add: window_moved_def let_out_def)
    then show ?thesis using False True diff by (auto simp: roce_xmit_pkts_def Let_def)
  next
    case ne: False
    then have "length (outgoing_pkts qp) < 9" using n by simp
    then show ?thesis using False ne n diff xmit_loop_window[OF wf] by (auto simp: roce_xmit_pkts_def Let_def)
  qed
qed

lemma xmit_pkts_no_wrap:
  assumes wf: "rc_wf qp" and nowrap: "unat (sq_psn (qp_attr qp)) + length (rc_pkts qp) < psn_mod"
  shows "roce_xmit_pkts env qp = Inr (window_moved qp, map (roce_netpkt_xmit (env_mem env)) (let_out qp))"
proof (cases "outgoing_pkts qp = []")
  case True
  then show ?thesis by (simp add: xmit_pkts_run[OF wf])
next
  case False
  define n where "n = length (outgoing_pkts qp) - 1"
  have n: "n < length (outgoing_pkts qp)" "n < length (rc_pkts qp)" using False by (cases "outgoing_pkts qp"; simp add: n_def rc_pkts_def)+
  have "roce_netpkt_psn (last (outgoing_pkts qp)) = (roce_qp_psn_inc ^^ n) (sq_psn (qp_attr qp))"
    using False rc_wfD(3)[OF wf n(1)] by (simp add: last_conv_nth n_def)
  moreover have "req_psn qp = (roce_qp_psn_inc ^^ length (rc_pkts qp)) (sq_psn (qp_attr qp))"
    using wf by (simp add: rc_wf_def)
  ultimately have "unat (roce_netpkt_psn (last (outgoing_pkts qp))) = unat (sq_psn (qp_attr qp)) + n"
    "unat (req_psn qp) = unat (sq_psn (qp_attr qp)) + length (rc_pkts qp)"
    using nowrap n by (simp_all add: unat_psn_steps[OF rc_wfD(1)[OF wf]])
  then show ?thesis using n by (simp add: xmit_pkts_run[OF wf] word_le_nat_alt)
qed

subsection \<open>What an acknowledge completes\<close>

text \<open>The completions of a list of requests and the end of each, in order.\<close>

fun complete_wrs ::
  "'a roce_base_scheme \<Rightarrow> roce_qp \<Rightarrow> send_wr_priv list \<Rightarrow> ('a roce_base_scheme \<times> roce_event list) run" where
  "complete_wrs ctx qp [] = Inr (ctx, [])"
| "complete_wrs ctx qp (w # ws) =
     bindR (send_completion ctx qp w) (\<lambda>evs.
     bindR (roce_free_send_wr ctx w) (\<lambda>ctx1.
     bindR (complete_wrs ctx1 qp ws) (\<lambda>(ctx2, evs2). Inr (ctx2, evs @ evs2))))"

text \<open>A queue pair after \<open>n\<close> packets were acknowledged, with the send queue that is left.\<close>

definition acked_qp :: "roce_qp \<Rightarrow> nat \<Rightarrow> send_wr_priv list \<Rightarrow> roce_qp" where
  "acked_qp qp n ws = qp\<lparr>outgoing_pkts := drop n (outgoing_pkts qp),
     qp_attr := (qp_attr qp)\<lparr>sq_psn := (roce_qp_psn_inc ^^ n) (sq_psn (qp_attr qp))\<rparr>, sq_wrs := ws\<rparr>"

lemma acked_sel [simp]:
  "outgoing_pkts (acked_qp qp n ws) = drop n (outgoing_pkts qp)" "sq_wrs (acked_qp qp n ws) = ws"
  "pending_pkts (acked_qp qp n ws) = pending_pkts qp" "req_psn (acked_qp qp n ws) = req_psn qp"
  "sq_psn (qp_attr (acked_qp qp n ws)) = (roce_qp_psn_inc ^^ n) (sq_psn (qp_attr qp))"
  by (simp_all add: acked_qp_def)

lemma send_completion_acked [simp]: "send_completion ctx (acked_qp qp n ws) w = send_completion ctx qp w"
  by (simp add: send_completion_def acked_qp_def signaled_def)

lemma complete_wrs_acked [simp]: "complete_wrs ctx (acked_qp qp n ws) us = complete_wrs ctx qp us"
  by (induction us arbitrary: ctx) simp_all

lemma acked_acked: "acked_qp (acked_qp qp 1 us) n ws = acked_qp qp (Suc n) ws"
  by (simp add: acked_qp_def funpow_swap1)

lemma not_live: "(\<lambda>w. roce_send_wr_is_local w \<or> swr_error w \<noteq> 0) = (\<lambda>w. \<not> wr_live w)"
  by (auto simp: wr_live_def)

lemma complete_head_live: "roce_complete_head qp = qp\<lparr>sq_wrs := dropWhile (\<lambda>w. \<not> wr_live w) (sq_wrs qp)\<rparr>"
  by (simp add: roce_complete_head_def not_live)

lemma filter_live_drop [simp]: "filter wr_live (dropWhile (\<lambda>w. \<not> wr_live w) ws) = filter wr_live ws"
  by (induction ws) auto

lemma dropWhile_live:
  "filter wr_live ws = w # us \<Longrightarrow> \<exists>vs. dropWhile (\<lambda>w. \<not> wr_live w) ws = w # vs \<and> filter wr_live vs = us"
  by (induction ws) (auto split: if_splits)

text \<open>The send queue after packets were acknowledged.\<close>

definition sq_acked1 :: "roce_netpkt \<Rightarrow> send_wr_priv list \<Rightarrow> send_wr_priv list" where
  "sq_acked1 pkt ws = (let us = dropWhile (\<lambda>w. \<not> wr_live w) ws in
     case np_opaque pkt of None \<Rightarrow> us | Some _ \<Rightarrow> dropWhile (\<lambda>w. \<not> wr_live w) (tl us))"

lemma sq_acked1_live:
  assumes "(case np_opaque pkt of None \<Rightarrow> [] | Some x \<Rightarrow> [x]) @ rest = map swr_ptr (filter wr_live ws)"
  shows "filter wr_live (sq_acked1 pkt ws) = drop (length (pkt_wrs [pkt])) (filter wr_live ws)"
proof (cases "np_opaque pkt")
  case (Some ptr)
  then obtain w us where w: "filter wr_live ws = w # us" using assms by (auto simp: Cons_eq_map_conv)
  then show ?thesis using Some dropWhile_live[OF w] by (auto simp: sq_acked1_def)
qed (simp add: sq_acked1_def)

lemma complete_send_wr_run:
  assumes out: "outgoing_pkts qp = pkt # pkts"
    and wrs: "(case np_opaque pkt of None \<Rightarrow> [] | Some x \<Rightarrow> [x]) @ rest = map swr_ptr (filter wr_live (sq_wrs qp))"
  shows "roce_rc_complete_send_wr ctx (qp\<lparr>outgoing_pkts := pkts\<rparr>) pkt =
      bindR (complete_wrs ctx qp (take (length (pkt_wrs [pkt])) (filter wr_live (sq_wrs qp))))
        (\<lambda>(ctx', evs). Inr (ctx', acked_qp qp 1 (sq_acked1 pkt (sq_wrs qp)), evs))"
proof (cases "np_opaque pkt")
  case None
  then show ?thesis
    using out by (simp add: roce_rc_complete_send_wr_def complete_head_live Let_def acked_qp_def sq_acked1_def)
next
  case (Some ptr)
  then obtain w us where w: "filter wr_live (sq_wrs qp) = w # us" "swr_ptr w = ptr"
    using wrs by (auto simp: Cons_eq_map_conv)
  then obtain vs where vs: "dropWhile (\<lambda>w. \<not> wr_live w) (sq_wrs qp) = w # vs" "filter wr_live vs = us"
    using dropWhile_live by blast
  have comp: "send_completion ctx (qp\<lparr>outgoing_pkts := a, sq_wrs := b, qp_attr := (qp_attr qp)\<lparr>sq_psn := c\<rparr>\<rparr>) w =
      send_completion ctx qp w" for a b c
    by (simp add: send_completion_def signaled_def)
  show ?thesis
    using Some w vs out comp
    by (simp add: roce_rc_complete_send_wr_def complete_head_live Let_def acked_qp_def bindR_assoc
        case_prod_unfold sq_acked1_def)
qed

fun sq_acked :: "roce_netpkt list \<Rightarrow> send_wr_priv list \<Rightarrow> send_wr_priv list" where
  "sq_acked [] ws = ws"
| "sq_acked (pkt # pkts) ws = sq_acked pkts (sq_acked1 pkt ws)"

lemma sq_acked_live:
  "pkt_wrs pkts @ rest = map swr_ptr (filter wr_live ws) \<Longrightarrow>
   filter wr_live (sq_acked pkts ws) = drop (length (pkt_wrs pkts)) (filter wr_live ws)"
proof (induction pkts arbitrary: ws)
  case (Cons pkt pkts)
  then have h: "(case np_opaque pkt of None \<Rightarrow> [] | Some x \<Rightarrow> [x]) @ (pkt_wrs pkts @ rest) =
      map swr_ptr (filter wr_live ws)" by simp
  note live = sq_acked1_live[OF h]
  have "pkt_wrs pkts @ rest = map swr_ptr (filter wr_live (sq_acked1 pkt ws))"
    unfolding live drop_map[symmetric] h[symmetric] by (simp split: option.splits)
  from Cons.IH[OF this] show ?case unfolding live by (simp add: add.commute)
qed simp

lemma complete_wrs_append:
  "complete_wrs ctx qp (us @ vs) = bindR (complete_wrs ctx qp us) (\<lambda>(ctx1, evs1).
     bindR (complete_wrs ctx1 qp vs) (\<lambda>(ctx2, evs2). Inr (ctx2, evs1 @ evs2)))"
proof (induction us arbitrary: ctx)
  case Nil
  then show ?case by (cases "complete_wrs ctx qp vs") auto
qed (simp add: bindR_assoc case_prod_unfold)

lemma ack_loop_run:
  fixes ctx :: "'a roce_base_scheme"
  assumes "map roce_netpkt_psn pkts = psns (sq_psn (qp_attr qp)) (length pkts)"
    "psn_dist (sq_psn (qp_attr qp)) psn \<le> 1" "length pkts \<le> 9" "outgoing_pkts qp = pkts"
    "pkt_wrs pkts @ rest = map swr_ptr (filter wr_live (sq_wrs qp))"
    "n = min (nat (1 - psn_dist (sq_psn (qp_attr qp)) psn)) (length pkts)"
  shows "ack_loop ctx qp psn pkts =
      bindR (complete_wrs ctx qp (take (length (pkt_wrs (take n pkts))) (filter wr_live (sq_wrs qp))))
        (\<lambda>(ctx', evs). Inr (ctx', acked_qp qp n (sq_acked (take n pkts) (sq_wrs qp)), evs))"
  using assms
proof (induction pkts arbitrary: ctx qp n)
  case Nil
  then show ?case by (simp add: acked_qp_def)
next
  case (Cons pkt pkts)
  define d where "d = psn_dist (sq_psn (qp_attr qp)) psn"
  have psn: "roce_netpkt_psn pkt = sq_psn (qp_attr qp)"
    "map roce_netpkt_psn pkts = psns (roce_qp_psn_inc (sq_psn (qp_attr qp))) (length pkts)"
    using Cons.prems(1) by (simp_all add: psns_Suc)
  show ?case
  proof (cases "0 < d")
    case True
    then have "roce_compare_psn (roce_netpkt_psn pkt) psn > 0" "n = 0"
      using Cons.prems(2,6) by (simp_all add: psn(1) compare_psn_dist d_def)
    then show ?thesis by (simp add: acked_qp_def)
  next
    case False
    then have cmp: "\<not> roce_compare_psn (roce_netpkt_psn pkt) psn > 0"
      by (simp add: psn(1) compare_psn_dist d_def)
    define m where "m = min (nat (1 - (d + 1))) (length pkts)"
    have n: "n = Suc m" using Cons.prems(6) False by (auto simp: m_def d_def min_def)
    have wrs: "(case np_opaque pkt of None \<Rightarrow> [] | Some x \<Rightarrow> [x]) @ (pkt_wrs pkts @ rest) =
        map swr_ptr (filter wr_live (sq_wrs qp))" using Cons.prems(5) by simp
    note one = complete_send_wr_run[OF Cons.prems(4) wrs] and live = sq_acked1_live[OF wrs]
    define qp1 where "qp1 = acked_qp qp 1 (sq_acked1 pkt (sq_wrs qp))"
    have d1: "psn_dist (sq_psn (qp_attr qp1)) psn = d + 1"
      using False psn_dist_inc[of "sq_psn (qp_attr qp)" psn] by (simp add: qp1_def d_def)
    have rest: "pkt_wrs pkts @ rest = map swr_ptr (filter wr_live (sq_wrs qp1))"
      unfolding qp1_def acked_sel live drop_map[symmetric] wrs[symmetric] by (simp split: option.splits)
    have loop: "ack_loop ctx' qp1 psn pkts =
        bindR (complete_wrs ctx' qp1 (take (length (pkt_wrs (take m pkts))) (filter wr_live (sq_wrs qp1))))
          (\<lambda>(ctx'', evs). Inr (ctx'', acked_qp qp1 m (sq_acked (take m pkts) (sq_wrs qp1)), evs))" for ctx' :: "'a roce_base_scheme"
    proof (rule Cons.IH)
      show "map roce_netpkt_psn pkts = psns (sq_psn (qp_attr qp1)) (length pkts)" using psn(2) by (simp add: qp1_def)
      show "psn_dist (sq_psn (qp_attr qp1)) psn \<le> 1" using d1 False by simp
      show "length pkts \<le> 9" using Cons.prems(3) by simp
      show "outgoing_pkts qp1 = pkts" using Cons.prems(4) by (simp add: qp1_def)
      show "pkt_wrs pkts @ rest = map swr_ptr (filter wr_live (sq_wrs qp1))" by (rule rest)
      show "m = min (nat (1 - psn_dist (sq_psn (qp_attr qp1)) psn)) (length pkts)" unfolding d1 m_def by simp
    qed
    have split: "take (length (pkt_wrs (take n (pkt # pkts)))) (filter wr_live (sq_wrs qp)) =
        take (length (pkt_wrs [pkt])) (filter wr_live (sq_wrs qp)) @
        take (length (pkt_wrs (take m pkts))) (filter wr_live (sq_wrs qp1))"
      unfolding qp1_def acked_sel live n by (simp add: take_add)
    have comb: "acked_qp qp1 m (sq_acked (take m pkts) (sq_wrs qp1)) =
        acked_qp qp n (sq_acked (take n (pkt # pkts)) (sq_wrs qp))"
      unfolding qp1_def acked_acked n by simp
    have same: "complete_wrs ctx' qp1 = complete_wrs ctx' qp" for ctx' :: "'a roce_base_scheme"
      unfolding qp1_def by (rule ext) simp
    have "ack_loop ctx qp psn (pkt # pkts) =
        bindR (complete_wrs ctx qp (take (length (pkt_wrs [pkt])) (filter wr_live (sq_wrs qp)))) (\<lambda>(ctx1, evs1).
        bindR (ack_loop ctx1 qp1 psn pkts) (\<lambda>(ctx2, qp2, evs2). Inr (ctx2, qp2, evs1 @ evs2)))"
      unfolding ack_loop.simps(2) one if_not_P[OF cmp] bindR_assoc by (simp add: case_prod_unfold qp1_def)
    then show ?thesis
      unfolding split complete_wrs_append loop comb same by (simp add: bindR_assoc case_prod_unfold)
  qed
qed

text \<open>How many outgoing packets an acknowledge of \<open>psn\<close> takes: none for one that is a duplicate or beyond
  what was requested, else those up to \<open>psn\<close>.\<close>

definition ack_count :: "roce_qp \<Rightarrow> u32 \<Rightarrow> nat" where
  "ack_count qp psn =
     (if psn_dist (sq_psn (qp_attr qp)) psn > 0 \<or> psn_dist (req_psn qp) psn < 0 then 0
      else min (nat (1 - psn_dist (sq_psn (qp_attr qp)) psn)) (length (outgoing_pkts qp)))"

definition acked_wrs :: "roce_qp \<Rightarrow> u32 \<Rightarrow> send_wr_priv list" where
  "acked_wrs qp psn = take (length (pkt_wrs (take (ack_count qp psn) (outgoing_pkts qp)))) (filter wr_live (sq_wrs qp))"

definition after_ack :: "roce_qp \<Rightarrow> u32 \<Rightarrow> roce_qp" where
  "after_ack qp psn = acked_qp qp (ack_count qp psn) (sq_acked (take (ack_count qp psn) (outgoing_pkts qp)) (sq_wrs qp))"

lemma handle_ack_run:
  assumes wf: "rc_wf qp"
  shows "roce_handle_ack ctx qp psn =
    bindR (complete_wrs ctx qp (acked_wrs qp psn)) (\<lambda>(ctx', evs). Inr (ctx', after_ack qp psn, evs))"
proof (cases "psn_dist (sq_psn (qp_attr qp)) psn > 0 \<or> psn_dist (req_psn qp) psn < 0")
  case True
  then show ?thesis
    by (auto simp: roce_handle_ack_def compare_psn_dist acked_wrs_def after_ack_def ack_count_def acked_qp_def)
next
  case False
  have psn: "map roce_netpkt_psn (outgoing_pkts qp) = psns (sq_psn (qp_attr qp)) (length (outgoing_pkts qp))"
    by (rule nth_equalityI) (simp_all add: rc_wfD(3)[OF wf] psns_nth)
  have wrs: "pkt_wrs (outgoing_pkts qp) @ pkt_wrs (pending_pkts qp) = map swr_ptr (filter wr_live (sq_wrs qp))"
    using wf by (simp add: rc_wf_def rc_pkts_def)
  have "ack_count qp psn = min (nat (1 - psn_dist (sq_psn (qp_attr qp)) psn)) (length (outgoing_pkts qp))"
    using False by (simp add: ack_count_def)
  from ack_loop_run[OF psn _ rc_wfD(2)[OF wf] refl wrs this, of ctx] False
  show ?thesis
    by (simp add: roce_handle_ack_def compare_psn_dist acked_wrs_def after_ack_def)
qed

lemma ack_count_le: "ack_count qp psn \<le> length (outgoing_pkts qp)"
  by (simp add: ack_count_def)

lemma funpow_add_apply: "(f ^^ n) ((f ^^ m) x) = (f ^^ (m + n)) x"
  by (induction n) simp_all

lemma psns_drop: "drop m (psns p n) = psns ((roce_qp_psn_inc ^^ m) p) (n - m)"
  by (rule nth_equalityI) (simp_all add: psns_nth funpow_add_apply)

lemma after_ack_wf:
  assumes wf: "rc_wf qp"
  shows "rc_wf (after_ack qp psn)"
    "rc_pkts (after_ack qp psn) = drop (ack_count qp psn) (rc_pkts qp)"
    "filter wr_live (sq_wrs (after_ack qp psn)) =
       drop (length (pkt_wrs (take (ack_count qp psn) (outgoing_pkts qp)))) (filter wr_live (sq_wrs qp))"
proof -
  define n where "n = ack_count qp psn"
  have n: "n \<le> length (outgoing_pkts qp)" unfolding n_def by (rule ack_count_le)
  have cut: "rc_pkts qp = take n (outgoing_pkts qp) @ drop n (rc_pkts qp)"
    using n by (simp add: rc_pkts_def)
  then have "pkt_wrs (take n (outgoing_pkts qp)) @ pkt_wrs (drop n (rc_pkts qp)) = map swr_ptr (filter wr_live (sq_wrs qp))"
    using wf pkt_wrs_simps(2)[of "take n (outgoing_pkts qp)" "drop n (rc_pkts qp)"] by (simp add: rc_wf_def)
  note wrs = this and live = sq_acked_live[OF this]
  show pkts: "rc_pkts (after_ack qp psn) = drop (ack_count qp psn) (rc_pkts qp)"
    using n by (simp add: rc_pkts_def after_ack_def flip: n_def)
  show lv: "filter wr_live (sq_wrs (after_ack qp psn)) =
       drop (length (pkt_wrs (take (ack_count qp psn) (outgoing_pkts qp)))) (filter wr_live (sq_wrs qp))"
    using live by (simp add: after_ack_def flip: n_def)
  have m: "map roce_netpkt_psn (rc_pkts qp) = psns (sq_psn (qp_attr qp)) (length (rc_pkts qp))"
    using wf by (simp add: rc_wf_def)
  have "length (rc_pkts qp) = n + (length (rc_pkts qp) - n)" using n by (simp add: rc_pkts_def)
  then have req: "(roce_qp_psn_inc ^^ (length (rc_pkts qp) - n)) ((roce_qp_psn_inc ^^ n) (sq_psn (qp_attr qp))) = req_psn qp"
    using wf by (simp add: rc_wf_def funpow_add_apply)
  show "rc_wf (after_ack qp psn)"
    unfolding rc_wf_def pkts lv
  proof (intro conjI)
    show "unat (sq_psn (qp_attr (after_ack qp psn))) < psn_mod"
      using unat_psn_steps[OF rc_wfD(1)[OF wf], of n] by (simp add: after_ack_def flip: n_def)
    show "map roce_netpkt_psn (drop (ack_count qp psn) (rc_pkts qp)) =
        psns (sq_psn (qp_attr (after_ack qp psn))) (length (drop (ack_count qp psn) (rc_pkts qp)))"
      by (simp add: after_ack_def m psns_drop flip: drop_map n_def)
    show "length (outgoing_pkts (after_ack qp psn)) \<le> 9"
      using rc_wfD(2)[OF wf] by (simp add: after_ack_def)
    show "pkt_wrs (drop (ack_count qp psn) (rc_pkts qp)) =
        map swr_ptr (drop (length (pkt_wrs (take (ack_count qp psn) (outgoing_pkts qp)))) (filter wr_live (sq_wrs qp)))"
      unfolding drop_map[symmetric] n_def[symmetric] wrs[symmetric] by simp
  qed (use req in \<open>simp_all add: after_ack_def flip: n_def\<close>)
qed

end
