(* ===== verification/Rc_Run.thy ===== *)
theory Rc_Run
  imports Rc_Window
begin

text \<open>
  The requester at work: posting a request and handling an acknowledge keep the invariant of the window,
  and what that gives for every run: consecutive PSNs, a bounded window, completions in the order of the
  posts, retransmission of what is outgoing, and progress.
\<close>

subsection \<open>What the builders append\<close>

lemma set_eth_keeps:
  "roce_netpkt_set_eth mm pkt port ah = Inr pkt' \<Longrightarrow> np_bth pkt' = np_bth pkt \<and> np_opaque pkt' = np_opaque pkt"
  by (auto simp: roce_netpkt_set_eth_def bindR_eq_Inr roce_netpkt_set4_def roce_netpkt_set6_def Let_def
      netpkt_put_ip4_def netpkt_put_ip6_def netpkt_set_iov_def split: if_splits)

lemma set_bth_psn: "roce_netpkt_set_bth b ty op se pc q a psn = Inr b' \<Longrightarrow> ib_bth_get_psn b' = IB_BTH_PSN_MASK AND psn"
  by (auto simp: roce_netpkt_set_bth_def bindR_eq_Inr Let_def view_set_u32_2 simp flip: bth_view_sel)

lemma finish_keeps:
  "netpkt_finish env ctx qp ah op se pc q a psn pkt = Inr pkt' \<Longrightarrow>
     np_opaque pkt' = np_opaque pkt \<and> roce_netpkt_psn pkt' = IB_BTH_PSN_MASK AND psn"
  by (auto simp: netpkt_finish_def bindR_eq_Inr roce_netpkt_psn_def dest!: set_eth_keeps set_bth_psn)

lemma alloc_opaque: "roce_netpkt_alloc ctx qp op pages pc ok = Inr (Some pkt) \<Longrightarrow> np_opaque pkt = op"
  by (auto simp: roce_netpkt_alloc_def bindR_eq_Inr Let_def netpkt_set_iov_def split: if_splits)

lemma map_payload_keeps:
  assumes "netpkt_map_payload env ctx qp sges pages pkt = Inr (pkt', vs, dm)"
  shows "np_opaque pkt' = np_opaque pkt"
proof -
  obtain r where r: "(case r of Inl e \<Rightarrow> bindR (assertR (pages = word_of_int e)) (\<lambda>_. Inl Out_of_bounds)
       | Inr (vs, dmamap) \<Rightarrow>
           if length (np_iovs pkt) < ROCE_NETPKT_PAYLOAD + length vs then Inl Out_of_bounds
           else bindR (assertR (pages = of_nat (length vs))) (\<lambda>_.
             Inr (pkt\<lparr>np_iovs := take ROCE_NETPKT_PAYLOAD (np_iovs pkt)
                    @ put_iovs vs (drop ROCE_NETPKT_PAYLOAD (np_iovs pkt))\<rparr>, vs, dmamap))) = Inr (pkt', vs, dm)"
    using assms unfolding netpkt_map_payload_def bindR_eq_Inr by blast
  then show ?thesis by (cases r) (auto simp: bindR_eq_Inr split: if_splits)
qed

definition keeps_opaque :: "(roce_netpkt \<Rightarrow> roce_netpkt) \<Rightarrow> bool" where
  "keeps_opaque f \<longleftrightarrow> (\<forall>p. np_opaque (f p) = np_opaque p)"

lemma keeps_opaque_ext: "keeps_opaque id" "keeps_opaque (send_ext w i m)" "keeps_opaque (write_reth w n)"
  "keeps_opaque (\<lambda>pkt. if c then netpkt_set_iov k N_ext j (roce_netpkt_write_immdt v (write_reth w n pkt)) else write_reth w n pkt)"
  "keeps_opaque (\<lambda>pkt. netpkt_set_iov k N_ext j (roce_netpkt_write_immdt v (write_reth w n pkt)))"
  by (simp_all add: keeps_opaque_def send_ext_def write_reth_def netpkt_set_iov_def roce_netpkt_ieth_def
      roce_netpkt_immdt_def roce_netpkt_write_reth_def roce_netpkt_write_immdt_def)

lemma psn_mask_id: "unat psn < psn_mod \<Longrightarrow> IB_BTH_PSN_MASK AND psn = psn"
  by (simp add: word_unat_eq_iff unat_psn_and)

lemma part_pkt_keeps:
  assumes "rc_part_pkt env ctx qp sges op ext opcode se pc ack n psn cur ok = Inr (pkt, cur')" "keeps_opaque ext"
    "unat psn < psn_mod"
  shows "np_opaque pkt = op" "roce_netpkt_psn pkt = psn"
  using assms
  by (auto simp: rc_part_pkt_def bindR_eq_Inr keeps_opaque_def psn_mask_id split: option.splits
      dest!: finish_keeps map_payload_keeps alloc_opaque)

lemma middle_pkts_keeps:
  "rc_middle_pkts room env ctx qp sges opcode mtu payload psn cur = Inr (pkts, r2, p2, psn2, cur2) \<Longrightarrow>
   unat psn < psn_mod \<Longrightarrow>
   map roce_netpkt_psn pkts = psns psn (length pkts) \<and> psn2 = (roce_qp_psn_inc ^^ length pkts) psn \<and> pkt_wrs pkts = []"
proof (induction room arbitrary: payload psn cur pkts r2 p2)
  case 0
  then show ?case by (auto simp: bindR_eq_Inr psns_def split: if_splits)
next
  case (Suc room)
  show ?case
  proof (cases "payload > ucast mtu")
    case False
    then show ?thesis using Suc.prems by (simp add: psns_def)
  next
    case True
    then obtain pkt cur1 ps where p: "rc_part_pkt env ctx qp sges None id opcode False 0 (ack_now psn) (ucast mtu)
        psn cur True = Inr (pkt, cur1)" "pkts = pkt # ps"
      "rc_middle_pkts room env ctx qp sges opcode mtu (payload - ucast mtu) (roce_qp_psn_inc psn) cur1 =
        Inr (ps, r2, p2, psn2, cur2)"
      using Suc.prems(1) by (auto simp: bindR_eq_Inr)
    then show ?thesis
      using Suc.IH[OF p(3) psn_inc_less] part_pkt_keeps[OF p(1) keeps_opaque_ext(1) Suc.prems(2)]
      by (simp add: psns_Suc funpow_swap1)
  qed
qed

text \<open>What a builder does when it returns: a fresh request gets its error and nothing else changes, or its
  packets wait, with the next PSNs, the last one standing for the request.\<close>

definition built_ok :: "roce_qp \<Rightarrow> send_wr_priv \<Rightarrow> roce_qp \<times> send_wr_priv \<Rightarrow> bool" where
  "built_ok qp w r \<longleftrightarrow>
     (\<exists>e. e \<noteq> 0 \<and> r = (qp, w\<lparr>swr_error := e\<rparr>)) \<or>
     (\<exists>pkts. r = (qp\<lparr>pending_pkts := pending_pkts qp @ pkts,
          req_psn := (roce_qp_psn_inc ^^ length pkts) (req_psn qp)\<rparr>, w) \<and>
        map roce_netpkt_psn pkts = psns (req_psn qp) (length pkts) \<and> pkt_wrs pkts = [swr_ptr w])"

lemma built_err: "e \<noteq> 0 \<Longrightarrow> built_ok qp w (qp, w\<lparr>swr_error := e\<rparr>)"
  unfolding built_ok_def by blast

lemma only_pkt_keeps:
  assumes "rc_only_pkt env ctx qp w ext opcode payload room = Inr r" "keeps_opaque ext" "unat (req_psn qp) < psn_mod"
  shows "built_ok qp w r"
proof -
  obtain pages opkt where a: "roce_netpkt_alloc ctx qp (Some (swr_ptr w)) (ucast pages) (pad_of payload) (room \<noteq> 0) = Inr opkt"
    "(case opkt of None \<Rightarrow> Inr (qp, w\<lparr>swr_error := ROCE_WC_LOC_QP_OP_ERR\<rparr>)
     | Some pkt \<Rightarrow>
         bindR (if roce_send_wr_is_inline w
                then Inr (netpkt_set_iov ROCE_NETPKT_PAYLOAD (N_inline (wr_sge (swr w))) (unat payload) (ext pkt))
                else bindR (netpkt_map_payload env ctx qp (wr_sge (swr w)) pages (ext pkt)) (\<lambda>(p, _). Inr p)) (\<lambda>pkt1.
         bindR (netpkt_finish env ctx qp (qp_ah_attr (qp_attr qp)) opcode (solicited w) (pad_of payload)
                  (dest_qp_num (qp_attr qp)) True (req_psn qp) pkt1) (\<lambda>pkt2.
         Inr ((roce_netpkt_pending_one qp pkt2)\<lparr>req_psn := roce_qp_psn_inc (req_psn qp)\<rparr>, w)))) = Inr r"
    using assms(1) unfolding rc_only_pkt_def bindR_eq_Inr by blast
  show ?thesis
  proof (cases opkt)
    case None
    then have "r = (qp, w\<lparr>swr_error := ROCE_WC_LOC_QP_OP_ERR\<rparr>)" using a(2) by simp
    then show ?thesis by (simp only:) (rule built_err, simp)
  next
    case (Some pkt)
    have op: "np_opaque pkt = Some (swr_ptr w)" using a(1) Some by (blast dest: alloc_opaque)
    obtain pkt1 pkt2 where p: "(if roce_send_wr_is_inline w
                then Inr (netpkt_set_iov ROCE_NETPKT_PAYLOAD (N_inline (wr_sge (swr w))) (unat payload) (ext pkt))
                else bindR (netpkt_map_payload env ctx qp (wr_sge (swr w)) pages (ext pkt)) (\<lambda>(p, _). Inr p)) = Inr pkt1"
      "netpkt_finish env ctx qp (qp_ah_attr (qp_attr qp)) opcode (solicited w) (pad_of payload)
                  (dest_qp_num (qp_attr qp)) True (req_psn qp) pkt1 = Inr pkt2"
      "r = ((roce_netpkt_pending_one qp pkt2)\<lparr>req_psn := roce_qp_psn_inc (req_psn qp)\<rparr>, w)"
      using a(2) Some by (auto simp: bindR_eq_Inr)
    have "np_opaque pkt1 = Some (swr_ptr w)"
      using p(1) op assms(2)
      by (auto simp: bindR_eq_Inr keeps_opaque_def netpkt_set_iov_def split: if_splits dest!: map_payload_keeps)
    then have "np_opaque pkt2 = Some (swr_ptr w)" "roce_netpkt_psn pkt2 = req_psn qp"
      using finish_keeps[OF p(2)] assms(3) by (simp_all add: psn_mask_id)
    then have "built_ok qp w (qp\<lparr>pending_pkts := pending_pkts qp @ [pkt2],
        req_psn := (roce_qp_psn_inc ^^ length [pkt2]) (req_psn qp)\<rparr>, w)"
      unfolding built_ok_def by (intro disjI2 exI[of _ "[pkt2]"]) (simp add: psns_def)
    then show ?thesis using p(3) by (simp add: roce_netpkt_pending_one_def)
  qed
qed

lemma multi_pkts_keeps:
  assumes "rc_multi_pkts env ctx qp w ext1 op1 op2 ext2 op3 payload mtu room = Inr r"
    "keeps_opaque ext1" "keeps_opaque ext2" "unat (req_psn qp) < psn_mod"
  shows "built_ok qp w r"
proof -
  obtain pkt1 cur1 pkts r2 p2 psn2 cur2 pkt3 cur3 where m:
    "rc_part_pkt env ctx qp (wr_sge (swr w)) None ext1 op1 False 0 (ack_now (req_psn qp)) (ucast mtu)
       (req_psn qp) (0, 0) (room \<noteq> 0) = Inr (pkt1, cur1)"
    "rc_middle_pkts (room - 1) env ctx qp (wr_sge (swr w)) op2 mtu (payload - ucast mtu)
       (roce_qp_psn_inc (req_psn qp)) cur1 = Inr (pkts, r2, p2, psn2, cur2)"
    "rc_part_pkt env ctx qp (wr_sge (swr w)) (Some (swr_ptr w)) ext2 op3 (solicited w) (pad_of p2) True
       p2 psn2 cur2 (r2 \<noteq> 0) = Inr (pkt3, cur3)"
    "r = ((roce_netpkt_pending_multi qp (pkt1 # pkts @ [pkt3]))\<lparr>req_psn := roce_qp_psn_inc psn2\<rparr>, w)"
    using assms(1) by (auto simp: rc_multi_pkts_def Let_def bindR_eq_Inr)
  note first = part_pkt_keeps[OF m(1) assms(2,4)] and mid = middle_pkts_keeps[OF m(2) psn_inc_less]
  have "unat psn2 < psn_mod" using mid psn_inc_less by (cases pkts) auto
  note last = part_pkt_keeps[OF m(3) assms(3) this]
  have snoc: "psns p (Suc n) = psns p n @ [(roce_qp_psn_inc ^^ n) p]" for p n by (simp add: psns_def)
  have "map roce_netpkt_psn (pkt1 # pkts @ [pkt3]) = psns (req_psn qp) (length (pkt1 # pkts @ [pkt3]))"
    using first mid last by (simp add: psns_Suc[of "req_psn qp"] snoc[of "roce_qp_psn_inc (req_psn qp)"])
  moreover have "pkt_wrs (pkt1 # pkts @ [pkt3]) = [swr_ptr w]" using first mid last by simp
  moreover have "r = (qp\<lparr>pending_pkts := pending_pkts qp @ (pkt1 # pkts @ [pkt3]),
      req_psn := (roce_qp_psn_inc ^^ length (pkt1 # pkts @ [pkt3])) (req_psn qp)\<rparr>, w)"
    using m(4) mid by (simp add: roce_netpkt_pending_multi_def funpow_swap1)
  ultimately show ?thesis unfolding built_ok_def by blast
qed

text \<open>The requests the builders know.\<close>

definition rc_builds :: "roce_wr_opcode \<Rightarrow> bool" where
  "rc_builds op \<longleftrightarrow> op \<in> {ROCE_WR_SEND, ROCE_WR_SEND_WITH_IMM, ROCE_WR_SEND_WITH_INV, ROCE_WR_RDMA_WRITE,
     ROCE_WR_RDMA_WRITE_WITH_IMM}"

lemma build_pkts_keeps:
  assumes "roce_rc_build_pkts env ctx qp w room = Inr r" "rc_builds (wr_opcode (swr w))" "unat (req_psn qp) < psn_mod"
  shows "built_ok qp w r"
proof -
  have s: "roce_rc_send_pkts env ctx qp w b c room = Inr r \<Longrightarrow> ?thesis" for b c
    using assms(3) unfolding roce_rc_send_pkts_def bindR_eq_Inr roce_rc_send_only_def roce_rc_send_multi_def
    by (auto split: if_splits simp: bindR_eq_Inr intro: only_pkt_keeps multi_pkts_keeps keeps_opaque_ext)
  have w: "roce_rc_write_pkts env ctx qp w b room = Inr r \<Longrightarrow> ?thesis" for b
    using assms(3) unfolding roce_rc_write_pkts_def bindR_eq_Inr roce_rc_write_only_def roce_rc_write_multi_def
    by (auto split: if_splits simp: bindR_eq_Inr intro: only_pkt_keeps multi_pkts_keeps keeps_opaque_ext)
  show ?thesis
    using assms(1,2) s w built_err[of ROCE_WC_LOC_LEN_ERR qp w] unfolding roce_rc_build_pkts_def rc_builds_def
    by (auto split: if_splits)
qed


subsection \<open>Posting\<close>

text \<open>Requests that do not get stuck in the send queue: failed, local, or known to the builders.\<close>

definition rc_postable :: "send_wr_priv \<Rightarrow> bool" where
  "rc_postable w \<longleftrightarrow> swr_error w \<noteq> 0 \<or> roce_send_wr_is_local w \<or> rc_builds (wr_opcode (swr w))"

lemma sq_store_wrs:
  assumes "swr_ptr w \<notin> swr_ptr ` set ws" "swr_ptr w' = swr_ptr w" "sq_wrs qp = ws @ [w]"
  shows "sq_wrs (sq_store w' qp) = ws @ [w']"
proof -
  have "map (\<lambda>x. if swr_ptr x = swr_ptr w then w' else x) ws = ws"
    using assms(1) by (intro map_idI) (metis image_eqI)
  then show ?thesis using assms(2,3) by (simp add: sq_store_def)
qed

lemma sq_store_sel [simp]:
  "qp_attr (sq_store w qp) = qp_attr qp" "outgoing_pkts (sq_store w qp) = outgoing_pkts qp"
  "pending_pkts (sq_store w qp) = pending_pkts qp" "req_psn (sq_store w qp) = req_psn qp"
  by (simp_all add: sq_store_def)

lemma rc_wf_dead:
  assumes "rc_wf qp" "qp_attr qp1 = qp_attr qp" "rc_pkts qp1 = rc_pkts qp" "req_psn qp1 = req_psn qp"
    "outgoing_pkts qp1 = outgoing_pkts qp" "filter wr_live (sq_wrs qp1) = filter wr_live (sq_wrs qp)"
  shows "rc_wf qp1"
  using assms by (simp add: rc_wf_def)

lemma psns_append: "psns p (m + n) = psns p m @ psns ((roce_qp_psn_inc ^^ m) p) n"
  by (rule nth_equalityI) (auto simp: psns_nth nth_append funpow_add_apply)

lemma rc_wf_built:
  assumes wf: "rc_wf qp" and eq: "qp_attr qp1 = qp_attr qp" "rc_pkts qp1 = rc_pkts qp @ pkts"
    "req_psn qp1 = (roce_qp_psn_inc ^^ length pkts) (req_psn qp)"
    "outgoing_pkts qp1 = outgoing_pkts qp" "filter wr_live (sq_wrs qp1) = filter wr_live (sq_wrs qp) @ [w]"
    and new: "map roce_netpkt_psn pkts = psns (req_psn qp) (length pkts)" "pkt_wrs pkts = [swr_ptr w]"
  shows "rc_wf qp1"
  using wf new unfolding rc_wf_def eq by (simp add: psns_append funpow_add_apply)

lemma req_psn_less: "rc_wf qp \<Longrightarrow> unat (req_psn qp) < psn_mod"
  using unat_psn_steps[of "sq_psn (qp_attr qp)" "length (rc_pkts qp)"] by (simp add: rc_wf_def)

lemma build_wf:
  assumes wf: "rc_wf qp" and fresh: "swr_ptr w \<notin> swr_ptr ` set (sq_wrs qp)"
    and ok: "rc_postable w" "swr_error w = 0"
    and build: "roce_rc_build_pkts env ctx (qp\<lparr>sq_wrs := sq_wrs qp @ [w]\<rparr>) w room = Inr (qp1, w1)"
  shows "rc_wf (sq_store w1 qp1)"
proof (cases "rc_builds (wr_opcode (swr w))")
  case True
  have "built_ok (qp\<lparr>sq_wrs := sq_wrs qp @ [w]\<rparr>) w (qp1, w1)"
    using build_pkts_keeps[OF build True] req_psn_less[OF wf] by simp
  then consider e where "e \<noteq> 0" "qp1 = qp\<lparr>sq_wrs := sq_wrs qp @ [w]\<rparr>" "w1 = w\<lparr>swr_error := e\<rparr>"
    | pkts where "qp1 = qp\<lparr>sq_wrs := sq_wrs qp @ [w], pending_pkts := pending_pkts qp @ pkts,
          req_psn := (roce_qp_psn_inc ^^ length pkts) (req_psn qp)\<rparr>" "w1 = w"
        "map roce_netpkt_psn pkts = psns (req_psn qp) (length pkts)" "pkt_wrs pkts = [swr_ptr w]"
    unfolding built_ok_def by auto
  then show ?thesis
  proof cases
    case 1
    then have "sq_wrs (sq_store w1 qp1) = sq_wrs qp @ [w1]" "\<not> wr_live w1"
      using sq_store_wrs[OF fresh, of w1 qp1] by (simp_all add: wr_live_def)
    then show ?thesis using 1 by (intro rc_wf_dead[OF wf]) (simp_all add: rc_pkts_def)
  next
    case 2
    then have "sq_wrs (sq_store w1 qp1) = sq_wrs qp @ [w]"
      using sq_store_wrs[OF fresh, of w1 qp1] by simp
    moreover have "wr_live w" using ok(2) True by (auto simp: wr_live_def roce_send_wr_is_local_def rc_builds_def)
    ultimately show ?thesis using 2 by (intro rc_wf_built[OF wf, of _ pkts w]) (simp_all add: rc_pkts_def)
  qed
next
  case False
  then have loc: "roce_send_wr_is_local w" using ok by (simp add: rc_postable_def)
  then have "qp1 = qp\<lparr>sq_wrs := sq_wrs qp @ [w]\<rparr> \<and> (w1 = w \<or> w1 = w\<lparr>swr_error := ROCE_WC_LOC_LEN_ERR\<rparr>)"
    using build by (auto simp: roce_rc_build_pkts_def roce_send_wr_is_local_def split: if_splits)
  moreover from this have "sq_wrs (sq_store w1 qp1) = sq_wrs qp @ [w1]"
    using sq_store_wrs[OF fresh, of w1 qp1] by auto
  moreover have "\<not> wr_live w" "\<not> wr_live (w\<lparr>swr_error := ROCE_WC_LOC_LEN_ERR\<rparr>)" using loc by (simp_all add: wr_live_def)
  ultimately show ?thesis by (intro rc_wf_dead[OF wf]) (auto simp: rc_pkts_def)
qed

lemma request_rc_moved:
  assumes wf: "rc_wf qp" and fresh: "swr_ptr w \<notin> swr_ptr ` set (sq_wrs qp)" and ok: "rc_postable w"
    and run: "roce_request_rc env ctx qp w room = Inr (qp', evs)"
  shows "\<exists>qp1. rc_wf qp1 \<and> qp' = roce_complete_head (window_moved qp1)"
proof -
  obtain qp1 qp2 evs2 where r:
    "(if swr_error w = 0 then bindR (roce_rc_build_pkts env ctx (qp\<lparr>sq_wrs := sq_wrs qp @ [w]\<rparr>) w room)
        (\<lambda>(qp1, w1). Inr (sq_store w1 qp1)) else Inr (qp\<lparr>sq_wrs := sq_wrs qp @ [w]\<rparr>)) = Inr qp1"
    "roce_xmit_pkts env qp1 = Inr (qp2, evs2)" "qp' = roce_complete_head qp2"
    using run by (auto simp: roce_request_rc_def Let_def bindR_eq_Inr)
  have "rc_wf qp1"
  proof (cases "swr_error w = 0")
    case True
    then show ?thesis using r(1) build_wf[OF wf fresh ok] by (auto simp: bindR_eq_Inr)
  next
    case False
    then show ?thesis using r(1) by (auto intro!: rc_wf_dead[OF wf] simp: rc_pkts_def wr_live_def)
  qed
  moreover from this have "qp2 = window_moved qp1" using r(2) by (simp add: xmit_pkts_run split: if_splits)
  ultimately show ?thesis using r(3) by blast
qed

lemma complete_head_wf: "rc_wf qp \<Longrightarrow> rc_wf (roce_complete_head qp)"
  unfolding complete_head_live by (erule rc_wf_dead) (simp_all add: rc_pkts_def)

lemma request_rc_wf:
  assumes "rc_wf qp" "swr_ptr w \<notin> swr_ptr ` set (sq_wrs qp)" "rc_postable w"
    "roce_request_rc env ctx qp w room = Inr (qp', evs)"
  shows "rc_wf qp'"
  using request_rc_moved[OF assms] complete_head_wf moved_wf by blast

subsection \<open>Acknowledging\<close>

lemma ack_wf: "roce_handle_ack ctx qp psn = Inr (ctx', qp', evs) \<Longrightarrow> rc_wf qp \<Longrightarrow> qp' = after_ack qp psn \<and> rc_wf qp'"
  by (auto simp: handle_ack_run bindR_eq_Inr after_ack_wf)

lemma xmit_wf: "roce_xmit_pkts env qp = Inr (qp', evs) \<Longrightarrow> rc_wf qp \<Longrightarrow> qp' = window_moved qp \<and> rc_wf qp'"
  by (auto simp: xmit_pkts_run moved_wf split: if_splits)

lemma acknowledge_moved:
  assumes run: "roce_handle_acknowledge env ctx qp syn psn = Inr (ctx', qp', evs)" and wf: "rc_wf qp"
  shows "qp' = qp \<or> (\<exists>p. qp' = window_moved (after_ack qp p))"
proof -
  consider p ctx1 qp1 evs1 evs2 where "roce_handle_ack ctx qp p = Inr (ctx1, qp1, evs1)"
      "roce_xmit_pkts env qp1 = Inr (qp', evs2)"
    | "qp' = qp"
    using run unfolding roce_handle_acknowledge_def roce_handle_nak_def
    by (auto simp: bindR_eq_Inr split: if_splits)
  then show ?thesis
    using wf by cases (blast dest: ack_wf xmit_wf)+
qed

lemma acknowledge_wf:
  assumes "roce_handle_acknowledge env ctx qp syn psn = Inr (ctx', qp', evs)" "rc_wf qp"
  shows "rc_wf qp'"
  using acknowledge_moved[OF assms] assms(2) after_ack_wf(1) moved_wf by blast

subsection \<open>Runs\<close>

text \<open>
  What happens to an RC queue pair: a request that is not in the send queue yet is posted, whatever its
  opcode, or an acknowledge arrives. Between steps the memory, the callbacks and the room for packets may
  change. A run lists the requests that were posted.
\<close>

inductive rc_step ::
  "'a roce_base_scheme \<times> roce_qp \<Rightarrow> send_wr_priv list \<Rightarrow> roce_event list \<Rightarrow> 'a roce_base_scheme \<times> roce_qp \<Rightarrow> bool" where
  post: "swr_ptr w \<notin> swr_ptr ` set (sq_wrs qp) \<Longrightarrow>
     roce_request_rc env ctx qp w room = Inr (qp', evs) \<Longrightarrow> rc_step (ctx, qp) [w] evs (ctx, qp')"
| acknowledge: "roce_handle_acknowledge env ctx qp syn psn = Inr (ctx', qp', evs) \<Longrightarrow>
     rc_step (ctx, qp) [] evs (ctx', qp')"

inductive rc_run ::
  "'a roce_base_scheme \<times> roce_qp \<Rightarrow> send_wr_priv list \<Rightarrow> roce_event list \<Rightarrow> 'a roce_base_scheme \<times> roce_qp \<Rightarrow> bool" where
  start: "rc_run s [] [] s"
| step: "rc_run s ws evs t \<Longrightarrow> rc_step t ws' evs' u \<Longrightarrow> rc_run s (ws @ ws') (evs @ evs') u"

inductive_cases rc_stepE: "rc_step (ctx, qp) ws evs (ctx', qp')"

text \<open>A queue pair whose packets are all acknowledged.\<close>

definition rc_fresh :: "roce_qp \<Rightarrow> bool" where
  "rc_fresh qp \<longleftrightarrow> outgoing_pkts qp = [] \<and> pending_pkts qp = [] \<and> req_psn qp = sq_psn (qp_attr qp) \<and>
     unat (req_psn qp) < psn_mod \<and> filter wr_live (sq_wrs qp) = []"

lemma rc_fresh_wf: "rc_fresh qp \<Longrightarrow> rc_wf qp"
  by (auto simp: rc_fresh_def rc_wf_def rc_pkts_def psns_def)

text \<open>Nothing waits that the window would let out.\<close>

definition rc_settled :: "roce_qp \<Rightarrow> bool" where
  "rc_settled qp \<longleftrightarrow> (length (outgoing_pkts qp) < 9 \<longrightarrow> pending_pkts qp = [])"

lemma moved_settled: "rc_settled (window_moved qp)"
  by (auto simp: rc_settled_def window_moved_def let_out_def min_def split: if_splits)

lemma request_settled:
  assumes "rc_wf qp" "swr_ptr w \<notin> swr_ptr ` set (sq_wrs qp)" "rc_postable w"
    "roce_request_rc env ctx qp w room = Inr (qp', evs)"
  shows "rc_settled qp'"
proof -
  obtain qp1 where "qp' = roce_complete_head (window_moved qp1)" using request_rc_moved[OF assms] by blast
  then show ?thesis using moved_settled[of qp1] by (simp add: complete_head_live rc_settled_def)
qed

lemma acknowledge_settled:
  assumes run: "roce_handle_acknowledge env ctx qp syn psn = Inr (ctx', qp', evs)" and "rc_wf qp" "rc_settled qp"
  shows "rc_settled qp'"
  using acknowledge_moved[OF run assms(2)] assms(3) moved_settled by auto

lemma step_wf:
  "rc_step (ctx, qp) ws evs (ctx', qp') \<Longrightarrow> \<forall>w \<in> set ws. rc_postable w \<Longrightarrow> rc_wf qp \<and> rc_settled qp \<Longrightarrow>
   rc_wf qp' \<and> rc_settled qp'"
  by (elim rc_stepE) (auto intro: request_rc_wf acknowledge_wf request_settled acknowledge_settled)

lemma run_wf:
  "rc_run s ws evs t \<Longrightarrow> \<forall>w \<in> set ws. rc_postable w \<Longrightarrow> rc_wf (snd s) \<and> rc_settled (snd s) \<Longrightarrow>
   rc_wf (snd t) \<and> rc_settled (snd t)"
proof (induction rule: rc_run.induct)
  case (step s ws evs t ws' evs' u)
  then show ?case using step_wf[of "fst t" "snd t" ws' evs' "fst u" "snd u"] by simp
qed simp

subsection \<open>Rounds of acknowledges\<close>

text \<open>A peer that answers each time with the PSN of the last packet it got.\<close>

primrec ack_rounds ::
  "nat \<Rightarrow> roce_env \<Rightarrow> 'a roce_base_scheme \<Rightarrow> roce_qp \<Rightarrow> ('a roce_base_scheme \<times> roce_qp \<times> roce_event list) run" where
  "ack_rounds 0 env ctx qp = Inr (ctx, qp, [])"
| "ack_rounds (Suc n) env ctx qp =
     (if outgoing_pkts qp = [] then Inr (ctx, qp, [])
      else bindR (roce_handle_acknowledge env ctx qp IB_AETH_SYNDROME_ACK (roce_netpkt_psn (last (outgoing_pkts qp))))
        (\<lambda>(ctx1, qp1, evs1).
        bindR (ack_rounds n env ctx1 qp1) (\<lambda>(ctx2, qp2, evs2). Inr (ctx2, qp2, evs1 @ evs2))))"

fun is_comp :: "roce_event \<Rightarrow> bool" where
  "is_comp (Cq_comp _ _ _) = True"
| "is_comp _ = False"

lemma comp_xmit: "filter is_comp (map (roce_netpkt_xmit mm) pkts) = []"
  by (induction pkts) (simp_all add: roce_netpkt_xmit_def Let_def)

lemma comp_complete: "complete_wrs ctx qp ws = Inr (ctx', evs) \<Longrightarrow> filter is_comp evs = evs"
proof (induction ws arbitrary: ctx evs)
  case (Cons w ws)
  then obtain e ctx1 evs2 where "send_completion ctx qp w = Inr e" "complete_wrs ctx1 qp ws = Inr (ctx', evs2)"
    "evs = e @ evs2" by (auto simp: bindR_eq_Inr)
  moreover from this have "filter is_comp e = e"
    by (auto simp: send_completion_def bindR_eq_Inr cq_comp_def split: if_splits option.splits)
  ultimately show ?case using Cons.IH by simp
qed simp

lemma complete_wrs_same:
  assumes "handle qp1 = handle qp" "qp_scq qp1 = qp_scq qp" "sq_sig_all qp1 = sq_sig_all qp"
    "dest_qp_num (qp_attr qp1) = dest_qp_num (qp_attr qp)"
  shows "complete_wrs ctx qp1 ws = complete_wrs ctx qp ws"
proof (induction ws arbitrary: ctx)
  case (Cons w ws)
  moreover have "send_completion ctx qp1 w = send_completion ctx qp w" for ctx :: "'a roce_base_scheme"
    using assms by (simp add: send_completion_def signaled_def)
  ultimately show ?case by simp
qed simp

text \<open>What an acknowledge takes that names the \<open>i\<close>th PSN from the oldest unacknowledged one on, as far as the
  next one to be used: the packets up to it, or all that are outgoing.\<close>

lemma ack_count_nth:
  assumes wf: "rc_wf qp" and small: "length (rc_pkts qp) < 8388608" and i: "i \<le> length (rc_pkts qp)"
  shows "ack_count qp ((roce_qp_psn_inc ^^ i) (sq_psn (qp_attr qp))) = min (Suc i) (length (outgoing_pkts qp))"
proof -
  define p where "p = (roce_qp_psn_inc ^^ i) (sq_psn (qp_attr qp))"
  have u: "uint ((roce_qp_psn_inc ^^ j) (sq_psn (qp_attr qp))) = (uint (sq_psn (qp_attr qp)) + int j) mod 16777216" for j
    unfolding uint_nat unat_psn_steps[OF rc_wfD(1)[OF wf], of j] zmod_int by simp
  have d: "psn_dist (sq_psn (qp_attr qp)) p = - int i"
    by (rule psn_distI) (use i small in \<open>simp_all add: p_def u mod_diff_right_eq\<close>)
  have "psn_dist (req_psn qp) p = int (length (rc_pkts qp)) - int i"
  proof (rule psn_distI)
    have "req_psn qp = (roce_qp_psn_inc ^^ length (rc_pkts qp)) (sq_psn (qp_attr qp))" using wf by (simp add: rc_wf_def)
    then show "(uint (req_psn qp) - uint p) mod 16777216 = (int (length (rc_pkts qp)) - int i) mod 16777216"
      by (simp add: p_def u mod_diff_eq)
  qed (use i small in auto)
  moreover have "nat (1 + int i) = Suc i" by simp
  ultimately show ?thesis unfolding ack_count_def p_def[symmetric] d using i by simp
qed

lemma ack_count_all:
  assumes wf: "rc_wf qp" and ne: "outgoing_pkts qp \<noteq> []" and small: "length (rc_pkts qp) < 8388608"
  shows "ack_count qp (roce_netpkt_psn (last (outgoing_pkts qp))) = length (outgoing_pkts qp)"
proof -
  define n where "n = length (outgoing_pkts qp) - 1"
  have n: "n < length (outgoing_pkts qp)" "length (outgoing_pkts qp) = Suc n" using ne by (cases "outgoing_pkts qp"; simp add: n_def)+
  have "roce_netpkt_psn (last (outgoing_pkts qp)) = (roce_qp_psn_inc ^^ n) (sq_psn (qp_attr qp))"
    using ne rc_wfD(3)[OF wf n(1)] by (simp add: last_conv_nth n_def)
  then show ?thesis using ack_count_nth[OF wf small, of n] n by (simp add: rc_pkts_def)
qed

text \<open>No PSN in use wraps, and few enough packets wait for distances to be unambiguous.\<close>

definition psns_plain :: "roce_qp \<Rightarrow> bool" where
  "psns_plain qp \<longleftrightarrow> unat (sq_psn (qp_attr qp)) + length (rc_pkts qp) < psn_mod \<and> length (rc_pkts qp) < 8388608"

lemma after_all_plain:
  assumes "rc_wf qp" "psns_plain qp"
  shows "psns_plain (after_ack qp psn)"
  using assms ack_count_le[of qp psn] unat_psn_steps[OF rc_wfD(1)[OF assms(1)], of "ack_count qp psn"]
  unfolding psns_plain_def after_ack_wf(2)[OF assms(1)] by (auto simp: after_ack_def rc_pkts_def)

lemma moved_attr [simp]: "qp_attr (window_moved qp) = qp_attr qp" "sq_wrs (window_moved qp) = sq_wrs qp"
  "handle (window_moved qp) = handle qp" "qp_scq (window_moved qp) = qp_scq qp"
  "sq_sig_all (window_moved qp) = sq_sig_all qp" "req_psn (window_moved qp) = req_psn qp"
  by (simp_all add: window_moved_def)

lemma ack_round:
  assumes wf: "rc_wf qp" and ne: "outgoing_pkts qp \<noteq> []" and plain: "psns_plain qp"
    and comp: "complete_wrs ctx qp (filter wr_live (sq_wrs qp)) = Inr (ctx', evs)"
  shows "\<exists>ctx1 qp1 evs1 xs. roce_handle_acknowledge env ctx qp IB_AETH_SYNDROME_ACK
        (roce_netpkt_psn (last (outgoing_pkts qp))) = Inr (ctx1, qp1, evs1 @ map (roce_netpkt_xmit (env_mem env)) xs) \<and>
      rc_wf qp1 \<and> rc_settled qp1 \<and> psns_plain qp1 \<and> rc_pkts qp1 = pending_pkts qp \<and>
      filter is_comp evs1 = evs1 \<and>
      (\<exists>evs2. complete_wrs ctx1 qp1 (filter wr_live (sq_wrs qp1)) = Inr (ctx', evs2) \<and> evs = evs1 @ evs2)"
proof -
  define psn where "psn = roce_netpkt_psn (last (outgoing_pkts qp))"
  define qp1 where "qp1 = after_ack qp psn"
  have n: "ack_count qp psn = length (outgoing_pkts qp)"
    using ack_count_all[OF wf ne] plain by (simp add: psn_def psns_plain_def)
  note aw = after_ack_wf[OF wf, of psn, folded qp1_def]
  have cut: "filter wr_live (sq_wrs qp) = acked_wrs qp psn @ filter wr_live (sq_wrs qp1)"
    unfolding acked_wrs_def aw(3) by simp
  obtain ctx1 evs1 evs2 where c: "complete_wrs ctx qp (acked_wrs qp psn) = Inr (ctx1, evs1)"
    "complete_wrs ctx1 qp (filter wr_live (sq_wrs qp1)) = Inr (ctx', evs2)" "evs = evs1 @ evs2"
    using comp unfolding cut complete_wrs_append by (auto simp: bindR_eq_Inr)
  have ack: "roce_handle_ack ctx qp psn = Inr (ctx1, qp1, evs1)"
    by (simp add: handle_ack_run[OF wf] c(1) qp1_def)
  have plain1: "psns_plain qp1" unfolding qp1_def by (rule after_all_plain[OF wf plain])
  have xmit: "roce_xmit_pkts env qp1 = Inr (window_moved qp1, map (roce_netpkt_xmit (env_mem env)) (let_out qp1))"
    using plain1 by (intro xmit_pkts_no_wrap[OF aw(1)]) (simp add: psns_plain_def)
  have "complete_wrs ctx1 (window_moved qp1) ws = complete_wrs ctx1 qp ws" for ws
    by (rule complete_wrs_same) (simp_all add: qp1_def after_ack_def acked_qp_def)
  moreover have "psns_plain (window_moved qp1)" using plain1 by (simp add: psns_plain_def moved_pkts)
  moreover have "rc_pkts (window_moved qp1) = pending_pkts qp" unfolding moved_pkts aw(2) n by (simp add: rc_pkts_def)
  ultimately show ?thesis
    using c ack xmit moved_wf[OF aw(1)] moved_settled[of qp1] comp_complete[OF c(1)]
    by (intro exI[of _ ctx1] exI[of _ "window_moved qp1"] exI[of _ evs1] exI[of _ "let_out qp1"])
      (simp add: roce_handle_acknowledge_def flip: psn_def)
qed

lemma fresh_iff: "rc_wf qp \<Longrightarrow> rc_pkts qp = [] \<Longrightarrow> rc_fresh qp"
  by (auto simp: rc_wf_def rc_fresh_def rc_pkts_def)

lemma rounds_drain:
  assumes "rc_wf qp" "rc_settled qp" "psns_plain qp" "length (rc_pkts qp) \<le> n"
    "complete_wrs ctx qp (filter wr_live (sq_wrs qp)) = Inr (ctx', evs)"
  shows "\<exists>qp' evs'. ack_rounds n env ctx qp = Inr (ctx', qp', evs') \<and> rc_fresh qp' \<and> filter is_comp evs' = evs"
  using assms
proof (induction n arbitrary: ctx qp evs)
  case 0
  then have "rc_fresh qp" by (intro fresh_iff) simp_all
  then show ?case using "0.prems"(5) by (auto simp: rc_fresh_def)
next
  case (Suc n)
  show ?case
  proof (cases "outgoing_pkts qp = []")
    case True
    then have "rc_fresh qp" using Suc.prems(1,2) by (intro fresh_iff) (simp_all add: rc_pkts_def rc_settled_def)
    then show ?thesis using True Suc.prems(5) by (auto simp: rc_fresh_def)
  next
    case False
    obtain ctx1 qp1 evs1 xs evs2 where r: "roce_handle_acknowledge env ctx qp IB_AETH_SYNDROME_ACK
        (roce_netpkt_psn (last (outgoing_pkts qp))) = Inr (ctx1, qp1, evs1 @ map (roce_netpkt_xmit (env_mem env)) xs)"
      "rc_wf qp1" "rc_settled qp1" "psns_plain qp1" "rc_pkts qp1 = pending_pkts qp" "filter is_comp evs1 = evs1"
      "complete_wrs ctx1 qp1 (filter wr_live (sq_wrs qp1)) = Inr (ctx', evs2)" "evs = evs1 @ evs2"
      using ack_round[OF Suc.prems(1) False Suc.prems(3,5), of env] by blast
    have "length (rc_pkts qp1) \<le> n"
      using Suc.prems(4) False r(5) by (cases "outgoing_pkts qp") (auto simp: rc_pkts_def)
    from Suc.IH[OF r(2-4) this r(7)] show ?thesis using False r by (auto simp: comp_xmit)
  qed
qed

text \<open>When the PSNs in use wrap, a number compared as a plain integer is on the wrong side.\<close>

lemma xmit_pkts_exact:
  assumes wf: "rc_wf qp" and small: "length (rc_pkts qp) < 8388608"
  shows "roce_xmit_pkts env qp =
    (if outgoing_pkts qp = [] \<or> unat (sq_psn (qp_attr qp)) + length (rc_pkts qp) < psn_mod
     then Inr (window_moved qp, map (roce_netpkt_xmit (env_mem env)) (let_out qp)) else Inl Assert_failed)"
proof (cases "outgoing_pkts qp = [] \<or> unat (sq_psn (qp_attr qp)) + length (rc_pkts qp) < psn_mod")
  case True
  then show ?thesis using xmit_pkts_no_wrap[OF wf, of env] by (cases "outgoing_pkts qp = []") (auto simp: xmit_pkts_run[OF wf])
next
  case False
  define n where "n = length (outgoing_pkts qp) - 1"
  have n: "n < length (outgoing_pkts qp)" "n < length (rc_pkts qp)" "n \<le> 8"
    using False rc_wfD(2)[OF wf] by (cases "outgoing_pkts qp"; simp add: n_def rc_pkts_def)+
  have "roce_netpkt_psn (last (outgoing_pkts qp)) = (roce_qp_psn_inc ^^ n) (sq_psn (qp_attr qp))"
    using False rc_wfD(3)[OF wf n(1)] by (simp add: last_conv_nth n_def)
  moreover have "req_psn qp = (roce_qp_psn_inc ^^ length (rc_pkts qp)) (sq_psn (qp_attr qp))"
    using wf by (simp add: rc_wf_def)
  ultimately have u: "unat (roce_netpkt_psn (last (outgoing_pkts qp))) = (unat (sq_psn (qp_attr qp)) + n) mod psn_mod"
    "unat (req_psn qp) = (unat (sq_psn (qp_attr qp)) + length (rc_pkts qp)) mod psn_mod"
    by (simp_all add: unat_psn_steps[OF rc_wfD(1)[OF wf]])
  have sq: "unat (sq_psn (qp_attr qp)) < psn_mod" by (rule rc_wfD(1)[OF wf])
  have r: "unat (req_psn qp) = unat (sq_psn (qp_attr qp)) + length (rc_pkts qp) - psn_mod"
    using False small sq unfolding u(2) by (subst mod_if) auto
  have "\<not> (sq_psn (qp_attr qp) \<le> roce_netpkt_psn (last (outgoing_pkts qp)) \<and>
      roce_netpkt_psn (last (outgoing_pkts qp)) \<le> req_psn qp)"
  proof (cases "unat (sq_psn (qp_attr qp)) + n < psn_mod")
    case True
    then show ?thesis using r n small False by (auto simp: word_le_nat_alt u(1))
  next
    case wrap: False
    then have "unat (roce_netpkt_psn (last (outgoing_pkts qp))) < unat (sq_psn (qp_attr qp))"
      using n sq unfolding u(1) by (subst mod_if) auto
    then show ?thesis by (simp add: word_le_nat_alt)
  qed
  then show ?thesis using False by (simp add: xmit_pkts_run[OF wf])
qed

subsection \<open>Sample queue pairs\<close>

definition win_pkt :: "u32 \<Rightarrow> u64 option \<Rightarrow> roce_netpkt" where
  "win_pkt psn op = \<lparr>np_opaque = op, np_vneth = [], np_ethh = ethernet_hdr_zero, np_ip = [], np_udph = udp_hdr_zero,
     np_bth = ib_bth_set_psn ib_bth_zero psn, np_ext = [], np_pad = [], np_icrc = 0, np_iovs = []\<rparr>"

text \<open>A request of two packets that is outgoing, with the first PSN given.\<close>

definition win_qp :: "u32 \<Rightarrow> roce_qp" where
  "win_qp psn = send_qp\<lparr>sq_wrs := [send_wr\<lparr>swr_mapped := False\<rparr>], qp_attr := (qp_attr send_qp)\<lparr>sq_psn := psn\<rparr>,
     outgoing_pkts := [win_pkt psn None, win_pkt (roce_qp_psn_inc psn) (Some 0x7000)],
     req_psn := roce_qp_psn_inc (roce_qp_psn_inc psn)\<rparr>"

definition win_base :: roce_base where
  "win_base = send_base\<lparr>cq_res := \<lparr>res_size = 2, res_addr = Some
     [Some \<lparr>handle = 0, ref = 1, cq_cqe = 16, cq_comp_vector = 0, cq_ctx = 5\<rparr>, None]\<rparr>\<rparr>"

lemma win_pkt_psn: "roce_netpkt_psn (win_pkt psn op) = IB_BTH_PSN_MASK AND psn" "np_opaque (win_pkt psn op) = op"
  by (simp_all add: roce_netpkt_psn_def win_pkt_def view_set_u32_2 flip: bth_view_sel)

lemma win_wf:
  assumes "unat psn < psn_mod"
  shows "rc_wf (win_qp psn)"
proof -
  have "wr_live (send_wr\<lparr>swr_mapped := False\<rparr>)"
    by (simp add: wr_live_def send_wr_def roce_send_wr_is_local_def)
  moreover have "swr_ptr (send_wr\<lparr>swr_mapped := False\<rparr>) = 0x7000" by (simp add: send_wr_def)
  moreover have "psns psn (Suc (Suc 0)) = [psn, roce_qp_psn_inc psn]" unfolding psns_Suc by (simp add: psns_def)
  ultimately show ?thesis
    using assms psn_inc_less[of psn]
    by (simp add: rc_wf_def win_qp_def rc_pkts_def win_pkt_psn psn_mask_id send_qp_def sample_qp_def)
qed

lemma win_completes:
  "\<exists>wc. complete_wrs win_base (win_qp psn) [send_wr\<lparr>swr_mapped := False\<rparr>] = Inr (win_base, [Cq_comp wc 0 5]) \<and>
     wc_wr_id wc = 1 \<and> wc_byte_len wc = 32"
  by (simp add: send_completion_def signaled_def win_qp_def send_qp_def sample_qp_def roce_sge_len_def send_wr_def
      sample_sges_def roce_send_wr_opcode_to_wc_def cq_comp_def win_base_def res_map_two roce_free_send_wr_def)

lemma win_all: "unat psn < psn_mod \<Longrightarrow> ack_count (win_qp psn) (roce_qp_psn_inc psn) = 2"
  using ack_count_all[OF win_wf, of psn] psn_inc_less[of psn]
  by (simp add: win_qp_def win_pkt_psn psn_mask_id rc_pkts_def send_qp_def sample_qp_def)

lemma win_acked:
  assumes "unat psn < psn_mod"
  shows "acked_wrs (win_qp psn) (roce_qp_psn_inc psn) = [send_wr\<lparr>swr_mapped := False\<rparr>]"
  unfolding acked_wrs_def win_all[OF assms]
  by (simp add: win_qp_def win_pkt_psn wr_live_def send_wr_def roce_send_wr_is_local_def)

lemma send_post:
  "\<exists>qp' evs. roce_request_rc send_env send_base send_qp send_wr 2 = Inr (qp', evs) \<and> length (outgoing_pkts qp') = 2"
proof -
  define qp0 where "qp0 = send_qp\<lparr>sq_wrs := sq_wrs send_qp @ [send_wr]\<rparr>"
  define data where "data = wr_data (env_mem send_env) send_base send_wr"
  have "length data = 32"
    by (simp add: data_def wr_data_def roce_send_wr_is_inline_def send_wr_def sample_sges_def)
  then have cs: "length (chunks 16 data) = 2" by (simp add: chunks_gt chunks_le)
  have ready: "wr_ready send_base qp0 send_wr one_port (replicate 16 0) 12"
    using send_wr_ready by (simp add: wr_ready_def rc_ready_def qp0_def cong: if_cong)
  have mtu: "unat (path_mtu (qp_attr qp0)) = 16" by (simp add: qp0_def send_qp_def)
  obtain pkts where b: "roce_rc_build_pkts send_env send_base qp0 send_wr 2 =
      Inr (qp0\<lparr>pending_pkts := pending_pkts qp0 @ pkts, req_psn := (roce_qp_psn_inc ^^ 2) (req_psn qp0)\<rparr>, send_wr)"
    "list_all2 (pkt_of_seg (env_mem send_env) one_port (replicate 16 0) qp0) pkts
       (rc_segments send_wr (path_mtu (qp_attr qp0)) (req_psn qp0) data)"
    using build_pkts_run[OF ready data_def refl, of 2] cs mtu by auto
  have "length (rc_segments send_wr (path_mtu (qp_attr qp0)) (req_psn qp0) data) = 2"
    using arg_cong[OF segments_psn[of send_wr "path_mtu (qp_attr qp0)" "req_psn qp0" data], of length] cs mtu by simp
  then have len: "length pkts = 2" using list_all2_lengthD[OF b(2)] by simp
  define qp1 where "qp1 = sq_store send_wr (qp0\<lparr>pending_pkts := pending_pkts qp0 @ pkts,
    req_psn := (roce_qp_psn_inc ^^ 2) (req_psn qp0)\<rparr>)"
  have fresh: "rc_fresh send_qp" by (simp add: rc_fresh_def send_qp_def sample_qp_def)
  have "rc_wf qp1"
    unfolding qp1_def qp0_def
    by (rule build_wf[OF rc_fresh_wf[OF fresh] _ _ _ b(1)[unfolded qp0_def]])
      (simp_all add: send_qp_def sample_qp_def rc_postable_def rc_builds_def send_wr_def)
  moreover have "outgoing_pkts qp1 = []" "pending_pkts qp1 = pkts"
    by (simp_all add: qp1_def qp0_def send_qp_def sample_qp_def)
  moreover have err: "swr_error send_wr = 0" by (simp add: send_wr_def)
  ultimately have "roce_xmit_pkts send_env qp1 = Inr (window_moved qp1, map (roce_netpkt_xmit (env_mem send_env)) pkts)"
    "outgoing_pkts (window_moved qp1) = pkts"
    using len by (simp_all add: xmit_pkts_run let_out_def window_moved_def)
  then show ?thesis
    using b(1) len err by (simp add: roce_request_rc_def Let_def complete_head_live flip: qp1_def qp0_def)
qed

subsection \<open>Properties\<close>

text \<open>C2: The window over every run of an RC queue pair. Starting with all packets acknowledged, when the posted
  requests are not in the send queue already and each is a SEND, an RDMA WRITE, a local one or one that failed before
  it was posted, and whatever acknowledges arrive, true or forged: the packets that are outgoing
  and then those that wait have consecutive PSNs, from the oldest unacknowledged one up to the next one
  to be used; never more than nine are outgoing, and none waits while fewer are; and the packets that end
  a request match the unfinished requests of the send queue in order.\<close>

theorem rc_run_window:
  assumes "rc_run s ws evs t" "rc_fresh (snd s)"
    "\<forall>w \<in> set ws. swr_error w \<noteq> 0 \<or> roce_send_wr_is_local w \<or> wr_opcode (swr w) \<in> {ROCE_WR_SEND, ROCE_WR_SEND_WITH_IMM,
       ROCE_WR_SEND_WITH_INV, ROCE_WR_RDMA_WRITE, ROCE_WR_RDMA_WRITE_WITH_IMM}"
  shows "map roce_netpkt_psn (outgoing_pkts (snd t) @ pending_pkts (snd t)) =
      map (\<lambda>i. (roce_qp_psn_inc ^^ i) (sq_psn (qp_attr (snd t))))
        [0..<length (outgoing_pkts (snd t)) + length (pending_pkts (snd t))] \<and>
    req_psn (snd t) = (roce_qp_psn_inc ^^ (length (outgoing_pkts (snd t)) + length (pending_pkts (snd t))))
      (sq_psn (qp_attr (snd t))) \<and>
    length (outgoing_pkts (snd t)) \<le> 9 \<and>
    (length (outgoing_pkts (snd t)) < 9 \<longrightarrow> pending_pkts (snd t) = []) \<and>
    List.map_filter np_opaque (outgoing_pkts (snd t) @ pending_pkts (snd t)) =
      map swr_ptr (filter (\<lambda>w. \<not> roce_send_wr_is_local w \<and> swr_error w = 0) (sq_wrs (snd t)))"
proof -
  have "wr_live = (\<lambda>w. \<not> roce_send_wr_is_local w \<and> swr_error w = 0)" by (rule ext) (simp add: wr_live_def)
  moreover have "rc_wf (snd t) \<and> rc_settled (snd t)"
    using run_wf[OF assms(1)] rc_fresh_wf[OF assms(2)] assms(2,3)
    by (auto simp: rc_settled_def rc_fresh_def rc_postable_def rc_builds_def)
  ultimately show ?thesis by (simp add: rc_wf_def rc_settled_def rc_pkts_def psns_def pkt_wrs_def)
qed

lemma rc_run_window_witness:
  "\<exists>evs qp'. rc_run (send_base, send_qp) [send_wr] evs (send_base, qp') \<and> length (outgoing_pkts qp') = 2 \<and>
     pending_pkts qp' = [] \<and> req_psn qp' = roce_qp_psn_inc (roce_qp_psn_inc (sq_psn (qp_attr qp')))"
proof -
  obtain qp' evs where r: "roce_request_rc send_env send_base send_qp send_wr 2 = Inr (qp', evs)"
    "length (outgoing_pkts qp') = 2" using send_post by blast
  have "rc_step (send_base, send_qp) [send_wr] evs (send_base, qp')"
    by (rule rc_step.post[OF _ r(1)]) (simp add: send_qp_def sample_qp_def)
  then have run: "rc_run (send_base, send_qp) ([] @ [send_wr]) ([] @ evs) (send_base, qp')"
    by (rule rc_run.step[OF rc_run.start])
  have "rc_fresh (snd (send_base, send_qp))" by (simp add: rc_fresh_def send_qp_def sample_qp_def)
  from rc_run_window[OF run this] show ?thesis
    using run r(2) by (intro exI[of _ evs] exI[of _ qp']) (simp add: numeral_2_eq_2 send_wr_def)
qed

text \<open>C3: An acknowledge is cumulative and ordered: it takes a prefix of the outgoing packets, advances the oldest
  unacknowledged PSN past them, and completes the requests they end, in the order they were posted. One that
  names the \<open>i\<close>th PSN from the oldest unacknowledged one on takes the packets up to that one; if this PSN is
  that of a packet that waits, or the next one to be used, it is accepted all the same and takes every outgoing
  packet. One whose PSN is older, or beyond the next one to be used, changes nothing.\<close>

theorem roce_handle_ack_refines:
  assumes "rc_wf qp"
  shows "roce_handle_ack ctx qp psn =
      bindR (complete_wrs ctx qp (acked_wrs qp psn)) (\<lambda>(ctx', evs). Inr (ctx', after_ack qp psn, evs)) \<and>
    rc_pkts (after_ack qp psn) = drop (ack_count qp psn) (rc_pkts qp) \<and>
    sq_psn (qp_attr (after_ack qp psn)) = (roce_qp_psn_inc ^^ ack_count qp psn) (sq_psn (qp_attr qp)) \<and>
    acked_wrs qp psn @ filter wr_live (sq_wrs (after_ack qp psn)) = filter wr_live (sq_wrs qp) \<and>
    map swr_ptr (acked_wrs qp psn) = pkt_wrs (take (ack_count qp psn) (outgoing_pkts qp)) \<and>
    (\<forall>i. psn = (roce_qp_psn_inc ^^ i) (sq_psn (qp_attr qp)) \<and> i \<le> length (rc_pkts qp) \<and> length (rc_pkts qp) < 2 ^ 23 \<longrightarrow>
      ack_count qp psn = min (Suc i) (length (outgoing_pkts qp))) \<and>
    (0 < psn_dist (sq_psn (qp_attr qp)) psn \<or> psn_dist (req_psn qp) psn < 0 \<longrightarrow>
      roce_handle_ack ctx qp psn = Inr (ctx, qp, []))"
proof -
  note aw = after_ack_wf[OF assms, of psn]
  define n where "n = ack_count qp psn"
  have "rc_pkts qp = take n (outgoing_pkts qp) @ drop n (rc_pkts qp)"
    using ack_count_le[of qp psn] by (simp add: rc_pkts_def n_def)
  then have "map swr_ptr (filter wr_live (sq_wrs qp)) = pkt_wrs (take n (outgoing_pkts qp)) @ pkt_wrs (drop n (rc_pkts qp))"
    using assms unfolding rc_wf_def by (metis pkt_wrs_simps(2))
  then have "map swr_ptr (acked_wrs qp psn) = pkt_wrs (take (ack_count qp psn) (outgoing_pkts qp))"
    unfolding acked_wrs_def n_def by (simp flip: take_map)
  moreover have "acked_wrs qp psn @ filter wr_live (sq_wrs (after_ack qp psn)) = filter wr_live (sq_wrs qp)"
    unfolding acked_wrs_def aw(3) by (rule append_take_drop_id)
  moreover have "sq_psn (qp_attr (after_ack qp psn)) = (roce_qp_psn_inc ^^ ack_count qp psn) (sq_psn (qp_attr qp))"
    by (simp add: after_ack_def)
  moreover have "roce_handle_ack ctx qp psn = Inr (ctx, qp, [])"
    if "0 < psn_dist (sq_psn (qp_attr qp)) psn \<or> psn_dist (req_psn qp) psn < 0"
    using that by (auto simp: roce_handle_ack_def compare_psn_dist)
  moreover have "ack_count qp psn = min (Suc i) (length (outgoing_pkts qp))"
    if "psn = (roce_qp_psn_inc ^^ i) (sq_psn (qp_attr qp))" "i \<le> length (rc_pkts qp)" "length (rc_pkts qp) < 2 ^ 23" for i
    using that ack_count_nth[OF assms, of i] by simp
  ultimately show ?thesis using aw(2) handle_ack_run[OF assms, of ctx psn] by blast
qed

lemma roce_handle_ack_refines_witness:
  "\<exists>qp' wc. roce_handle_ack win_base (win_qp 16) 17 = Inr (win_base, qp', [Cq_comp wc 0 5]) \<and>
     sq_psn (qp_attr qp') = 18 \<and> rc_pkts qp' = []"
proof -
  have inc: "roce_qp_psn_inc 16 = 17" "roce_qp_psn_inc 17 = 18" by (simp_all add: roce_qp_psn_inc_def IB_BTH_PSN_MASK_def)
  have "unat (16 :: u32) < psn_mod" by simp
  note w = win_wf[OF this] and all = win_all[OF this, unfolded inc] and acked = win_acked[OF this, unfolded inc]
  show ?thesis
    using roce_handle_ack_refines[OF w, of win_base 17] win_completes[of 16] unfolding acked all
    by (auto simp: win_qp_def rc_pkts_def inc numeral_2_eq_2 send_qp_def sample_qp_def)
qed

text \<open>C14: The library aborts when the PSNs in use wrap: with packets outgoing, sending lets out exactly
  what the window allows while the sequence numbers from the oldest packet to the next one do not pass
  the top of the 24 bits, and fails its assertion whenever they do.\<close>

theorem roce_xmit_pkts_aborts_on_wrap:
  assumes "rc_wf qp" "length (outgoing_pkts qp) + length (pending_pkts qp) < 2 ^ 23" "outgoing_pkts qp \<noteq> []"
  shows "roce_xmit_pkts env qp =
    (if unat (sq_psn (qp_attr qp)) + (length (outgoing_pkts qp) + length (pending_pkts qp)) < 2 ^ 24
     then Inr (window_moved qp, map (roce_netpkt_xmit (env_mem env)) (let_out qp)) else Inl Assert_failed)"
  using xmit_pkts_exact[OF assms(1), of env] assms(2,3) by (simp add: rc_pkts_def)

lemma roce_xmit_pkts_aborts_on_wrap_witness:
  "roce_xmit_pkts send_env (win_qp 0xfffffe) = Inl Assert_failed \<and>
   roce_xmit_pkts send_env (win_qp 0xfffffd) = Inr (win_qp 0xfffffd, [])"
proof -
  have "rc_wf (win_qp 0xfffffe)" "rc_wf (win_qp 0xfffffd)" by (rule win_wf, simp)+
  from roce_xmit_pkts_aborts_on_wrap[OF this(1), of send_env] roce_xmit_pkts_aborts_on_wrap[OF this(2), of send_env]
  show ?thesis by (simp add: win_qp_def send_qp_def sample_qp_def window_moved_def let_out_def)
qed

text \<open>C13: A NAK is answered by going back: what lies before its PSN is taken as acknowledged, and then every
  packet of the window is sent, the outgoing ones again and those the window has room for, in order.\<close>

theorem roce_handle_nak_goes_back:
  assumes "rc_wf qp" "unat (sq_psn (qp_attr qp)) + length (rc_pkts qp) < 2 ^ 24"
    "complete_wrs ctx qp (acked_wrs qp ((psn - 1) AND IB_BTH_PSN_MASK)) = Inr (ctx', evs)"
  shows "\<exists>qp'. roce_handle_acknowledge env ctx qp IB_AETH_SYNDROME_NAK psn =
      Inr (ctx', qp', evs @ map (roce_netpkt_xmit (env_mem env)) (outgoing_pkts qp')) \<and>
    qp' = window_moved (after_ack qp ((psn - 1) AND IB_BTH_PSN_MASK))"
proof -
  define p where "p = (psn - 1) AND IB_BTH_PSN_MASK"
  note aw = after_ack_wf[OF assms(1), of p]
  have "ack_count qp p \<le> length (outgoing_pkts qp)" by (rule ack_count_le)
  then have "unat (sq_psn (qp_attr (after_ack qp p))) + length (rc_pkts (after_ack qp p)) < psn_mod"
    using assms(2) unat_psn_steps[OF rc_wfD(1)[OF assms(1)], of "ack_count qp p"]
    unfolding aw(2) by (simp add: after_ack_def rc_pkts_def)
  from xmit_pkts_no_wrap[OF aw(1) this, of env] show ?thesis
    using assms(3)
    by (simp add: roce_handle_acknowledge_def roce_handle_nak_def handle_ack_run[OF assms(1)] window_moved_def
        flip: p_def)
qed

lemma roce_handle_nak_goes_back_witness:
  "\<exists>qp' ev. roce_handle_acknowledge send_env win_base (win_qp 16) IB_AETH_SYNDROME_NAK 17 = Inr (win_base, qp', [ev]) \<and>
     outgoing_pkts qp' = [win_pkt 17 (Some 0x7000)]"
proof -
  have "unat (16 :: u32) < psn_mod" by simp
  note w = win_wf[OF this]
  have inc: "roce_qp_psn_inc 16 = 17" "roce_qp_psn_inc 17 = 18" by (simp_all add: roce_qp_psn_inc_def IB_BTH_PSN_MASK_def)
  have p: "(17 - 1) AND IB_BTH_PSN_MASK = (16 :: u32)" by (simp add: IB_BTH_PSN_MASK_def)
  have n: "ack_count (win_qp 16) 16 = 1"
    by (simp add: ack_count_def win_qp_def send_qp_def sample_qp_def psn_dist_def inc Let_def)
  have "acked_wrs (win_qp 16) 16 = []" unfolding acked_wrs_def n by (simp add: win_qp_def win_pkt_psn)
  then have c: "complete_wrs win_base (win_qp 16) (acked_wrs (win_qp 16) ((17 - 1) AND IB_BTH_PSN_MASK)) = Inr (win_base, [])"
    unfolding p by simp
  have small: "unat (sq_psn (qp_attr (win_qp 16))) + length (rc_pkts (win_qp 16)) < 2 ^ 24"
    by (simp add: win_qp_def rc_pkts_def send_qp_def sample_qp_def)
  have "outgoing_pkts (window_moved (after_ack (win_qp 16) 16)) = [win_pkt 17 (Some 0x7000)]"
    unfolding after_ack_def n by (simp add: window_moved_def let_out_def win_qp_def inc send_qp_def sample_qp_def)
  then show ?thesis using roce_handle_nak_goes_back[OF w small c, of send_env] unfolding p by auto
qed

text \<open>C8: Progress: while the peer answers each time with the PSN of the last packet it got, as many rounds
  as there are packets empty the queues; every unfinished request has then completed, each once, in the
  order of the posts.\<close>

theorem ack_rounds_complete_all:
  assumes "rc_wf qp" "rc_settled qp" "unat (sq_psn (qp_attr qp)) + length (rc_pkts qp) < 2 ^ 24"
    "length (rc_pkts qp) < 2 ^ 23" "complete_wrs ctx qp (filter wr_live (sq_wrs qp)) = Inr (ctx', evs)"
  shows "\<exists>qp' evs'. ack_rounds (length (rc_pkts qp)) env ctx qp = Inr (ctx', qp', evs') \<and>
    outgoing_pkts qp' = [] \<and> pending_pkts qp' = [] \<and> filter wr_live (sq_wrs qp') = [] \<and>
    filter is_comp evs' = evs"
proof -
  have "psns_plain qp" using assms(3,4) by (simp add: psns_plain_def)
  from rounds_drain[OF assms(1,2) this order_refl assms(5), of env] show ?thesis by (auto simp: rc_fresh_def)
qed

lemma ack_rounds_complete_all_witness:
  "\<exists>qp' evs' wc. ack_rounds 2 send_env win_base (win_qp 16) = Inr (win_base, qp', evs') \<and> outgoing_pkts qp' = [] \<and>
     filter is_comp evs' = [Cq_comp wc 0 5]"
proof -
  obtain wc where c: "complete_wrs win_base (win_qp 16) [send_wr\<lparr>swr_mapped := False\<rparr>] = Inr (win_base, [Cq_comp wc 0 5])"
    using win_completes by blast
  have live: "filter wr_live (sq_wrs (win_qp 16)) = [send_wr\<lparr>swr_mapped := False\<rparr>]"
    by (simp add: win_qp_def wr_live_def send_wr_def roce_send_wr_is_local_def)
  have n: "length (rc_pkts (win_qp 16)) = 2" "unat (sq_psn (qp_attr (win_qp 16))) = 16" "rc_settled (win_qp 16)"
    by (simp_all add: win_qp_def rc_pkts_def rc_settled_def send_qp_def sample_qp_def)
  have "rc_wf (win_qp 16)" by (rule win_wf) simp
  from ack_rounds_complete_all[OF this n(3), of win_base win_base "[Cq_comp wc 0 5]" send_env] show ?thesis
    using c live n by auto
qed

text \<open>C15: A request that the builder does not know blocks the send queue: an RDMA READ or an atomic is
  accepted, no packet and no completion comes of it, and once a later request is acknowledged the library
  fails its assertion that the acknowledged request is the head of the queue.\<close>

theorem roce_request_rc_unknown_aborts:
  assumes "wr_opcode (swr w) \<in> {ROCE_WR_RDMA_READ, ROCE_WR_ATOMIC_CMP_AND_SWP, ROCE_WR_ATOMIC_FETCH_AND_ADD}"
    "swr_error w = 0" "\<not> roce_send_wr_is_inline w" "rc_fresh qp" "sq_wrs qp = []"
  shows "roce_request_rc env ctx qp w room = Inr (qp\<lparr>sq_wrs := [w]\<rparr>, []) \<and>
    (np_opaque pkt = Some ptr \<and> ptr \<noteq> swr_ptr w \<longrightarrow>
       roce_rc_complete_send_wr ctx (qp\<lparr>sq_wrs := w # ws\<rparr>) pkt = Inl Assert_failed)"
proof
  have live: "wr_live w" using assms(1,2) by (auto simp: wr_live_def roce_send_wr_is_local_def)
  show "roce_request_rc env ctx qp w room = Inr (qp\<lparr>sq_wrs := [w]\<rparr>, [])"
    using assms live
    by (auto simp: roce_request_rc_def Let_def roce_rc_build_pkts_def roce_xmit_pkts_def sq_store_def rc_fresh_def
        complete_head_live)
  show "np_opaque pkt = Some ptr \<and> ptr \<noteq> swr_ptr w \<longrightarrow>
      roce_rc_complete_send_wr ctx (qp\<lparr>sq_wrs := w # ws\<rparr>) pkt = Inl Assert_failed"
    using live by (auto simp: roce_rc_complete_send_wr_def Let_def complete_head_live)
qed

lemma roce_request_rc_unknown_aborts_witness:
  "\<exists>qp'. roce_request_rc send_env send_base send_qp (send_wr\<lparr>swr := (swr send_wr)\<lparr>wr_opcode := ROCE_WR_RDMA_READ\<rparr>\<rparr>) 2 =
      Inr (qp', []) \<and> length (sq_wrs qp') = 1"
  by (rule exI, rule conjI, rule roce_request_rc_unknown_aborts[THEN conjunct1])
    (simp_all add: send_wr_def roce_send_wr_is_inline_def rc_fresh_def send_qp_def sample_qp_def)

end
