(* ===== verification/Rc_Recv.thy ===== *)
theory Rc_Recv
  imports Recv_Mem Rc_Run
begin

text \<open>
  What the responder does with the packets of a connection: it takes them in the order of their PSNs, a
  SEND fills the buffers of the oldest receive request and completes it, an RDMA WRITE stores into the
  memory its header names.
\<close>

subsection \<open>Filling a receive request\<close>

definition wr_stream :: "recv_wr_priv \<Rightarrow> (u32 \<times> u64) list" where
  "wr_stream w = sge_stream (rwr_sge (rwr w)) (rwr_sge_idx w) (rwr_sge_off w)"

text \<open>A receive request with registered buffers.\<close>

definition recv_ready :: "'a roce_base_scheme \<Rightarrow> u32 \<Rightarrow> nat \<Rightarrow> recv_wr_priv \<Rightarrow> bool" where
  "recv_ready ctx pd k w \<longleftrightarrow> res_wf (mr_res ctx) \<and> k < 32 \<and> page_size ctx = 2 ^ k \<and> rwr_ptr w \<noteq> 0 \<and>
     length (rwr_sge (rwr w)) \<le> 64 \<and> length (sges_bytes (rwr_sge (rwr w))) < 2 ^ 32 \<and>
     (\<forall>s \<in> set (rwr_sge (rwr w)). sge_granted ctx pd True ROCE_ACCESS_LOCAL_WRITE k s) \<and>
     sge_inside (rwr_sge (rwr w)) (rwr_sge_idx w) (rwr_sge_off w)"

text \<open>The request after \<open>n\<close> bytes were received.\<close>

definition wr_moved :: "recv_wr_priv \<Rightarrow> nat \<Rightarrow> recv_wr_priv \<Rightarrow> bool" where
  "wr_moved w n w' \<longleftrightarrow> rwr w' = rwr w \<and> rwr_ptr w' = rwr_ptr w \<and> rwr_byte_len w' = rwr_byte_len w + of_nat n \<and>
     wr_stream w' = drop n (wr_stream w) \<and> sge_inside (rwr_sge (rwr w)) (rwr_sge_idx w') (rwr_sge_off w')"

lemma moved_ready: "recv_ready ctx pd k w \<Longrightarrow> wr_moved w n w' \<Longrightarrow> recv_ready ctx pd k w'"
  by (simp add: recv_ready_def wr_moved_def)

lemma pages_spanned_two:
  assumes "n \<le> P" "0 < P"
  shows "pages_spanned P a n \<le> 2"
proof -
  define q r where "q = a div P" and "r = a mod P"
  have r: "r \<le> P - 1" using assms(2) mod_less_divisor[of P a] unfolding r_def by linarith
  have "a + n + P - 1 = q * P + (r + (n + P - 1))"
    using assms div_mult_mod_eq[of a P] unfolding q_def r_def by linarith
  then have "(a + n + P - 1) div P = q + (r + (n + P - 1)) div P"
    using assms(2) by (simp only: div_mult_self3 bot_nat_0.not_eq_extremum)
  moreover have "r + (n + P - 1) < 3 * P" using r assms by linarith
  then have "(r + (n + P - 1)) div P < 3" by (rule less_mult_imp_div_less)
  ultimately show ?thesis by (simp add: pages_spanned_def q_def)
qed

lemma span_pages_small:
  assumes "length sges \<le> 64" "length (sges_bytes sges) \<le> 2 ^ k"
  shows "span_pages k sges \<le> 128"
proof -
  have "unat (sge_length s) \<le> 2 ^ k" if "s \<in> set sges" for s
    using member_le_sum_list[of "unat (sge_length s)" "map (\<lambda>s. unat (sge_length s)) sges"] that assms(2)
    by (simp add: length_sges_bytes)
  then have "span_pages k sges \<le> (\<Sum>s\<leftarrow>sges. 2)"
    unfolding span_pages_def by (intro sum_list_mono pages_spanned_two) auto
  then show ?thesis using assms(1) by (simp add: sum_list_triv)
qed

lemma iov_len_run:
  "\<forall>v \<in> set vs. wf_iov v \<Longrightarrow> vs \<noteq> [] \<Longrightarrow> length (iovs_bytes (load m) vs) < 2 ^ 32 \<Longrightarrow>
   roce_iov_len vs = Inr (length (iovs_bytes (load m) vs))"
  by (simp add: roce_iov_len_def length_iovs_bytes iovs_total_def)

lemma recv_payload_run:
  assumes ready: "recv_ready ctx (qp_pd qp1) k w"
    and pop: "roce_pop_recv_wr qp inprocess = (rwr_ptr w, qp1)" "resp_heap qp1 (rwr_ptr w) = Some w"
    and vs: "\<forall>v \<in> set vs. wf_iov v" "vs \<noteq> []" "data = iovs_bytes (load (env_mem env)) vs"
    and len: "data \<noteq> []" "length data \<le> 2 ^ k" "length data \<le> length (wr_stream w)"
    and locs: "locs_ok (sge_locs ctx (take (length data) (wr_stream w))) vs"
  shows "\<exists>mm' w'. wr_moved w (length data) w' \<and>
    put_at (env_mem env) (sge_locs ctx (take (length data) (wr_stream w))) data mm' \<and>
    roce_recv_payload env ctx qp vs eth inprocess opcode =
      bindR (roce_recv_cq_comp ctx (recv_wr_set w' qp1) opcode (rwr_id (rwr w)) (rwr_byte_len w') eth ROCE_WC_SUCCESS)
        (\<lambda>(complete, evs). if complete then bindR (free_popped ctx (recv_wr_set w' qp1) w') (\<lambda>(ctx', qp3).
           Inr (0, mm', ctx', qp3\<lparr>resp_u := 0\<rparr>, evs)) else Inr (0, mm', ctx, recv_wr_set w' qp1, evs))"
proof -
  define sges where "sges = rwr_sge (rwr w)"
  define i off where "i = rwr_sge_idx w" and "off = rwr_sge_off w"
  define n where "n = length data"
  note r = ready[unfolded recv_ready_def, folded sges_def i_def off_def]
  have stream: "wr_stream w = sge_stream sges i off" by (simp add: wr_stream_def sges_def i_def off_def)
  have short: "length (sge_stream sges i off) \<le> length (sges_bytes sges)"
  proof -
    have "sges_bytes (take i sges @ drop i sges) = sges_bytes (take i sges) @ sges_bytes (drop i sges)"
      by (simp add: sges_bytes_def del: append_take_drop_id)
    then have "length (sges_bytes (drop i sges)) \<le> length (sges_bytes sges)" by simp
    then show ?thesis by (simp add: sge_stream_def)
  qed
  then have s32: "length (sge_stream sges i off) < 2 ^ 32" "n < 2 ^ 32" using r len(3) by (simp_all add: stream n_def)
  have n: "unat (of_nat n :: u32) = n" "(of_nat n :: u32) \<noteq> 0"
    using s32(2) len(1) by (simp_all add: unat_of_nat n_def word_unat_eq_iff)
  have i: "i < length sges"
  proof (rule ccontr)
    assume "\<not> i < length sges"
    then show False using len(1,3) by (simp add: stream sge_stream_def sges_bytes_def)
  qed
  have sl: "roce_sge_len sges i off = Inr (of_nat (length (wr_stream w)))"
    using r i s32(1) sge_len_stream[OF _ sge_inside_cursor, of sges i off] by (simp add: stream)
  have le: "\<not> (of_nat (length (wr_stream w)) :: u32) < of_nat n"
    using len(3) s32 by (simp add: word_less_nat_alt unat_of_nat stream n_def)
  obtain dst i' off' where slice: "rc_slice sges (of_nat n) (i, off) = Inr (dst, i', off')"
    "sges_bytes dst = take n (wr_stream w)" "sge_stream sges i' off' = drop n (wr_stream w)"
    "sge_inside sges i' off'" "\<forall>d \<in> set dst. sge_granted ctx (qp_pd qp1) True ROCE_ACCESS_LOCAL_WRITE k d"
    using rc_slice_run[of sges ctx "qp_pd qp1" True ROCE_ACCESS_LOCAL_WRITE k i off "of_nat n"] r n len(3)
    by (auto simp: stream n_def)
  have dl: "length dst \<le> 64" using slice(1) by (auto simp: rc_slice_def bindR_eq_Inr split: if_splits prod.splits)
  have sb: "length (sges_bytes dst) = n" unfolding slice(2) using len(3) by (simp add: n_def)
  have pages: "span_pages k dst \<le> 128"
    using span_pages_small[OF dl, of k] sb len(2) by (simp add: n_def)
  obtain mm' where copy: "map_and_copy env ctx qp1 dst True ROCE_ACCESS_LOCAL_WRITE vs = Inr (Inr (mm', []))"
    "put_at (env_mem env) (sge_locs ctx (take n (wr_stream w))) data mm'"
    using map_and_copy_run[OF _ _ _ slice(5) pages vs(1,2), of env] r locs sb
    unfolding slice(2) n_def vs(3) by auto
  define w' where "w' = w\<lparr>rwr_sge_idx := i', rwr_sge_off := off', rwr_byte_len := rwr_byte_len w + of_nat n\<rparr>"
  have moved: "wr_moved w n w'" using slice(3,4) by (simp add: wr_moved_def w'_def wr_stream_def sges_def)
  have il: "roce_iov_len vs = Inr n" using iov_len_run[OF vs(1,2), of "env_mem env"] s32(2) by (simp add: n_def vs(3))
  have p: "rwr_ptr w \<noteq> 0" using r by simp
  show ?thesis
    using copy moved p pop sl le slice(1) il
    by (intro exI[of _ mm'] exI[of _ w'])
      (simp add: roce_recv_payload_def recv_wr_at_def w'_def recv_wr_set_def Let_def cong: if_cong
        flip: n_def sges_def i_def off_def)
qed

subsection \<open>One packet\<close>

lemma psn_dist_self [simp]: "psn_dist p p = 0"
  by (simp add: psn_dist_def)

text \<open>The packet of a request with the expected PSN: what the switch does, then the acknowledge if one was
  asked for, and the next PSN.\<close>

lemma recv_rc_in_order:
  assumes "psn_dist (rq_psn (qp_attr qp)) (ib_bth_get_psn bth) = 0" "ib_bth_get_opcode bth \<noteq> IB_OPCODE_ACKNOWLEDGE"
    "rc_dispatch env ctx (qp\<lparr>in_psn_nak := False\<rparr>) iovs (ib_bth_get_opcode bth) True = Inr (0, mm, ctx1, qp1, evs1)"
    "qp_type qp1 = ROCE_QPT_RC" "path_ok ctx1 (qp_port_num (qp_attr qp1)) (qp_ah_attr (qp_attr qp1)) port sgid"
  shows "\<exists>msn evs2. roce_recv_rc env ctx iovs bth qp True = Inr (0, mm, ctx1,
      qp1\<lparr>resp_msn := msn, qp_attr := (qp_attr qp1)\<lparr>rq_psn := roce_qp_psn_inc (rq_psn (qp_attr qp1))\<rparr>\<rparr>, evs1 @ evs2) \<and>
    (if ib_bth_get_ack bth
     then \<exists>ev. evs2 = [ev] \<and> ack_sent port sgid qp1 IB_AETH_SYNDROME_ACK 0x1f (ib_bth_get_psn bth) ev
     else evs2 = [])"
proof (cases "ib_bth_get_ack bth")
  case True
  obtain ev where "roce_netpkt_acknowledge mm ctx1 qp1 IB_AETH_SYNDROME_ACK 0x1f (ib_bth_get_psn bth) True =
      Inr (qp1\<lparr>resp_msn := resp_msn qp1 + 1\<rparr>, [ev])"
    "ack_sent port sgid qp1 IB_AETH_SYNDROME_ACK 0x1f (ib_bth_get_psn bth) ev"
    using acknowledge_sent[OF assms(4,5) refl, of IB_AETH_SYNDROME_ACK mm "0x1f" "ib_bth_get_psn bth"] by auto
  then show ?thesis
    using True assms(1-3) by (intro exI[of _ "resp_msn qp1 + 1"] exI[of _ "[ev]"])
      (simp add: roce_recv_rc_def Let_def compare_psn_dist)
next
  case False
  then show ?thesis
    using assms(1-3) by (intro exI[of _ "resp_msn qp1"] exI[of _ "[]"])
      (simp add: roce_recv_rc_def Let_def compare_psn_dist)
qed

lemma ack_not_comp: "ack_sent port sgid qp syn val psn ev \<Longrightarrow> \<not> is_comp ev"
  by (auto simp: ack_sent_def)

subsection \<open>A message of several packets\<close>

text \<open>Packets that arrive one after the other: the vectors of the body, without headers and padding, and
  the transport header.\<close>

fun recv_run ::
  "roce_env \<Rightarrow> 'a roce_base_scheme \<Rightarrow> roce_qp \<Rightarrow> (iov list \<times> ib_bth) list \<Rightarrow>
   (mem \<times> 'a roce_base_scheme \<times> roce_qp \<times> roce_event list) run" where
  "recv_run env ctx qp [] = Inr (env_mem env, ctx, qp, [])"
| "recv_run env ctx qp ((iovs, bth) # ps) =
     bindR (roce_recv_rc env ctx iovs bth qp True) (\<lambda>(ret, mm, ctx1, qp1, evs1).
     bindR (recv_run (env\<lparr>env_mem := mm\<rparr>) ctx1 qp1 ps) (\<lambda>(mm2, ctx2, qp2, evs2).
     Inr (mm2, ctx2, qp2, evs1 @ evs2)))"

definition pkts_data :: "mem \<Rightarrow> (iov list \<times> ib_bth) list \<Rightarrow> u8 list" where
  "pkts_data mm ps = concat (map (\<lambda>(vs, b). iovs_bytes (load mm) vs) ps)"

text \<open>Bodies that a receive path with pages of \<open>2 ^ k\<close> bytes takes, apart from the addresses given.\<close>

definition body_ok :: "mem \<Rightarrow> nat \<Rightarrow> u64 list \<Rightarrow> iov list \<Rightarrow> bool" where
  "body_ok mm k as vs \<longleftrightarrow> (\<forall>v \<in> set vs. wf_iov v) \<and> vs \<noteq> [] \<and> iovs_bytes (load mm) vs \<noteq> [] \<and>
     length (iovs_bytes (load mm) vs) \<le> 2 ^ k \<and> set as \<inter> set (iovs_addrs vs) = {}"

lemma put_at_same:
  assumes "put_at mm as bs mm'" "set as \<inter> set (iovs_addrs vs) = {}"
  shows "iovs_bytes (load mm') vs = iovs_bytes (load mm) vs"
  using assms by (auto simp: iovs_bytes_addrs put_at_def)

lemma put_at_body_ok:
  assumes "put_at mm as bs mm'" "set as \<subseteq> set cs"
  shows "body_ok mm' k cs vs = body_ok mm k cs vs"
proof (cases "set cs \<inter> set (iovs_addrs vs) = {}")
  case True
  then have "set as \<inter> set (iovs_addrs vs) = {}" using assms(2) by blast
  then show ?thesis using put_at_same[OF assms(1)] by (simp add: body_ok_def)
qed (simp add: body_ok_def)

lemma put_at_append:
  assumes "put_at mm as bs mm1" "put_at mm1 cs ds mm2" "distinct (as @ cs)"
  shows "put_at mm (as @ cs) (bs @ ds) mm2"
proof -
  have "map mm2 as = map mm1 as"
    by (intro map_cong) (use assms in \<open>auto simp: put_at_def disjoint_iff\<close>)
  then show ?thesis using assms by (auto simp: put_at_def)
qed

lemma put_pd_ports: "put_pd_checked ctx h = Inr ctx' \<Longrightarrow> ports ctx' = ports ctx"
  by (auto simp: put_pd_checked_def roce_put_pd_def bindR_eq_Inr)

lemma destroy_mr_ports:
  assumes "roce_destroy_mr ctx h = Inr (ret, ctx')"
  shows "ports ctx' = ports ctx"
proof -
  obtain x where x: "roce_get_mr_noref ctx h = Inr x"
    "(case x of None \<Rightarrow> Inr (- EINVAL, ctx)
       | Some m \<Rightarrow>
           if ref m \<noteq> 0 then
             Inr (0, ctx\<lparr>mr_res := res_update (mr_res ctx) h (m\<lparr>mr_state := ROCE_MR_STATE_DESTROYED\<rparr>)\<rparr>)
           else bindR (roce_resource_free (mr_res ctx) h) (\<lambda>(ret, rs).
             let ctx1 = ctx\<lparr>mr_res := rs\<rparr> in
             if ret \<noteq> 0 then Inr (ret, ctx1)
             else bindR (put_pd_checked ctx1 (mr_pd m)) (\<lambda>ctx2. Inr (0, ctx2)))) = Inr (ret, ctx')"
    using assms unfolding roce_destroy_mr_def bindR_eq_Inr by blast
  then show ?thesis by (cases x) (auto simp: bindR_eq_Inr Let_def split: if_splits dest!: put_pd_ports)
qed

lemma put_mr_ports:
  assumes "roce_put_mr ctx h = Inr ctx'"
  shows "ports ctx' = ports ctx"
proof -
  obtain x where x: "(case x of None \<Rightarrow> Inr ctx
       | Some m \<Rightarrow>
           let ctx1 = ctx\<lparr>mr_res := res_update (mr_res ctx) h (m\<lparr>ref := ref m - 1\<rparr>)\<rparr> in
           if mr_state m = ROCE_MR_STATE_DESTROYED
           then bindR (roce_destroy_mr ctx1 h) (\<lambda>(ret, ctx2). Inr ctx2)
           else Inr ctx1) = Inr ctx'"
    using assms unfolding roce_put_mr_def bindR_eq_Inr by blast
  then show ?thesis by (cases x) (auto simp: bindR_eq_Inr Let_def split: if_splits dest!: destroy_mr_ports)
qed

lemma put_mrs_ports: "roce_put_mrs ctx sges = Inr ctx' \<Longrightarrow> ports ctx' = ports ctx"
proof -
  have "release roce_put_mr hs ctx = Inr ctx' \<Longrightarrow> ports ctx' = ports ctx" for hs
    by (induction hs arbitrary: ctx) (auto simp: bindR_eq_Inr dest: put_mr_ports)
  then show "roce_put_mrs ctx sges = Inr ctx' \<Longrightarrow> ports ctx' = ports ctx" by (simp add: roce_put_mrs_def)
qed

lemma path_ok_ports: "ports ctx' = ports ctx \<Longrightarrow> path_ok ctx' = path_ok ctx"
  by (simp add: path_ok_def port_at_def fun_eq_iff)

subsection \<open>A packet of a SEND\<close>

definition recv_peer :: "'a roce_base_scheme \<Rightarrow> roce_qp \<Rightarrow> roce_port \<Rightarrow> u8 list \<Rightarrow> bool" where
  "recv_peer ctx qp port sgid \<longleftrightarrow> qp_type qp = ROCE_QPT_RC \<and>
     path_ok ctx (qp_port_num (qp_attr qp)) (qp_ah_attr (qp_attr qp)) port sgid"

text \<open>The request that a SEND packet goes to: the one in work, or the head of the receive queue.\<close>

definition next_wr :: "roce_qp \<Rightarrow> bool \<Rightarrow> recv_wr_priv \<Rightarrow> bool" where
  "next_wr qp inprocess w \<longleftrightarrow> rwr_ptr w \<noteq> 0 \<and>
     (if inprocess then resp_u qp = rwr_ptr w \<and> resp_heap qp (rwr_ptr w) = Some w
      else resp_u qp = 0 \<and> (\<exists>ws. rq_wrs qp = w # ws))"

definition popped :: "bool \<Rightarrow> recv_wr_priv \<Rightarrow> roce_qp \<Rightarrow> roce_qp" where
  "popped inprocess w qp = (if inprocess then qp else qp\<lparr>rq_wrs := tl (rq_wrs qp),
     resp_heap := (resp_heap qp)(rwr_ptr w \<mapsto> w), resp_u := rwr_ptr w\<rparr>)"

lemma pop_next:
  "next_wr qp inprocess w \<Longrightarrow> roce_pop_recv_wr qp inprocess = (rwr_ptr w, popped inprocess w qp) \<and>
     resp_heap (popped inprocess w qp) (rwr_ptr w) = Some w"
  by (cases inprocess) (auto simp: next_wr_def popped_def roce_pop_recv_wr_def pop_recv_wr_def Let_def)

text \<open>The completion of a request of so many bytes.\<close>

definition recv_wc :: "roce_qp \<Rightarrow> recv_wr_priv \<Rightarrow> nat \<Rightarrow> roce_wc" where
  "recv_wc qp w n = roce_wc_zero\<lparr>wc_opcode := ROCE_WC_RECV, wc_byte_len := of_nat n, wc_wr_id := rwr_id (rwr w),
     wc_status := ROCE_WC_SUCCESS, wc_local_qpn := handle qp, wc_remote_qpn := dest_qp_num (qp_attr qp)\<rparr>"

lemma recv_table:
  "roce_recv_wr_opcode_to_wc IB_OPCODE_SEND_FIRST wc = Inr (wc\<lparr>wc_opcode := ROCE_WC_SEND\<rparr>, False)"
  "roce_recv_wr_opcode_to_wc IB_OPCODE_SEND_MIDDLE wc = Inr (wc\<lparr>wc_opcode := ROCE_WC_SEND\<rparr>, False)"
  "roce_recv_wr_opcode_to_wc IB_OPCODE_SEND_LAST wc = Inr (wc\<lparr>wc_opcode := ROCE_WC_RECV\<rparr>, True)"
  "roce_recv_wr_opcode_to_wc IB_OPCODE_SEND_ONLY wc = Inr (wc\<lparr>wc_opcode := ROCE_WC_RECV\<rparr>, True)"
  "roce_recv_wr_opcode_to_wc IB_OPCODE_RDMA_WRITE_FIRST wc = Inr (wc\<lparr>wc_opcode := ROCE_WC_SEND\<rparr>, False)"
  "roce_recv_wr_opcode_to_wc IB_OPCODE_RDMA_WRITE_MIDDLE wc = Inr (wc\<lparr>wc_opcode := ROCE_WC_SEND\<rparr>, False)"
  "roce_recv_wr_opcode_to_wc IB_OPCODE_RDMA_WRITE_LAST wc = Inr (wc\<lparr>wc_opcode := ROCE_WC_SEND\<rparr>, False)"
  "roce_recv_wr_opcode_to_wc IB_OPCODE_RDMA_WRITE_ONLY wc = Inr (wc\<lparr>wc_opcode := ROCE_WC_SEND\<rparr>, False)"
  by (simp_all add: roce_recv_wr_opcode_to_wc_def IB_OPCODE_MASK_def)

lemma recv_comp_part:
  "opcode = IB_OPCODE_SEND_FIRST \<or> opcode = IB_OPCODE_SEND_MIDDLE \<Longrightarrow>
   roce_recv_cq_comp ctx qp opcode wrid n eth ROCE_WC_SUCCESS = Inr (False, [])"
  by (elim disjE) (simp_all add: roce_recv_cq_comp_def recv_table)

lemma recv_comp_last:
  assumes "opcode = IB_OPCODE_SEND_LAST \<or> opcode = IB_OPCODE_SEND_ONLY" "qp_type qp = ROCE_QPT_RC"
    "res_map (cq_res ctx) (qp_rcq qp) = Some q"
  shows "roce_recv_cq_comp ctx qp opcode (rwr_id (rwr w)) (of_nat n) None ROCE_WC_SUCCESS =
    Inr (True, [Cq_comp (recv_wc qp w n) (handle q) (cq_ctx q)])"
  using assms by (elim disjE) (simp_all add: roce_recv_cq_comp_def recv_table cq_comp_def recv_wc_def roce_wc_zero_def)

definition send_inprocess :: "u8 \<Rightarrow> bool" where
  "send_inprocess opcode \<longleftrightarrow> opcode = IB_OPCODE_SEND_MIDDLE \<or> opcode = IB_OPCODE_SEND_LAST"

lemma dispatch_send:
  assumes "opcode \<in> {IB_OPCODE_SEND_FIRST, IB_OPCODE_SEND_MIDDLE, IB_OPCODE_SEND_LAST, IB_OPCODE_SEND_ONLY}"
  shows "rc_dispatch env ctx qp vs opcode ok = roce_recv_payload env ctx qp vs None (send_inprocess opcode) opcode"
  using assms by (auto simp: rc_dispatch_def send_inprocess_def)

lemma popped_sel [simp]:
  "qp_type (popped b w qp) = qp_type qp" "qp_pd (popped b w qp) = qp_pd qp" "qp_attr (popped b w qp) = qp_attr qp"
  "qp_rcq (popped b w qp) = qp_rcq qp" "handle (popped b w qp) = handle qp"
  by (simp_all add: popped_def)

lemma set_sel [simp]:
  "qp_type (recv_wr_set w qp) = qp_type qp" "qp_pd (recv_wr_set w qp) = qp_pd qp"
  "qp_attr (recv_wr_set w qp) = qp_attr qp" "qp_rcq (recv_wr_set w qp) = qp_rcq qp"
  "handle (recv_wr_set w qp) = handle qp" "resp_u (recv_wr_set w qp) = resp_u qp"
  "rq_wrs (recv_wr_set w qp) = rq_wrs qp" "resp_heap (recv_wr_set w qp) = (resp_heap qp)(rwr_ptr w \<mapsto> w)"
  by (simp_all add: recv_wr_set_def)

lemma recv_send_packet:
  assumes ready: "recv_ready ctx (qp_pd qp) k w" and peer: "recv_peer ctx qp port sgid"
    and next_wr: "next_wr qp (send_inprocess opcode) w"
    and bth: "ib_bth_get_psn bth = rq_psn (qp_attr qp)" "ib_bth_get_opcode bth = opcode"
    and body: "body_ok (env_mem env) k (sge_locs ctx (wr_stream w)) vs" "data = iovs_bytes (load (env_mem env)) vs"
    and len: "length data \<le> length (wr_stream w)" and dist: "distinct (sge_locs ctx (wr_stream w))"
    and op: "opcode = IB_OPCODE_SEND_FIRST \<or> opcode = IB_OPCODE_SEND_MIDDLE \<or>
      (opcode = IB_OPCODE_SEND_LAST \<or> opcode = IB_OPCODE_SEND_ONLY) \<and>
      res_map (cq_res ctx) (qp_rcq qp) = Some q \<and> roce_put_mrs ctx (rwr_sge (rwr w)) = Inr ctx'"
  shows "\<exists>mm' w' msn evs. wr_moved w (length data) w' \<and>
    put_at (env_mem env) (take (length data) (sge_locs ctx (wr_stream w))) data mm' \<and>
    (let qp1 = recv_wr_set w' (popped (send_inprocess opcode) w (qp\<lparr>in_psn_nak := False\<rparr>));
         attr = (qp_attr qp)\<lparr>rq_psn := roce_qp_psn_inc (rq_psn (qp_attr qp))\<rparr>;
         part = opcode = IB_OPCODE_SEND_FIRST \<or> opcode = IB_OPCODE_SEND_MIDDLE in
     roce_recv_rc env ctx vs bth qp True =
       Inr (0, mm', if part then ctx else ctx',
         (if part then qp1 else qp1\<lparr>resp_heap := (resp_heap qp1)(rwr_ptr w := None), resp_u := 0\<rparr>)
           \<lparr>resp_msn := msn, qp_attr := attr\<rparr>, evs) \<and>
     filter is_comp evs = (if part then [] else [Cq_comp (recv_wc qp w (unat (rwr_byte_len w'))) (handle q) (cq_ctx q)]))"
proof -
  define qp0 where "qp0 = qp\<lparr>in_psn_nak := False\<rparr>"
  define inp where "inp = send_inprocess opcode"
  define qpp where "qpp = popped inp w qp0"
  define part where "part \<longleftrightarrow> opcode = IB_OPCODE_SEND_FIRST \<or> opcode = IB_OPCODE_SEND_MIDDLE"
  have pop: "roce_pop_recv_wr qp0 inp = (rwr_ptr w, qpp)" "resp_heap qpp (rwr_ptr w) = Some w"
    using pop_next[of qp0 inp w] next_wr by (simp_all add: qp0_def next_wr_def qpp_def inp_def)
  have qpp: "qp_type qpp = ROCE_QPT_RC" "qp_pd qpp = qp_pd qp" "qp_attr qpp = qp_attr qp" "qp_rcq qpp = qp_rcq qp"
    "handle qpp = handle qp"
    using peer by (simp_all add: qpp_def qp0_def recv_peer_def)
  have locs: "locs_ok (sge_locs ctx (take (length data) (wr_stream w))) vs"
    using body(1) dist by (auto simp: locs_ok_def sge_locs_take body_ok_def dest: in_set_takeD)
  have vsok: "\<forall>v \<in> set vs. wf_iov v" "vs \<noteq> []" using body(1) by (simp_all add: body_ok_def)
  have ne: "data \<noteq> []" "length data \<le> 2 ^ k" using body by (simp_all add: body_ok_def)
  obtain mm' w' where run: "wr_moved w (length data) w'"
    "put_at (env_mem env) (sge_locs ctx (take (length data) (wr_stream w))) data mm'"
    "roce_recv_payload env ctx qp0 vs None inp opcode =
      bindR (roce_recv_cq_comp ctx (recv_wr_set w' qpp) opcode (rwr_id (rwr w)) (rwr_byte_len w') None ROCE_WC_SUCCESS)
        (\<lambda>(complete, evs). if complete then bindR (free_popped ctx (recv_wr_set w' qpp) w') (\<lambda>(ctx', qp3).
           Inr (0, mm', ctx', qp3\<lparr>resp_u := 0\<rparr>, evs)) else Inr (0, mm', ctx, recv_wr_set w' qpp, evs))"
    using recv_payload_run[OF ready[folded qpp(2)] pop vsok body(2) ne len locs, of None opcode] by blast
  define qp1 where "qp1 = recv_wr_set w' qpp"
  have w': "rwr w' = rwr w" "rwr_ptr w' = rwr_ptr w" using run(1) by (simp_all add: wr_moved_def)
  define qpe where "qpe = (if part then qp1 else qp1\<lparr>resp_heap := (resp_heap qp1)(rwr_ptr w := None), resp_u := 0\<rparr>)"
  define ctxe where "ctxe = (if part then ctx else ctx')"
  define comp where "comp = (if part then [] else [Cq_comp (recv_wc qp w (unat (rwr_byte_len w'))) (handle q) (cq_ctx q)])"
  have ops: "opcode \<in> {IB_OPCODE_SEND_FIRST, IB_OPCODE_SEND_MIDDLE, IB_OPCODE_SEND_LAST, IB_OPCODE_SEND_ONLY}"
    using op by auto
  have disp: "rc_dispatch env ctx qp0 vs opcode True = Inr (0, mm', ctxe, qpe, comp)"
  proof (cases part)
    case True
    then show ?thesis
      using recv_comp_part[of opcode ctx qp1] run(3)
      by (simp add: dispatch_send[OF ops] part_def qpe_def ctxe_def comp_def flip: inp_def qp1_def)
  next
    case False
    then have last: "opcode = IB_OPCODE_SEND_LAST \<or> opcode = IB_OPCODE_SEND_ONLY"
      "res_map (cq_res ctx) (qp_rcq qp1) = Some q" "roce_put_mrs ctx (rwr_sge (rwr w)) = Inr ctx'" "qp_type qp1 = ROCE_QPT_RC"
      using op qpp by (auto simp: part_def qp1_def)
    have "recv_wc qp1 w n = recv_wc qp w n" for n using qpp by (simp add: recv_wc_def qp1_def)
    then have "roce_recv_cq_comp ctx qp1 opcode (rwr_id (rwr w)) (rwr_byte_len w') None ROCE_WC_SUCCESS = Inr (True, comp)"
      using recv_comp_last[OF last(1,4,2), of w "unat (rwr_byte_len w')"] False by (simp add: comp_def)
    then show ?thesis
      using False run(3) last(3) w'
      by (simp add: dispatch_send[OF ops] qpe_def ctxe_def free_popped_def roce_free_recv_wr_def flip: inp_def qp1_def)
  qed
  have qpe: "qp_type qpe = ROCE_QPT_RC" "qp_attr qpe = qp_attr qp" using qpp by (simp_all add: qpe_def qp1_def)
  have "ports ctxe = ports ctx" using op put_mrs_ports[of ctx "rwr_sge (rwr w)" ctx'] by (auto simp: ctxe_def part_def)
  then have path: "path_ok ctxe (qp_port_num (qp_attr qpe)) (qp_ah_attr (qp_attr qpe)) port sgid"
    using peer qpe(2) path_ok_ports[of ctxe ctx] by (simp add: recv_peer_def)
  have psn: "psn_dist (rq_psn (qp_attr qp)) (ib_bth_get_psn bth) = 0" using bth(1) by simp
  have noack: "ib_bth_get_opcode bth \<noteq> IB_OPCODE_ACKNOWLEDGE" using ops bth(2) by auto
  obtain msn evs2 where r: "roce_recv_rc env ctx vs bth qp True = Inr (0, mm', ctxe,
      qpe\<lparr>resp_msn := msn, qp_attr := (qp_attr qp)\<lparr>rq_psn := roce_qp_psn_inc (rq_psn (qp_attr qp))\<rparr>\<rparr>, comp @ evs2)"
    "if ib_bth_get_ack bth
     then \<exists>ev. evs2 = [ev] \<and> ack_sent port sgid qpe IB_AETH_SYNDROME_ACK 0x1f (ib_bth_get_psn bth) ev
     else evs2 = []"
    using recv_rc_in_order[OF psn noack disp[folded bth(2), unfolded qp0_def] qpe(1) path] unfolding qpe(2) by blast
  have "filter is_comp evs2 = []" using r(2) ack_not_comp by (auto split: if_splits)
  moreover have "filter is_comp comp = comp" by (simp add: comp_def)
  ultimately show ?thesis
    using run(1,2) r(1)
    by (intro exI[of _ mm'] exI[of _ w'] exI[of _ msn] exI[of _ "comp @ evs2"])
      (simp add: Let_def sge_locs_take qpe_def ctxe_def qp1_def qpp_def comp_def flip: part_def inp_def qp0_def)
qed

lemma wr_locs_moved: "wr_moved w n w' \<Longrightarrow> sge_locs ctx (wr_stream w') = drop n (sge_locs ctx (wr_stream w))"
  by (simp add: wr_moved_def sge_locs_def drop_map)

lemma pkts_data_simps [simp]:
  "pkts_data mm [] = []" "pkts_data mm ((vs, b) # ps) = iovs_bytes (load mm) vs @ pkts_data mm ps"
  by (simp_all add: pkts_data_def)

lemma body_ok_drop: "body_ok mm k as vs \<Longrightarrow> body_ok mm k (drop n as) vs"
  by (auto simp: body_ok_def dest: in_set_dropD)

lemma bodies_kept:
  assumes "put_at mm (take n as) bs mm'" "\<forall>(vs, b) \<in> set ps. body_ok mm k as vs"
  shows "pkts_data mm' ps = pkts_data mm ps" "\<forall>(vs, b) \<in> set ps. body_ok mm' k (drop n as) vs"
proof -
  have sub: "set (take n as) \<subseteq> set as" by (rule set_take_subset)
  have "iovs_bytes (load mm') vs = iovs_bytes (load mm) vs" if "(vs, b) \<in> set ps" for vs b
  proof (rule put_at_same[OF assms(1)])
    have "body_ok mm k as vs" using that assms(2) by auto
    then show "set (take n as) \<inter> set (iovs_addrs vs) = {}" using sub by (auto simp: body_ok_def)
  qed
  then have "map (\<lambda>(vs, b). iovs_bytes (load mm') vs) ps = map (\<lambda>(vs, b). iovs_bytes (load mm) vs) ps"
    by (intro map_cong) (auto split: prod.splits)
  then show "pkts_data mm' ps = pkts_data mm ps" unfolding pkts_data_def by (rule arg_cong)
  show "\<forall>(vs, b) \<in> set ps. body_ok mm' k (drop n as) vs"
  proof clarify
    fix vs b assume "(vs, b) \<in> set ps"
    then have "body_ok mm k as vs" using assms(2) by auto
    then show "body_ok mm' k (drop n as) vs" using put_at_body_ok[OF assms(1) sub] body_ok_drop by blast
  qed
qed

text \<open>A message: its packets in the order of their PSNs, the bodies apart from the buffers they go to.\<close>

definition message_ok :: "mem \<Rightarrow> nat \<Rightarrow> u64 list \<Rightarrow> u32 \<Rightarrow> u8 list \<Rightarrow> (iov list \<times> ib_bth) list \<Rightarrow> bool" where
  "message_ok mm k as psn ops ps \<longleftrightarrow> map (\<lambda>(vs, b). ib_bth_get_opcode b) ps = ops \<and>
     map (\<lambda>(vs, b). ib_bth_get_psn b) ps = psns psn (length ps) \<and>
     (\<forall>(vs, b) \<in> set ps. body_ok mm k as vs) \<and> distinct as \<and> length (pkts_data mm ps) \<le> length as"

lemma message_tail:
  assumes "message_ok mm k as psn (op # ops) ((vs, b) # ps)" "put_at mm (take (length (iovs_bytes (load mm) vs)) as) bs mm'"
  shows "message_ok mm' k (drop (length (iovs_bytes (load mm) vs)) as) (roce_qp_psn_inc psn) ops ps"
    "pkts_data mm' ps = pkts_data mm ps"
proof -
  have all: "\<forall>(vs, b) \<in> set ps. body_ok mm k as vs" using assms(1) by (simp add: message_ok_def)
  note kept = bodies_kept[OF assms(2) all]
  then show "message_ok mm' k (drop (length (iovs_bytes (load mm) vs)) as) (roce_qp_psn_inc psn) ops ps"
    "pkts_data mm' ps = pkts_data mm ps"
    using assms(1) by (auto simp: message_ok_def psns_Suc)
qed

lemma put_at_message:
  assumes "put_at mm (take n as) bs mm1" "put_at mm1 (take m (drop n as)) ds mm2" "distinct as"
  shows "put_at mm (take (n + m) as) (bs @ ds) mm2"
  using put_at_append[OF assms(1,2)] distinct_take[OF assms(3), of "n + m"] by (simp add: take_add)

lemma recv_send_rest:
  assumes "recv_ready ctx (qp_pd qp) k w" "recv_peer ctx qp port sgid" "next_wr qp True w"
    "res_map (cq_res ctx) (qp_rcq qp) = Some q" "roce_put_mrs ctx (rwr_sge (rwr w)) = Inr ctx'"
    "message_ok (env_mem env) k (sge_locs ctx (wr_stream w)) (rq_psn (qp_attr qp))
       (replicate n IB_OPCODE_SEND_MIDDLE @ [IB_OPCODE_SEND_LAST]) ps"
  shows "\<exists>mm' qp' evs. recv_run env ctx qp ps = Inr (mm', ctx', qp', evs) \<and>
    put_at (env_mem env) (take (length (pkts_data (env_mem env) ps)) (sge_locs ctx (wr_stream w)))
      (pkts_data (env_mem env) ps) mm' \<and>
    filter is_comp evs = [Cq_comp (recv_wc qp w (unat (rwr_byte_len w + of_nat (length (pkts_data (env_mem env) ps)))))
      (handle q) (cq_ctx q)] \<and>
    rq_psn (qp_attr qp') = (roce_qp_psn_inc ^^ length ps) (rq_psn (qp_attr qp)) \<and> resp_u qp' = 0 \<and> rq_wrs qp' = rq_wrs qp"
  using assms
proof (induction n arbitrary: env qp w ps)
  case 0
  then obtain vs b where ps: "ps = [(vs, b)]" "ib_bth_get_opcode b = IB_OPCODE_SEND_LAST"
    by (auto simp: message_ok_def map_eq_Cons_conv)
  note m = "0.prems"(6)[unfolded message_ok_def ps(1)]
  have in_work: "next_wr qp (send_inprocess IB_OPCODE_SEND_LAST) w" using "0.prems"(3) by (simp add: send_inprocess_def)
  have psn: "ib_bth_get_psn b = rq_psn (qp_attr qp)" using m by (simp add: psns_def)
  have body: "body_ok (env_mem env) k (sge_locs ctx (wr_stream w)) vs"
    "length (iovs_bytes (load (env_mem env)) vs) \<le> length (wr_stream w)" "distinct (sge_locs ctx (wr_stream w))"
    using m by simp_all
  obtain mm' w' msn evs where r: "wr_moved w (length (iovs_bytes (load (env_mem env)) vs)) w'"
    "put_at (env_mem env) (take (length (iovs_bytes (load (env_mem env)) vs)) (sge_locs ctx (wr_stream w)))
      (iovs_bytes (load (env_mem env)) vs) mm'"
    "\<exists>qp1. resp_u qp1 = 0 \<and> rq_wrs qp1 = rq_wrs qp \<and>
       rq_psn (qp_attr qp1) = roce_qp_psn_inc (rq_psn (qp_attr qp)) \<and>
       roce_recv_rc env ctx vs b qp True = Inr (0, mm', ctx', qp1, evs)"
    "filter is_comp evs = [Cq_comp (recv_wc qp w (unat (rwr_byte_len w'))) (handle q) (cq_ctx q)]"
    using recv_send_packet[OF "0.prems"(1,2) in_work psn ps(2) body(1) refl body(2,3), of q ctx'] "0.prems"(4,5)
    by (auto simp: Let_def popped_def send_inprocess_def)
  then show ?case
    by (auto simp: ps(1) wr_moved_def)
next
  case (Suc n)
  obtain vs b rest where ps: "ps = (vs, b) # rest" "ib_bth_get_opcode b = IB_OPCODE_SEND_MIDDLE"
    using Suc.prems(6) by (auto simp: message_ok_def map_eq_Cons_conv)
  define d where "d = iovs_bytes (load (env_mem env)) vs"
  note m = Suc.prems(6)[unfolded ps(1)]
  have in_work: "next_wr qp (send_inprocess IB_OPCODE_SEND_MIDDLE) w" using Suc.prems(3) by (simp add: send_inprocess_def)
  have psn: "ib_bth_get_psn b = rq_psn (qp_attr qp)" using m by (simp add: message_ok_def psns_Suc)
  have body: "body_ok (env_mem env) k (sge_locs ctx (wr_stream w)) vs"
    "length d \<le> length (wr_stream w)" "distinct (sge_locs ctx (wr_stream w))"
    using m by (simp_all add: message_ok_def d_def)
  obtain mm1 w1 msn evs1 where r: "wr_moved w (length d) w1"
    "put_at (env_mem env) (take (length d) (sge_locs ctx (wr_stream w))) d mm1"
    "roce_recv_rc env ctx vs b qp True = Inr (0, mm1, ctx, (recv_wr_set w1 (qp\<lparr>in_psn_nak := False\<rparr>))\<lparr>resp_msn := msn,
       qp_attr := (qp_attr qp)\<lparr>rq_psn := roce_qp_psn_inc (rq_psn (qp_attr qp))\<rparr>\<rparr>, evs1)"
    "filter is_comp evs1 = []"
    using recv_send_packet[OF Suc.prems(1,2) in_work psn ps(2) body(1) d_def body(2,3), of q ctx']
    by (auto simp: Let_def popped_def send_inprocess_def)
  define qp1 where "qp1 = (recv_wr_set w1 (qp\<lparr>in_psn_nak := False\<rparr>))\<lparr>resp_msn := msn,
       qp_attr := (qp_attr qp)\<lparr>rq_psn := roce_qp_psn_inc (rq_psn (qp_attr qp))\<rparr>\<rparr>"
  define env1 where "env1 = env\<lparr>env_mem := mm1\<rparr>"
  have w1: "rwr w1 = rwr w" "rwr_ptr w1 = rwr_ptr w" "rwr_byte_len w1 = rwr_byte_len w + of_nat (length d)"
    using r(1) by (simp_all add: wr_moved_def)
  have qp1: "qp_pd qp1 = qp_pd qp" "qp_rcq qp1 = qp_rcq qp" "rq_wrs qp1 = rq_wrs qp" "recv_wc qp1 = recv_wc qp"
    "rq_psn (qp_attr qp1) = roce_qp_psn_inc (rq_psn (qp_attr qp))"
    by (simp_all add: qp1_def recv_wc_def fun_eq_iff)
  have ready1: "recv_ready ctx (qp_pd qp1) k w1" unfolding qp1 using moved_ready[OF Suc.prems(1) r(1)] .
  have peer1: "recv_peer ctx qp1 port sgid" using Suc.prems(2) by (simp add: recv_peer_def qp1_def)
  have next1: "next_wr qp1 True w1" using Suc.prems(3) w1 by (simp add: next_wr_def qp1_def)
  note tail = message_tail[OF m[simplified] r(2)[unfolded d_def], folded d_def]
  have msg1: "message_ok (env_mem env1) k (sge_locs ctx (wr_stream w1)) (rq_psn (qp_attr qp1))
      (replicate n IB_OPCODE_SEND_MIDDLE @ [IB_OPCODE_SEND_LAST]) rest"
    using tail(1) by (simp add: env1_def wr_locs_moved[OF r(1)] qp1)
  have put1: "roce_put_mrs ctx (rwr_sge (rwr w1)) = Inr ctx'" using Suc.prems(5) w1 by simp
  obtain mm' qp' evs2 where IH: "recv_run env1 ctx qp1 rest = Inr (mm', ctx', qp', evs2)"
    "put_at mm1 (take (length (pkts_data mm1 rest)) (sge_locs ctx (wr_stream w1))) (pkts_data mm1 rest) mm'"
    "filter is_comp evs2 = [Cq_comp (recv_wc qp1 w1 (unat (rwr_byte_len w1 + of_nat (length (pkts_data mm1 rest)))))
      (handle q) (cq_ctx q)]"
    "rq_psn (qp_attr qp') = (roce_qp_psn_inc ^^ length rest) (rq_psn (qp_attr qp1))" "resp_u qp' = 0"
    "rq_wrs qp' = rq_wrs qp1"
    using Suc.IH[OF ready1 peer1 next1 Suc.prems(4)[folded qp1(2)] put1 msg1] by (auto simp: env1_def)
  have run: "recv_run env ctx qp ps = Inr (mm', ctx', qp', evs1 @ evs2)"
    using r(3) IH(1) by (simp add: ps(1) flip: qp1_def env1_def)
  have put: "put_at (env_mem env) (take (length (pkts_data (env_mem env) ps)) (sge_locs ctx (wr_stream w)))
      (pkts_data (env_mem env) ps) mm'"
    using put_at_message[OF r(2) IH(2)[unfolded wr_locs_moved[OF r(1)]] body(3)] tail(2) by (simp add: ps(1) d_def)
  have wc: "recv_wc qp w1 = recv_wc qp w" by (simp add: recv_wc_def fun_eq_iff w1)
  show ?case
    using run put IH(3-6) r(4) w1 tail(2) by (intro exI[of _ mm'] exI[of _ qp'] exI[of _ "evs1 @ evs2"])
      (simp add: ps(1) wc qp1 funpow_swap1 d_def algebra_simps)
qed

subsection \<open>A whole SEND\<close>

definition send_opcodes :: "nat \<Rightarrow> u8 list" where
  "send_opcodes n = (if n = 1 then [IB_OPCODE_SEND_ONLY]
     else IB_OPCODE_SEND_FIRST # replicate (n - 2) IB_OPCODE_SEND_MIDDLE @ [IB_OPCODE_SEND_LAST])"

lemma recv_send_message:
  assumes ready: "recv_ready ctx (qp_pd qp) k w" "rwr_byte_len w = 0" and peer: "recv_peer ctx qp port sgid"
    and queue: "resp_u qp = 0" "rq_wrs qp = w # ws"
    and cq: "res_map (cq_res ctx) (qp_rcq qp) = Some q" and put: "roce_put_mrs ctx (rwr_sge (rwr w)) = Inr ctx'"
    and msg: "message_ok (env_mem env) k (sge_locs ctx (wr_stream w)) (rq_psn (qp_attr qp)) (send_opcodes (length ps)) ps"
    and data: "data = pkts_data (env_mem env) ps"
  shows "\<exists>mm' qp' evs. recv_run env ctx qp ps = Inr (mm', ctx', qp', evs) \<and>
    put_at (env_mem env) (take (length data) (sge_locs ctx (wr_stream w))) data mm' \<and>
    filter is_comp evs = [Cq_comp (recv_wc qp w (length data)) (handle q) (cq_ctx q)] \<and>
    rq_psn (qp_attr qp') = (roce_qp_psn_inc ^^ length ps) (rq_psn (qp_attr qp)) \<and> resp_u qp' = 0 \<and> rq_wrs qp' = ws"
proof -
  have len: "length ps = length (send_opcodes (length ps))" using msg by (metis message_ok_def length_map)
  have ptr: "rwr_ptr w \<noteq> 0" using ready by (simp add: recv_ready_def)
  have fits: "length data \<le> length (wr_stream w)" using msg by (simp add: message_ok_def data)
  have short: "length (wr_stream w) \<le> length (sges_bytes (rwr_sge (rwr w)))"
    by (simp add: wr_stream_def sge_stream_def sges_bytes_def length_concat le_diff_conv)
      (metis append_take_drop_id le_add2 map_append sum_list_append trans_le_add1)
  then have small: "length data < 2 ^ 32" using fits ready(1) by (simp add: recv_ready_def)
  then have n32: "unat (of_nat (length data) :: u32) = length data" by (simp add: unat_of_nat)
  obtain vs b rest where ps: "ps = (vs, b) # rest" using len by (cases ps) (auto simp: send_opcodes_def)
  define d where "d = iovs_bytes (load (env_mem env)) vs"
  note m = msg[unfolded ps]
  have psn: "ib_bth_get_psn b = rq_psn (qp_attr qp)" using m by (simp add: message_ok_def psns_Suc)
  have body: "body_ok (env_mem env) k (sge_locs ctx (wr_stream w)) vs"
    "length d \<le> length (wr_stream w)" "distinct (sge_locs ctx (wr_stream w))"
    using m by (simp_all add: message_ok_def d_def)
  have head: "next_wr qp False w" using queue ptr by (simp add: next_wr_def)
  show ?thesis
  proof (cases "rest = []")
    case True
    then have op: "ib_bth_get_opcode b = IB_OPCODE_SEND_ONLY" using m by (simp add: message_ok_def send_opcodes_def)
    have h: "next_wr qp (send_inprocess IB_OPCODE_SEND_ONLY) w" using head by (simp add: send_inprocess_def)
    obtain mm' w' evs where r: "wr_moved w (length d) w'"
      "put_at (env_mem env) (take (length d) (sge_locs ctx (wr_stream w))) d mm'"
      "\<exists>qp1. resp_u qp1 = 0 \<and> rq_wrs qp1 = ws \<and> rq_psn (qp_attr qp1) = roce_qp_psn_inc (rq_psn (qp_attr qp)) \<and>
         roce_recv_rc env ctx vs b qp True = Inr (0, mm', ctx', qp1, evs)"
      "filter is_comp evs = [Cq_comp (recv_wc qp w (unat (rwr_byte_len w'))) (handle q) (cq_ctx q)]"
      using recv_send_packet[OF ready(1) peer h psn op body(1) d_def body(2,3), of q ctx'] cq put queue(2)
      by (auto simp: Let_def popped_def send_inprocess_def)
    moreover have "data = d" "rwr_byte_len w' = of_nat (length d)"
      using True r(1) ready(2) by (simp_all add: data ps d_def wr_moved_def)
    ultimately show ?thesis using True n32 by (auto simp: ps)
  next
    case False
    then have op: "ib_bth_get_opcode b = IB_OPCODE_SEND_FIRST" and
      ops: "send_opcodes (length ps) = IB_OPCODE_SEND_FIRST # replicate (length ps - 2) IB_OPCODE_SEND_MIDDLE @ [IB_OPCODE_SEND_LAST]"
      using m ps by (auto simp: message_ok_def send_opcodes_def)
    have h: "next_wr qp (send_inprocess IB_OPCODE_SEND_FIRST) w" using head by (simp add: send_inprocess_def)
    define qp0 where "qp0 = qp\<lparr>in_psn_nak := False\<rparr>"
    obtain mm1 w1 msn evs1 where r: "wr_moved w (length d) w1"
      "put_at (env_mem env) (take (length d) (sge_locs ctx (wr_stream w))) d mm1"
      "roce_recv_rc env ctx vs b qp True = Inr (0, mm1, ctx, (recv_wr_set w1 (popped False w qp0))\<lparr>resp_msn := msn,
         qp_attr := (qp_attr qp)\<lparr>rq_psn := roce_qp_psn_inc (rq_psn (qp_attr qp))\<rparr>\<rparr>, evs1)"
      "filter is_comp evs1 = []"
      using recv_send_packet[OF ready(1) peer h psn op body(1) d_def body(2,3), of q ctx']
      by (auto simp: Let_def send_inprocess_def qp0_def)
    define qp1 where "qp1 = (recv_wr_set w1 (popped False w qp0))\<lparr>resp_msn := msn,
         qp_attr := (qp_attr qp)\<lparr>rq_psn := roce_qp_psn_inc (rq_psn (qp_attr qp))\<rparr>\<rparr>"
    define env1 where "env1 = env\<lparr>env_mem := mm1\<rparr>"
    have w1: "rwr w1 = rwr w" "rwr_ptr w1 = rwr_ptr w" "rwr_byte_len w1 = of_nat (length d)"
      using r(1) ready(2) by (simp_all add: wr_moved_def)
    have qp1: "qp_pd qp1 = qp_pd qp" "qp_rcq qp1 = qp_rcq qp" "rq_wrs qp1 = ws" "recv_wc qp1 w1 = recv_wc qp w"
      "rq_psn (qp_attr qp1) = roce_qp_psn_inc (rq_psn (qp_attr qp))"
      using queue(2) w1 by (simp_all add: qp1_def recv_wc_def fun_eq_iff popped_def qp0_def)
    have ready1: "recv_ready ctx (qp_pd qp1) k w1" unfolding qp1 using moved_ready[OF ready(1) r(1)] .
    have peer1: "recv_peer ctx qp1 port sgid" using peer by (simp add: recv_peer_def qp1_def qp0_def)
    have next1: "next_wr qp1 True w1" using ptr w1 by (simp add: next_wr_def qp1_def popped_def)
    note tail = message_tail[OF m[folded ps, unfolded ops, unfolded ps] r(2)[unfolded d_def], folded d_def]
    have msg1: "message_ok (env_mem env1) k (sge_locs ctx (wr_stream w1)) (rq_psn (qp_attr qp1))
        (replicate (length ps - 2) IB_OPCODE_SEND_MIDDLE @ [IB_OPCODE_SEND_LAST]) rest"
      using tail(1) by (simp add: env1_def wr_locs_moved[OF r(1)] qp1 ps)
    have put1: "roce_put_mrs ctx (rwr_sge (rwr w1)) = Inr ctx'" using put w1 by simp
    obtain mm' qp' evs2 where IH: "recv_run env1 ctx qp1 rest = Inr (mm', ctx', qp', evs2)"
      "put_at mm1 (take (length (pkts_data mm1 rest)) (sge_locs ctx (wr_stream w1))) (pkts_data mm1 rest) mm'"
      "filter is_comp evs2 = [Cq_comp (recv_wc qp1 w1 (unat (rwr_byte_len w1 + of_nat (length (pkts_data mm1 rest)))))
        (handle q) (cq_ctx q)]"
      "rq_psn (qp_attr qp') = (roce_qp_psn_inc ^^ length rest) (rq_psn (qp_attr qp1))" "resp_u qp' = 0"
      "rq_wrs qp' = rq_wrs qp1"
      using recv_send_rest[OF ready1 peer1 next1 cq[folded qp1(2)] put1 msg1] by (auto simp: env1_def)
    have cut: "data = d @ pkts_data mm1 rest" using tail(2) by (simp add: data ps d_def)
    have "put_at (env_mem env) (take (length data) (sge_locs ctx (wr_stream w))) data mm'"
      using put_at_message[OF r(2) IH(2)[unfolded wr_locs_moved[OF r(1)]] body(3)] by (simp add: cut)
    moreover have "unat (rwr_byte_len w1 + of_nat (length (pkts_data mm1 rest))) = length data"
      using n32 by (simp add: w1 cut)
    moreover have "recv_run env ctx qp ps = Inr (mm', ctx', qp', evs1 @ evs2)"
      using r(3) IH(1) by (simp add: ps flip: qp1_def env1_def)
    ultimately show ?thesis
      using IH(3-6) r(4) by (intro exI[of _ mm'] exI[of _ qp'] exI[of _ "evs1 @ evs2"])
        (simp add: ps qp1 funpow_swap1)
  qed
qed

end
