(* ===== verification/Rc_Write.thy ===== *)
theory Rc_Write
  imports Rc_Recv
begin

text \<open>
  RDMA WRITE at the responder: each packet stores its data behind that of the packets before it, from the
  address in the header of the first one on; and what state a finished WRITE leaves behind.
\<close>

subsection \<open>One packet\<close>

lemma get_eth_run:
  assumes "\<forall>v \<in> set vs. wf_iov v" "vs \<noteq> []" "n \<le> length (iovs_addrs vs)" "length (iovs_addrs vs) < 2 ^ 32"
  shows "\<exists>vs'. roce_get_eth mm vs n = Inr (Inr (take n (iovs_bytes (load mm) vs), vs')) \<and>
    iovs_addrs vs' = drop n (iovs_addrs vs) \<and> (\<forall>v \<in> set vs'. wf_iov v) \<and> vs' \<noteq> []"
proof -
  obtain srcs vs' where a: "roce_iov_advance vs n = Inr (min n (iovs_total vs), srcs, vs')"
    "iovs_addrs srcs = take n (iovs_addrs vs)" "iovs_addrs vs' = drop n (iovs_addrs vs)"
    "\<forall>v \<in> set vs'. wf_iov v" "vs' \<noteq> []"
    using advance_addrs[OF assms(1,2)] by blast
  have "roce_iov_len vs = Inr (length (iovs_addrs vs))"
    using iov_len_run[OF assms(1,2), of "\<lambda>_. 0"] assms(4) by (simp add: iovs_bytes_addrs)
  then show ?thesis
    using a assms(3) by (simp add: roce_get_eth_def iov_read_def gather_def iovs_bytes_addrs take_map)
qed

text \<open>The memory an RDMA WRITE may touch: a region that grants remote writes, with pages of \<open>2 ^ k\<close> bytes.\<close>

definition write_ready :: "'a roce_base_scheme \<Rightarrow> u32 \<Rightarrow> nat \<Rightarrow> roce_sge \<Rightarrow> bool" where
  "write_ready ctx pd k s \<longleftrightarrow> res_wf (mr_res ctx) \<and> k < 32 \<and> page_size ctx = 2 ^ k \<and>
     sge_granted ctx pd False ROCE_ACCESS_REMOTE_WRITE k s"

text \<open>The piece of \<open>n\<close> bytes from offset \<open>j\<close> on.\<close>

definition sge_piece :: "roce_sge \<Rightarrow> nat \<Rightarrow> nat \<Rightarrow> roce_sge" where
  "sge_piece s j n = s\<lparr>sge_addr := sge_addr s + of_nat j, sge_length := of_nat n\<rparr>"

lemma piece_part:
  assumes "0 < n" "j + n \<le> unat (sge_length s)"
  shows "sge_part_of (sge_piece s j n) s"
proof -
  have lt: "n < 2 ^ 32" "j < 2 ^ 32" using assms(2) unat_bounds(3)[of "sge_length s"] by simp_all
  have "of_nat j = (ucast (of_nat j :: u32) :: u64)"
    using lt(2) by (simp add: word_unat_eq_iff unat_ucast_u64 unat_of_nat)
  then have addr: "sge_addr (sge_piece s j n) = sge_addr s + ucast (of_nat j :: u32)"
    by (simp add: sge_piece_def)
  have u: "unat (of_nat j :: u32) = j" "unat (sge_length (sge_piece s j n)) = n"
    using lt by (simp_all add: sge_piece_def unat_of_nat)
  moreover have "sge_length (sge_piece s j n) \<noteq> 0" using u(2) assms(1) by auto
  ultimately show ?thesis
    using addr assms(2) unfolding sge_part_of_def
    by (intro conjI exI[of _ "of_nat j :: u32"]) (simp_all add: sge_piece_def)
qed

lemma piece_ready:
  assumes "write_ready ctx pd k s" "0 < n" "j + n \<le> unat (sge_length s)"
  shows "write_ready ctx pd k (sge_piece s j n)"
  using assms sge_ok_part[OF _ piece_part[OF assms(2,3)]] by (auto simp: write_ready_def)

lemma piece_bytes:
  assumes "j + n \<le> unat (sge_length s)"
  shows "sge_bytes (sge_piece s j n) = take n (drop j (sge_bytes s))"
proof -
  have "n < 2 ^ 32" using assms unat_bounds(3)[of "sge_length s"] by simp
  then have u: "unat (of_nat n :: u32) = n" by (simp add: unat_of_nat)
  show ?thesis
  proof (rule nth_equalityI)
    fix i assume "i < length (sge_bytes (sge_piece s j n))"
    then have "i < n" using u by (simp add: sge_piece_def)
    then show "sge_bytes (sge_piece s j n) ! i = take n (drop j (sge_bytes s)) ! i"
      using assms u by (simp add: sge_bytes_def sge_piece_def add.assoc)
  qed (use assms u in \<open>simp add: sge_piece_def\<close>)
qed

text \<open>What is stored when \<open>writtenlen\<close> bytes already are.\<close>

lemma write_payload_run:
  assumes ready: "write_ready ctx (qp_pd qp) k s" and part: "j + length data \<le> unat (sge_length s)"
    and vs: "\<forall>v \<in> set vs. wf_iov v" "vs \<noteq> []" "data = iovs_bytes (load (env_mem env)) vs"
    and len: "data \<noteq> []" "length data \<le> 2 ^ k"
    and locs: "locs_ok (take (length data) (drop j (sge_locs ctx (sge_bytes s)))) vs"
    and at: "unat (resp_writtenlen qp) = j" "inprocess = (j \<noteq> 0)"
    and first: "if inprocess then resp_u qp = sge_addr s \<and> resp_rkey qp = sge_lkey s \<and> eth = None
      else (\<exists>h. eth = Some h \<and> ib_reth_get_va h = sge_addr s \<and> ib_reth_get_rkey h = sge_lkey s \<and>
        ib_reth_get_dmalen h = dmalen)"
    and op: "opcode \<in> {IB_OPCODE_RDMA_WRITE_FIRST, IB_OPCODE_RDMA_WRITE_MIDDLE, IB_OPCODE_RDMA_WRITE_LAST,
      IB_OPCODE_RDMA_WRITE_ONLY}"
  shows "\<exists>mm'. put_at (env_mem env) (take (length data) (drop j (sge_locs ctx (sge_bytes s)))) data mm' \<and>
    roce_rdma_write_payload env ctx qp vs eth None inprocess opcode True = Inr (0, mm', ctx,
      (if inprocess then qp else qp\<lparr>resp_u := sge_addr s, resp_rkey := sge_lkey s, resp_dmalen := dmalen\<rparr>)
        \<lparr>resp_writtenlen := resp_writtenlen qp + of_nat (length data)\<rparr>, [])"
proof -
  define n where "n = length data"
  define p where "p = sge_piece s j n"
  define qp1 where "qp1 = (if inprocess then qp else qp\<lparr>resp_u := sge_addr s, resp_rkey := sge_lkey s, resp_dmalen := dmalen\<rparr>)"
  have pd: "qp_pd qp1 = qp_pd qp" by (simp add: qp1_def)
  have n: "0 < n" "n < 2 ^ 32" "j < 2 ^ 32"
    using len(1) part unat_bounds(3)[of "sge_length s"] by (simp_all add: n_def)
  have pr: "write_ready ctx (qp_pd qp) k p" unfolding p_def using piece_ready[OF ready n(1)] part by (simp add: n_def)
  have bytes: "sge_bytes p = take n (drop j (sge_bytes s))" unfolding p_def using part by (intro piece_bytes) (simp add: n_def)
  have as: "sge_locs ctx (sges_bytes [p]) = take n (drop j (sge_locs ctx (sge_bytes s)))"
    by (simp add: sge_locs_def bytes take_map drop_map)
  have pl: "length (sges_bytes [p]) = n" using part by (simp add: bytes n_def)
  have pages: "span_pages k [p] \<le> 128" using span_pages_small[of "[p]" k] pl len(2) by (simp add: n_def)
  obtain mm' where copy: "map_and_copy env ctx qp1 [p] False ROCE_ACCESS_REMOTE_WRITE vs = Inr (Inr (mm', []))"
    "put_at (env_mem env) (take n (drop j (sge_locs ctx (sge_bytes s)))) data mm'"
    using map_and_copy_run[of ctx k "[p]" qp1 False ROCE_ACCESS_REMOTE_WRITE vs env] pr pages vs locs pl
    unfolding as pd by (auto simp: write_ready_def n_def)
  have "ucast (resp_writtenlen qp) = (of_nat j :: u64)"
    using at(1) n(3) by (simp add: word_unat_eq_iff unat_ucast_u64 unat_of_nat)
  then have sge: "\<lparr>sge_addr = resp_u qp1 + ucast (resp_writtenlen qp1), sge_length = of_nat n, sge_lkey = resp_rkey qp1\<rparr> = p"
  proof -
    have "resp_u qp1 = sge_addr s" "resp_rkey qp1 = sge_lkey s" "resp_writtenlen qp1 = resp_writtenlen qp"
      using first by (cases inprocess; simp add: qp1_def)+
    then show ?thesis using \<open>ucast (resp_writtenlen qp) = of_nat j\<close> by (cases s) (simp add: p_def sge_piece_def)
  qed
  have il: "roce_iov_len vs = Inr n" using iov_len_run[OF vs(1,2), of "env_mem env"] n(2) by (simp add: n_def vs(3))
  have start: "(if resp_writtenlen qp = 0 then (case eth of
              None \<Rightarrow> Inl Null_deref
            | Some h \<Rightarrow> Inr (qp\<lparr>resp_u := ib_reth_get_va h, resp_rkey := ib_reth_get_rkey h,
                resp_dmalen := ib_reth_get_dmalen h, resp_writtenlen := 0\<rparr>))
          else Inr qp) = Inr qp1"
  proof (cases inprocess)
    case True
    then show ?thesis using at first by (auto simp: qp1_def)
  next
    case False
    then have "resp_writtenlen qp = 0" using at by (simp add: word_unat_eq_iff)
    then show ?thesis using False first by (cases qp) (auto simp: qp1_def)
  qed
  have match: "\<not> (inprocess \<noteq> (resp_writtenlen qp \<noteq> 0))" using at by (auto simp: word_unat_eq_iff)
  have comp: "roce_recv_cq_comp ctx q opcode wrid m None ROCE_WC_SUCCESS = Inr (False, [])" for q wrid m
    using op by (auto simp: roce_recv_cq_comp_def recv_table)
  have "\<not> write_has_imm opcode" using op by (auto simp: write_has_imm_def)
  then have "roce_rdma_write_payload env ctx qp vs eth None inprocess opcode True = Inr (0, mm', ctx,
      qp1\<lparr>resp_writtenlen := resp_writtenlen qp1 + of_nat n\<rparr>, [])"
    unfolding roce_rdma_write_payload_def il bindR_Inr Let_def if_not_P[OF match] start sge copy(1)
    by (simp add: write_complete_def comp)
  then show ?thesis using copy(2) by (intro exI[of _ mm']) (simp add: n_def qp1_def cong: if_cong)
qed

text \<open>Where the queue pair stands after \<open>j\<close> bytes of a WRITE to \<open>s\<close>.\<close>

definition write_at :: "roce_qp \<Rightarrow> roce_sge \<Rightarrow> nat \<Rightarrow> bool" where
  "write_at qp s j \<longleftrightarrow> unat (resp_writtenlen qp) = j \<and>
     (j \<noteq> 0 \<longrightarrow> resp_u qp = sge_addr s \<and> resp_rkey qp = sge_lkey s)"

definition write_inprocess :: "u8 \<Rightarrow> bool" where
  "write_inprocess opcode \<longleftrightarrow> opcode = IB_OPCODE_RDMA_WRITE_MIDDLE \<or> opcode = IB_OPCODE_RDMA_WRITE_LAST"

text \<open>The body of a WRITE packet: a header in the first packet of a request, then data.\<close>

definition write_body :: "mem \<Rightarrow> nat \<Rightarrow> u64 list \<Rightarrow> u8 \<Rightarrow> roce_sge \<Rightarrow> u8 list \<Rightarrow> iov list \<Rightarrow> bool" where
  "write_body mm k as opcode s data vs \<longleftrightarrow> (\<forall>v \<in> set vs. wf_iov v) \<and> vs \<noteq> [] \<and> data \<noteq> [] \<and> length data \<le> 2 ^ k \<and>
     set as \<inter> set (iovs_addrs vs) = {} \<and>
     (if write_inprocess opcode then iovs_bytes (load mm) vs = data
      else \<exists>h. iovs_bytes (load mm) vs = ib_reth_bytes h @ data \<and> ib_reth_get_va h = sge_addr s \<and>
        ib_reth_get_rkey h = sge_lkey s)"

definition is_write :: "u8 \<Rightarrow> bool" where
  "is_write opcode \<longleftrightarrow> opcode \<in> {IB_OPCODE_RDMA_WRITE_FIRST, IB_OPCODE_RDMA_WRITE_MIDDLE, IB_OPCODE_RDMA_WRITE_LAST,
     IB_OPCODE_RDMA_WRITE_ONLY}"

lemma dispatch_write:
  assumes "is_write opcode"
  shows "rc_dispatch env ctx qp vs opcode ok =
    (if write_inprocess opcode then roce_rdma_write_payload env ctx qp vs None None True opcode ok
     else with_eth env ctx qp vs IB_RETH_SIZE (\<lambda>bs iovs'.
       roce_rdma_write_payload env ctx qp iovs' (Some (ib_reth_of_bytes bs)) None False opcode ok))"
  using assms by (auto simp: rc_dispatch_def write_inprocess_def is_write_def)

lemma write_dispatch_run:
  assumes ready: "write_ready ctx (qp_pd qp) k s" and part: "j + length data \<le> unat (sge_length s)"
    and body: "write_body (env_mem env) k (sge_locs ctx (sge_bytes s)) opcode s data vs"
    and dist: "distinct (sge_locs ctx (sge_bytes s))"
    and at: "write_at qp s j" "write_inprocess opcode = (j \<noteq> 0)" and op: "is_write opcode"
  shows "\<exists>mm' d. put_at (env_mem env) (take (length data) (drop j (sge_locs ctx (sge_bytes s)))) data mm' \<and>
    rc_dispatch env ctx qp vs opcode True = Inr (0, mm', ctx,
      (if write_inprocess opcode then qp else qp\<lparr>resp_u := sge_addr s, resp_rkey := sge_lkey s, resp_dmalen := d\<rparr>)
        \<lparr>resp_writtenlen := resp_writtenlen qp + of_nat (length data)\<rparr>, [])"
proof -
  note b = body[unfolded write_body_def]
  have ops: "opcode \<in> {IB_OPCODE_RDMA_WRITE_FIRST, IB_OPCODE_RDMA_WRITE_MIDDLE, IB_OPCODE_RDMA_WRITE_LAST,
     IB_OPCODE_RDMA_WRITE_ONLY}" using op by (simp add: is_write_def)
  have apart: "locs_ok (take n (drop j (sge_locs ctx (sge_bytes s)))) us"
    if "set (iovs_addrs us) \<subseteq> set (iovs_addrs vs)" for n us
    using b dist that by (auto simp: locs_ok_def dest!: in_set_takeD in_set_dropD)
  have j: "unat (resp_writtenlen qp) = j" using at(1) by (simp add: write_at_def)
  show ?thesis
  proof (cases "write_inprocess opcode")
    case True
    then have data: "data = iovs_bytes (load (env_mem env)) vs" using b by simp
    from write_payload_run[OF ready part _ _ data _ _ apart j, of True None 0 opcode] True b at ops
    show ?thesis by (auto simp: dispatch_write[OF op] write_at_def)
  next
    case False
    then obtain h where h: "iovs_bytes (load (env_mem env)) vs = ib_reth_bytes h @ data"
      "ib_reth_get_va h = sge_addr s" "ib_reth_get_rkey h = sge_lkey s" using b by auto
    have len: "length (iovs_addrs vs) = 16 + length data"
      using arg_cong[OF h(1), of length] by (simp add: iovs_bytes_addrs)
    have "length data \<le> 2 ^ k" using b by simp
    also have "\<dots> \<le> (2 :: nat) ^ 31" using ready by (intro power_increasing) (auto simp: write_ready_def)
    finally have small: "length (iovs_addrs vs) < 2 ^ 32" unfolding len by simp
    obtain vs' where g: "roce_get_eth (env_mem env) vs 16 = Inr (Inr (ib_reth_bytes h, vs'))"
      "iovs_addrs vs' = drop 16 (iovs_addrs vs)" "\<forall>v \<in> set vs'. wf_iov v" "vs' \<noteq> []"
      using get_eth_run[of vs 16 "env_mem env"] b len small h(1) by auto
    have data: "data = iovs_bytes (load (env_mem env)) vs'"
      using h(1) by (simp add: iovs_bytes_addrs g(2) flip: drop_map)
    have sub: "set (iovs_addrs vs') \<subseteq> set (iovs_addrs vs)" unfolding g(2) by (rule set_drop_subset)
    from write_payload_run[OF ready part g(3,4) data _ _ apart[OF sub] j, of False "Some h" "ib_reth_get_dmalen h" opcode]
      False b at ops h
    show ?thesis by (auto simp: dispatch_write[OF op] with_eth_def g(1))
  qed
qed

lemma recv_write_packet:
  assumes ready: "write_ready ctx (qp_pd qp) k s" and peer: "recv_peer ctx qp port sgid"
    and part: "j + length data \<le> unat (sge_length s)"
    and body: "write_body (env_mem env) k (sge_locs ctx (sge_bytes s)) opcode s data vs"
    and dist: "distinct (sge_locs ctx (sge_bytes s))"
    and at: "write_at qp s j" "write_inprocess opcode = (j \<noteq> 0)" and op: "is_write opcode"
    and bth: "ib_bth_get_psn bth = rq_psn (qp_attr qp)" "ib_bth_get_opcode bth = opcode"
  shows "\<exists>mm' qp' evs. put_at (env_mem env) (take (length data) (drop j (sge_locs ctx (sge_bytes s)))) data mm' \<and>
    roce_recv_rc env ctx vs bth qp True = Inr (0, mm', ctx, qp', evs) \<and> filter is_comp evs = [] \<and>
    write_at qp' s (j + length data) \<and> resp_u qp' = sge_addr s \<and> qp_pd qp' = qp_pd qp \<and> recv_peer ctx qp' port sgid \<and>
    rq_psn (qp_attr qp') = roce_qp_psn_inc (rq_psn (qp_attr qp)) \<and> rq_wrs qp' = rq_wrs qp"
proof -
  define qp0 where "qp0 = qp\<lparr>in_psn_nak := False\<rparr>"
  have at0: "write_at qp0 s j" "qp_pd qp0 = qp_pd qp" using at(1) by (simp_all add: write_at_def qp0_def)
  obtain mm' d where r: "put_at (env_mem env) (take (length data) (drop j (sge_locs ctx (sge_bytes s)))) data mm'"
    "rc_dispatch env ctx qp0 vs opcode True = Inr (0, mm', ctx,
      (if write_inprocess opcode then qp0 else qp0\<lparr>resp_u := sge_addr s, resp_rkey := sge_lkey s, resp_dmalen := d\<rparr>)
        \<lparr>resp_writtenlen := resp_writtenlen qp0 + of_nat (length data)\<rparr>, [])"
    using write_dispatch_run[OF ready[folded at0(2)] part body dist at0(1) at(2) op] by blast
  define qp1 where "qp1 = (if write_inprocess opcode then qp0
      else qp0\<lparr>resp_u := sge_addr s, resp_rkey := sge_lkey s, resp_dmalen := d\<rparr>)
        \<lparr>resp_writtenlen := resp_writtenlen qp0 + of_nat (length data)\<rparr>"
  have qp1: "qp_type qp1 = ROCE_QPT_RC" "qp_attr qp1 = qp_attr qp" "qp_pd qp1 = qp_pd qp" "rq_wrs qp1 = rq_wrs qp"
    "resp_u qp1 = sge_addr s" "resp_rkey qp1 = sge_lkey s"
    using peer at by (auto simp: qp1_def qp0_def recv_peer_def write_at_def)
  have path: "path_ok ctx (qp_port_num (qp_attr qp1)) (qp_ah_attr (qp_attr qp1)) port sgid"
    using peer qp1(2) by (simp add: recv_peer_def)
  have psn: "psn_dist (rq_psn (qp_attr qp)) (ib_bth_get_psn bth) = 0" using bth(1) by simp
  have noack: "ib_bth_get_opcode bth \<noteq> IB_OPCODE_ACKNOWLEDGE" using op bth(2) by (auto simp: is_write_def)
  obtain msn evs2 where f: "roce_recv_rc env ctx vs bth qp True = Inr (0, mm', ctx,
      qp1\<lparr>resp_msn := msn, qp_attr := (qp_attr qp)\<lparr>rq_psn := roce_qp_psn_inc (rq_psn (qp_attr qp))\<rparr>\<rparr>, [] @ evs2)"
    "if ib_bth_get_ack bth
     then \<exists>ev. evs2 = [ev] \<and> ack_sent port sgid qp1 IB_AETH_SYNDROME_ACK 0x1f (ib_bth_get_psn bth) ev
     else evs2 = []"
    using recv_rc_in_order[OF psn noack r(2)[folded bth(2), folded qp1_def[folded bth(2)], unfolded qp0_def] qp1(1) path]
    unfolding qp1(2) by blast
  have small: "unat (resp_writtenlen qp0 + of_nat (length data)) = j + length data"
    using at0(1) part unat_bounds(3)[of "sge_length s"]
    by (simp add: write_at_def unat_word_ariths unat_of_nat)
  have "filter is_comp evs2 = []" using f(2) ack_not_comp by (auto split: if_splits)
  moreover have "resp_writtenlen qp1 = resp_writtenlen qp0 + of_nat (length data)" by (simp add: qp1_def)
  ultimately show ?thesis
    using f(1) r(1) qp1 small peer by (intro exI[of _ mm'] exI[of _ "qp1\<lparr>resp_msn := msn,
      qp_attr := (qp_attr qp)\<lparr>rq_psn := roce_qp_psn_inc (rq_psn (qp_attr qp))\<rparr>\<rparr>"] exI[of _ evs2])
      (simp add: write_at_def recv_peer_def)
qed

subsection \<open>A whole RDMA WRITE\<close>

definition write_opcodes :: "nat \<Rightarrow> u8 list" where
  "write_opcodes n = (if n = 1 then [IB_OPCODE_RDMA_WRITE_ONLY]
     else IB_OPCODE_RDMA_WRITE_FIRST # replicate (n - 2) IB_OPCODE_RDMA_WRITE_MIDDLE @ [IB_OPCODE_RDMA_WRITE_LAST])"

text \<open>Its packets with the data of each.\<close>

definition write_message :: "mem \<Rightarrow> nat \<Rightarrow> u64 list \<Rightarrow> u32 \<Rightarrow> u8 list \<Rightarrow> roce_sge \<Rightarrow> u8 list list \<Rightarrow> (iov list \<times> ib_bth) list \<Rightarrow> bool" where
  "write_message mm k as psn ops s ds ps \<longleftrightarrow> map (\<lambda>(vs, b). ib_bth_get_opcode b) ps = ops \<and>
     map (\<lambda>(vs, b). ib_bth_get_psn b) ps = psns psn (length ps) \<and>
     list_all2 (\<lambda>d (vs, b). write_body mm k as (ib_bth_get_opcode b) s d vs) ds ps"

lemma put_at_write_body:
  assumes "put_at mm as bs mm'" "set as \<subseteq> set cs"
  shows "write_body mm k cs op s d vs \<Longrightarrow> write_body mm' k cs op s d vs"
proof -
  assume b: "write_body mm k cs op s d vs"
  then have "set as \<inter> set (iovs_addrs vs) = {}" using assms(2) by (auto simp: write_body_def)
  then show "write_body mm' k cs op s d vs" using b put_at_same[OF assms(1)] by (simp add: write_body_def)
qed

lemma write_message_tail:
  assumes "write_message mm k cs psn (op # ops) s (d # ds) ((vs, b) # ps)" "put_at mm as bs mm'" "set as \<subseteq> set cs"
  shows "write_message mm' k cs (roce_qp_psn_inc psn) ops s ds ps"
proof -
  have "list_all2 (\<lambda>d (vs, b). write_body mm k cs (ib_bth_get_opcode b) s d vs) ds ps"
    using assms(1) by (simp add: write_message_def)
  then have "list_all2 (\<lambda>d (vs, b). write_body mm' k cs (ib_bth_get_opcode b) s d vs) ds ps"
    by (rule list_all2_mono) (auto intro: put_at_write_body[OF assms(2,3)])
  then show ?thesis using assms(1) by (simp add: write_message_def psns_Suc)
qed

lemma recv_write_run:
  assumes "write_ready ctx (qp_pd qp) k s" "recv_peer ctx qp port sgid" "distinct (sge_locs ctx (sge_bytes s))"
    "j + length (concat ds) \<le> unat (sge_length s)" "write_at qp s j"
    "write_message (env_mem env) k (sge_locs ctx (sge_bytes s)) (rq_psn (qp_attr qp)) ops s ds ps"
    "list_all is_write ops" "ops \<noteq> []" "write_inprocess (hd ops) = (j \<noteq> 0)" "list_all write_inprocess (tl ops)"
  shows "\<exists>mm' qp' evs. recv_run env ctx qp ps = Inr (mm', ctx, qp', evs) \<and>
    put_at (env_mem env) (take (length (concat ds)) (drop j (sge_locs ctx (sge_bytes s)))) (concat ds) mm' \<and>
    filter is_comp evs = [] \<and> write_at qp' s (j + length (concat ds)) \<and> resp_u qp' = sge_addr s \<and>
    rq_psn (qp_attr qp') = (roce_qp_psn_inc ^^ length ps) (rq_psn (qp_attr qp)) \<and> rq_wrs qp' = rq_wrs qp"
  using assms
proof (induction ops arbitrary: env qp j ds ps)
  case Nil
  then show ?case by simp
next
  case (Cons op ops)
  define as where "as = sge_locs ctx (sge_bytes s)"
  obtain vs b rest where ps: "ps = (vs, b) # rest" "ib_bth_get_opcode b = op"
    using Cons.prems(6) by (auto simp: write_message_def map_eq_Cons_conv)
  then obtain d es where ds: "ds = d # es"
    using Cons.prems(6) by (auto simp: write_message_def list_all2_Cons2)
  note m = Cons.prems(6)[unfolded ps(1) ds, folded as_def]
  have body: "write_body (env_mem env) k as op s d vs" "ib_bth_get_psn b = rq_psn (qp_attr qp)"
    using m ps(2) by (simp_all add: write_message_def psns_Suc)
  have fits: "j + length d \<le> unat (sge_length s)" using Cons.prems(4) by (simp add: ds)
  have ip: "write_inprocess op = (j \<noteq> 0)" "is_write op" using Cons.prems(7,9) by simp_all
  obtain mm1 qp1 evs1 where r: "put_at (env_mem env) (take (length d) (drop j as)) d mm1"
    "roce_recv_rc env ctx vs b qp True = Inr (0, mm1, ctx, qp1, evs1)" "filter is_comp evs1 = []"
    "write_at qp1 s (j + length d)" "resp_u qp1 = sge_addr s" "qp_pd qp1 = qp_pd qp" "recv_peer ctx qp1 port sgid"
    "rq_psn (qp_attr qp1) = roce_qp_psn_inc (rq_psn (qp_attr qp))" "rq_wrs qp1 = rq_wrs qp"
    using recv_write_packet[OF Cons.prems(1,2) fits body(1)[unfolded as_def] Cons.prems(3,5) ip body(2) ps(2)]
    unfolding as_def by blast
  define env1 where "env1 = env\<lparr>env_mem := mm1\<rparr>"
  have sub: "set (take (length d) (drop j as)) \<subseteq> set as" by (auto dest!: in_set_takeD in_set_dropD)
  note tail = write_message_tail[OF m r(1) sub]
  show ?case
  proof (cases "ops = []")
    case True
    then have "rest = []" "es = []" using m by (auto simp: write_message_def)
    then show ?thesis using r by (auto simp: ps ds as_def)
  next
    case False
    have "d \<noteq> []" using body(1) by (simp add: write_body_def)
    have pos: "write_inprocess (hd ops) = (j + length d \<noteq> 0)" using Cons.prems(10) False \<open>d \<noteq> []\<close> by (cases ops) auto
    have "write_ready ctx (qp_pd qp1) k s" using Cons.prems(1) r(6) by simp
    moreover have "j + length d + length (concat es) \<le> unat (sge_length s)" using Cons.prems(4) by (simp add: ds add.assoc)
    moreover have "write_message (env_mem env1) k (sge_locs ctx (sge_bytes s)) (rq_psn (qp_attr qp1)) ops s es rest"
      using tail by (simp add: env1_def r(8) as_def)
    moreover have "list_all is_write ops" "list_all write_inprocess (tl ops)"
      using Cons.prems(7,10) by (cases ops; simp)+
    ultimately obtain mm' qp' evs2 where IH: "recv_run env1 ctx qp1 rest = Inr (mm', ctx, qp', evs2)"
      "put_at mm1 (take (length (concat es)) (drop (j + length d) as)) (concat es) mm'" "filter is_comp evs2 = []"
      "write_at qp' s (j + length d + length (concat es))" "resp_u qp' = sge_addr s"
      "rq_psn (qp_attr qp') = (roce_qp_psn_inc ^^ length rest) (rq_psn (qp_attr qp1))" "rq_wrs qp' = rq_wrs qp1"
      using Cons.IH[of qp1 "j + length d" es env1 rest] r(4,7) False pos Cons.prems(3) by (auto simp: env1_def as_def)
    have "put_at (env_mem env) (take (length (concat ds)) (drop j as)) (concat ds) mm'"
      using put_at_message[OF r(1), of "length (concat es)" "concat es" mm'] IH(2) Cons.prems(3)
      by (simp add: ds as_def add.commute)
    then show ?thesis
      using r IH by (intro exI[of _ mm'] exI[of _ qp'] exI[of _ "evs1 @ evs2"])
        (simp add: ps(1) ds as_def env1_def funpow_swap1 add.assoc)
  qed
qed

subsection \<open>A sample queue pair that receives\<close>

definition recv_mr :: roce_mr where
  "recv_mr = (mr_init \<lparr>a_type = ROCE_MR_MEM, a_iova = 0x20, a_length = 0x20,
     a_access = ROCE_ACCESS_LOCAL_WRITE OR ROCE_ACCESS_REMOTE_WRITE, a_iovs = [], a_page_size = 0, a_mr_ctx = 0,
     a_rnd_lkey = 0x11, a_rnd_rkey = 0x22\<rparr> 16 0 ROCE_MR_STATE_VALID
     [\<lparr>iov_base = Some 0x1000, iov_len = 16\<rparr>, \<lparr>iov_base = Some 0x2000, iov_len = 16\<rparr>] 1)\<lparr>ref := 1\<rparr>"

definition recv_base :: roce_base where
  "recv_base = win_base\<lparr>page_size := 16, mr_res := \<lparr>res_size = 2, res_addr = Some [None, Some recv_mr]\<rparr>\<rparr>"

definition recv_sge :: roce_sge where
  "recv_sge = \<lparr>sge_addr = 0x2c, sge_length = 8, sge_lkey = 0x111\<rparr>"

definition recv_wr :: recv_wr_priv where
  "recv_wr = \<lparr>rwr_ptr = 0x9000, rwr_byte_len = 0, rwr_sge_idx = 0, rwr_sge_off = 0,
     rwr = \<lparr>rwr_id = 77, rwr_sge = [recv_sge]\<rparr>\<rparr>"

definition recv_qp :: roce_qp where
  "recv_qp = sample_qp\<lparr>rq_wrs := [recv_wr]\<rparr>"

definition recv_bth :: "u8 \<Rightarrow> u32 \<Rightarrow> ib_bth" where
  "recv_bth opcode psn = ib_bth_set_psn (ib_bth_set_opcode ib_bth_zero IB_OPCODE_RC opcode) psn"

definition recv_env :: roce_env where
  "recv_env = \<lparr>env_mem = ucast, env_dma = (\<lambda>_ _. None)\<rparr>"

lemma recv_mr_sel: "mr_map recv_base = [1 \<mapsto> recv_mr]"
  by (auto simp: recv_base_def res_map_two)

lemma recv_bth_sel: "ib_bth_get_psn (recv_bth opcode psn) = IB_BTH_PSN_MASK AND psn"
  "ib_bth_get_opcode (recv_bth opcode psn) = IB_OPCODE_MASK AND opcode" "\<not> ib_bth_get_ack (recv_bth opcode psn)"
  by (simp_all add: recv_bth_def bth_view_simps flip: bth_view_sel) code_simp

lemma recv_base_wf: "res_wf (mr_res recv_base)"
  by (simp add: res_wf_def recv_mr_sel)
    (simp add: recv_base_def ROCE_MAX_GENERAL_def recv_mr_def mr_init_def)

lemma recv_granted:
  "sge_granted recv_base 0 True ROCE_ACCESS_LOCAL_WRITE 4 recv_sge"
  "sge_granted recv_base 0 False ROCE_ACCESS_REMOTE_WRITE 4 (recv_sge\<lparr>sge_lkey := 0x122\<rparr>)"
  by (simp_all add: sge_granted_def mr_at_def recv_mr_sel recv_sge_def roce_key_to_index_def sge_permitted_def
      recv_mr_def mr_init_def roce_new_key_def mr_paged_def wf_iov_def sge_below_line_def
      ROCE_ACCESS_LOCAL_WRITE_def ROCE_ACCESS_REMOTE_WRITE_def)

lemma recv_locs: "sge_locs recv_base (sge_bytes recv_sge) = [0x100c, 0x100d, 0x100e, 0x100f, 0x2000, 0x2001, 0x2002, 0x2003]"
  "sge_locs recv_base (sge_bytes (recv_sge\<lparr>sge_lkey := 0x122\<rparr>)) = [0x100c, 0x100d, 0x100e, 0x100f, 0x2000, 0x2001, 0x2002, 0x2003]"
  by (simp_all add: sge_locs_def sge_bytes_def recv_sge_def upt_rec mr_at_def recv_mr_sel roce_key_to_index_def
     mr_loc_def recv_mr_def mr_init_def addrs_def)

definition send_pkts :: "(iov list \<times> ib_bth) list" where
  "send_pkts = [([\<lparr>iov_base = Some 0x80000, iov_len = 4\<rparr>], recv_bth IB_OPCODE_SEND_FIRST 5),
     ([\<lparr>iov_base = Some 0x80010, iov_len = 2\<rparr>], recv_bth IB_OPCODE_SEND_LAST 6)]"

lemma recv_stream: "wr_stream recv_wr = sge_bytes recv_sge"
  by (simp add: wr_stream_def recv_wr_def sge_stream_def)

lemma recv_wr_ready: "recv_ready recv_base (qp_pd recv_qp) 4 recv_wr"
  using recv_granted(1) recv_base_wf
  by (simp add: recv_ready_def recv_wr_def recv_qp_def sample_qp_def sge_inside_def recv_base_def recv_sge_def)

lemma recv_peer_ok: "recv_peer recv_base recv_qp one_port (replicate 16 0)"
proof -
  have "ports recv_base = ports port_base"
    by (simp add: recv_base_def win_base_def send_base_def port_base_def)
  then have "path_ok recv_base = path_ok port_base" by (rule path_ok_ports)
  then show ?thesis using sample_path_ok by (simp add: recv_peer_def recv_qp_def sample_qp_def)
qed

lemma recv_cq: "res_map (cq_res recv_base) (qp_rcq recv_qp) =
  Some \<lparr>handle = 0, ref = 1, cq_cqe = 16, cq_comp_vector = 0, cq_ctx = 5\<rparr>"
  by (simp add: recv_base_def win_base_def recv_qp_def sample_qp_def res_map_two)

lemma recv_put: "\<exists>ctx'. roce_put_mrs recv_base (rwr_sge (rwr recv_wr)) = Inr ctx'"
  using recv_base_wf
  by (simp add: roce_put_mrs_def recv_wr_def recv_sge_def roce_key_to_index_def roce_put_mr_def roce_get_mr_noref_def
      res_get_map recv_mr_sel Let_def recv_mr_def mr_init_def)

lemma send_pkts_ok:
  "message_ok ucast 4 (sge_locs recv_base (wr_stream recv_wr)) (rq_psn (qp_attr recv_qp)) (send_opcodes 2) send_pkts"
  unfolding recv_stream recv_locs
  by (simp add: message_ok_def send_pkts_def send_opcodes_def recv_bth_sel IB_OPCODE_MASK_def IB_BTH_PSN_MASK_def
      psns_def recv_qp_def sample_qp_def roce_qp_psn_inc_def body_ok_def wf_iov_def load_addrs addrs_def upt_rec)

definition write_sge :: roce_sge where
  "write_sge = recv_sge\<lparr>sge_lkey := 0x122\<rparr>"

text \<open>Memory with an extended header at 0x80000, and the address as content elsewhere.\<close>

definition write_mem :: mem where
  "write_mem = store ucast 0x80000 (ib_reth_bytes \<lparr>reth_va = htobe64 0x2c, reth_rkey = htobe32 0x122,
     reth_dmalen = htobe32 6\<rparr>)"

definition write_pkts :: "(iov list \<times> ib_bth) list" where
  "write_pkts = [([\<lparr>iov_base = Some 0x80000, iov_len = 16\<rparr>, \<lparr>iov_base = Some 0x80010, iov_len = 4\<rparr>],
       recv_bth IB_OPCODE_RDMA_WRITE_FIRST 5),
     ([\<lparr>iov_base = Some 0x80020, iov_len = 2\<rparr>], recv_bth IB_OPCODE_RDMA_WRITE_LAST 6)]"

lemma recv_write_ready: "write_ready recv_base (qp_pd recv_qp) 4 write_sge"
  using recv_granted(2) recv_base_wf by (simp add: write_ready_def write_sge_def recv_qp_def sample_qp_def recv_base_def)

lemma write_mem_bytes:
  "load write_mem 0x80000 16 = ib_reth_bytes \<lparr>reth_va = htobe64 0x2c, reth_rkey = htobe32 0x122, reth_dmalen = htobe32 6\<rparr>"
  "load write_mem 0x80010 4 = [0x10, 0x11, 0x12, 0x13]" "load write_mem 0x80020 2 = [0x20, 0x21]"
proof -
  show "load write_mem 0x80000 16 = ib_reth_bytes \<lparr>reth_va = htobe64 0x2c, reth_rkey = htobe32 0x122, reth_dmalen = htobe32 6\<rparr>"
    using load_store_same[of "ib_reth_bytes \<lparr>reth_va = htobe64 0x2c, reth_rkey = htobe32 0x122, reth_dmalen = htobe32 6\<rparr>"]
    by (simp add: write_mem_def)
qed (simp_all add: load_def write_mem_def store_def upt_rec)

lemma write_pkts_ok:
  "write_message write_mem 4 (sge_locs recv_base (sge_bytes write_sge)) (rq_psn (qp_attr recv_qp)) (write_opcodes 2)
     write_sge [[0x10, 0x11, 0x12, 0x13], [0x20, 0x21]] write_pkts"
proof -
  have "ib_reth_get_va \<lparr>reth_va = htobe64 0x2c, reth_rkey = htobe32 0x122, reth_dmalen = htobe32 6\<rparr> = 0x2c"
    "ib_reth_get_rkey \<lparr>reth_va = htobe64 0x2c, reth_rkey = htobe32 0x122, reth_dmalen = htobe32 6\<rparr> = 0x122"
    by code_simp+
  then show ?thesis
    unfolding write_sge_def recv_locs
    by (auto simp: write_message_def write_pkts_def write_opcodes_def recv_bth_sel IB_OPCODE_MASK_def IB_BTH_PSN_MASK_def
        psns_def recv_qp_def sample_qp_def roce_qp_psn_inc_def write_body_def write_inprocess_def wf_iov_def write_mem_bytes
        addrs_def upt_rec recv_sge_def)
qed

subsection \<open>Properties\<close>

text \<open>C6: A SEND arrives. The packets of a message, one or many, in the order of their PSNs, put the bytes of
  their bodies one after the other into the buffers of the oldest receive request, whatever pages and
  elements they are cut into, and change no other byte of memory; then exactly that request completes, once,
  with its id and the length of the message, and the expected PSN has advanced by the number of packets.\<close>

theorem recv_send_delivers:
  assumes "recv_ready ctx (qp_pd qp) k w" "rwr_byte_len w = 0" "recv_peer ctx qp port sgid"
    "resp_u qp = 0" "rq_wrs qp = w # ws" "res_map (cq_res ctx) (qp_rcq qp) = Some q"
    "roce_put_mrs ctx (rwr_sge (rwr w)) = Inr ctx'"
    "message_ok (env_mem env) k (sge_locs ctx (wr_stream w)) (rq_psn (qp_attr qp)) (send_opcodes (length ps)) ps"
  shows "\<exists>mm' qp' evs. recv_run env ctx qp ps = Inr (mm', ctx', qp', evs) \<and>
    put_at (env_mem env) (take (length (pkts_data (env_mem env) ps)) (sge_locs ctx (wr_stream w)))
      (pkts_data (env_mem env) ps) mm' \<and>
    filter is_comp evs = [Cq_comp (recv_wc qp w (length (pkts_data (env_mem env) ps))) (handle q) (cq_ctx q)] \<and>
    rq_psn (qp_attr qp') = (roce_qp_psn_inc ^^ length ps) (rq_psn (qp_attr qp)) \<and> resp_u qp' = 0 \<and> rq_wrs qp' = ws"
  using recv_send_message[OF assms refl] .

lemma recv_send_delivers_witness:
  "\<exists>mm' ctx' qp' evs wc. recv_run recv_env recv_base recv_qp send_pkts = Inr (mm', ctx', qp', evs) \<and>
     map mm' [0x100c, 0x100d, 0x100e, 0x100f, 0x2000, 0x2001] = [0, 1, 2, 3, 0x10, 0x11] \<and>
     filter is_comp evs = [Cq_comp wc 0 5] \<and> wc_wr_id wc = 77 \<and> wc_byte_len wc = 6 \<and> rq_wrs qp' = []"
proof -
  obtain ctx' where c: "roce_put_mrs recv_base (rwr_sge (rwr recv_wr)) = Inr ctx'" using recv_put by blast
  have m: "message_ok (env_mem recv_env) 4 (sge_locs recv_base (wr_stream recv_wr)) (rq_psn (qp_attr recv_qp))
      (send_opcodes (length send_pkts)) send_pkts"
    using send_pkts_ok by (simp add: recv_env_def) (simp add: send_pkts_def numeral_2_eq_2)
  have s: "rwr_byte_len recv_wr = 0" "resp_u recv_qp = 0" "rq_wrs recv_qp = [recv_wr]"
    by (simp_all add: recv_wr_def recv_qp_def sample_qp_def)
  have d: "pkts_data (env_mem recv_env) send_pkts = [0, 1, 2, 3, 0x10, 0x11]"
    by (simp add: send_pkts_def recv_env_def load_addrs addrs_def upt_rec)
  show ?thesis
    using recv_send_delivers[OF recv_wr_ready s(1) recv_peer_ok s(2,3) recv_cq c m]
    unfolding d recv_stream recv_locs
    by (auto simp: put_at_def recv_wc_def recv_wr_def)
qed

text \<open>C7: An RDMA WRITE arrives. The packets of a request, one or many, store their data one after the other
  from the address that the header of the first one names on, when its key and range are granted, and
  change no other byte of memory; no receive request is used and nothing completes. But the request leaves
  its address and the count of its bytes behind.\<close>

theorem recv_write_delivers:
  assumes "write_ready ctx (qp_pd qp) k s" "recv_peer ctx qp port sgid" "distinct (sge_locs ctx (sge_bytes s))"
    "length (concat ds) \<le> unat (sge_length s)" "resp_writtenlen qp = 0" "ps \<noteq> []"
    "write_message (env_mem env) k (sge_locs ctx (sge_bytes s)) (rq_psn (qp_attr qp)) (write_opcodes (length ps)) s ds ps"
  shows "\<exists>mm' qp' evs. recv_run env ctx qp ps = Inr (mm', ctx, qp', evs) \<and>
    put_at (env_mem env) (take (length (concat ds)) (sge_locs ctx (sge_bytes s))) (concat ds) mm' \<and>
    filter is_comp evs = [] \<and> rq_psn (qp_attr qp') = (roce_qp_psn_inc ^^ length ps) (rq_psn (qp_attr qp)) \<and>
    rq_wrs qp' = rq_wrs qp \<and> unat (resp_writtenlen qp') = length (concat ds) \<and> resp_u qp' = sge_addr s"
proof -
  have "list_all is_write (write_opcodes (length ps))" "write_opcodes (length ps) \<noteq> []"
    "write_inprocess (hd (write_opcodes (length ps))) = ((0 :: nat) \<noteq> 0)"
    "list_all write_inprocess (tl (write_opcodes (length ps)))"
    by (simp_all add: write_opcodes_def is_write_def write_inprocess_def list_all_iff)
  from recv_write_run[OF assms(1-3) _ _ assms(7) this] assms(4,5)
  show ?thesis by (auto simp: write_at_def)
qed

lemma recv_write_delivers_witness:
  "\<exists>mm' qp' evs. recv_run (recv_env\<lparr>env_mem := write_mem\<rparr>) recv_base recv_qp write_pkts = Inr (mm', recv_base, qp', evs) \<and>
     map mm' [0x100c, 0x100d, 0x100e, 0x100f, 0x2000, 0x2001] = [0x10, 0x11, 0x12, 0x13, 0x20, 0x21] \<and>
     unat (resp_writtenlen qp') = 6"
proof -
  have m: "write_message (env_mem (recv_env\<lparr>env_mem := write_mem\<rparr>)) 4 (sge_locs recv_base (sge_bytes write_sge))
      (rq_psn (qp_attr recv_qp)) (write_opcodes (length write_pkts)) write_sge
      [[0x10, 0x11, 0x12, 0x13], [0x20, 0x21]] write_pkts"
    using write_pkts_ok by simp (simp add: write_pkts_def numeral_2_eq_2)
  have s: "distinct (sge_locs recv_base (sge_bytes write_sge))" "resp_writtenlen recv_qp = 0" "write_pkts \<noteq> []"
    "length (concat [[0x10, 0x11, 0x12, 0x13], [0x20, 0x21 :: u8]]) \<le> unat (sge_length write_sge)"
    unfolding write_sge_def recv_locs by (simp_all add: recv_qp_def sample_qp_def write_pkts_def recv_sge_def)
  show ?thesis
    using recv_write_delivers[OF recv_write_ready recv_peer_ok s(1,4,2,3) m]
    unfolding write_sge_def recv_locs by (auto simp: put_at_def)
qed

end
