(* ===== verification/Qp.thy ===== *)
theory Qp
  imports Rc_Write
begin

text \<open>
  Queue pairs as objects (\<open>qp.c\<close>): creation from a PD and two CQs, the two special QPs, attributes,
  posting of work requests, destruction. The full context \<open>roce_ctx\<close> is the base with the table of QPs
  and the pointers to the special QPs. Everything that a QP points to is a handle; the handle
  \<open>null_handle\<close>, which no table has, is the null pointer.
\<close>

subsection \<open>The context\<close>

text \<open>
  What \<open>dev.smi\<close> and \<open>dev.gsi\<close> point to: nothing, the QP in the slot of the table with its number, an
  object that is in no table, or memory that was freed.
\<close>

datatype special_qp =
    Sp_null
  | Sp_res
  | Sp_heap roce_qp
  | Sp_freed

record roce_ctx = roce_base +
  qp_res :: "roce_qp roce_resource"
  smi :: special_qp
  gsi :: special_qp

abbreviation (input) SMI_QPN :: u32 where "SMI_QPN \<equiv> 0"
abbreviation (input) GSI_QPN :: u32 where "GSI_QPN \<equiv> 1"

definition null_handle :: u32 where "null_handle = 0xffffffff"

definition handle_of :: "u32 \<Rightarrow> u32 run" where
  "handle_of h = (if h = null_handle then Inl Null_deref else Inr h)"

definition roce_qp_zero :: roce_qp where
  "roce_qp_zero = \<lparr>handle = 0, ref = 0, qp_type = ROCE_QPT_SMI, sq_sig_all = False, use_srq = False,
     qp_pd = null_handle, qp_scq = null_handle, qp_rcq = null_handle, qp_ctx = 0,
     qp_attr = \<lparr>qp_state = ROCE_QPS_RESET, cur_qp_state = ROCE_QPS_RESET, rq_psn = 0, sq_psn = 0, path_mtu = 0,
       path_mig_state = ROCE_MIG_MIGRATED, qkey = 0, dest_qp_num = 0,
       qp_access_flags = 0, qp_cap = \<lparr>max_send_wr = 0, max_recv_wr = 0, max_send_sge = 0, max_recv_sge = 0,
         cap_max_inline_data = 0\<rparr>,
       qp_ah_attr = roce_ah_attr_zero, alt_ah_attr = roce_ah_attr_zero, pkey_index = 0,
       alt_pkey_index = 0, en_sqd_async_notify = 0, sq_draining = 0, max_rd_atomic = 0, max_dest_rd_atomic = 0,
       min_rnr_timer = 0, qp_port_num = 0, qp_timeout = 0, retry_cnt = 0, rnr_retry = 0, alt_port_num = 0, alt_timeout = 0\<rparr>,
     sq_wrs = [], rq_wrs = [], req_psn = 0, pending_pkts = [], outgoing_pkts = [], resp_u = 0, resp_rkey = 0,
     resp_dmalen = 0, resp_writtenlen = 0, in_psn_nak = False, resp_msn = 0, resp_heap = Map.empty\<rparr>"

subsection \<open>Lookup\<close>

definition roce_get_qp_noref :: "roce_ctx \<Rightarrow> u32 \<Rightarrow> roce_qp option run" where
  "roce_get_qp_noref ctx qp_handle = roce_resource_get (qp_res ctx) qp_handle"

definition roce_get_qp_type :: "roce_ctx \<Rightarrow> u32 \<Rightarrow> roce_qp_type run" where
  "roce_get_qp_type ctx qp_handle = bindR (roce_get_qp_noref ctx qp_handle) (\<lambda>qp. case qp of
       None \<Rightarrow> Inl Null_deref
     | Some q \<Rightarrow> Inr (qp_type q))"

definition roce_qp_ctx :: "roce_ctx \<Rightarrow> u32 \<Rightarrow> (int \<times> u64 option) run" where
  "roce_qp_ctx ctx qp_handle = bindR (roce_get_qp_noref ctx qp_handle) (\<lambda>qp. case qp of
       None \<Rightarrow> Inr (- EINVAL, None)
     | Some q \<Rightarrow> Inr (0, Some (qp_ctx q)))"

definition roce_get_qp :: "roce_ctx \<Rightarrow> u32 \<Rightarrow> (roce_qp option \<times> roce_ctx) run" where
  "roce_get_qp ctx qp_handle =
     bindR (res_ref (qp_res ctx) qp_handle) (\<lambda>(qp, rs). Inr (qp, ctx\<lparr>qp_res := rs\<rparr>))"

definition roce_put_qp :: "roce_ctx \<Rightarrow> u32 \<Rightarrow> (int \<times> roce_ctx) run" where
  "roce_put_qp ctx qp_handle =
     bindR (res_unref (qp_res ctx) qp_handle) (\<lambda>(ret, rs). Inr (ret, ctx\<lparr>qp_res := rs\<rparr>))"

text \<open>The assignments of a call through its pointer to a QP of the table.\<close>

definition qp_store :: "roce_ctx \<Rightarrow> roce_qp \<Rightarrow> roce_ctx" where
  "qp_store ctx qp = ctx\<lparr>qp_res := res_update (qp_res ctx) (handle qp) qp\<rparr>"

subsection \<open>Posting work requests\<close>

definition roce_post_recv :: "roce_ctx \<Rightarrow> u32 \<Rightarrow> recv_wr_priv \<Rightarrow> (int \<times> roce_ctx) run" where
  "roce_post_recv ctx qp_handle w =
     bindR (roce_get_qp ctx qp_handle) (\<lambda>(oqp, ctx1).
     bindR (roce_get_mrs ctx1 (rwr_sge (rwr w))) (\<lambda>(ret, ctx2).
     if ret \<noteq> 0 then bindR (roce_free_recv_wr ctx2 w) (\<lambda>ctx3. Inr (- EACCES, ctx3))
     else case oqp of
       None \<Rightarrow> Inl Null_deref
     | Some qp \<Rightarrow> Inr (0, qp_store ctx2 (qp\<lparr>rq_wrs := rq_wrs qp @ [w]\<rparr>))))"

text \<open>The references that a posted send takes; the error goes into 8 bits.\<close>

definition send_wr_ref :: "'a roce_base_scheme \<Rightarrow> send_wr_priv \<Rightarrow> (send_wr_priv \<times> 'a roce_base_scheme) run" where
  "send_wr_ref ctx w =
     (if roce_send_wr_is_inline w then Inr (w, ctx)
      else bindR (roce_get_mrs ctx (wr_sge (swr w))) (\<lambda>(ret, ctx').
        let w' = w\<lparr>swr_error := word_of_int ret\<rparr> in
        Inr (if swr_error w' \<noteq> 0 then w' else w'\<lparr>swr_mapped := True\<rparr>, ctx')))"

definition roce_post_send ::
  "roce_env \<Rightarrow> roce_ctx \<Rightarrow> u32 \<Rightarrow> send_wr_priv \<Rightarrow> nat \<Rightarrow> (int \<times> roce_ctx \<times> roce_event list) run" where
  "roce_post_send env ctx qp_handle w room =
     bindR (roce_get_qp ctx qp_handle) (\<lambda>(oqp, ctx1).
     bindR (send_wr_ref ctx1 w) (\<lambda>(w1, ctx2). case oqp of
       None \<Rightarrow> Inl Null_deref
     | Some qp \<Rightarrow>
         if qp_type qp = ROCE_QPT_RC then
           bindR (roce_request_rc env ctx2 qp w1 room) (\<lambda>(qp', evs). Inr (0, qp_store ctx2 qp', evs))
         else if qp_type qp = ROCE_QPT_GSI \<or> qp_type qp = ROCE_QPT_UD then
           bindR (roce_request_ud env ctx2 qp w1 (room \<noteq> 0)) (\<lambda>(ctx3, qp', evs). Inr (0, qp_store ctx3 qp', evs))
         else Inl Assert_failed))"

subsection \<open>Creation\<close>

definition roce_verify_qp_cap :: "'a roce_base_scheme \<Rightarrow> roce_qp_cap \<Rightarrow> int" where
  "roce_verify_qp_cap ctx cap =
     (let attr = dev_attr ctx in
      if max_send_wr cap = 0 \<or> max_send_wr cap > max_qp_wr attr then - EINVAL
      else if max_recv_wr cap = 0 \<or> max_recv_wr cap > max_qp_wr attr then - EINVAL
      else if max_send_sge cap = 0 \<or> max_send_sge cap > max_sge attr then - EINVAL
      else if max_recv_sge cap = 0 \<or> max_recv_sge cap > max_sge attr then - EINVAL
      else if cap_max_inline_data cap > max_inline_data attr then - EINVAL
      else 0)"

text \<open>The special QPs. The arguments are the success of the two allocations.\<close>

definition roce_alloc_special_qps :: "roce_ctx \<Rightarrow> bool \<Rightarrow> bool \<Rightarrow> (int \<times> roce_ctx) run" where
  "roce_alloc_special_qps ctx smi_ok gsi_ok =
     (let unused = roce_qp_zero\<lparr>qp_type := ROCE_QPT_MAX\<rparr>;
          remove_smi = (\<lambda>qpn rs gsi'. bindR (roce_resource_free rs SMI_QPN) (\<lambda>(_, rs').
            Inr (qpn, ctx\<lparr>qp_res := rs', smi := Sp_freed, gsi := gsi'\<rparr>))) in
      if \<not> smi_ok then Inr (- ENOMEM, ctx\<lparr>smi := Sp_null\<rparr>)
      else bindR (roce_resource_alloc_at (qp_res ctx) (Some roce_qp_zero) SMI_QPN) (\<lambda>(qpn, rs1).
        if qpn < 0 then Inr (qpn, ctx\<lparr>qp_res := rs1, smi := Sp_freed\<rparr>)
        else if \<not> gsi_ok then remove_smi qpn rs1 Sp_null
        else bindR (roce_resource_alloc_at rs1 (Some (roce_qp_zero\<lparr>handle := GSI_QPN\<rparr>)) GSI_QPN) (\<lambda>(qpn, rs2).
          if qpn < 0 then remove_smi qpn rs2 Sp_freed
          else Inr (0, ctx\<lparr>qp_res := res_update (res_update rs2 SMI_QPN unused) GSI_QPN (unused\<lparr>handle := GSI_QPN\<rparr>),
            smi := Sp_res, gsi := Sp_res\<rparr>))))"

text \<open>Reading and writing \<open>*ctx->dev.gsi\<close>.\<close>

definition gsi_read :: "roce_ctx \<Rightarrow> roce_qp run" where
  "gsi_read ctx = (case gsi ctx of
       Sp_null \<Rightarrow> Inl Null_deref
     | Sp_res \<Rightarrow> (case res_map (qp_res ctx) GSI_QPN of None \<Rightarrow> Inl Wild_pointer | Some q \<Rightarrow> Inr q)
     | Sp_heap q \<Rightarrow> Inr q
     | Sp_freed \<Rightarrow> Inl Wild_pointer)"

definition gsi_write :: "roce_ctx \<Rightarrow> roce_qp \<Rightarrow> roce_ctx" where
  "gsi_write ctx q = (case gsi ctx of
       Sp_res \<Rightarrow> ctx\<lparr>qp_res := res_update (qp_res ctx) GSI_QPN q\<rparr>
     | _ \<Rightarrow> ctx\<lparr>gsi := Sp_heap q\<rparr>)"

text \<open>The arguments of \<open>roce_create_qp\<close> after the handles, and the two numbers of \<open>random()\<close>.\<close>

record roce_qp_args =
  qa_type :: roce_qp_type
  qa_cap :: roce_qp_cap
  qa_flags :: u32
  qa_ctx :: u64
  qa_rnd_rq :: u32
  qa_rnd_sq :: u32

definition qp_init :: "roce_qp_args \<Rightarrow> u32 \<Rightarrow> u32 \<Rightarrow> u32 \<Rightarrow> u16 \<Rightarrow> roce_qp \<Rightarrow> u32 \<Rightarrow> roce_qp" where
  "qp_init a pd scq rcq mtu q qpn = q\<lparr>handle := qpn, qp_type := qa_type a,
     sq_sig_all := (qa_flags a AND 1 \<noteq> 0), use_srq := (qa_flags a AND 2 \<noteq> 0),
     qp_pd := pd, qp_scq := scq, qp_rcq := rcq, qp_ctx := qa_ctx a,
     qp_attr := (qp_attr q)\<lparr>qp_cap := qa_cap a, qp_state := ROCE_QPS_RESET, path_mtu := mtu, qp_port_num := 1,
       rq_psn := qa_rnd_rq a AND IB_BTH_PSN_MASK, sq_psn := qa_rnd_sq a AND IB_BTH_PSN_MASK\<rparr>,
     sq_wrs := [], rq_wrs := [], pending_pkts := [], outgoing_pkts := []\<rparr>"

text \<open>The label \<open>put_resource\<close>: giving back what was taken.\<close>

definition create_qp_undo :: "roce_ctx \<Rightarrow> u32 \<Rightarrow> u32 option \<Rightarrow> u32 option \<Rightarrow> (int \<times> roce_ctx) run" where
  "create_qp_undo ctx pd scq rcq =
     bindR (put_pd_checked ctx pd) (\<lambda>ctx1.
     bindR (case scq of None \<Rightarrow> Inr ctx1 | Some h \<Rightarrow> put_cq_checked ctx1 h) (\<lambda>ctx2.
     bindR (case rcq of None \<Rightarrow> Inr ctx2 | Some h \<Rightarrow> put_cq_checked ctx2 h) (\<lambda>ctx3.
     Inr (- EINVAL, ctx3))))"

definition ptr_handle :: "'a roce_res_scheme option \<Rightarrow> u32" where
  "ptr_handle x = (case x of None \<Rightarrow> null_handle | Some r \<Rightarrow> handle r)"

text \<open>From the references on: the GSI QP is taken, every other one allocated. The code tests the send CQ
  twice and the receive CQ never, so \<open>rcq\<close> may be null.\<close>

definition create_qp_install ::
  "roce_ctx \<Rightarrow> roce_pd \<Rightarrow> roce_cq \<Rightarrow> roce_cq option \<Rightarrow> roce_qp_args \<Rightarrow> bool \<Rightarrow> (int \<times> roce_ctx) run" where
  "create_qp_install ctx pd scq rcq a mem_ok =
     (let undo = (\<lambda>c. create_qp_undo c (handle pd) (Some (handle scq)) (map_option handle rcq));
          init = qp_init a (handle pd) (handle scq) (ptr_handle rcq) in
      bindR (port_at ctx 1) (\<lambda>port.
      if qa_type a = ROCE_QPT_GSI then
        bindR (assertR (gsi ctx \<noteq> Sp_null)) (\<lambda>_.
        bindR (gsi_read ctx) (\<lambda>q.
        if qp_type q \<noteq> ROCE_QPT_MAX then undo ctx
        else bindR (assertR (handle q = GSI_QPN)) (\<lambda>_.
          Inr (uint GSI_QPN, gsi_write ctx (init (active_mtu (port_attr port)) q GSI_QPN)))))
      else if \<not> mem_ok then undo ctx
      else bindR (res_install (qp_res ctx) roce_qp_zero (init (active_mtu (port_attr port)) roce_qp_zero)) (\<lambda>(qpn, rs).
        if qpn < 0 then undo (ctx\<lparr>qp_res := rs\<rparr>) else Inr (qpn, ctx\<lparr>qp_res := rs\<rparr>))))"

definition roce_create_qp ::
  "roce_ctx \<Rightarrow> u32 \<Rightarrow> u32 \<Rightarrow> u32 \<Rightarrow> roce_qp_args \<Rightarrow> bool \<Rightarrow> (int \<times> roce_ctx) run" where
  "roce_create_qp ctx pd_handle send_cq recv_cq a mem_ok =
     (if qa_type a \<notin> {ROCE_QPT_GSI, ROCE_QPT_RC, ROCE_QPT_UD} then Inr (- ENOTSUP, ctx)
      else if roce_verify_qp_cap ctx (qa_cap a) \<noteq> 0 then Inr (- EINVAL, ctx)
      else bindR (roce_get_pd ctx pd_handle) (\<lambda>(pd, ctx1). case pd of
          None \<Rightarrow> Inr (- EINVAL, ctx1)
        | Some p \<Rightarrow> bindR (roce_get_cq ctx1 send_cq) (\<lambda>(scq, ctx2). case scq of
              None \<Rightarrow> create_qp_undo ctx2 pd_handle None None
            | Some s \<Rightarrow> bindR (roce_get_cq ctx2 recv_cq) (\<lambda>(rcq, ctx3).
                create_qp_install ctx3 p s rcq a mem_ok))))"

subsection \<open>Destruction\<close>

text \<open>The loops that free the queued work requests.\<close>

fun free_send_wrs :: "'a roce_base_scheme \<Rightarrow> send_wr_priv list \<Rightarrow> 'a roce_base_scheme run" where
  "free_send_wrs ctx [] = Inr ctx"
| "free_send_wrs ctx (w # ws) = bindR (roce_free_send_wr ctx w) (\<lambda>ctx'. free_send_wrs ctx' ws)"

fun free_recv_wrs :: "'a roce_base_scheme \<Rightarrow> recv_wr_priv list \<Rightarrow> 'a roce_base_scheme run" where
  "free_recv_wrs ctx [] = Inr ctx"
| "free_recv_wrs ctx (w # ws) = bindR (roce_free_recv_wr ctx w) (\<lambda>ctx'. free_recv_wrs ctx' ws)"

text \<open>The GSI QP is cleared where it is; it is no longer in the table.\<close>

definition roce_destroy_qp :: "roce_ctx \<Rightarrow> u32 \<Rightarrow> (int \<times> roce_ctx) run" where
  "roce_destroy_qp ctx qp_handle =
     bindR (roce_get_qp ctx qp_handle) (\<lambda>(oqp, ctx1). case oqp of
       None \<Rightarrow> Inl Null_deref
     | Some qp \<Rightarrow>
         bindR (handle_of (qp_pd qp)) (\<lambda>pd. bindR (put_pd_checked ctx1 pd) (\<lambda>ctx2.
         bindR (handle_of (qp_scq qp)) (\<lambda>scq. bindR (put_cq_checked ctx2 scq) (\<lambda>ctx3.
         bindR (handle_of (qp_rcq qp)) (\<lambda>rcq. bindR (put_cq_checked ctx3 rcq) (\<lambda>ctx4.
         bindR (roce_resource_free (qp_res ctx4) (handle qp)) (\<lambda>(_, rs).
         bindR (free_send_wrs (ctx4\<lparr>qp_res := rs\<rparr>) (sq_wrs qp)) (\<lambda>ctx5.
         bindR (free_recv_wrs ctx5 (rq_wrs qp)) (\<lambda>ctx6.
         Inr (0, if qp_type qp = ROCE_QPT_GSI then ctx6\<lparr>gsi := Sp_heap (roce_qp_zero\<lparr>qp_type := ROCE_QPT_MAX\<rparr>)\<rparr>
                 else ctx6)))))))))))"

definition roce_destroy_special_qps :: "roce_ctx \<Rightarrow> roce_ctx run" where
  "roce_destroy_special_qps ctx =
     bindR (if smi ctx = Sp_null then Inr ctx
            else bindR (roce_resource_free (qp_res ctx) SMI_QPN) (\<lambda>(_, rs).
              if smi ctx = Sp_freed then Inl Wild_pointer else Inr (ctx\<lparr>qp_res := rs, smi := Sp_freed\<rparr>))) (\<lambda>ctx1.
     if gsi ctx1 = Sp_null then Inr ctx1
     else bindR (gsi_read ctx1) (\<lambda>q.
       if qp_type q \<noteq> ROCE_QPT_MAX then bindR (roce_destroy_qp ctx1 GSI_QPN) (\<lambda>(_, ctx2). Inr ctx2)
       else bindR (roce_resource_free (qp_res ctx1) GSI_QPN) (\<lambda>(_, rs). Inr (ctx1\<lparr>qp_res := rs, gsi := Sp_freed\<rparr>))))"

subsection \<open>Attributes\<close>

abbreviation (input) ROCE_QP_STATE :: u32 where "ROCE_QP_STATE \<equiv> 0x1"
abbreviation (input) ROCE_QP_CUR_STATE :: u32 where "ROCE_QP_CUR_STATE \<equiv> 0x2"
abbreviation (input) ROCE_QP_EN_SQD_ASYNC_NOTIFY :: u32 where "ROCE_QP_EN_SQD_ASYNC_NOTIFY \<equiv> 0x4"
abbreviation (input) ROCE_QP_ACCESS_FLAGS :: u32 where "ROCE_QP_ACCESS_FLAGS \<equiv> 0x8"
abbreviation (input) ROCE_QP_PKEY_INDEX :: u32 where "ROCE_QP_PKEY_INDEX \<equiv> 0x10"
abbreviation (input) ROCE_QP_PORT :: u32 where "ROCE_QP_PORT \<equiv> 0x20"
abbreviation (input) ROCE_QP_QKEY :: u32 where "ROCE_QP_QKEY \<equiv> 0x40"
abbreviation (input) ROCE_QP_AV :: u32 where "ROCE_QP_AV \<equiv> 0x80"
abbreviation (input) ROCE_QP_PATH_MTU :: u32 where "ROCE_QP_PATH_MTU \<equiv> 0x100"
abbreviation (input) ROCE_QP_TIMEOUT :: u32 where "ROCE_QP_TIMEOUT \<equiv> 0x200"
abbreviation (input) ROCE_QP_RETRY_CNT :: u32 where "ROCE_QP_RETRY_CNT \<equiv> 0x400"
abbreviation (input) ROCE_QP_RNR_RETRY :: u32 where "ROCE_QP_RNR_RETRY \<equiv> 0x800"
abbreviation (input) ROCE_QP_RQ_PSN :: u32 where "ROCE_QP_RQ_PSN \<equiv> 0x1000"
abbreviation (input) ROCE_QP_MAX_QP_RD_ATOMIC :: u32 where "ROCE_QP_MAX_QP_RD_ATOMIC \<equiv> 0x2000"
abbreviation (input) ROCE_QP_ALT_PATH :: u32 where "ROCE_QP_ALT_PATH \<equiv> 0x4000"
abbreviation (input) ROCE_QP_MIN_RNR_TIMER :: u32 where "ROCE_QP_MIN_RNR_TIMER \<equiv> 0x8000"
abbreviation (input) ROCE_QP_SQ_PSN :: u32 where "ROCE_QP_SQ_PSN \<equiv> 0x10000"
abbreviation (input) ROCE_QP_MAX_DEST_RD_ATOMIC :: u32 where "ROCE_QP_MAX_DEST_RD_ATOMIC \<equiv> 0x20000"
abbreviation (input) ROCE_QP_PATH_MIG_STATE :: u32 where "ROCE_QP_PATH_MIG_STATE \<equiv> 0x40000"
abbreviation (input) ROCE_QP_CAP :: u32 where "ROCE_QP_CAP \<equiv> 0x80000"
abbreviation (input) ROCE_QP_DEST_QPN :: u32 where "ROCE_QP_DEST_QPN \<equiv> 0x100000"

definition unsupported_qp_attr :: u32 where
  "unsupported_qp_attr = ROCE_QP_ALT_PATH OR ROCE_QP_PATH_MIG_STATE"

definition roce_set_qp_state :: "roce_qp \<Rightarrow> roce_qp_state \<Rightarrow> int" where
  "roce_set_qp_state qp state = 0"

text \<open>
  \<open>roce_modify_qp\<close> is a sequence of steps, each for one bit of the mask; the first one that fails ends it,
  with the assignments of the steps before it in place. The QP is not tested for null. Six bits of the mask
  have no step: they are neither refused nor do they change the attributes they stand for.
\<close>

type_synonym modify_step = "roce_qp option \<Rightarrow> (int \<times> roce_qp option) run"

fun modify_loop :: "u32 \<Rightarrow> (u32 \<times> modify_step) list \<Rightarrow> modify_step" where
  "modify_loop am [] qp = Inr (0, qp)"
| "modify_loop am ((b, f) # fs) qp =
     (if am AND b = 0 then modify_loop am fs qp
      else bindR (f qp) (\<lambda>(ret, qp'). if ret \<noteq> 0 then Inr (ret, qp') else modify_loop am fs qp'))"

definition set_attr :: "(roce_qp_attr \<Rightarrow> roce_qp_attr) \<Rightarrow> modify_step" where
  "set_attr f oqp = (case oqp of None \<Rightarrow> Inl Null_deref | Some qp \<Rightarrow> Inr (0, Some (qp\<lparr>qp_attr := f (qp_attr qp)\<rparr>)))"

definition check_attr :: "int \<Rightarrow> (roce_qp_attr \<Rightarrow> roce_qp_attr) \<Rightarrow> modify_step" where
  "check_attr ret f oqp = (if ret \<noteq> 0 then Inr (ret, oqp) else set_attr f oqp)"

definition roce_modify_qp_ah :: "'a roce_base_scheme \<Rightarrow> roce_ah_attr \<Rightarrow> modify_step" where
  "roce_modify_qp_ah ctx ah oqp =
     (if unat (ah_sgid_index ah) \<ge> ROCE_GID_TBL_LEN then Inr (- EINVAL, oqp)
      else bindR (port_at ctx 1) (\<lambda>port. bindR (gid_at port (ah_sgid_index ah)) (\<lambda>sgid.
        check_attr (if roce_gid_is_ipv4 sgid \<noteq> roce_gid_is_ipv4 (ah_gid ah) then - EINVAL else 0)
          (\<lambda>a. a\<lparr>qp_ah_attr := ah\<rparr>) oqp)))"

definition modify_qp_mtu :: "'a roce_base_scheme \<Rightarrow> roce_qp_attr \<Rightarrow> modify_step" where
  "modify_qp_mtu ctx attr oqp =
     (if \<not> roce_valid_mtu (path_mtu attr) then Inr (- EINVAL, oqp)
      else bindR (port_at ctx (qp_port_num attr)) (\<lambda>port.
        check_attr (if path_mtu attr > max_mtu (port_attr port) then - EINVAL else 0)
          (\<lambda>a. a\<lparr>path_mtu := path_mtu attr\<rparr>) oqp))"

definition modify_qp_sq_psn :: "u32 \<Rightarrow> modify_step" where
  "modify_qp_sq_psn psn oqp = (case oqp of
       None \<Rightarrow> Inl Null_deref
     | Some qp \<Rightarrow>
         if pending_pkts qp \<noteq> [] \<or> outgoing_pkts qp \<noteq> [] then Inr (- EBUSY, oqp)
         else Inr (0, Some (qp\<lparr>qp_attr := (qp_attr qp)\<lparr>sq_psn := psn\<rparr>, req_psn := psn\<rparr>)))"

definition modify_steps :: "'a roce_base_scheme \<Rightarrow> roce_qp_attr \<Rightarrow> (u32 \<times> modify_step) list" where
  "modify_steps ctx attr =
    [(ROCE_QP_STATE, set_attr (\<lambda>a. a\<lparr>qp_state := qp_state attr\<rparr>)),
     (ROCE_QP_ACCESS_FLAGS, set_attr (\<lambda>a. a\<lparr>qp_access_flags := qp_access_flags attr\<rparr>)),
     (ROCE_QP_PKEY_INDEX, check_attr (if unat (pkey_index attr) \<ge> ROCE_MAX_PKEY then - EINVAL else 0)
        (\<lambda>a. a\<lparr>pkey_index := pkey_index attr\<rparr>)),
     (ROCE_QP_PORT, check_attr (if unat (qp_port_num attr) > ROCE_MAX_PORTS then - EINVAL else 0)
        (\<lambda>a. a\<lparr>qp_port_num := qp_port_num attr\<rparr>)),
     (ROCE_QP_AV, roce_modify_qp_ah ctx (qp_ah_attr attr)),
     (ROCE_QP_QKEY, set_attr (\<lambda>a. a\<lparr>qkey := qkey attr\<rparr>)),
     (ROCE_QP_PATH_MTU, modify_qp_mtu ctx attr),
     (ROCE_QP_SQ_PSN, modify_qp_sq_psn (sq_psn attr)),
     (ROCE_QP_RQ_PSN, set_attr (\<lambda>a. a\<lparr>rq_psn := rq_psn attr\<rparr>)),
     (ROCE_QP_MAX_QP_RD_ATOMIC, set_attr (\<lambda>a. a\<lparr>max_rd_atomic := max_rd_atomic attr\<rparr>)),
     (ROCE_QP_MAX_DEST_RD_ATOMIC, set_attr (\<lambda>a. a\<lparr>max_dest_rd_atomic := max_dest_rd_atomic attr\<rparr>)),
     (ROCE_QP_CAP, check_attr (roce_verify_qp_cap ctx (qp_cap attr)) (\<lambda>a. a\<lparr>qp_cap := qp_cap attr\<rparr>)),
     (ROCE_QP_DEST_QPN, set_attr (\<lambda>a. a\<lparr>dest_qp_num := dest_qp_num attr\<rparr>))]"

definition roce_modify_qp :: "roce_ctx \<Rightarrow> u32 \<Rightarrow> roce_qp_attr \<Rightarrow> u32 \<Rightarrow> (int \<times> roce_ctx) run" where
  "roce_modify_qp ctx qp_handle attr attr_mask =
     bindR (roce_get_qp ctx qp_handle) (\<lambda>(oqp, ctx1).
     if attr_mask AND unsupported_qp_attr \<noteq> 0 then Inr (- ENOTSUP, ctx1)
     else bindR (modify_loop attr_mask (modify_steps ctx1 attr) oqp) (\<lambda>(ret, oqp').
       Inr (ret, case oqp' of None \<Rightarrow> ctx1 | Some qp' \<Rightarrow> qp_store ctx1 qp')))"

text \<open>The result code and, on success, what is copied to the caller's attributes.\<close>

definition roce_query_qp :: "roce_ctx \<Rightarrow> u32 \<Rightarrow> u32 \<Rightarrow> (int \<times> roce_qp_attr option \<times> roce_ctx) run" where
  "roce_query_qp ctx qp_handle attr_mask =
     bindR (roce_get_qp ctx qp_handle) (\<lambda>(oqp, ctx1).
     if attr_mask AND unsupported_qp_attr \<noteq> 0 then Inr (- ENOTSUP, None, ctx1)
     else case oqp of
       None \<Rightarrow> Inl Null_deref
     | Some qp \<Rightarrow> Inr (0, Some (qp_attr qp), ctx1))"

end
