(* ===== verification/Dev.thy ===== *)
theory Dev
  imports Qp
begin

text \<open>
  Contexts and devices (\<open>ctx.c\<close>, \<open>dev.c\<close>): checking the parameters, the tables with their limits, the
  special QPs, and taking it all down. A callback is known by whether it was given; results of lock
  initialisations and of allocations are arguments.
\<close>

subsection \<open>Contexts\<close>

datatype roce_version = ROCE_V1 | ROCE_V2

record roce_ctx_para =
  para_version :: roce_version
  para_page_size :: u32
  para_net_xmit :: bool
  para_cq_comp :: bool
  para_dma_map :: bool
  para_dma_unmap :: bool
  para_malloc :: bool
  para_free :: bool
  para_calloc :: bool
  para_realloc :: bool
  para_lock_size :: u32
  para_spin_init :: bool
  para_spin_lock :: bool
  para_spin_trylock :: bool
  para_spin_unlock :: bool

definition roce_attr_zero :: roce_device_attr where
  "roce_attr_zero = \<lparr>device_cap_flags = 0, max_mr_size = 0, max_qp = 0, max_qp_wr = 0, max_sge = 0,
     max_sge_rd = 0, max_cq = 0, max_cqe = 0, max_mr = 0, max_pd = 0, max_mw = 0, max_ah = 0,
     max_srq = 0, max_inline_data = 0, max_pkeys = 0, phys_port_cnt = 0\<rparr>"

definition roce_port_zero :: roce_port where
  "roce_port_zero = \<lparr>port_attr = \<lparr>port_cap_flags = 0, max_mtu = 0, active_mtu = 0, gid_tbl_len = 0,
       pkey_tbl_len = 0, max_msg_sz = 0, bad_pkey_cntr = 0, qkey_viol_cntr = 0\<rparr>,
     vnet_hdr = 0, gids = replicate ROCE_GID_TBL_LEN (replicate ROCE_GID_LEN 0), port_mac = replicate ROCE_MAC_LEN 0\<rparr>"

definition no_table :: "'o roce_resource" where
  "no_table = \<lparr>res_size = 0, res_addr = None\<rparr>"

text \<open>The context from \<open>calloc\<close>.\<close>

definition roce_ctx_zero :: "u32 \<Rightarrow> roce_ctx" where
  "roce_ctx_zero psize = \<lparr>page_size = psize, dev_attr = roce_attr_zero, ports = [roce_port_zero],
     pd_res = no_table, cq_res = no_table, mr_res = no_table, ah_res = no_table,
     qp_res = no_table, smi = Sp_null, gsi = Sp_null\<rparr>"

definition given :: "bool list \<Rightarrow> nat" where
  "given bs = length (filter id bs)"

definition roce_new_ctx :: "roce_ctx_para \<Rightarrow> bool \<Rightarrow> roce_ctx option" where
  "roce_new_ctx para mem_ok =
     (let mm = given [para_malloc para, para_free para, para_calloc para, para_realloc para];
          spin = given [para_lock_size para \<noteq> 0, para_spin_init para, para_spin_lock para,
            para_spin_trylock para, para_spin_unlock para] in
      if para_version para \<noteq> ROCE_V2 then None
      else if \<not> roce_power_of_2 (ucast (para_page_size para)) then None
      else if \<not> para_net_xmit para then None
      else if \<not> para_cq_comp para then None
      else if \<not> para_dma_map para \<or> \<not> para_dma_unmap para then None
      else if mm \<noteq> 0 \<and> mm \<noteq> 4 then None
      else if spin \<noteq> 0 \<and> spin \<noteq> 5 then None
      else if \<not> mem_ok then None
      else Some (roce_ctx_zero (para_page_size para)))"

subsection \<open>Devices\<close>

abbreviation (input) ROCE_MAX_INLINE_DATA :: u32 where "ROCE_MAX_INLINE_DATA \<equiv> 1024"
abbreviation (input) ROCE_MIN_GENERAL :: u32 where "ROCE_MIN_GENERAL \<equiv> 1"

text \<open>The numbers of the two flags, not their bits, are combined.\<close>

definition ROCE_DEVICE_BAD_PKEY_CNTR :: u64 where "ROCE_DEVICE_BAD_PKEY_CNTR = 1"
definition ROCE_DEVICE_BAD_QKEY_CNTR :: u64 where "ROCE_DEVICE_BAD_QKEY_CNTR = 2"

text \<open>One round of the loop over the tables: the size against its limits, and the table.\<close>

definition init_table :: "'o roce_resource \<Rightarrow> u32 \<Rightarrow> u32 \<Rightarrow> u32 \<Rightarrow> int \<times> bool \<Rightarrow> bool \<times> 'o roce_resource" where
  "init_table rs sz lo hi r =
     (if sz < lo \<or> sz > hi then (False, rs)
      else if sz = 0 then (True, rs)
      else let (ret, rs') = roce_resource_init rs sz (fst r) (snd r) in (ret = 0, rs'))"

text \<open>The tables in the order of their enumeration. Memory windows and SRQs must have none, so their
  tables stay empty and the context of the model has none. The argument \<open>r\<close> gives the results of lock
  and allocation for each table.\<close>

definition init_tables :: "roce_ctx \<Rightarrow> roce_device_attr \<Rightarrow> (nat \<Rightarrow> int \<times> bool) \<Rightarrow> bool \<times> roce_ctx" where
  "init_tables ctx para r =
     (let (ok, rs) = init_table (pd_res ctx) (max_pd para) ROCE_MIN_GENERAL ROCE_MAX_GENERAL (r 0); ctx1 = ctx\<lparr>pd_res := rs\<rparr> in
      if \<not> ok then (False, ctx1) else
      let (ok, rs) = init_table (cq_res ctx1) (max_cq para) ROCE_MIN_GENERAL ROCE_MAX_GENERAL (r 1); ctx2 = ctx1\<lparr>cq_res := rs\<rparr> in
      if \<not> ok then (False, ctx2) else
      let (ok, rs) = init_table (mr_res ctx2) (max_mr para) ROCE_MIN_GENERAL ROCE_MAX_GENERAL (r 2); ctx3 = ctx2\<lparr>mr_res := rs\<rparr> in
      if \<not> ok then (False, ctx3) else
      if max_mw para \<noteq> 0 then (False, ctx3) else
      let (ok, rs) = init_table (qp_res ctx3) (max_qp para) 3 ROCE_MAX_GENERAL (r 4); ctx4 = ctx3\<lparr>qp_res := rs\<rparr> in
      if \<not> ok then (False, ctx4) else
      if max_srq para \<noteq> 0 then (False, ctx4) else
      let (ok, rs) = init_table (ah_res ctx4) (max_ah para) ROCE_MIN_GENERAL ROCE_MAX_GENERAL (r 6) in
      (ok, ctx4\<lparr>ah_res := rs\<rparr>))"

definition roce_destroy_all_resources :: "roce_ctx \<Rightarrow> roce_ctx" where
  "roce_destroy_all_resources ctx = ctx\<lparr>pd_res := roce_resource_destroy (pd_res ctx),
     cq_res := roce_resource_destroy (cq_res ctx), mr_res := roce_resource_destroy (mr_res ctx),
     qp_res := roce_resource_destroy (qp_res ctx), ah_res := roce_resource_destroy (ah_res ctx)\<rparr>"

text \<open>The result of \<open>roce_alloc_special_qps\<close> is not looked at.\<close>

definition roce_init_device ::
  "roce_ctx \<Rightarrow> roce_device_attr \<Rightarrow> (nat \<Rightarrow> int \<times> bool) \<Rightarrow> bool \<Rightarrow> bool \<Rightarrow> (int \<times> roce_ctx) run" where
  "roce_init_device ctx para r smi_ok gsi_ok =
     (if max_mr_size para < page_size ctx \<or> \<not> roce_power_of_2 (ucast (max_mr_size para)) then Inr (- EINVAL, ctx)
      else if unat (max_sge para) \<ge> ROCE_MAX_SGE then Inr (- EINVAL, ctx)
      else if max_inline_data para \<ge> ROCE_MAX_INLINE_DATA then Inr (- EINVAL, ctx)
      else if max_pkeys para = 0 \<or> unat (max_pkeys para) > ROCE_MAX_PKEY then Inr (- EINVAL, ctx)
      else if phys_port_cnt para = 0 \<or> unat (phys_port_cnt para) > ROCE_MAX_PORTS then Inr (- EINVAL, ctx)
      else let (ok, ctx1) = init_tables ctx para r in
        if \<not> ok then Inr (- ENOMEM, roce_destroy_all_resources ctx1)
        else bindR (roce_alloc_special_qps ctx1 smi_ok gsi_ok) (\<lambda>(_, ctx2).
          Inr (0, ctx2\<lparr>dev_attr := para\<lparr>device_cap_flags :=
            ROCE_DEVICE_BAD_PKEY_CNTR OR ROCE_DEVICE_BAD_QKEY_CNTR\<rparr>\<rparr>)))"

text \<open>The slots of a table are read for the log before it is destroyed.\<close>

definition free_table :: "'o roce_resource \<Rightarrow> 'o roce_resource run" where
  "free_table rs = (if res_size rs = 0 then Inr rs
     else case res_addr rs of None \<Rightarrow> Inl Null_deref | Some _ \<Rightarrow> Inr (roce_resource_destroy rs))"

definition roce_free_dev :: "roce_ctx \<Rightarrow> roce_ctx run" where
  "roce_free_dev ctx =
     bindR (roce_destroy_special_qps ctx) (\<lambda>ctx1.
     bindR (free_table (pd_res ctx1)) (\<lambda>pds. bindR (free_table (cq_res ctx1)) (\<lambda>cqs.
     bindR (free_table (mr_res ctx1)) (\<lambda>mrs. bindR (free_table (qp_res ctx1)) (\<lambda>qps.
     bindR (free_table (ah_res ctx1)) (\<lambda>ahs.
     Inr (ctx1\<lparr>pd_res := pds, cq_res := cqs, mr_res := mrs, qp_res := qps, ah_res := ahs\<rparr>)))))))"

definition roce_free_ctx :: "roce_ctx \<Rightarrow> unit run" where
  "roce_free_ctx ctx = bindR (roce_free_dev ctx) (\<lambda>_. Inr ())"

end
