(* ===== verification/Net_Recv.thy ===== *)
theory Net_Recv
  imports Dev
begin

text \<open>
  The entry of the receive path (\<open>roce_net_recv\<close> and \<open>roce_recv_bth\<close> of \<open>responder.c\<close>): from a frame of
  the network to the queue pair it is for.
\<close>

subsection \<open>Definitions\<close>

abbreviation (input) ROCE_PKEY :: u16 where "ROCE_PKEY \<equiv> 0xFFFF"

definition qp_receives :: "roce_qp_state \<Rightarrow> bool" where
  "qp_receives st \<longleftrightarrow> st \<in> {ROCE_QPS_RTR, ROCE_QPS_RTS, ROCE_QPS_SQD, ROCE_QPS_SQE}"

text \<open>Taking the pad off the tail.\<close>

definition discard_pad :: "ib_bth \<Rightarrow> iov list \<Rightarrow> (int + iov list) run" where
  "discard_pad bth iovs =
     (let padcnt = unat (ib_bth_get_padcnt bth) in
      if padcnt = 0 then Inr (Inr iovs)
      else bindR (roce_iov_len iovs) (\<lambda>buf_len.
        if buf_len < padcnt then Inr (Inl (- EPROTO))
        else bindR (roce_iov_reverse iovs padcnt) (\<lambda>(_, _, iovs'). Inr (Inr iovs'))))"

text \<open>The checks between lookup and dispatch; all but the first two errors put the QP.\<close>

definition bth_checks :: "ib_bth \<Rightarrow> roce_qp \<Rightarrow> iov list \<Rightarrow> (int + iov list) run" where
  "bth_checks bth qp iovs =
     (if \<not> qp_receives (qp_state (qp_attr qp)) then Inr (Inl (- EACCES))
      else if ib_bth_get_pkey bth \<noteq> ROCE_PKEY then Inr (Inl (- ENOTSUP))
      else bindR (roce_qp_type_to_ib (qp_type qp)) (\<lambda>ty.
        if ib_bth_get_qp_type bth \<noteq> ty then Inr (Inl (- EPROTO))
        else discard_pad bth iovs))"

definition roce_recv_bth ::
  "roce_env \<Rightarrow> roce_ctx \<Rightarrow> iov list \<Rightarrow> ib_bth \<Rightarrow> u8 list \<Rightarrow> bool \<Rightarrow> u64 \<Rightarrow> bool \<Rightarrow>
   (int \<times> mem \<times> roce_ctx \<times> roce_event list) run" where
  "roce_recv_bth env ctx iovs bth ip is_ipv4 ip_addr mem_ok =
     (let destqp = ib_bth_get_destqp bth;
          put = (\<lambda>(ret, mm, c, evs). bindR (roce_put_qp c destqp) (\<lambda>(_, c'). Inr (ret, mm, c', evs))) in
      bindR (roce_get_qp ctx destqp) (\<lambda>(oqp, ctx1). case oqp of
          None \<Rightarrow> Inr (- EPROTO, env_mem env, ctx1, [])
        | Some qp \<Rightarrow>
            if destqp = SMI_QPN then Inr (- ENOTSUP, env_mem env, ctx1, [])
            else if destqp = GSI_QPN \<and> qp_type qp = ROCE_QPT_MAX then Inr (- EAGAIN, env_mem env, ctx1, [])
            else bindR (assertR (destqp = handle qp)) (\<lambda>_.
              bindR (bth_checks bth qp iovs) (\<lambda>chk. case chk of
                  Inl e \<Rightarrow> put (e, env_mem env, ctx1, [])
                | Inr iovs' \<Rightarrow>
                    bindR (if qp_type qp = ROCE_QPT_RC then roce_recv_rc env ctx1 iovs' bth qp mem_ok
                           else if qp_type qp = ROCE_QPT_UD \<or> qp_type qp = ROCE_QPT_GSI
                           then roce_recv_ud env ctx1 iovs' bth qp ip is_ipv4 ip_addr
                           else Inl Assert_failed) (\<lambda>(ret, mm, ctx2, qp', evs).
                    put (ret, mm, qp_store ctx2 qp', evs))))))"

text \<open>The arguments \<open>ip0\<close> and \<open>ihl0\<close> are what the buffers for the headers hold before, \<open>ip_addr\<close> is where
  the former is.\<close>

definition roce_net_recv ::
  "roce_env \<Rightarrow> roce_ctx \<Rightarrow> iov list \<Rightarrow> u8 list \<Rightarrow> u8 list \<Rightarrow> u64 \<Rightarrow> bool \<Rightarrow>
   (int \<times> mem \<times> roce_ctx \<times> roce_event list) run" where
  "roce_net_recv env ctx iovs ip0 ihl0 ip_addr mem_ok =
     bindR (roce_net_decap (env_mem env) ctx ip0 ihl0 iovs) (\<lambda>r. case r of
         Inl e \<Rightarrow> Inr (e, env_mem env, ctx, [])
       | Inr (bth, ip, is_ipv4, iovs') \<Rightarrow>
           bindR (roce_recv_bth env ctx iovs' bth ip is_ipv4 ip_addr mem_ok) (\<lambda>(ret, mm, ctx', evs).
           if ret < 0 then Inr (ret, mm, ctx', evs)
           else bindR (roce_iov_len iovs) (\<lambda>len. Inr (int len, mm, ctx', evs))))"

end
