(* ===== verification/Qp_Life.thy ===== *)
theory Qp_Life
  imports Net_Recv
begin

text \<open>
  The objects of a context over time: every sequence of calls that create, destroy and use them keeps
  the pointers between them alive and the reference counts exact.
\<close>

subsection \<open>What memory regions change\<close>

text \<open>Taking and giving back regions changes their table and the counts of the PDs.\<close>

definition same_keys :: "'o roce_resource \<Rightarrow> 'o roce_resource \<Rightarrow> bool" where
  "same_keys rs rs' \<longleftrightarrow> (\<forall>h. (res_map rs h = None) = (res_map rs' h = None))"

definition mr_frame :: "'a roce_base_scheme \<Rightarrow> 'a roce_base_scheme \<Rightarrow> bool" where
  "mr_frame ctx ctx' \<longleftrightarrow> (\<exists>pds mrs. ctx' = ctx\<lparr>pd_res := pds, mr_res := mrs\<rparr> \<and> same_keys (pd_res ctx) pds)"

lemma mr_frame_intros [intro]:
  "mr_frame ctx ctx" "mr_frame ctx (ctx\<lparr>mr_res := b\<rparr>)" "same_keys (pd_res ctx) a \<Longrightarrow> mr_frame ctx (ctx\<lparr>pd_res := a\<rparr>)"
proof -
  have k: "same_keys (pd_res ctx) (pd_res ctx)" by (simp add: same_keys_def)
  have "ctx = ctx\<lparr>pd_res := pd_res ctx, mr_res := mr_res ctx\<rparr>" by simp
  then show "mr_frame ctx ctx" unfolding mr_frame_def using k by blast
  have "ctx\<lparr>mr_res := b\<rparr> = ctx\<lparr>pd_res := pd_res ctx, mr_res := b\<rparr>" by simp
  then show "mr_frame ctx (ctx\<lparr>mr_res := b\<rparr>)" unfolding mr_frame_def using k by blast
  have "ctx\<lparr>pd_res := a\<rparr> = ctx\<lparr>pd_res := a, mr_res := mr_res ctx\<rparr>" by simp
  then show "same_keys (pd_res ctx) a \<Longrightarrow> mr_frame ctx (ctx\<lparr>pd_res := a\<rparr>)" unfolding mr_frame_def by blast
qed

lemma mr_frame_trans: "mr_frame a b \<Longrightarrow> mr_frame b c \<Longrightarrow> mr_frame a c"
  unfolding mr_frame_def same_keys_def by force

lemma same_keys_write:
  assumes "roce_resource_get rs h = Inr (Some x)"
  shows "same_keys rs (res_update rs h y)"
proof -
  obtain addr where "res_addr rs = Some addr" "unat h < length addr" "addr ! unat h = Some x"
    using assms by (auto simp: roce_resource_get_def addr_read_def bindR_eq_Inr assertR_def
        split: if_splits option.splits)
  then show ?thesis
    by (auto simp: same_keys_def res_map_def res_update_def addr_write_def nth_list_update)
qed

lemma res_unref_keys: "res_unref rs h = Inr (ret, rs') \<Longrightarrow> same_keys rs rs'"
  by (auto simp: res_unref_def bindR_eq_Inr same_keys_write split: option.splits)
    (simp add: same_keys_def)

lemma put_pd_frame: "put_pd_checked ctx h = Inr ctx' \<Longrightarrow> mr_frame ctx ctx'"
  by (auto simp: put_pd_checked_def roce_put_pd_def bindR_eq_Inr dest: res_unref_keys)

lemma destroy_mr_frame:
  assumes "roce_destroy_mr ctx h = Inr (ret, ctx')"
  shows "mr_frame ctx ctx'"
proof -
  obtain x where x: "(case x of None \<Rightarrow> Inr (- EINVAL, ctx)
       | Some m \<Rightarrow>
           if ref m \<noteq> 0 then
             Inr (0, ctx\<lparr>mr_res := res_update (mr_res ctx) h (m\<lparr>mr_state := ROCE_MR_STATE_DESTROYED\<rparr>)\<rparr>)
           else bindR (roce_resource_free (mr_res ctx) h) (\<lambda>(ret, rs).
             let ctx1 = ctx\<lparr>mr_res := rs\<rparr> in
             if ret \<noteq> 0 then Inr (ret, ctx1)
             else bindR (put_pd_checked ctx1 (mr_pd m)) (\<lambda>ctx2. Inr (0, ctx2)))) = Inr (ret, ctx')"
    using assms unfolding roce_destroy_mr_def bindR_eq_Inr by blast
  then show ?thesis
    by (cases x) (auto simp: bindR_eq_Inr Let_def split: if_splits
        dest!: put_pd_frame intro: mr_frame_trans[OF mr_frame_intros(2)])
qed

lemma put_mr_frame:
  assumes "roce_put_mr ctx h = Inr ctx'"
  shows "mr_frame ctx ctx'"
proof -
  obtain x where x: "(case x of None \<Rightarrow> Inr ctx
       | Some m \<Rightarrow>
           let ctx1 = ctx\<lparr>mr_res := res_update (mr_res ctx) h (m\<lparr>ref := ref m - 1\<rparr>)\<rparr> in
           if mr_state m = ROCE_MR_STATE_DESTROYED
           then bindR (roce_destroy_mr ctx1 h) (\<lambda>(ret, ctx2). Inr ctx2)
           else Inr ctx1) = Inr ctx'"
    using assms unfolding roce_put_mr_def bindR_eq_Inr by blast
  then show ?thesis
    by (cases x) (auto simp: bindR_eq_Inr Let_def split: if_splits
        dest!: destroy_mr_frame intro: mr_frame_trans[OF mr_frame_intros(2)])
qed

lemma get_mr_frame: "roce_get_mr ctx h = Inr (r, ctx') \<Longrightarrow> mr_frame ctx ctx'"
  by (auto simp: roce_get_mr_def bindR_eq_Inr)

lemma release_frame: "release roce_put_mr hs ctx = Inr ctx' \<Longrightarrow> mr_frame ctx ctx'"
  by (induction hs arbitrary: ctx) (auto simp: bindR_eq_Inr dest!: put_mr_frame intro: mr_frame_trans)

lemma acquire_frame:
  "acquire (\<lambda>c h. got (roce_get_mr c h)) roce_put_mr taken hs ctx = Inr (ok, ctx') \<Longrightarrow> mr_frame ctx ctx'"
  by (induction hs arbitrary: ctx taken)
    (auto simp: bindR_eq_Inr got_def split: if_splits dest!: get_mr_frame release_frame intro: mr_frame_trans)

lemma mrs_frame:
  "roce_get_mrs ctx sges = Inr (ret, ctx') \<Longrightarrow> mr_frame ctx ctx'"
  "roce_put_mrs ctx sges = Inr ctx' \<Longrightarrow> mr_frame ctx ctx'"
  by (auto simp: roce_get_mrs_def roce_put_mrs_def bindR_eq_Inr dest!: acquire_frame release_frame)

lemma free_wr_frame:
  "roce_free_send_wr ctx w = Inr ctx' \<Longrightarrow> mr_frame ctx ctx'"
  "roce_free_recv_wr ctx x = Inr ctx' \<Longrightarrow> mr_frame ctx ctx'"
  "free_send_wrs ctx ws = Inr ctx' \<Longrightarrow> mr_frame ctx ctx'"
  "free_recv_wrs ctx xs = Inr ctx' \<Longrightarrow> mr_frame ctx ctx'"
proof -
  show s: "roce_free_send_wr ctx w = Inr ctx' \<Longrightarrow> mr_frame ctx ctx'" for ctx :: "'a roce_base_scheme" and w ctx'
    by (auto simp: roce_free_send_wr_def split: if_splits dest!: mrs_frame(2))
  show r: "roce_free_recv_wr ctx x = Inr ctx' \<Longrightarrow> mr_frame ctx ctx'" for ctx :: "'a roce_base_scheme" and x ctx'
    by (auto simp: roce_free_recv_wr_def dest!: mrs_frame(2))
  show "free_send_wrs ctx ws = Inr ctx' \<Longrightarrow> mr_frame ctx ctx'"
    by (induction ws arbitrary: ctx) (auto simp: bindR_eq_Inr intro: mr_frame_trans[OF s])
  show "free_recv_wrs ctx xs = Inr ctx' \<Longrightarrow> mr_frame ctx ctx'"
    by (induction xs arbitrary: ctx) (auto simp: bindR_eq_Inr intro: mr_frame_trans[OF r])
qed

text \<open>The counts of the PDs survive them.\<close>

lemma refs_ok_release:
  "refs_ok extra ctx \<Longrightarrow> release roce_put_mr hs ctx = Inr ctx' \<Longrightarrow> refs_ok extra ctx'"
proof (induction hs arbitrary: ctx)
  case (Cons h hs)
  obtain ctx1 where "roce_put_mr ctx h = Inr ctx1" "refs_ok extra ctx1"
    using refs_ok_put_mr[OF Cons.prems(1)] by blast
  then show ?case using Cons.IH[of ctx1] Cons.prems(2) by simp
qed simp

lemma refs_ok_acquire:
  assumes "refs_ok extra ctx" "acquire (\<lambda>c h. got (roce_get_mr c h)) roce_put_mr taken hs ctx = Inr (ok, ctx')"
    "\<And>h m. mr_map ctx h = Some m \<Longrightarrow> unat (ref m) + length hs < 2 ^ 32"
  shows "refs_ok extra ctx'"
  using assms
proof (induction hs arbitrary: ctx taken)
  case (Cons h hs)
  note wf = refs_okD(3)[OF Cons.prems(1)]
  show ?case
  proof (cases "mr_map ctx h")
    case None
    then have "release roce_put_mr taken ctx = Inr ctx'"
      using Cons.prems(2) wf by (auto simp: got_def bindR_eq_Inr)
    then show ?thesis by (rule refs_ok_release[OF Cons.prems(1)])
  next
    case (Some m)
    let ?m' = "m\<lparr>ref := ref m + 1\<rparr>" and ?c = "ctx\<lparr>mr_res := res_update (mr_res ctx) h (m\<lparr>ref := ref m + 1\<rparr>)\<rparr>"
    have inc: "unat (ref m + 1) = Suc (unat (ref m))" using Cons.prems(3)[OF Some] by (intro unat_inc) auto
    then have "ref m + 1 \<noteq> 0" by (metis unat_0 nat.distinct(1))
    then have "refs_ok extra ?c" using refs_ok_update_mr[OF Cons.prems(1) Some, of ?m'] by simp
    moreover have "acquire (\<lambda>c h. got (roce_get_mr c h)) roce_put_mr (h # taken) hs ?c = Inr (ok, ctx')"
      using Cons.prems(2) get_mr_some[OF wf Some] by (simp add: got_def)
    moreover have "unat (ref n) + length hs < 2 ^ 32" if "mr_map ?c k = Some n" for k n
      using that Cons.prems(3)[of k] Cons.prems(3)[OF Some] inc res_update_wf[OF wf Some, of ?m']
      by (auto split: if_splits)
    ultimately show ?thesis by (rule Cons.IH)
  qed
qed simp

lemma refs_ok_mrs:
  "refs_ok extra ctx \<Longrightarrow> mrs_room ctx sges \<Longrightarrow> roce_get_mrs ctx sges = Inr (ret, ctx') \<Longrightarrow> refs_ok extra ctx'"
  "refs_ok extra ctx \<Longrightarrow> roce_put_mrs ctx sges = Inr ctx' \<Longrightarrow> refs_ok extra ctx'"
  by (auto simp: roce_get_mrs_def roce_put_mrs_def mrs_room_def bindR_eq_Inr
      intro: refs_ok_release refs_ok_acquire)

lemma refs_ok_free_wr:
  "refs_ok extra ctx \<Longrightarrow> roce_free_send_wr ctx w = Inr ctx' \<Longrightarrow> refs_ok extra ctx'"
  "refs_ok extra ctx \<Longrightarrow> roce_free_recv_wr ctx x = Inr ctx' \<Longrightarrow> refs_ok extra ctx'"
  "refs_ok extra ctx \<Longrightarrow> free_send_wrs ctx ws = Inr ctx' \<Longrightarrow> refs_ok extra ctx'"
  "refs_ok extra ctx \<Longrightarrow> free_recv_wrs ctx xs = Inr ctx' \<Longrightarrow> refs_ok extra ctx'"
proof -
  show s: "refs_ok extra ctx \<Longrightarrow> roce_free_send_wr ctx w = Inr ctx' \<Longrightarrow> refs_ok extra ctx'" for ctx :: "'a roce_base_scheme" and w ctx'
    by (auto simp: roce_free_send_wr_def split: if_splits intro: refs_ok_mrs(2))
  show r: "refs_ok extra ctx \<Longrightarrow> roce_free_recv_wr ctx x = Inr ctx' \<Longrightarrow> refs_ok extra ctx'" for ctx :: "'a roce_base_scheme" and x ctx'
    by (auto simp: roce_free_recv_wr_def intro: refs_ok_mrs(2))
  show "refs_ok extra ctx \<Longrightarrow> free_send_wrs ctx ws = Inr ctx' \<Longrightarrow> refs_ok extra ctx'"
    by (induction ws arbitrary: ctx) (auto simp: bindR_eq_Inr intro: s)
  show "refs_ok extra ctx \<Longrightarrow> free_recv_wrs ctx xs = Inr ctx' \<Longrightarrow> refs_ok extra ctx'"
    by (induction xs arbitrary: ctx) (auto simp: bindR_eq_Inr intro: r)
qed

subsection \<open>One more and one less\<close>

definition tab_inc :: "'a roce_res_scheme roce_resource \<Rightarrow> u32 \<Rightarrow> 'a roce_res_scheme roce_resource" where
  "tab_inc rs h = (case res_map rs h of None \<Rightarrow> rs | Some x \<Rightarrow> res_update rs h (x\<lparr>ref := ref x + 1\<rparr>))"

definition tab_dec :: "'a roce_res_scheme roce_resource \<Rightarrow> u32 \<Rightarrow> 'a roce_res_scheme roce_resource" where
  "tab_dec rs h = (case res_map rs h of None \<Rightarrow> rs | Some x \<Rightarrow> res_update rs h (x\<lparr>ref := ref x - 1\<rparr>))"

lemma tab_inc_map:
  assumes "res_wf rs"
  shows "res_wf (tab_inc rs h)" "res_size (tab_inc rs h) = res_size rs"
    "res_map (tab_inc rs h) = (res_map rs)(h := map_option (\<lambda>x. x\<lparr>ref := ref x + 1\<rparr>) (res_map rs h))"
  using assms res_update_wf[OF assms, of h]
  by (cases "res_map rs h"; simp add: tab_inc_def fun_upd_idem)+

lemma tab_dec_map:
  assumes "res_wf rs"
  shows "res_wf (tab_dec rs h)" "res_size (tab_dec rs h) = res_size rs"
    "res_map (tab_dec rs h) = (res_map rs)(h := map_option (\<lambda>x. x\<lparr>ref := ref x - 1\<rparr>) (res_map rs h))"
  using assms res_update_wf[OF assms, of h]
  by (cases "res_map rs h"; simp add: tab_dec_def fun_upd_idem)+

lemma res_ref_tab:
  assumes "res_wf rs"
  shows "res_ref rs h = Inr (map_option (\<lambda>x. x\<lparr>ref := ref x + 1\<rparr>) (res_map rs h), tab_inc rs h)"
  using assms by (cases "res_map rs h") (simp_all add: res_ref_some tab_inc_def)

lemma res_unref_tab:
  assumes "res_wf rs"
  shows "res_unref rs h = Inr (if res_map rs h = None then - EINVAL else 0, tab_dec rs h)"
  using assms by (cases "res_map rs h") (simp_all add: res_unref_some tab_dec_def)

lemma tab_dec_inc:
  assumes "res_wf rs"
  shows "tab_dec (tab_inc rs h) h = rs"
proof (cases "res_map rs h")
  case (Some x)
  then show ?thesis
    using tab_inc_map[OF assms, of h] res_map_update[OF assms Some, of "x\<lparr>ref := ref x + 1\<rparr>"]
    by (simp add: tab_dec_def) (simp add: tab_inc_def Some)
qed (simp add: tab_dec_def tab_inc_def)

lemma tab_inc_swap:
  assumes "res_wf rs"
  shows "tab_inc (tab_inc rs a) b = tab_inc (tab_inc rs b) a"
proof (cases "a = b \<or> res_map rs a = None \<or> res_map rs b = None")
  case True
  then show ?thesis using tab_inc_map[OF assms] by (auto simp: tab_inc_def split: option.splits)
next
  case False
  then have ab: "a \<noteq> b" "unat a \<noteq> unat b" by (auto simp: word_unat_eq_iff)
  obtain x y where m: "res_map rs a = Some x" "res_map rs b = Some y" using False by auto
  have "res_map (tab_inc rs a) b = Some y" "res_map (tab_inc rs b) a = Some x"
    using ab m tab_inc_map[OF assms] by auto
  then have "tab_inc (tab_inc rs a) b = res_update (res_update rs a (x\<lparr>ref := ref x + 1\<rparr>)) b (y\<lparr>ref := ref y + 1\<rparr>)"
    "tab_inc (tab_inc rs b) a = res_update (res_update rs b (y\<lparr>ref := ref y + 1\<rparr>)) a (x\<lparr>ref := ref x + 1\<rparr>)"
    using m by (simp_all add: tab_inc_def)
  then show ?thesis
    using ab by (cases rs; cases "res_addr rs") (auto simp: res_update_def addr_write_def list_update_swap)
qed

lemma tab_undo_two:
  assumes "res_wf rs"
  shows "tab_dec (tab_dec (tab_inc (tab_inc rs a) b) a) b = rs"
  using tab_dec_inc[OF tab_inc_map(1)[OF assms], of b a] tab_dec_inc[OF assms] by (simp add: tab_inc_swap[OF assms])

lemma get_obj_tab:
  "res_wf (pd_res ctx) \<Longrightarrow> roce_get_pd ctx h =
     Inr (map_option (\<lambda>x. x\<lparr>ref := ref x + 1\<rparr>) (pd_map ctx h), ctx\<lparr>pd_res := tab_inc (pd_res ctx) h\<rparr>)"
  "res_wf (cq_res ctx) \<Longrightarrow> roce_get_cq ctx h =
     Inr (map_option (\<lambda>x. x\<lparr>ref := ref x + 1\<rparr>) (cq_map ctx h), ctx\<lparr>cq_res := tab_inc (cq_res ctx) h\<rparr>)"
  "res_wf (pd_res ctx) \<Longrightarrow> pd_map ctx h \<noteq> None \<Longrightarrow> put_pd_checked ctx h = Inr (ctx\<lparr>pd_res := tab_dec (pd_res ctx) h\<rparr>)"
  "res_wf (cq_res ctx) \<Longrightarrow> cq_map ctx h \<noteq> None \<Longrightarrow> put_cq_checked ctx h = Inr (ctx\<lparr>cq_res := tab_dec (cq_res ctx) h\<rparr>)"
  by (simp_all add: roce_get_pd_def roce_get_cq_def res_ref_tab put_pd_checked_def roce_put_pd_def
      put_cq_checked_def roce_put_cq_def res_unref_tab del: not_None_eq)

subsection \<open>Creation and destruction\<close>

abbreviation qp_map :: "roce_ctx \<Rightarrow> u32 \<Rightarrow> roce_qp option" where
  "qp_map ctx \<equiv> res_map (qp_res ctx)"

lemma null_no_handle:
  assumes "res_wf rs"
  shows "res_map rs null_handle = None"
proof (rule ccontr)
  assume "res_map rs null_handle \<noteq> None"
  then have "null_handle < res_size rs" "res_size rs \<le> ROCE_MAX_GENERAL"
    using res_map_bound[OF assms, of null_handle] assms by (auto simp: res_wf_def)
  then show False by (simp add: null_handle_def ROCE_MAX_GENERAL_def word_less_nat_alt word_le_nat_alt)
qed

text \<open>The references taken for a new QP, and that giving them back is no change.\<close>

definition qp_taken :: "roce_ctx \<Rightarrow> u32 \<Rightarrow> u32 \<Rightarrow> u32 \<Rightarrow> roce_ctx" where
  "qp_taken ctx pdh s r = ctx\<lparr>pd_res := tab_inc (pd_res ctx) pdh, cq_res := tab_inc (tab_inc (cq_res ctx) s) r\<rparr>"

lemma create_undo:
  assumes wf: "res_wf (pd_res ctx)" "res_wf (cq_res ctx)" "pd_map ctx pdh \<noteq> None" "cq_map ctx s \<noteq> None"
  shows "create_qp_undo (qp_taken ctx pdh s r) pdh (Some s) (if cq_map ctx r = None then None else Some r) = Inr (- EINVAL, ctx)"
proof -
  note i = tab_inc_map[OF wf(1), of pdh] tab_inc_map[OF wf(2), of s] tab_inc_map[OF tab_inc_map(1)[OF wf(2)], of s r]
  have pd: "put_pd_checked (qp_taken ctx pdh s r) pdh = Inr (ctx\<lparr>cq_res := tab_inc (tab_inc (cq_res ctx) s) r\<rparr>)"
    using i wf by (simp add: qp_taken_def get_obj_tab(3) tab_dec_inc del: not_None_eq)
  have s: "put_cq_checked (ctx\<lparr>cq_res := tab_inc (tab_inc (cq_res ctx) s) r\<rparr>) s = Inr (ctx\<lparr>cq_res := tab_inc (cq_res ctx) r\<rparr>)"
  proof -
    have "res_map (tab_inc (tab_inc (cq_res ctx) s) r) s \<noteq> None" using i wf(4) by auto
    then show ?thesis
      using get_obj_tab(4)[of "ctx\<lparr>cq_res := tab_inc (tab_inc (cq_res ctx) s) r\<rparr>" s] i
        tab_dec_inc[OF tab_inc_map(1)[OF wf(2)], of r s] tab_inc_swap[OF wf(2), of s r] by simp
  qed
  show ?thesis
  proof (cases "cq_map ctx r = None")
    case True
    then show ?thesis using pd s by (simp add: create_qp_undo_def tab_inc_def)
  next
    case False
    have "put_cq_checked (ctx\<lparr>cq_res := tab_inc (cq_res ctx) r\<rparr>) r = Inr ctx"
      using False tab_inc_map[OF wf(2), of r] wf by (simp add: get_obj_tab(4) tab_dec_inc del: not_None_eq)
    then show ?thesis using False pd s by (auto simp: create_qp_undo_def)
  qed
qed

text \<open>The slot that a new QP gets was empty or holds the unused GSI QP.\<close>

definition slot_free :: "roce_ctx \<Rightarrow> roce_qp_type \<Rightarrow> u32 \<Rightarrow> bool" where
  "slot_free ctx ty k \<longleftrightarrow> (if ty = ROCE_QPT_GSI
     then k = GSI_QPN \<and> gsi ctx = Sp_res \<and> (\<exists>q. qp_map ctx k = Some q \<and> qp_type q = ROCE_QPT_MAX)
     else qp_map ctx k = None)"

definition gsi_apart :: "roce_ctx \<Rightarrow> bool" where
  "gsi_apart ctx \<longleftrightarrow> (\<forall>q. gsi ctx = Sp_heap q \<longrightarrow> handle q \<noteq> GSI_QPN)"

lemma create_install_cong:
  "map_option handle x = map_option handle y \<Longrightarrow> create_qp_install c p s x a mem_ok = create_qp_install c p s y a mem_ok"
  by (cases x; cases y) (simp_all add: create_qp_install_def ptr_handle_def)

lemma create_install_cases:
  assumes wf: "res_wf (pd_res ctx)" "res_wf (cq_res ctx)" "res_wf (qp_res ctx)" "gsi_apart ctx"
    and p: "pd_map ctx pdh \<noteq> None" "handle p = pdh" and c: "cq_map ctx s \<noteq> None" "handle sc = s"
    and rc: "rcq = map_option (\<lambda>x. x\<lparr>ref := ref x + 1\<rparr>) (cq_map ctx r)"
    and run: "create_qp_install (qp_taken ctx pdh s r) p sc rcq a mem_ok = Inr (ret, ctx')"
  shows "(ret < 0 \<and> ctx' = ctx) \<or> (\<exists>k rs mtu q0. ret = uint k \<and> slot_free ctx (qa_type a) k \<and>
    ctx' = (qp_taken ctx pdh s r)\<lparr>qp_res := rs\<rparr> \<and> res_wf rs \<and>
    res_map rs = (qp_map ctx)(k \<mapsto> qp_init a pdh s (if cq_map ctx r = None then null_handle else r) mtu q0 k))"
proof -
  have hr: "map_option handle rcq = (if cq_map ctx r = None then None else Some r)"
    "ptr_handle rcq = (if cq_map ctx r = None then null_handle else r)"
    using res_map_handle[OF wf(2), of r] by (auto simp: rc ptr_handle_def option.map_comp comp_def split: option.splits)
  note undo = create_undo[OF wf(1,2) p(1) c(1), of r]
  have undo': "create_qp_undo ((qp_taken ctx pdh s r)\<lparr>qp_res := qp_res ctx\<rparr>) pdh (Some s)
      (if cq_map ctx r = None then None else Some r) = Inr (- EINVAL, ctx)"
    using undo by (simp add: qp_taken_def)
  have g: "gsi (qp_taken ctx pdh s r) = gsi ctx" "qp_res (qp_taken ctx pdh s r) = qp_res ctx" by (simp_all add: qp_taken_def)
  obtain port where port: "port_at (qp_taken ctx pdh s r) 1 = Inr port"
    using run unfolding create_qp_install_def Let_def bindR_eq_Inr by blast
  let ?rq = "if cq_map ctx r = None then null_handle else r"
  let ?init = "qp_init a pdh s ?rq (active_mtu (port_attr port))"
  show ?thesis
  proof (cases "qa_type a = ROCE_QPT_GSI")
    case True
    obtain q where q: "gsi_read (qp_taken ctx pdh s r) = Inr q"
      "(if qp_type q \<noteq> ROCE_QPT_MAX then Inr (- EINVAL, ctx)
        else bindR (assertR (handle q = GSI_QPN)) (\<lambda>_. Inr (uint GSI_QPN, gsi_write (qp_taken ctx pdh s r) (?init q GSI_QPN))))
       = Inr (ret, ctx')"
    proof -
      have "bindR (assertR (gsi (qp_taken ctx pdh s r) \<noteq> Sp_null)) (\<lambda>_. bindR (gsi_read (qp_taken ctx pdh s r))
        (\<lambda>q. if qp_type q \<noteq> ROCE_QPT_MAX then Inr (- EINVAL, ctx)
          else bindR (assertR (handle q = GSI_QPN)) (\<lambda>_. Inr (uint GSI_QPN, gsi_write (qp_taken ctx pdh s r) (?init q GSI_QPN)))))
        = Inr (ret, ctx')"
        using run port True p(2) c(2) hr undo by (simp add: create_qp_install_def Let_def cong: if_cong)
      then show ?thesis using that unfolding bindR_eq_Inr by blast
    qed
    show ?thesis
    proof (cases "qp_type q = ROCE_QPT_MAX")
      case False
      then show ?thesis using q(2) by auto
    next
      case used: True
      then have h: "handle q = GSI_QPN" "ret = uint GSI_QPN" "ctx' = gsi_write (qp_taken ctx pdh s r) (?init q GSI_QPN)"
        using q(2) by (auto simp: bindR_eq_Inr assertR_def split: if_splits)
      have res: "gsi ctx = Sp_res" "qp_map ctx GSI_QPN = Some q"
        using q(1) h(1) wf(4) g by (auto simp: gsi_read_def gsi_apart_def split: special_qp.splits option.splits)
      have u: "res_wf (res_update (qp_res ctx) GSI_QPN (?init q GSI_QPN))"
        "res_map (res_update (qp_res ctx) GSI_QPN (?init q GSI_QPN)) = (qp_map ctx)(GSI_QPN \<mapsto> ?init q GSI_QPN)"
        using res_update_wf[OF wf(3) res(2), of "?init q GSI_QPN"] h(1) by (simp_all add: qp_init_def)
      have "ctx' = (qp_taken ctx pdh s r)\<lparr>qp_res := res_update (qp_res ctx) GSI_QPN (?init q GSI_QPN)\<rparr>"
        using h(3) res(1) g by (simp add: gsi_write_def)
      moreover have "slot_free ctx (qa_type a) GSI_QPN" using True res used by (simp add: slot_free_def)
      ultimately show ?thesis using u h(2) by blast
    qed
  next
    case False
    show ?thesis
    proof (cases mem_ok)
      case no: False
      then show ?thesis
        using run port False p(2) c(2) hr undo by (auto simp: create_qp_install_def bindR_eq_Inr Let_def)
    next
      case True
      obtain qpn rs where r: "res_install (qp_res ctx) roce_qp_zero (?init roce_qp_zero) = Inr (qpn, rs)" "res_wf rs"
        "(qpn = - EBUSY \<and> rs = qp_res ctx) \<or> (\<exists>h. qpn = uint h \<and> qp_map ctx h = None \<and>
           res_map rs = (qp_map ctx)(h \<mapsto> ?init roce_qp_zero h))"
        using res_install_cases[OF wf(3), of "?init roce_qp_zero" roce_qp_zero] by (auto simp: qp_init_def)
      have run': "(if qpn < 0 then create_qp_undo ((qp_taken ctx pdh s r)\<lparr>qp_res := rs\<rparr>) pdh (Some s)
            (if cq_map ctx r = None then None else Some r)
          else Inr (qpn, (qp_taken ctx pdh s r)\<lparr>qp_res := rs\<rparr>)) = Inr (ret, ctx')"
        using run port False True p(2) c(2) hr r(1) by (simp add: create_qp_install_def Let_def g)
      from r(3) show ?thesis
      proof (elim disjE exE conjE)
        assume "qpn = - EBUSY" "rs = qp_res ctx"
        then show ?thesis using run' undo' by auto
      next
        fix h
        assume h: "qpn = uint h" "qp_map ctx h = None" "res_map rs = (qp_map ctx)(h \<mapsto> ?init roce_qp_zero h)"
        then have "ret = uint h" "ctx' = (qp_taken ctx pdh s r)\<lparr>qp_res := rs\<rparr>" using run' by auto
        moreover have "slot_free ctx (qa_type a) h" using False h(2) by (simp add: slot_free_def)
        ultimately show ?thesis using h(3) r(2) by blast
      qed
    qed
  qed
qed

lemma create_qp_cases:
  assumes wf: "res_wf (pd_res ctx)" "res_wf (cq_res ctx)" "res_wf (qp_res ctx)" "gsi_apart ctx"
    and run: "roce_create_qp ctx pdh s r a mem_ok = Inr (ret, ctx')"
  shows "(ret < 0 \<and> ctx' = ctx) \<or> (\<exists>k rs mtu q0. ret = uint k \<and> slot_free ctx (qa_type a) k \<and>
    qa_type a \<in> {ROCE_QPT_GSI, ROCE_QPT_RC, ROCE_QPT_UD} \<and> pd_map ctx pdh \<noteq> None \<and> cq_map ctx s \<noteq> None \<and>
    ctx' = (qp_taken ctx pdh s r)\<lparr>qp_res := rs\<rparr> \<and> res_wf rs \<and>
    res_map rs = (qp_map ctx)(k \<mapsto> qp_init a pdh s (if cq_map ctx r = None then null_handle else r) mtu q0 k))"
proof (cases "qa_type a \<in> {ROCE_QPT_GSI, ROCE_QPT_RC, ROCE_QPT_UD} \<and> roce_verify_qp_cap ctx (qa_cap a) = 0 \<and>
    pd_map ctx pdh \<noteq> None")
  case False
  then show ?thesis using run wf by (auto simp: roce_create_qp_def get_obj_tab tab_inc_def split: if_splits)
next
  case ok: True
  let ?pd = "map_option (\<lambda>x. x\<lparr>ref := ref x + 1\<rparr>) (pd_map ctx pdh)"
  obtain p where p: "pd_map ctx pdh = Some p" using ok by auto
  note ip = tab_inc_map[OF wf(1), of pdh] and ic = tab_inc_map[OF wf(2), of s]
  show ?thesis
  proof (cases "cq_map ctx s")
    case None
    let ?c1 = "ctx\<lparr>pd_res := tab_inc (pd_res ctx) pdh\<rparr>"
    have "put_pd_checked ?c1 pdh = Inr ctx"
      using ip p wf(1) by (simp add: get_obj_tab(3) tab_dec_inc)
    moreover have "roce_get_pd ctx pdh = Inr (Some (p\<lparr>ref := ref p + 1\<rparr>), ?c1)" using wf(1) p by (simp add: get_obj_tab)
    moreover have "roce_get_cq ?c1 s = Inr (None, ?c1)" using wf(2) None by (simp add: get_obj_tab tab_inc_def)
    ultimately show ?thesis
      using run ok by (auto simp add: roce_create_qp_def create_qp_undo_def)
  next
    case (Some sc)
    have "create_qp_install (qp_taken ctx pdh s r) (p\<lparr>ref := ref p + 1\<rparr>) (sc\<lparr>ref := ref sc + 1\<rparr>)
        (map_option (\<lambda>x. x\<lparr>ref := ref x + 1\<rparr>) (res_map (tab_inc (cq_res ctx) s) r)) a mem_ok = Inr (ret, ctx')"
      using run ok p wf Some ip ic by (auto simp: roce_create_qp_def get_obj_tab qp_taken_def)
    moreover have "create_qp_install c p' s' (map_option (\<lambda>x. x\<lparr>ref := ref x + 1\<rparr>) (res_map (tab_inc (cq_res ctx) s) r)) a mem_ok
        = create_qp_install c p' s' (map_option (\<lambda>x. x\<lparr>ref := ref x + 1\<rparr>) (cq_map ctx r)) a mem_ok" for c p' s'
      using ic by (intro create_install_cong) (auto simp: option.map_comp comp_def)
    ultimately show ?thesis
      using create_install_cases[OF wf, of pdh "p\<lparr>ref := ref p + 1\<rparr>" s "sc\<lparr>ref := ref sc + 1\<rparr>" _ r a mem_ok ret ctx']
        ok p Some res_map_handle[OF wf(1) p] res_map_handle[OF wf(2) Some] by simp
  qed
qed

subsection \<open>The invariant\<close>

definition qp_pds :: "roce_ctx \<Rightarrow> u32 \<Rightarrow> nat" where
  "qp_pds ctx h = (if h = null_handle then 0 else holders (qp_map ctx) (\<lambda>q. qp_pd q = h))"

definition qp_cqs :: "roce_ctx \<Rightarrow> u32 \<Rightarrow> nat" where
  "qp_cqs ctx h = holders (qp_map ctx) (\<lambda>q. qp_scq q = h) + holders (qp_map ctx) (\<lambda>q. qp_rcq q = h)"

definition ptr_ok :: "(u32 \<Rightarrow> 'o option) \<Rightarrow> u32 \<Rightarrow> bool" where
  "ptr_ok m h \<longleftrightarrow> h = null_handle \<or> m h \<noteq> None"

text \<open>Where the pointers of a QP lead. An unused QP has none; one in use has all but the receive CQ for
  sure.\<close>

definition qp_ptrs_ok :: "roce_ctx \<Rightarrow> roce_qp \<Rightarrow> bool" where
  "qp_ptrs_ok ctx q \<longleftrightarrow> ptr_ok (pd_map ctx) (qp_pd q) \<and> ptr_ok (cq_map ctx) (qp_scq q) \<and> ptr_ok (cq_map ctx) (qp_rcq q) \<and>
     (if qp_type q = ROCE_QPT_MAX
      then qp_pd q = null_handle \<and> qp_scq q = null_handle \<and> qp_rcq q = null_handle
      else qp_pd q \<noteq> null_handle \<and> qp_scq q \<noteq> null_handle)"

definition objs_core :: "roce_ctx \<Rightarrow> bool" where
  "objs_core ctx \<longleftrightarrow> refs_ok (qp_pds ctx) ctx \<and> res_wf (qp_res ctx) \<and>
     (\<forall>k q. qp_map ctx k = Some q \<longrightarrow> qp_ptrs_ok ctx q) \<and>
     (\<forall>h c. cq_map ctx h = Some c \<longrightarrow> unat (ref c) = qp_cqs ctx h)"

text \<open>The QP of type GSI is the one in slot 1 that \<open>dev.gsi\<close> points to.\<close>

definition gsi_ok :: "roce_ctx \<Rightarrow> bool" where
  "gsi_ok ctx \<longleftrightarrow> gsi_apart ctx \<and>
     (gsi ctx = Sp_res \<longrightarrow> (\<exists>q. qp_map ctx GSI_QPN = Some q \<and> qp_type q \<in> {ROCE_QPT_GSI, ROCE_QPT_MAX})) \<and>
     (\<forall>k q. qp_map ctx k = Some q \<and> qp_type q = ROCE_QPT_GSI \<longrightarrow> k = GSI_QPN \<and> gsi ctx = Sp_res)"

definition objs_ok :: "roce_ctx \<Rightarrow> bool" where
  "objs_ok ctx \<longleftrightarrow> objs_core ctx \<and> gsi_ok ctx"

lemma objs_coreD:
  assumes "objs_core ctx"
  shows "refs_ok (qp_pds ctx) ctx" "res_wf (qp_res ctx)" "qp_map ctx k = Some q \<Longrightarrow> qp_ptrs_ok ctx q"
    "cq_map ctx h = Some c \<Longrightarrow> unat (ref c) = qp_cqs ctx h"
    "res_wf (pd_res ctx)" "res_wf (cq_res ctx)"
  using assms refs_okD[of "qp_pds ctx" ctx] by (auto simp: objs_core_def)

lemma qp_users_bound: "res_wf (qp_res ctx) \<Longrightarrow> qp_pds ctx h \<le> 2 ^ 24 \<and> qp_cqs ctx h \<le> 2 * 2 ^ 24"
  using holders_bound[of "qp_res ctx" "\<lambda>q. qp_pd q = h"] holders_bound[of "qp_res ctx" "\<lambda>q. qp_scq q = h"]
    holders_bound[of "qp_res ctx" "\<lambda>q. qp_rcq q = h"] by (simp add: qp_pds_def qp_cqs_def)

lemma holders_put:
  assumes "\<And>x. m k = Some x \<Longrightarrow> \<not> P x"
  shows "holders (m(k \<mapsto> y)) P = holders m P + (if P y then 1 else 0)"
proof (cases "m k")
  case None
  then show ?thesis by (rule holders_new)
next
  case (Some x)
  then show ?thesis using holders_new[of "m(k := None)" k y P] holders_del[of m k x P] assms[OF Some] by simp
qed

text \<open>One more QP that points to a PD, and one less.\<close>

lemma refs_ok_extra:
  assumes ok: "refs_ok extra ctx" and e: "\<And>h. extra' h = extra h + (if h = pdh then 1 else 0)" "extra' pdh \<le> 2 ^ 24"
  shows "refs_ok extra' (ctx\<lparr>pd_res := tab_inc (pd_res ctx) pdh\<rparr>)"
proof -
  note wf = refs_okD(1)[OF ok]
  note i = tab_inc_map[OF wf, of pdh]
  have "unat (ref p') = pd_users ctx h + extra' h" if p': "res_map (tab_inc (pd_res ctx) pdh) h = Some p'" for h p'
  proof (cases "h = pdh")
    case False
    then show ?thesis using p' i refs_okD(8)[OF ok] e by simp
  next
    case True
    then obtain p where p: "pd_map ctx pdh = Some p" "p' = p\<lparr>ref := ref p + 1\<rparr>" using p' i by auto
    have "unat (ref p) = pd_users ctx pdh + extra pdh" using refs_okD(8)[OF ok p(1)] .
    moreover have "ctx_wf ctx" using ok by (simp add: refs_ok_def)
    then have "pd_users ctx pdh \<le> 2 * 2 ^ 24" by (rule pd_users_bound)
    ultimately show ?thesis using p(2) e unat_inc[of "ref p"] True by simp
  qed
  moreover have "\<forall>h. extra' h \<le> 2 ^ 24" using ok e by (auto simp: refs_ok_def)
  ultimately show ?thesis using ok i unfolding refs_ok_def by (auto simp: pd_users_def)
qed

lemma refs_ok_less:
  assumes ok: "refs_ok extra ctx" and e: "\<And>h. extra h = extra' h + (if h = pdh then 1 else 0)"
  shows "refs_ok extra' (ctx\<lparr>pd_res := tab_dec (pd_res ctx) pdh\<rparr>)"
proof -
  note wf = refs_okD(1)[OF ok]
  note i = tab_dec_map[OF wf, of pdh]
  have "unat (ref p') = pd_users ctx h + extra' h" if p': "res_map (tab_dec (pd_res ctx) pdh) h = Some p'" for h p'
  proof (cases "h = pdh")
    case False
    then show ?thesis using p' i refs_okD(8)[OF ok] e by simp
  next
    case True
    then obtain p where p: "pd_map ctx pdh = Some p" "p' = p\<lparr>ref := ref p - 1\<rparr>" using p' i by auto
    have "unat (ref p) = Suc (pd_users ctx pdh + extra' pdh)" using refs_okD(8)[OF ok p(1)] e[of pdh] by simp
    then show ?thesis using p(2) unat_dec True by simp
  qed
  moreover have "extra' h \<le> 2 ^ 24" for h
  proof -
    have "extra h \<le> 2 ^ 24" using ok by (simp add: refs_ok_def)
    then show ?thesis using e[of h] by simp
  qed
  ultimately show ?thesis using ok i unfolding refs_ok_def by (auto simp: pd_users_def)
qed

lemma refs_ok_other:
  "refs_ok extra (ctx\<lparr>cq_res := rs, qp_res := qps\<rparr>) = (refs_ok extra (ctx\<lparr>cq_res := rs\<rparr>))"
  "refs_ok extra (ctx\<lparr>qp_res := qps\<rparr>) = refs_ok extra ctx" "refs_ok extra (ctx\<lparr>gsi := g\<rparr>) = refs_ok extra ctx"
  by (simp_all add: refs_ok_def pd_users_def mr_wf_def)

lemma tab_inc_ref:
  assumes "res_wf rs" "res_map (tab_inc rs a) h = Some y" "\<And>x. res_map rs h = Some x \<Longrightarrow> Suc (unat (ref x)) < 2 ^ 32"
  shows "\<exists>x. res_map rs h = Some x \<and> unat (ref y) = unat (ref x) + (if a = h then 1 else 0)"
proof -
  have y: "((res_map rs)(a := map_option (\<lambda>x. x\<lparr>ref := ref x + 1\<rparr>) (res_map rs a))) h = Some y"
    using assms(2) unfolding tab_inc_map(3)[OF assms(1)] .
  show ?thesis
  proof (cases "a = h")
    case True
    then obtain x where x: "res_map rs h = Some x" "y = x\<lparr>ref := ref x + 1\<rparr>" using y by auto
    then show ?thesis using unat_inc[OF refl assms(3)[OF x(1)]] True by simp
  qed (use y in simp)
qed

lemma tab_dec_ref:
  assumes "res_wf rs" "res_map (tab_dec rs a) h = Some y" "\<And>x. res_map rs h = Some x \<Longrightarrow> a = h \<Longrightarrow> 0 < unat (ref x)"
  shows "\<exists>x. res_map rs h = Some x \<and> unat (ref x) = unat (ref y) + (if a = h then 1 else 0)"
proof -
  have y: "((res_map rs)(a := map_option (\<lambda>x. x\<lparr>ref := ref x - 1\<rparr>) (res_map rs a))) h = Some y"
    using assms(2) unfolding tab_dec_map(3)[OF assms(1)] .
  show ?thesis
  proof (cases "a = h")
    case True
    then obtain x where x: "res_map rs h = Some x" "y = x\<lparr>ref := ref x - 1\<rparr>" using y by auto
    then obtain n where "unat (ref x) = Suc n" using assms(3) True by (metis gr0_implies_Suc)
    then show ?thesis using unat_dec x True by simp
  qed (use y in simp)
qed

lemma objs_ok_create_qp:
  assumes ok: "objs_ok ctx" and run: "roce_create_qp ctx pdh s r a mem_ok = Inr (ret, ctx')"
  shows "objs_ok ctx'"
proof -
  have core: "objs_core ctx" and g: "gsi_ok ctx" using ok by (simp_all add: objs_ok_def)
  note c = objs_coreD[OF core]
  have ga: "gsi_apart ctx" using g by (simp add: gsi_ok_def)
  show ?thesis
  proof (cases "ret < 0 \<and> ctx' = ctx")
    case False
    define rq where "rq = (if cq_map ctx r = None then null_handle else r)"
    obtain k rs mtu q0 where n: "slot_free ctx (qa_type a) k" "qa_type a \<in> {ROCE_QPT_GSI, ROCE_QPT_RC, ROCE_QPT_UD}"
      "pd_map ctx pdh \<noteq> None" "cq_map ctx s \<noteq> None" "ctx' = (qp_taken ctx pdh s r)\<lparr>qp_res := rs\<rparr>" "res_wf rs"
      "res_map rs = (qp_map ctx)(k \<mapsto> qp_init a pdh s rq mtu q0 k)"
      using create_qp_cases[OF c(5,6,2) ga run] False unfolding rq_def by blast
    define q where "q = qp_init a pdh s rq mtu q0 k"
    have q: "qp_pd q = pdh" "qp_scq q = s" "qp_rcq q = rq" "qp_type q = qa_type a" by (simp_all add: q_def qp_init_def)
    have m: "qp_map ctx' = (qp_map ctx)(k \<mapsto> q)" "pd_map ctx' = res_map (tab_inc (pd_res ctx) pdh)"
      "cq_map ctx' = res_map (tab_inc (tab_inc (cq_res ctx) s) r)" "gsi ctx' = gsi ctx"
      by (simp_all add: n(5,7) q_def qp_taken_def)
    note ip = tab_inc_map[OF c(5), of pdh] and ic = tab_inc_map[OF c(6), of s]
      and ic2 = tab_inc_map[OF tab_inc_map(1)[OF c(6)], of s r]
    have nz: "pdh \<noteq> null_handle" "s \<noteq> null_handle" using n(3,4) null_no_handle[OF c(5)] null_no_handle[OF c(6)] by auto
    have old: "qp_pd x = null_handle \<and> qp_scq x = null_handle \<and> qp_rcq x = null_handle" if "qp_map ctx k = Some x" for x
      using n(1) c(3)[OF that] that by (auto simp: slot_free_def qp_ptrs_ok_def split: if_splits)
    have pds: "qp_pds ctx' h = qp_pds ctx h + (if h = pdh then 1 else 0)" for h
      using holders_put[of "qp_map ctx" k "\<lambda>q. qp_pd q = h" q] old nz q by (auto simp: qp_pds_def m(1))
    have cqs: "qp_cqs ctx' h = qp_cqs ctx h + (if s = h then 1 else 0) + (if rq = h then 1 else 0)" if "h \<noteq> null_handle" for h
      using holders_put[of "qp_map ctx" k "\<lambda>q. qp_scq q = h" q] holders_put[of "qp_map ctx" k "\<lambda>q. qp_rcq q = h" q]
        old that q by (auto simp: qp_cqs_def m(1))
    have wf': "res_wf (qp_res ctx')" using n(5,6) by simp
    have r1: "refs_ok (qp_pds ctx') (ctx\<lparr>pd_res := tab_inc (pd_res ctx) pdh\<rparr>)"
      using refs_ok_extra[OF c(1), of "qp_pds ctx'" pdh] pds qp_users_bound[OF wf', of pdh] by simp
    have "refs_ok (qp_pds ctx') ctx'"
      using refs_ok_cq[OF r1, of "tab_inc (tab_inc (cq_res ctx) s) r"] ic2(1)
      by (simp add: n(5) qp_taken_def refs_ok_other)
    moreover have "qp_ptrs_ok ctx' x" if "qp_map ctx' j = Some x" for j x
    proof (cases "j = k")
      case True
      then have "x = q" using that m(1) by simp
      then show ?thesis
        using nz n(2-4) q ip ic ic2 by (auto simp: qp_ptrs_ok_def ptr_ok_def m rq_def)
    next
      case False
      then have "qp_ptrs_ok ctx x" using that m(1) c(3) by simp
      then show ?thesis using ip ic ic2 by (auto simp: qp_ptrs_ok_def ptr_ok_def m split: if_splits)
    qed
    moreover have "unat (ref y) = qp_cqs ctx' h" if y: "cq_map ctx' h = Some y" for h y
    proof -
      have hn: "h \<noteq> null_handle" using y null_no_handle[OF ic2(1)] m(3) by auto
      have b: "Suc (Suc (unat (ref x))) < 2 ^ 32" if "cq_map ctx h = Some x" for x
        using c(4)[OF that] qp_users_bound[OF c(2), of h] by simp
      have b1: "Suc (unat (ref x)) < 2 ^ 32" if "res_map (tab_inc (cq_res ctx) s) h = Some x" for x
        using tab_inc_ref[OF c(6) that] b by fastforce
      obtain x where x: "res_map (tab_inc (cq_res ctx) s) h = Some x" "unat (ref y) = unat (ref x) + (if r = h then 1 else 0)"
        using tab_inc_ref[OF ic(1) y[unfolded m(3)] b1] by blast
      obtain z where z: "cq_map ctx h = Some z" "unat (ref x) = unat (ref z) + (if s = h then 1 else 0)"
        using tab_inc_ref[OF c(6) x(1)] b by fastforce
      have "(r = h) = (rq = h)" using z(1) hn by (auto simp: rq_def)
      then show ?thesis using x(2) z c(4)[OF z(1)] cqs[OF hn] by simp
    qed
    moreover have "gsi_ok ctx'"
    proof -
      have "k = GSI_QPN \<and> gsi ctx = Sp_res" if "qa_type a = ROCE_QPT_GSI" using n(1) that by (simp add: slot_free_def)
      moreover have "k \<noteq> GSI_QPN" if "qa_type a \<noteq> ROCE_QPT_GSI" "gsi ctx = Sp_res"
        using g that n(1) by (auto simp: gsi_ok_def slot_free_def)
      ultimately show ?thesis using g q(4) n(2) by (auto simp: gsi_ok_def gsi_apart_def m)
    qed
    ultimately show ?thesis using wf' by (simp add: objs_ok_def objs_core_def)
  qed (use ok in simp)
qed

text \<open>Calls that leave the QPs and the CQs alone, and no PD without its users.\<close>

lemma objs_ok_frame:
  assumes ok: "objs_ok ctx" and r: "refs_ok (qp_pds ctx) ctx'"
    and s: "qp_res ctx' = qp_res ctx" "cq_res ctx' = cq_res ctx" "gsi ctx' = gsi ctx"
    and p: "\<And>k q. qp_map ctx k = Some q \<Longrightarrow> ptr_ok (pd_map ctx') (qp_pd q)"
  shows "objs_ok ctx'"
proof -
  have "qp_pds ctx' = qp_pds ctx" "qp_cqs ctx' = qp_cqs ctx"
    using s by (simp_all add: qp_pds_def qp_cqs_def fun_eq_iff)
  moreover have "qp_ptrs_ok ctx' q" if "qp_map ctx k = Some q" for k q
    using ok that p[OF that] s by (auto simp: objs_ok_def objs_core_def qp_ptrs_ok_def)
  ultimately show ?thesis using ok r s by (auto simp: objs_ok_def objs_core_def gsi_ok_def gsi_apart_def)
qed

lemma objs_ok_ptrs:
  "objs_ok ctx \<Longrightarrow> qp_map ctx k = Some q \<Longrightarrow>
     ptr_ok (pd_map ctx) (qp_pd q) \<and> ptr_ok (cq_map ctx) (qp_scq q) \<and> ptr_ok (cq_map ctx) (qp_rcq q)"
  by (auto simp: objs_ok_def objs_core_def qp_ptrs_ok_def)

lemma objs_ok_mr_frame:
  assumes ok: "objs_ok ctx" and "mr_frame ctx ctx'" "refs_ok (qp_pds ctx) ctx'"
  shows "objs_ok ctx'"
proof -
  obtain pds mrs where f: "ctx' = ctx\<lparr>pd_res := pds, mr_res := mrs\<rparr>" "same_keys (pd_res ctx) pds"
    using assms(2) by (auto simp: mr_frame_def)
  then show ?thesis
    using objs_ok_ptrs[OF ok] by (intro objs_ok_frame[OF ok assms(3)]) (auto simp: same_keys_def ptr_ok_def)
qed

text \<open>Assignments to a QP that leave its type and its pointers.\<close>

definition same_qp :: "roce_qp \<Rightarrow> roce_qp \<Rightarrow> bool" where
  "same_qp q q' \<longleftrightarrow> handle q' = handle q \<and> qp_type q' = qp_type q \<and> qp_pd q' = qp_pd q \<and>
     qp_scq q' = qp_scq q \<and> qp_rcq q' = qp_rcq q"

lemma objs_ok_qp_store:
  assumes ok: "objs_ok ctx" and q: "qp_map ctx h = Some q" "same_qp q q'"
  shows "objs_ok (ctx\<lparr>qp_res := res_update (qp_res ctx) h q'\<rparr>)"
proof -
  have core: "objs_core ctx" using ok by (simp add: objs_ok_def)
  note c = objs_coreD[OF core]
  let ?ctx = "ctx\<lparr>qp_res := res_update (qp_res ctx) h q'\<rparr>"
  have eq: "handle q' = handle q" "qp_type q' = qp_type q" "qp_pd q' = qp_pd q" "qp_scq q' = qp_scq q" "qp_rcq q' = qp_rcq q"
    using q(2) by (simp_all add: same_qp_def)
  note u = res_update_wf[OF c(2) q(1) eq(1)]
  have "qp_pds ?ctx = qp_pds ctx" "qp_cqs ?ctx = qp_cqs ctx"
    using holders_upd[of "qp_map ctx" h q _ q'] q(1) eq by (auto simp: qp_pds_def qp_cqs_def u fun_eq_iff)
  moreover have "qp_ptrs_ok ?ctx x = qp_ptrs_ok ctx x" for x by (simp add: qp_ptrs_ok_def)
  moreover have "qp_ptrs_ok ctx q'" using c(3)[OF q(1)] eq by (simp add: qp_ptrs_ok_def)
  moreover have "gsi_ok ?ctx" using ok q eq by (auto simp: objs_ok_def gsi_ok_def gsi_apart_def u)
  ultimately show ?thesis using core u unfolding objs_ok_def objs_core_def by (auto simp: refs_ok_other)
qed

lemma get_qp_tab:
  "res_wf (qp_res ctx) \<Longrightarrow> roce_get_qp ctx h =
     Inr (map_option (\<lambda>x. x\<lparr>ref := ref x + 1\<rparr>) (qp_map ctx h), ctx\<lparr>qp_res := tab_inc (qp_res ctx) h\<rparr>)"
  "res_wf (qp_res ctx) \<Longrightarrow> roce_put_qp ctx h =
     Inr (if qp_map ctx h = None then - EINVAL else 0, ctx\<lparr>qp_res := tab_dec (qp_res ctx) h\<rparr>)"
  by (simp_all add: roce_get_qp_def roce_put_qp_def res_ref_tab res_unref_tab)

lemma objs_ok_ref_qp:
  assumes "objs_ok ctx"
  shows "objs_ok (ctx\<lparr>qp_res := tab_inc (qp_res ctx) h\<rparr>)" "objs_ok (ctx\<lparr>qp_res := tab_dec (qp_res ctx) h\<rparr>)"
  using assms objs_ok_qp_store[OF assms, of h]
  by (cases "qp_map ctx h"; simp add: tab_inc_def tab_dec_def same_qp_def)+

text \<open>What \<open>roce_destroy_qp\<close> has done before it frees the work requests.\<close>

definition qp_released :: "roce_ctx \<Rightarrow> u32 \<Rightarrow> roce_qp \<Rightarrow> roce_qp roce_resource \<Rightarrow> roce_ctx" where
  "qp_released ctx h q rs = ctx\<lparr>pd_res := tab_dec (pd_res ctx) (qp_pd q),
     cq_res := tab_dec (tab_dec (cq_res ctx) (qp_scq q)) (qp_rcq q), qp_res := rs\<rparr>"

lemma destroy_qp_run:
  assumes core: "objs_core ctx" and q: "qp_map ctx h = Some q"
    and nn: "qp_pd q \<noteq> null_handle" "qp_scq q \<noteq> null_handle" "qp_rcq q \<noteq> null_handle"
  shows "\<exists>rs. res_wf rs \<and> res_map rs = (qp_map ctx)(h := None) \<and>
    roce_destroy_qp ctx h = bindR (free_send_wrs (qp_released ctx h q rs) (sq_wrs q)) (\<lambda>c1. bindR (free_recv_wrs c1 (rq_wrs q)) (\<lambda>c2.
      Inr (0, if qp_type q = ROCE_QPT_GSI then c2\<lparr>gsi := Sp_heap (roce_qp_zero\<lparr>qp_type := ROCE_QPT_MAX\<rparr>)\<rparr> else c2)))"
proof -
  note c = objs_coreD[OF core]
  let ?c1 = "ctx\<lparr>qp_res := tab_inc (qp_res ctx) h\<rparr>"
  have live: "pd_map ctx (qp_pd q) \<noteq> None" "cq_map ctx (qp_scq q) \<noteq> None" "cq_map ctx (qp_rcq q) \<noteq> None"
    using c(3)[OF q] nn by (auto simp: qp_ptrs_ok_def ptr_ok_def)
  note ip = tab_inc_map[OF c(2), of h]
  have hq: "handle q = h" using res_map_handle[OF c(2) q] .
  obtain rs where rs: "roce_resource_free (tab_inc (qp_res ctx) h) h = Inr (0, rs)" "res_wf rs"
    "res_map rs = (qp_map ctx)(h := None)"
    using res_free_map[OF ip(1), of h "q\<lparr>ref := ref q + 1\<rparr>"] ip q by auto
  note dc = tab_dec_map[OF c(6), of "qp_scq q"]
  have ne: "res_map (tab_dec (cq_res ctx) (qp_scq q)) (qp_rcq q) \<noteq> None" using dc(3) live by auto
  have run1: "put_pd_checked ?c1 (qp_pd q) = Inr (?c1\<lparr>pd_res := tab_dec (pd_res ctx) (qp_pd q)\<rparr>)"
    using get_obj_tab(3)[of ?c1 "qp_pd q"] c(5) live(1) by simp
  have run2: "put_cq_checked (?c1\<lparr>pd_res := tab_dec (pd_res ctx) (qp_pd q)\<rparr>) (qp_scq q) =
      Inr (?c1\<lparr>pd_res := tab_dec (pd_res ctx) (qp_pd q), cq_res := tab_dec (cq_res ctx) (qp_scq q)\<rparr>)"
    using get_obj_tab(4)[of "?c1\<lparr>pd_res := tab_dec (pd_res ctx) (qp_pd q)\<rparr>" "qp_scq q"] c(6) live(2) by simp
  have run3: "put_cq_checked (?c1\<lparr>pd_res := tab_dec (pd_res ctx) (qp_pd q), cq_res := tab_dec (cq_res ctx) (qp_scq q)\<rparr>) (qp_rcq q) =
      Inr ((qp_released ctx h q rs)\<lparr>qp_res := tab_inc (qp_res ctx) h\<rparr>)"
    using get_obj_tab(4)[of "?c1\<lparr>pd_res := tab_dec (pd_res ctx) (qp_pd q), cq_res := tab_dec (cq_res ctx) (qp_scq q)\<rparr>" "qp_rcq q"]
      dc(1) ne by (simp add: qp_released_def)
  have rel: "(qp_released ctx h q rs)\<lparr>qp_res := rs\<rparr> = qp_released ctx h q rs" by (simp add: qp_released_def)
  show ?thesis
    using q nn run1 run2 run3 rs hq by (intro exI[of _ rs]) (simp add: roce_destroy_qp_def get_qp_tab[OF c(2)] handle_of_def rel)
qed

lemma destroy_qp_cases:
  assumes core: "objs_core ctx" and run: "roce_destroy_qp ctx h = Inr (ret, ctx')"
  shows "\<exists>q rs c1 c2. qp_map ctx h = Some q \<and> res_wf rs \<and> res_map rs = (qp_map ctx)(h := None) \<and>
    qp_pd q \<noteq> null_handle \<and> qp_rcq q \<noteq> null_handle \<and>
    free_send_wrs (qp_released ctx h q rs) (sq_wrs q) = Inr c1 \<and> free_recv_wrs c1 (rq_wrs q) = Inr c2 \<and>
    ctx' = (if qp_type q = ROCE_QPT_GSI then c2\<lparr>gsi := Sp_heap (roce_qp_zero\<lparr>qp_type := ROCE_QPT_MAX\<rparr>)\<rparr> else c2)"
proof -
  note c = objs_coreD[OF core]
  obtain q where q: "qp_map ctx h = Some q"
    using run by (cases "qp_map ctx h") (simp_all add: roce_destroy_qp_def get_qp_tab[OF c(2)])
  have nn: "qp_pd q \<noteq> null_handle" "qp_scq q \<noteq> null_handle" "qp_rcq q \<noteq> null_handle"
    using run q by (auto simp: roce_destroy_qp_def get_qp_tab[OF c(2)] bindR_eq_Inr handle_of_def split: if_splits)
  obtain rs where rs: "res_wf rs" "res_map rs = (qp_map ctx)(h := None)"
    and e: "roce_destroy_qp ctx h = bindR (free_send_wrs (qp_released ctx h q rs) (sq_wrs q)) (\<lambda>c1. bindR (free_recv_wrs c1 (rq_wrs q)) (\<lambda>c2.
      Inr (0, if qp_type q = ROCE_QPT_GSI then c2\<lparr>gsi := Sp_heap (roce_qp_zero\<lparr>qp_type := ROCE_QPT_MAX\<rparr>)\<rparr> else c2)))"
    using destroy_qp_run[OF core q nn] by blast
  have "bindR (free_send_wrs (qp_released ctx h q rs) (sq_wrs q)) (\<lambda>c1. bindR (free_recv_wrs c1 (rq_wrs q)) (\<lambda>c2.
      Inr (0, if qp_type q = ROCE_QPT_GSI then c2\<lparr>gsi := Sp_heap (roce_qp_zero\<lparr>qp_type := ROCE_QPT_MAX\<rparr>)\<rparr> else c2))) = Inr (ret, ctx')"
    using e run by simp
  then obtain c1 c2 where "free_send_wrs (qp_released ctx h q rs) (sq_wrs q) = Inr c1" "free_recv_wrs c1 (rq_wrs q) = Inr c2"
    "ctx' = (if qp_type q = ROCE_QPT_GSI then c2\<lparr>gsi := Sp_heap (roce_qp_zero\<lparr>qp_type := ROCE_QPT_MAX\<rparr>)\<rparr> else c2)"
    unfolding bindR_eq_Inr by blast
  then show ?thesis using q rs nn by blast
qed

lemma objs_core_released:
  assumes core: "objs_core ctx" and q: "qp_map ctx h = Some q" "qp_pd q \<noteq> null_handle"
    and rs: "res_wf rs" "res_map rs = (qp_map ctx)(h := None)"
  shows "objs_core (qp_released ctx h q rs)"
proof -
  note c = objs_coreD[OF core]
  let ?ctx = "qp_released ctx h q rs"
  note ip = tab_dec_map[OF c(5), of "qp_pd q"] and ic = tab_dec_map[OF c(6), of "qp_scq q"]
    and ic2 = tab_dec_map[OF tab_dec_map(1)[OF c(6)], of "qp_scq q" "qp_rcq q"]
  have m: "qp_map ?ctx = (qp_map ctx)(h := None)" "pd_map ?ctx = res_map (tab_dec (pd_res ctx) (qp_pd q))"
    "cq_map ?ctx = res_map (tab_dec (tab_dec (cq_res ctx) (qp_scq q)) (qp_rcq q))"
    by (simp_all add: qp_released_def rs(2))
  have pds: "qp_pds ctx k = qp_pds ?ctx k + (if k = qp_pd q then 1 else 0)" for k
    using holders_del[of "qp_map ctx" h q "\<lambda>q. qp_pd q = k"] q by (auto simp: qp_pds_def m(1))
  have cqs: "qp_cqs ctx k = qp_cqs ?ctx k + (if qp_scq q = k then 1 else 0) + (if qp_rcq q = k then 1 else 0)" for k
    using holders_del[of "qp_map ctx" h q "\<lambda>q. qp_scq q = k"] holders_del[of "qp_map ctx" h q "\<lambda>q. qp_rcq q = k"] q
    by (auto simp: qp_cqs_def m(1))
  have "refs_ok (qp_pds ?ctx) (ctx\<lparr>pd_res := tab_dec (pd_res ctx) (qp_pd q)\<rparr>)"
    using refs_ok_less[OF c(1)] pds by blast
  then have "refs_ok (qp_pds ?ctx) ?ctx"
    using refs_ok_cq[of _ "ctx\<lparr>pd_res := tab_dec (pd_res ctx) (qp_pd q)\<rparr>" "tab_dec (tab_dec (cq_res ctx) (qp_scq q)) (qp_rcq q)"] ic2(1)
    by (simp add: qp_released_def refs_ok_other)
  moreover have "qp_ptrs_ok ?ctx x" if "qp_map ?ctx k = Some x" for k x
  proof -
    have "qp_ptrs_ok ctx x" using that m(1) c(3) by (auto split: if_splits)
    then show ?thesis using ip ic ic2 by (auto simp: qp_ptrs_ok_def ptr_ok_def m split: if_splits)
  qed
  moreover have "unat (ref y) = qp_cqs ?ctx k" if y: "cq_map ?ctx k = Some y" for k y
  proof -
    have b: "0 < unat (ref x)" if "cq_map ctx k = Some x" "qp_scq q = k \<or> qp_rcq q = k" for x
      using c(4)[OF that(1)] cqs[of k] that(2) by auto
    have b1: "0 < unat (ref x)" if t: "res_map (tab_dec (cq_res ctx) (qp_scq q)) k = Some x" "qp_rcq q = k" for x
    proof -
      obtain z where "cq_map ctx k = Some z" "unat (ref z) = unat (ref x) + (if qp_scq q = k then 1 else 0)"
        using tab_dec_ref[OF c(6) t(1)] b by blast
      then show ?thesis using c(4)[of k z] cqs[of k] t(2) by (auto split: if_splits)
    qed
    obtain x where y1: "res_map (tab_dec (cq_res ctx) (qp_scq q)) k = Some x"
      and y2: "unat (ref x) = unat (ref y) + (if qp_rcq q = k then 1 else 0)"
      using tab_dec_ref[OF ic(1) y[unfolded m(3)] b1] by blast
    obtain z where z: "cq_map ctx k = Some z" "unat (ref z) = unat (ref x) + (if qp_scq q = k then 1 else 0)"
      using tab_dec_ref[OF c(6) y1] b by blast
    show ?thesis using y2 z c(4)[OF z(1)] cqs[of k] by simp
  qed
  ultimately show ?thesis using rs(1) by (simp add: objs_core_def) (simp add: qp_released_def)
qed

lemma objs_core_gsi: "objs_core (c\<lparr>gsi := g\<rparr>) = objs_core c"
proof -
  have "qp_pds (c\<lparr>gsi := g\<rparr>) = qp_pds c" "qp_cqs (c\<lparr>gsi := g\<rparr>) = qp_cqs c" "qp_ptrs_ok (c\<lparr>gsi := g\<rparr>) = qp_ptrs_ok c"
    by (simp_all add: qp_pds_def qp_cqs_def qp_ptrs_ok_def fun_eq_iff)
  then show ?thesis by (simp add: objs_core_def refs_ok_other)
qed

lemma objs_ok_destroy_qp:
  assumes ok: "objs_ok ctx" and run: "roce_destroy_qp ctx h = Inr (ret, ctx')"
  shows "objs_ok ctx'"
proof -
  have core: "objs_core ctx" and g: "gsi_ok ctx" using ok by (simp_all add: objs_ok_def)
  obtain q rs c1 c2 where d: "qp_map ctx h = Some q" "res_wf rs" "res_map rs = (qp_map ctx)(h := None)"
    "qp_pd q \<noteq> null_handle" "qp_rcq q \<noteq> null_handle"
    "free_send_wrs (qp_released ctx h q rs) (sq_wrs q) = Inr c1" "free_recv_wrs c1 (rq_wrs q) = Inr c2"
    "ctx' = (if qp_type q = ROCE_QPT_GSI then c2\<lparr>gsi := Sp_heap (roce_qp_zero\<lparr>qp_type := ROCE_QPT_MAX\<rparr>)\<rparr> else c2)"
    using destroy_qp_cases[OF core run] by blast
  have "qp_type q \<noteq> ROCE_QPT_MAX" using objs_coreD(3)[OF core d(1)] d(4) by (auto simp: qp_ptrs_ok_def)
  let ?rel = "qp_released ctx h q rs"
  let ?z = "Sp_heap (roce_qp_zero\<lparr>qp_type := ROCE_QPT_MAX\<rparr>)"
  define u where "u = (\<lambda>c :: roce_ctx. if qp_type q = ROCE_QPT_GSI then c\<lparr>gsi := ?z\<rparr> else c)"
  have uf: "mr_frame (u c) (u c')" if t: "mr_frame c c'" for c c' 
  proof -
    obtain pds mrs where "c' = c\<lparr>pd_res := pds, mr_res := mrs\<rparr>" "same_keys (pd_res c) pds" using t by (auto simp: mr_frame_def)
    then show ?thesis by (intro exI[of _ pds] exI[of _ mrs] conjI mr_frame_def[THEN iffD2]) (simp_all add: u_def)
  qed
  have ur: "refs_ok e (u c) = refs_ok e c" "qp_pds (u c) = qp_pds c" for e c by (simp_all add: u_def refs_ok_other qp_pds_def fun_eq_iff)
  have rel: "qp_map ?rel = (qp_map ctx)(h := None)" "gsi ?rel = gsi ctx" by (simp_all add: qp_released_def d(3))
  have "objs_core ?rel" using objs_core_released[OF core d(1,4,2,3)] .
  then have "objs_core (u ?rel)"
    by (simp add: u_def objs_core_gsi)
  moreover have "gsi_ok (u ?rel)"
    using g d(1) \<open>qp_type q \<noteq> ROCE_QPT_MAX\<close>
    by (auto simp: gsi_ok_def gsi_apart_def u_def rel roce_qp_zero_def)
  ultimately have 1: "objs_ok (u ?rel)" by (simp add: objs_ok_def)
  have r: "refs_ok (qp_pds ?rel) ?rel" using objs_coreD(1)[OF objs_core_released[OF core d(1,4,2,3)]] .
  have f: "mr_frame ?rel c2" using free_wr_frame(3)[OF d(6)] free_wr_frame(4)[OF d(7)] by (rule mr_frame_trans)
  have "refs_ok (qp_pds ?rel) c2" using refs_ok_free_wr(4)[OF refs_ok_free_wr(3)[OF r d(6)] d(7)] .
  then have "objs_ok (u c2)" using objs_ok_mr_frame[OF 1 uf[OF f]] by (simp add: ur)
  then show ?thesis using d(8) by (simp add: u_def)
qed

subsection \<open>The other objects\<close>

lemma objs_ok_alloc_pd:
  assumes ok: "objs_ok ctx" and run: "roce_alloc_pd ctx c mem_ok = Inr (ret, ctx')"
  shows "objs_ok ctx'"
proof -
  note core = objs_coreD[OF conjunct1[OF ok[unfolded objs_ok_def]]]
  have fresh: "qp_pds ctx h = 0" if "pd_map ctx h = None" for h
  proof -
    have "qp_pd q \<noteq> h \<or> h = null_handle" if "qp_map ctx k = Some q" for k q
      using objs_ok_ptrs[OF ok that] \<open>pd_map ctx h = None\<close> by (auto simp: ptr_ok_def)
    then show ?thesis unfolding qp_pds_def holders_def by (fastforce simp: card_eq_0_iff)
  qed
  obtain rs where r: "ctx' = ctx\<lparr>pd_res := rs\<rparr>" "\<And>h. pd_map ctx h \<noteq> None \<Longrightarrow> res_map rs h \<noteq> None"
    using alloc_pd_cases[OF core(5), of c mem_ok] run by auto
  have "refs_ok (qp_pds ctx) ctx'" using refs_ok_alloc_pd[OF core(1) fresh, of c mem_ok] run by auto
  moreover have "ptr_ok (res_map rs) (qp_pd q)" if "qp_map ctx k = Some q" for k q
    using objs_ok_ptrs[OF ok that] r(2) by (auto simp: ptr_ok_def)
  ultimately show ?thesis using r(1) by (intro objs_ok_frame[OF ok]) auto
qed

lemma objs_ok_dealloc_pd:
  assumes ok: "objs_ok ctx" and run: "roce_dealloc_pd ctx h = Inr (ret, ctx')"
  shows "objs_ok ctx'"
proof -
  note core = objs_coreD[OF conjunct1[OF ok[unfolded objs_ok_def]]]
  have r: "refs_ok (qp_pds ctx) ctx'" "pd_map ctx h \<noteq> None \<and> 0 < pd_users ctx h + qp_pds ctx h \<longrightarrow> ret = - EBUSY \<and> ctx' = ctx"
    using refs_ok_dealloc_pd[OF core(1), of h] run by auto
  have f: "ctx' = ctx \<or> (\<exists>rs. ctx' = ctx\<lparr>pd_res := rs\<rparr> \<and> res_map rs = (pd_map ctx)(h := None))"
    using dealloc_pd_cases[OF core(5), of h] run by (auto split: option.splits if_splits)
  show ?thesis
  proof (cases "ctx' = ctx")
    case False
    then obtain rs where rs: "ctx' = ctx\<lparr>pd_res := rs\<rparr>" "res_map rs = (pd_map ctx)(h := None)" using f by blast
    have "qp_pds ctx h = 0" if "pd_map ctx h \<noteq> None" using r(2) False that by auto
    then have "qp_pd q \<noteq> h \<or> h = null_handle" if "qp_map ctx k = Some q" for k q
      using holders_pos[of "qp_map ctx" k q "\<lambda>q. qp_pd q = h"] that objs_ok_ptrs[OF ok that]
      by (auto simp: qp_pds_def ptr_ok_def split: if_splits)
    then show ?thesis
      using rs objs_ok_ptrs[OF ok] by (intro objs_ok_frame[OF ok r(1)]) (auto simp: ptr_ok_def)
  qed (use ok in simp)
qed

lemma objs_ok_cq:
  assumes ok: "objs_ok ctx" and rs: "res_wf rs"
    and m: "\<And>h c. res_map rs h = Some c \<Longrightarrow> unat (ref c) = qp_cqs ctx h"
    and p: "\<And>k q. qp_map ctx k = Some q \<Longrightarrow> ptr_ok (res_map rs) (qp_scq q) \<and> ptr_ok (res_map rs) (qp_rcq q)"
  shows "objs_ok (ctx\<lparr>cq_res := rs\<rparr>)"
proof -
  let ?ctx = "ctx\<lparr>cq_res := rs\<rparr>"
  have e: "qp_pds ?ctx = qp_pds ctx" "qp_cqs ?ctx = qp_cqs ctx" by (simp_all add: qp_pds_def qp_cqs_def fun_eq_iff)
  have "refs_ok (qp_pds ctx) ?ctx" using ok rs by (auto simp: objs_ok_def objs_core_def intro: refs_ok_cq)
  moreover have "qp_ptrs_ok ?ctx q" if "qp_map ctx k = Some q" for k q
    using ok that p[OF that] by (auto simp: objs_ok_def objs_core_def qp_ptrs_ok_def)
  ultimately show ?thesis using ok m e by (auto simp: objs_ok_def objs_core_def gsi_ok_def gsi_apart_def)
qed

lemma objs_ok_create_cq:
  assumes ok: "objs_ok ctx" and run: "roce_create_cq ctx cqe v c mem_ok = Inr (ret, ctx')"
  shows "objs_ok ctx'"
proof -
  note core = objs_coreD[OF conjunct1[OF ok[unfolded objs_ok_def]]]
  obtain rs where r: "ctx' = ctx\<lparr>cq_res := rs\<rparr>" "res_wf rs"
    "rs = cq_res ctx \<or> (\<exists>h. cq_map ctx h = None \<and>
       res_map rs = (cq_map ctx)(h \<mapsto> \<lparr>handle = h, ref = 0, cq_cqe = cqe, cq_comp_vector = v, cq_ctx = c\<rparr>))"
    using create_cq_cases[OF core(6), of cqe v c mem_ok] run by auto
  from r(3) show ?thesis
  proof (elim disjE exE conjE)
    assume "rs = cq_res ctx"
    then show ?thesis using ok r(1) by simp
  next
    fix h
    assume h: "cq_map ctx h = None"
      "res_map rs = (cq_map ctx)(h \<mapsto> \<lparr>handle = h, ref = 0, cq_cqe = cqe, cq_comp_vector = v, cq_ctx = c\<rparr>)"
    have "h \<noteq> null_handle" using null_no_handle[OF r(2)] h(2) by auto
    then have "qp_scq q \<noteq> h \<and> qp_rcq q \<noteq> h" if "qp_map ctx k = Some q" for k q
      using objs_ok_ptrs[OF ok that] h(1) by (auto simp: ptr_ok_def)
    then have "qp_cqs ctx h = 0" unfolding qp_cqs_def holders_def by (fastforce simp: card_eq_0_iff)
    then show ?thesis
      unfolding r(1) using core(4) h objs_ok_ptrs[OF ok] r(2)
      by (intro objs_ok_cq[OF ok]) (auto simp: ptr_ok_def split: if_splits)
  qed
qed

lemma objs_ok_destroy_cq:
  assumes ok: "objs_ok ctx" and run: "roce_destroy_cq ctx h = Inr (ret, ctx')"
  shows "objs_ok ctx'"
proof -
  note core = objs_coreD[OF conjunct1[OF ok[unfolded objs_ok_def]]]
  have f: "ctx' = ctx \<or> (\<exists>rs c. cq_map ctx h = Some c \<and> ref c = 0 \<and> ctx' = ctx\<lparr>cq_res := rs\<rparr> \<and> res_wf rs \<and> res_map rs = (cq_map ctx)(h := None))"
    using destroy_cq_cases[OF core(6), of h] run by (auto split: option.splits if_splits)
  show ?thesis
  proof (cases "ctx' = ctx")
    case False
    then obtain rs c where r: "cq_map ctx h = Some c" "ref c = 0" "ctx' = ctx\<lparr>cq_res := rs\<rparr>" "res_wf rs"
      "res_map rs = (cq_map ctx)(h := None)" using f by blast
    have z: "qp_cqs ctx h = 0" using core(4)[OF r(1)] r(2) by simp
    have n: "qp_scq q \<noteq> h \<and> qp_rcq q \<noteq> h" if "qp_map ctx k = Some q" for k q
      using z holders_pos[of "qp_map ctx" k q "\<lambda>q. qp_scq q = h"] holders_pos[of "qp_map ctx" k q "\<lambda>q. qp_rcq q = h"] that
      by (auto simp: qp_cqs_def)
    then show ?thesis
      unfolding r(3) using core(4) r objs_ok_ptrs[OF ok]
      by (intro objs_ok_cq[OF ok]) (auto simp: ptr_ok_def split: if_splits)
  qed (use ok in simp)
qed

lemma same_keys_pd:
  "res_wf (pd_res ctx) \<Longrightarrow> pd_map ctx h = Some p \<Longrightarrow> handle p' = handle p \<Longrightarrow> same_keys (pd_res ctx) (res_update (pd_res ctx) h p')"
  using res_update_wf[of "pd_res ctx" h p p'] by (simp add: same_keys_def)

definition obj_frame :: "roce_ctx \<Rightarrow> roce_ctx \<Rightarrow> bool" where
  "obj_frame ctx ctx' \<longleftrightarrow> qp_res ctx' = qp_res ctx \<and> cq_res ctx' = cq_res ctx \<and> gsi ctx' = gsi ctx \<and>
     same_keys (pd_res ctx) (pd_res ctx')"

lemma objs_ok_obj_frame:
  assumes ok: "objs_ok ctx" and r: "refs_ok (qp_pds ctx) ctx'" and f: "obj_frame ctx ctx'"
  shows "objs_ok ctx'"
  using f objs_ok_ptrs[OF ok] by (intro objs_ok_frame[OF ok r]) (auto simp: obj_frame_def same_keys_def ptr_ok_def)

lemma same_keys_refl [simp]: "same_keys rs rs"
  by (simp add: same_keys_def)

lemma objs_ok_ah:
  assumes ok: "objs_ok ctx"
  shows "roce_create_ah ctx pdh attr c mem_ok = Inr (ret, ctx') \<Longrightarrow> objs_ok ctx'"
    and "roce_destroy_ah ctx h = Inr (ret, ctx') \<Longrightarrow> objs_ok ctx'"
proof -
  note core = objs_coreD[OF conjunct1[OF ok[unfolded objs_ok_def]]]
  note wf = refs_okD[OF core(1)]
  assume run: "roce_create_ah ctx pdh attr c mem_ok = Inr (ret, ctx')"
  from create_ah_cases[OF wf(1,4), of pdh attr c mem_ok] run have "obj_frame ctx ctx'"
    by (elim disjE exE conjE) (auto simp: obj_frame_def same_keys_pd[OF wf(1)])
  then show "objs_ok ctx'" using objs_ok_obj_frame[OF ok refs_ok_create_ah[OF core(1) run]] by blast
next
  note core = objs_coreD[OF conjunct1[OF ok[unfolded objs_ok_def]]]
  note wf = refs_okD[OF core(1)]
  assume run: "roce_destroy_ah ctx h = Inr (ret, ctx')"
  then have r: "refs_ok (qp_pds ctx) ctx'" using refs_ok_destroy_ah[OF core(1), of h] by auto
  have "obj_frame ctx ctx'"
    using destroy_ah_cases[OF wf(1,4), of h] wf(6) run
    by (auto simp: obj_frame_def same_keys_pd[OF wf(1)] split: option.splits if_splits)
  then show "objs_ok ctx'" using objs_ok_obj_frame[OF ok r] by blast
qed

lemma objs_ok_create_mr:
  assumes ok: "objs_ok ctx" and run: "roce_create_mr ctx pdh a mem_ok = Inr (ret, ctx')"
  shows "objs_ok ctx'"
proof -
  note core = objs_coreD[OF conjunct1[OF ok[unfolded objs_ok_def]]]
  note wf = refs_okD[OF core(1)]
  from create_mr_cases[OF wf(1,3), of pdh a mem_ok] run have "obj_frame ctx ctx'"
    by (elim disjE exE conjE) (auto simp: obj_frame_def same_keys_pd[OF wf(1)])
  then show ?thesis using objs_ok_obj_frame[OF ok refs_ok_create_mr[OF core(1) run]] by blast
qed

lemma objs_ok_destroy_mr:
  assumes ok: "objs_ok ctx" and run: "roce_destroy_mr ctx h = Inr (ret, ctx')"
  shows "objs_ok ctx'"
proof -
  note core = objs_coreD[OF conjunct1[OF ok[unfolded objs_ok_def]]]
  have "refs_ok (qp_pds ctx) ctx'" using refs_ok_destroy_mr[OF core(1), of h] run by auto
  then show ?thesis using objs_ok_mr_frame[OF ok destroy_mr_frame[OF run]] by blast
qed

end
