(* ===== verification/Qp_Steps.thy ===== *)
theory Qp_Steps
  imports Qp_Life
begin

text \<open>
  Every call of the library, the ones that move data included, keeps the invariant of \<open>Qp_Life\<close>: the
  pointers between the objects are alive and the reference counts exact.
\<close>

subsection \<open>What every result of a run satisfies\<close>

definition gives :: "('a \<Rightarrow> bool) \<Rightarrow> 'a run \<Rightarrow> bool" where
  "gives P r \<longleftrightarrow> (\<forall>x. r = Inr x \<longrightarrow> P x)"

lemma givesD: "gives P r \<Longrightarrow> r = Inr x \<Longrightarrow> P x"
  by (simp add: gives_def)

named_theorems gives_rules \<open>the rules that take a run apart\<close>

lemma gives_basic [gives_rules]:
  "P x \<Longrightarrow> gives P (Inr x)" "gives P (Inl e)"
  "(\<And>x. r = Inr x \<Longrightarrow> gives P (f x)) \<Longrightarrow> gives P (bindR r f)"
  "(c \<Longrightarrow> gives P a) \<Longrightarrow> (\<not> c \<Longrightarrow> gives P b) \<Longrightarrow> gives P (if c then a else b)"
  by (auto simp: gives_def bindR_eq_Inr)

lemma gives_case [gives_rules]:
  "(\<And>a b. x = (a, b) \<Longrightarrow> gives P (g a b)) \<Longrightarrow> gives P (case x of (a, b) \<Rightarrow> g a b)"
  "(y = None \<Longrightarrow> gives P n) \<Longrightarrow> (\<And>z. y = Some z \<Longrightarrow> gives P (h z)) \<Longrightarrow> gives P (case y of None \<Rightarrow> n | Some z \<Rightarrow> h z)"
  "(\<And>e. u = Inl e \<Longrightarrow> gives P (l e)) \<Longrightarrow> (\<And>v. u = Inr v \<Longrightarrow> gives P (k v)) \<Longrightarrow>
     gives P (case u of Inl e \<Rightarrow> l e | Inr v \<Rightarrow> k v)"
  by (auto split: prod.split option.split sum.split)

subsection \<open>What moving data leaves of a QP\<close>

lemma same_qp_refl [simp, intro]: "same_qp q q"
  by (simp add: same_qp_def)

lemma same_qp_trans [trans]: "same_qp a b \<Longrightarrow> same_qp b c \<Longrightarrow> same_qp a c"
  by (simp add: same_qp_def)

named_theorems same_qp_dests \<open>calls that keep the type and the pointers of a QP\<close>

lemma same_qp_xmit_loop: "xmit_loop env qp pkts = (qp', evs) \<Longrightarrow> same_qp qp qp'"
proof (induction pkts arbitrary: qp qp' evs)
  case (Cons p ps)
  have "same_qp qp (roce_netpkt_outgoing qp p)" by (simp add: same_qp_def roce_netpkt_outgoing_def)
  then show ?case using Cons by (auto simp: Let_def split: if_splits prod.splits intro: same_qp_trans)
qed simp

lemma same_qp_xmit [same_qp_dests]: "roce_xmit_pkts env qp = Inr (qp', evs) \<Longrightarrow> same_qp qp qp'"
  by (auto simp: roce_xmit_pkts_def Let_def bindR_eq_Inr split: if_splits dest: same_qp_xmit_loop)

lemma same_qp_only: "rc_only_pkt env ctx qp w ext opcode payload room = Inr (qp', w') \<Longrightarrow> same_qp qp qp'"
  by (auto simp: rc_only_pkt_def bindR_eq_Inr roce_netpkt_pending_one_def same_qp_def split: option.splits)

lemma same_qp_multi:
  "rc_multi_pkts env ctx qp w ext1 op1 op2 ext2 op3 payload mtu room = Inr (qp', w') \<Longrightarrow> same_qp qp qp'"
  by (auto simp: rc_multi_pkts_def bindR_eq_Inr Let_def roce_netpkt_pending_multi_def same_qp_def)

lemma same_qp_build [same_qp_dests]: "roce_rc_build_pkts env ctx qp w room = Inr (qp', w') \<Longrightarrow> same_qp qp qp'"
  by (auto simp: roce_rc_build_pkts_def roce_rc_send_pkts_def roce_rc_write_pkts_def roce_rc_send_only_def
      roce_rc_write_only_def roce_rc_send_multi_def roce_rc_write_multi_def bindR_eq_Inr
      split: if_splits roce_wr_opcode.splits dest: same_qp_only same_qp_multi)

lemma same_qp_upd [simp]:
  "same_qp qp (qp\<lparr>sq_wrs := a\<rparr>)" "same_qp qp (qp\<lparr>qp_attr := b\<rparr>)" "same_qp qp (qp\<lparr>outgoing_pkts := c\<rparr>)"
  "same_qp qp (roce_complete_head qp)" "same_qp qp (sq_store w qp)" "same_qp qp (qp\<lparr>req_psn := d\<rparr>)"
  by (simp_all add: same_qp_def roce_complete_head_def sq_store_def)

lemma same_qp_request_rc:
  "roce_request_rc env ctx qp w room = Inr (qp', evs) \<Longrightarrow> same_qp qp qp'"
  by (auto simp: roce_request_rc_def Let_def bindR_eq_Inr split: if_splits dest!: same_qp_dests)
    (auto simp: same_qp_def roce_complete_head_def sq_store_def)

subsection \<open>What moving data does to the other objects\<close>

definition data_frame :: "'a roce_base_scheme \<Rightarrow> 'a roce_base_scheme \<Rightarrow> bool" where
  "data_frame ctx ctx' \<longleftrightarrow> (\<exists>pds mrs ahs. ctx' = ctx\<lparr>pd_res := pds, mr_res := mrs, ah_res := ahs\<rparr> \<and>
     same_keys (pd_res ctx) pds) \<and> (\<forall>extra. refs_ok extra ctx \<longrightarrow> refs_ok extra ctx')"

lemma data_frame_refl [simp, intro]: "data_frame ctx ctx"
proof -
  have "ctx = ctx\<lparr>pd_res := pd_res ctx, mr_res := mr_res ctx, ah_res := ah_res ctx\<rparr>" by simp
  then show ?thesis unfolding data_frame_def using same_keys_refl by blast
qed

lemma data_frame_trans [trans]: "data_frame a b \<Longrightarrow> data_frame b c \<Longrightarrow> data_frame a c"
  unfolding data_frame_def same_keys_def by (elim conjE exE) force

lemma data_frame_mr:
  assumes "mr_frame ctx ctx'" "\<And>extra. refs_ok extra ctx \<Longrightarrow> refs_ok extra ctx'"
  shows "data_frame ctx ctx'"
proof -
  obtain pds mrs where f: "ctx' = ctx\<lparr>pd_res := pds, mr_res := mrs\<rparr>" "same_keys (pd_res ctx) pds"
    using assms(1) by (auto simp: mr_frame_def)
  then have "ctx' = ctx\<lparr>pd_res := pds, mr_res := mrs, ah_res := ah_res ctx\<rparr>" by simp
  then show ?thesis using f(2) assms(2) unfolding data_frame_def by blast
qed

named_theorems data_frame_dests \<open>calls that move data\<close>

lemma data_frame_free [data_frame_dests]:
  "roce_free_send_wr ctx w = Inr ctx' \<Longrightarrow> data_frame ctx ctx'"
  "roce_free_recv_wr ctx x = Inr ctx' \<Longrightarrow> data_frame ctx ctx'"
  by (auto intro!: data_frame_mr dest: free_wr_frame refs_ok_free_wr)

lemma refs_ok_ah_update:
  assumes ok: "refs_ok extra ctx" and a: "ah_map ctx h = Some a" "handle a' = handle a" "ah_pd a' = ah_pd a"
  shows "refs_ok extra (ctx\<lparr>ah_res := res_update (ah_res ctx) h a'\<rparr>)"
proof -
  note u = res_update_wf[OF refs_okD(4)[OF ok] a(1,2)]
  have "pd_users (ctx\<lparr>ah_res := res_update (ah_res ctx) h a'\<rparr>) k = pd_users ctx k" for k
    using holders_upd[of "ah_map ctx" h a "\<lambda>a. ah_pd a = k" a'] a u by (simp add: pd_users_def)
  then show ?thesis using ok a u unfolding refs_ok_def by (auto simp: mr_wf_def)
qed

lemma data_frame_ah [data_frame_dests]:
  "roce_get_ah ctx h = Inr (x, ctx') \<Longrightarrow> data_frame ctx ctx'"
  "roce_put_ah ctx h = Inr (ret, ctx') \<Longrightarrow> data_frame ctx ctx'"
proof -
  have upd: "data_frame ctx (ctx\<lparr>ah_res := rs\<rparr>)" if t: "\<And>extra. refs_ok extra ctx \<Longrightarrow> refs_ok extra (ctx\<lparr>ah_res := rs\<rparr>)" for rs
  proof -
    have "ctx\<lparr>ah_res := rs\<rparr> = ctx\<lparr>pd_res := pd_res ctx, mr_res := mr_res ctx, ah_res := rs\<rparr>" by simp
    then show ?thesis using t same_keys_refl unfolding data_frame_def by blast
  qed
  have r: "refs_ok extra (ctx\<lparr>ah_res := tab_inc (ah_res ctx) h\<rparr>)" "refs_ok extra (ctx\<lparr>ah_res := tab_dec (ah_res ctx) h\<rparr>)"
    if ok: "refs_ok extra ctx" for extra
    using ok refs_ok_ah_update[OF ok] by (cases "ah_map ctx h"; simp add: tab_inc_def tab_dec_def)+
  have none: "refs_ok extra ctx = False" if "\<not> res_wf (ah_res ctx)" for extra using that by (simp add: refs_ok_def)
  show "data_frame ctx ctx'" if t: "roce_get_ah ctx h = Inr (x, ctx')"
  proof (cases "res_wf (ah_res ctx)")
    case True
    then show ?thesis using that r(1) by (auto simp: roce_get_ah_def res_ref_tab intro!: upd)
  next
    case False
    obtain rs where "ctx' = ctx\<lparr>ah_res := rs\<rparr>" using t by (auto simp: roce_get_ah_def bindR_eq_Inr)
    then show ?thesis using False by (auto simp: none intro!: upd)
  qed
  show "data_frame ctx ctx'" if t: "roce_put_ah ctx h = Inr (ret, ctx')"
  proof (cases "res_wf (ah_res ctx)")
    case True
    then show ?thesis using that r(2) by (auto simp: roce_put_ah_def res_unref_tab intro!: upd)
  next
    case False
    obtain rs where "ctx' = ctx\<lparr>ah_res := rs\<rparr>" using t by (auto simp: roce_put_ah_def bindR_eq_Inr)
    then show ?thesis using False by (auto simp: none intro!: upd)
  qed
qed

lemma objs_ok_data:
  assumes ok: "objs_ok ctx" and f: "data_frame ctx ctx'"
  shows "objs_ok ctx'"
proof -
  have "refs_ok (qp_pds ctx) ctx'" using ok f by (auto simp: data_frame_def objs_ok_def objs_core_def)
  moreover have "obj_frame ctx ctx'" using f by (auto simp: data_frame_def obj_frame_def)
  ultimately show ?thesis by (rule objs_ok_obj_frame[OF ok])
qed

text \<open>Datagrams.\<close>

lemma data_ud_done:
  "ud_done ctx qp w n evs = Inr (ctx', qp', evs') \<Longrightarrow> data_frame ctx ctx' \<and> qp' = qp"
  by (auto simp: ud_done_def bindR_eq_Inr dest: data_frame_dests)

lemma data_ud_send:
  assumes "roce_ud_send_pkt env ctx qp w imm payload mem_ok = Inr (ctx', qp', w', evs)"
  shows "data_frame ctx ctx' \<and> same_qp qp qp'"
proof -
  obtain oah ctx1 where g: "roce_get_ah ctx (wr_ud_ah (swr w)) = Inr (oah, ctx1)" and
    c: "(case oah of None \<Rightarrow> Inr (ctx1, qp, w, [])
     | Some ah \<Rightarrow>
         bindR (if roce_send_wr_is_inline w then Inr 1
                else roce_sge_pages (wr_sge (swr w)) (page_size ctx1)) (\<lambda>pages.
         bindR (roce_netpkt_alloc ctx1 qp (Some (swr_ptr w)) (ucast pages) (pad_of payload) mem_ok) (\<lambda>opkt.
         bindR (case opkt of
             None \<Rightarrow> Inr (qp, w\<lparr>swr_error := ROCE_WC_LOC_QP_OP_ERR\<rparr>, [])
           | Some pkt \<Rightarrow> bindR (ud_xmit env ctx1 qp w imm payload (ah_attr ah) pages pkt)
               (\<lambda>(qp1, evs). Inr (qp1, w, evs))) (\<lambda>(qp1, w1, evs).
         bindR (roce_put_ah ctx1 (wr_ud_ah (swr w))) (\<lambda>(_, ctx2). Inr (ctx2, qp1, w1, evs))))))
      = Inr (ctx', qp', w', evs)"
    using assms unfolding roce_ud_send_pkt_def bindR_eq_Inr by auto
  show ?thesis
  proof (cases oah)
    case None
    then show ?thesis using c data_frame_ah(1)[OF g] by auto
  next
    case (Some ah)
    obtain pages opkt x y where p: "(case opkt of
             None \<Rightarrow> Inr (qp, w\<lparr>swr_error := ROCE_WC_LOC_QP_OP_ERR\<rparr>, [])
           | Some pkt \<Rightarrow> bindR (ud_xmit env ctx1 qp w imm payload (ah_attr ah) pages pkt)
               (\<lambda>(qp1, evs). Inr (qp1, w, evs))) = Inr (qp', w', evs)"
      "roce_put_ah ctx1 (wr_ud_ah (swr w)) = Inr (x, ctx')"
      using c Some by (auto simp: bindR_eq_Inr)
    have "same_qp qp qp'" using p(1) by (cases opkt) (auto simp: bindR_eq_Inr ud_xmit_def)
    moreover have "data_frame ctx ctx'" using data_frame_ah(1)[OF g] data_frame_ah(2)[OF p(2)] by (rule data_frame_trans)
    ultimately show ?thesis by blast
  qed
qed

lemma data_request_ud:
  "roce_request_ud env ctx qp w mem_ok = Inr (ctx', qp', evs) \<Longrightarrow> data_frame ctx ctx' \<and> same_qp qp qp'"
  by (auto simp: roce_request_ud_def bindR_eq_Inr split: if_splits dest!: data_ud_done data_ud_send intro: data_frame_trans)

text \<open>Acknowledges.\<close>

lemma data_complete:
  assumes "roce_rc_complete_send_wr ctx qp pkt = Inr (ctx', qp', evs)"
  shows "data_frame ctx ctx' \<and> same_qp qp qp'"
  using assms
  by (auto simp: roce_rc_complete_send_wr_def Let_def bindR_eq_Inr same_qp_def roce_complete_head_def
      split: option.splits list.splits dest: data_frame_dests)

lemma data_ack_loop:
  "ack_loop ctx qp psn pkts = Inr (ctx', qp', evs) \<Longrightarrow> data_frame ctx ctx' \<and> same_qp qp qp'"
proof (induction pkts arbitrary: ctx qp evs)
  case (Cons pkt pkts)
  show ?case
  proof (cases "roce_compare_psn (roce_netpkt_psn pkt) psn > 0")
    case False
    then obtain c1 q1 e1 e2 where s: "roce_rc_complete_send_wr ctx (qp\<lparr>outgoing_pkts := pkts\<rparr>) pkt = Inr (c1, q1, e1)"
      "ack_loop c1 q1 psn pkts = Inr (ctx', qp', e2)"
      using Cons.prems by (auto simp: bindR_eq_Inr)
    have "same_qp qp q1" using data_complete[OF s(1)] by (simp add: same_qp_def)
    then show ?thesis using data_complete[OF s(1)] Cons.IH[OF s(2)] by (blast intro: data_frame_trans same_qp_trans)
  qed (use Cons.prems in simp)
qed simp

lemma data_handle_ack: "roce_handle_ack ctx qp psn = Inr (ctx', qp', evs) \<Longrightarrow> data_frame ctx ctx' \<and> same_qp qp qp'"
  by (auto simp: roce_handle_ack_def split: if_splits dest: data_ack_loop)

lemma data_handle_acknowledge:
  "roce_handle_acknowledge env ctx qp syn psn = Inr (ctx', qp', evs) \<Longrightarrow> data_frame ctx ctx' \<and> same_qp qp qp'"
  by (auto simp: roce_handle_acknowledge_def roce_handle_nak_def bindR_eq_Inr split: if_splits
      dest!: data_handle_ack same_qp_xmit intro: same_qp_trans)

text \<open>The responder.\<close>

lemma same_qp_ack [same_qp_dests]:
  "roce_netpkt_acknowledge mm ctx qp s v psn mem_ok = Inr (qp', evs) \<Longrightarrow> same_qp qp qp'"
  by (auto simp: roce_netpkt_acknowledge_def bindR_eq_Inr Let_def same_qp_def split: option.splits)

lemma same_qp_recv [simp]:
  "same_qp qp (qp\<lparr>resp_u := a\<rparr>)" "same_qp qp (qp\<lparr>resp_heap := h\<rparr>)" "same_qp qp (qp\<lparr>in_psn_nak := b\<rparr>)"
  "same_qp qp (recv_wr_set w qp)" "same_qp qp (qp\<lparr>resp_writtenlen := l\<rparr>)"
  by (simp_all add: same_qp_def recv_wr_set_def)

lemma same_qp_pop: "pop_recv_wr qp = (w, qp') \<Longrightarrow> same_qp qp qp'"
  "roce_pop_recv_wr qp inp = (p, qp') \<Longrightarrow> same_qp qp qp'"
  by (auto simp: pop_recv_wr_def roce_pop_recv_wr_def Let_def same_qp_def split: list.splits if_splits prod.splits)

lemma data_free_popped [data_frame_dests]:
  "free_popped ctx qp w = Inr (ctx', qp') \<Longrightarrow> data_frame ctx ctx' \<and> same_qp qp qp'"
  by (auto simp: free_popped_def bindR_eq_Inr dest: data_frame_dests)

abbreviation moved :: "'a roce_base_scheme \<Rightarrow> roce_qp \<Rightarrow> int \<times> mem \<times> 'a roce_base_scheme \<times> roce_qp \<times> roce_event list \<Rightarrow> bool" where
  "moved ctx qp \<equiv> (\<lambda>(ret, mm, ctx', qp', evs). data_frame ctx ctx' \<and> same_qp qp qp')"

lemma moved_recv_payload: "gives (moved ctx qp) (roce_recv_payload env ctx qp iovs eth inp opcode)"
  unfolding roce_recv_payload_def Let_def
  by (intro gives_rules) (auto dest!: same_qp_pop data_free_popped simp: same_qp_def recv_wr_set_def)

lemma moved_write_complete: "gives (moved ctx qp) (write_complete mm ctx qp eth opcode evs)"
  unfolding write_complete_def Let_def
  by (intro gives_rules) (auto dest!: same_qp_pop data_free_popped simp: same_qp_def split: if_splits)

lemma moved_same: "same_qp qp0 qp \<Longrightarrow> gives (moved ctx qp) r \<Longrightarrow> gives (moved ctx qp0) r"
  by (auto simp: gives_def intro: same_qp_trans)

lemma moved_rdma_write: "gives (moved ctx qp) (roce_rdma_write_payload env ctx qp iovs reth eth inp opcode mem_ok)"
  unfolding roce_rdma_write_payload_def Let_def
  by (intro gives_rules moved_same[OF _ moved_write_complete])
    (auto dest!: same_qp_ack simp: same_qp_def split: if_splits option.splits)

lemma moved_with_eth:
  "(\<And>bs vs. gives (moved ctx qp) (k bs vs)) \<Longrightarrow> gives (moved ctx qp) (with_eth env ctx qp iovs n k)"
  unfolding with_eth_def by (intro gives_rules) auto

lemma moved_dispatch: "gives (moved ctx qp) (rc_dispatch env ctx qp iovs opcode mem_ok)"
  unfolding rc_dispatch_def
  by (intro gives_rules(4) moved_with_eth moved_recv_payload moved_rdma_write gives_rules(1)) simp

lemma same_qp_out_of_seq: "roce_out_of_seq mm ctx qp mem_ok = Inr (qp', evs) \<Longrightarrow> same_qp qp qp'"
  by (auto simp: roce_out_of_seq_def bindR_eq_Inr same_qp_def split: if_splits dest!: same_qp_ack)

lemma moved_recv_rc: "gives (moved ctx qp) (roce_recv_rc env ctx iovs bth qp mem_ok)"
  unfolding roce_recv_rc_def Let_def
  by (intro gives_rules moved_with_eth)
    (auto dest!: data_handle_acknowledge givesD[OF moved_dispatch] same_qp_ack same_qp_out_of_seq
      simp: same_qp_def split: if_splits)

lemma moved_recv_ud: "gives (moved ctx qp) (roce_recv_ud env ctx iovs bth qp ip is_ipv4 ip_addr)"
  unfolding roce_recv_ud_def Let_def
  by (intro gives_rules)
    (auto dest!: givesD[OF moved_with_eth[OF moved_recv_payload]] givesD[OF moved_recv_payload] simp: same_qp_def split: if_splits)

subsection \<open>Every call\<close>

text \<open>A call that looks a QP up, works on it and stores it back.\<close>

lemma objs_ok_worked:
  assumes ok: "objs_ok ctx" and q: "qp_map ctx h = Some q" and f: "data_frame (ctx\<lparr>qp_res := tab_inc (qp_res ctx) h\<rparr>) ctx2"
    and s: "same_qp (q\<lparr>ref := ref q + 1\<rparr>) q'"
  shows "objs_ok (qp_store ctx2 q')" "qp_map ctx2 h \<noteq> None"
proof -
  have wf: "res_wf (qp_res ctx)" using ok by (simp add: objs_ok_def objs_core_def)
  have e: "qp_res ctx2 = tab_inc (qp_res ctx) h" using f by (auto simp: data_frame_def)
  have m: "qp_map ctx2 h = Some (q\<lparr>ref := ref q + 1\<rparr>)" using q tab_inc_map[OF wf, of h] by (simp add: e)
  have "handle q' = h" using s res_map_handle[OF wf q] by (simp add: same_qp_def)
  then show "objs_ok (qp_store ctx2 q')"
    using objs_ok_qp_store[OF objs_ok_data[OF objs_ok_ref_qp(1)[OF ok] f] m s] by (simp add: qp_store_def)
  show "qp_map ctx2 h \<noteq> None" using m by simp
qed

lemma data_get_mrs: "mrs_room ctx sges \<Longrightarrow> roce_get_mrs ctx sges = Inr (ret, ctx') \<Longrightarrow> data_frame ctx ctx'"
  by (intro data_frame_mr) (auto dest: mrs_frame refs_ok_mrs)

lemma mrs_room_qp [simp]: "mrs_room (ctx\<lparr>qp_res := rs\<rparr>) sges = mrs_room ctx sges"
  by (simp add: mrs_room_def)

lemma objs_ok_post_recv:
  assumes ok: "objs_ok ctx" and room: "mrs_room ctx (rwr_sge (rwr w))" and run: "roce_post_recv ctx h w = Inr (ret, ctx')"
  shows "objs_ok ctx'"
proof -
  have wf: "res_wf (qp_res ctx)" using ok by (simp add: objs_ok_def objs_core_def)
  let ?c1 = "ctx\<lparr>qp_res := tab_inc (qp_res ctx) h\<rparr>"
  obtain r c2 where g: "roce_get_mrs ?c1 (rwr_sge (rwr w)) = Inr (r, c2)"
    "(if r \<noteq> 0 then bindR (roce_free_recv_wr c2 w) (\<lambda>ctx3. Inr (- EACCES, ctx3))
     else case map_option (\<lambda>x. x\<lparr>ref := ref x + 1\<rparr>) (qp_map ctx h) of
       None \<Rightarrow> Inl Null_deref
     | Some qp \<Rightarrow> Inr (0, qp_store c2 (qp\<lparr>rq_wrs := rq_wrs qp @ [w]\<rparr>))) = Inr (ret, ctx')"
    using run by (auto simp: roce_post_recv_def get_qp_tab[OF wf] bindR_eq_Inr)
  have f: "data_frame ?c1 c2" using data_get_mrs[OF _ g(1)] room by simp
  show ?thesis
  proof (cases "r = 0")
    case False
    then have "data_frame c2 ctx'" using g(2) by (auto simp: bindR_eq_Inr dest: data_frame_free)
    then show ?thesis using objs_ok_data[OF objs_ok_ref_qp(1)[OF ok] data_frame_trans[OF f]] by blast
  next
    case True
    then obtain q where "qp_map ctx h = Some q" "ctx' = qp_store c2 ((q\<lparr>ref := ref q + 1\<rparr>)\<lparr>rq_wrs := rq_wrs q @ [w]\<rparr>)"
      using g(2) by (cases "qp_map ctx h") auto
    then show ?thesis using objs_ok_worked(1)[OF ok _ f] by (simp add: same_qp_def)
  qed
qed

lemma data_send_wr_ref: "mrs_room ctx (wr_sge (swr w)) \<Longrightarrow> send_wr_ref ctx w = Inr (w', ctx') \<Longrightarrow> data_frame ctx ctx'"
  by (auto simp: send_wr_ref_def bindR_eq_Inr Let_def split: if_splits intro: data_get_mrs)

lemma objs_ok_post_send:
  assumes ok: "objs_ok ctx" and room: "mrs_room ctx (wr_sge (swr w))"
    and run: "roce_post_send env ctx h w n = Inr (ret, ctx', evs)"
  shows "objs_ok ctx'"
proof -
  have wf: "res_wf (qp_res ctx)" using ok by (simp add: objs_ok_def objs_core_def)
  let ?c1 = "ctx\<lparr>qp_res := tab_inc (qp_res ctx) h\<rparr>"
  obtain q where q: "qp_map ctx h = Some q"
    using run by (cases "qp_map ctx h") (auto simp: roce_post_send_def get_qp_tab[OF wf] bindR_eq_Inr)
  let ?q = "q\<lparr>ref := ref q + 1\<rparr>"
  obtain w1 c2 where g: "send_wr_ref ?c1 w = Inr (w1, c2)"
    and c: "(if qp_type ?q = ROCE_QPT_RC then
           bindR (roce_request_rc env c2 ?q w1 n) (\<lambda>(qp', evs). Inr (0, qp_store c2 qp', evs))
         else if qp_type ?q = ROCE_QPT_GSI \<or> qp_type ?q = ROCE_QPT_UD then
           bindR (roce_request_ud env c2 ?q w1 (n \<noteq> 0)) (\<lambda>(ctx3, qp', evs). Inr (0, qp_store ctx3 qp', evs))
         else Inl Assert_failed) = Inr (ret, ctx', evs)"
    using run q by (auto simp: roce_post_send_def get_qp_tab[OF wf] bindR_eq_Inr)
  have f: "data_frame ?c1 c2" using data_send_wr_ref[OF _ g] room by simp
  have "\<exists>c3 q'. data_frame c2 c3 \<and> same_qp ?q q' \<and> ctx' = qp_store c3 q'"
    using c by (auto simp: bindR_eq_Inr split: if_splits dest!: same_qp_request_rc data_request_ud)
  then show ?thesis using objs_ok_worked(1)[OF ok q data_frame_trans[OF f]] by blast
qed

lemma objs_ok_recv_bth:
  assumes ok: "objs_ok ctx" and run: "roce_recv_bth env ctx iovs bth ip is4 ip_addr mem_ok = Inr (ret, mm, ctx', evs)"
  shows "objs_ok ctx'"
proof -
  have wf: "res_wf (qp_res ctx)" using ok by (simp add: objs_ok_def objs_core_def)
  define h where "h = ib_bth_get_destqp bth"
  let ?c1 = "ctx\<lparr>qp_res := tab_inc (qp_res ctx) h\<rparr>"
  have ok1: "objs_ok ?c1" using objs_ok_ref_qp(1)[OF ok] .
  show ?thesis
  proof (cases "qp_map ctx h")
    case None
    then show ?thesis using run ok1 by (auto simp: roce_recv_bth_def get_qp_tab[OF wf] simp flip: h_def)
  next
    case (Some q)
    let ?q = "q\<lparr>ref := ref q + 1\<rparr>"
    have put: "objs_ok c'" if "objs_ok c" "roce_put_qp c h = Inr (x, c')" for c c' x
      using that get_qp_tab(2)[of c h] objs_ok_ref_qp(2)[OF that(1)] by (auto simp: objs_ok_def objs_core_def)
    have fin: "objs_ok c'" if t: "gives (moved ?c1 ?q) r" "r = Inr (ret, mm', c2, q', evs')" "roce_put_qp (qp_store c2 q') h = Inr (x, c')"
      for r ret mm' c2 q' evs' x c'
    proof -
      have "data_frame ?c1 c2 \<and> same_qp ?q q'" using givesD[OF t(1,2)] by simp
      then show ?thesis using put[OF objs_ok_worked(1)[OF ok Some] t(3)] by blast
    qed
    have "gives (\<lambda>(ret, mm, c', evs). objs_ok c') (roce_recv_bth env ctx iovs bth ip is4 ip_addr mem_ok)"
      unfolding roce_recv_bth_def Let_def h_def[symmetric] get_qp_tab(1)[OF wf] Some
      apply (simp only: bindR_Inr prod.case option.map option.case, intro gives_rules)
      subgoal using ok1 by simp
      subgoal using ok1 by simp
      subgoal by (simp only: prod.case) (blast dest: put[OF ok1])
      subgoal by (simp only: prod.case split: if_split_asm) (blast dest: fin[OF moved_recv_rc] fin[OF moved_recv_ud])+
      done
    then show ?thesis using givesD[OF _ run] by fastforce
  qed
qed

lemma objs_ok_net_recv:
  assumes ok: "objs_ok ctx" and run: "roce_net_recv env ctx iovs ip0 ihl0 ip_addr mem_ok = Inr (ret, mm, ctx', evs)"
  shows "objs_ok ctx'"
proof -
  have "gives (\<lambda>(ret, mm, c', evs). objs_ok c') (roce_net_recv env ctx iovs ip0 ihl0 ip_addr mem_ok)"
    unfolding roce_net_recv_def
    by (intro gives_rules) (auto simp: ok dest: objs_ok_recv_bth[OF ok])
  then show ?thesis using run by (simp add: gives_def)
qed

text \<open>Attributes are not pointers.\<close>

abbreviation step_same :: "modify_step \<Rightarrow> bool" where
  "step_same f \<equiv> (\<forall>qp. gives (\<lambda>(ret, qp'). rel_option same_qp qp qp') (f qp))"

lemma rel_same [simp]: "rel_option same_qp x x"
  by (cases x) simp_all

lemma step_same_intros [intro]: "step_same (set_attr g)" "step_same (check_attr e g)"
  by (auto simp: set_attr_def check_attr_def gives_def split: option.splits)

lemma step_same_ah: "step_same (roce_modify_qp_ah ctx ah)" "step_same (modify_qp_mtu ctx a)" "step_same (modify_qp_sq_psn psn)"
proof -
  have c: "gives (\<lambda>(ret, qp'). rel_option same_qp qp qp') (check_attr e g qp)" for e g qp
    using step_same_intros(2) by blast
  show "step_same (roce_modify_qp_ah ctx ah)" "step_same (modify_qp_mtu ctx a)"
    unfolding roce_modify_qp_ah_def modify_qp_mtu_def by (intro allI gives_rules c; simp)+
  show "step_same (modify_qp_sq_psn psn)"
    unfolding modify_qp_sq_psn_def by (intro allI gives_rules) (auto simp: same_qp_def)
qed

lemma modify_loop_same:
  assumes "\<forall>(b, f) \<in> set fs. step_same f" "modify_loop am fs qp = Inr (ret, qp')"
  shows "rel_option same_qp qp qp'"
  using assms
proof (induction fs arbitrary: qp)
  case (Cons s fs)
  obtain b f where s: "s = (b, f)" by (cases s)
  show ?case
  proof (cases "am AND b = 0")
    case False
    then obtain r q where r: "f qp = Inr (r, q)" "(if r \<noteq> 0 then Inr (r, q) else modify_loop am fs q) = Inr (ret, qp')"
      using Cons.prems(2) s by (auto simp: bindR_eq_Inr)
    have "gives (\<lambda>(ret, qp'). rel_option same_qp qp qp') (f qp)" using Cons.prems(1) s by auto
    then have q: "rel_option same_qp qp q" using r(1) by (simp add: gives_def)
    show ?thesis
    proof (cases "r = 0")
      case True
      then have "rel_option same_qp q qp'" using r(2) Cons.IH[of q] Cons.prems(1) by simp
      then show ?thesis using q by (cases qp; cases q; cases qp') (auto intro: same_qp_trans)
    qed (use r q in simp)
  qed (use Cons s in auto)
qed simp

lemma all_steps:
  "\<forall>(b, f) \<in> set []. P f" "P f \<Longrightarrow> \<forall>(b, f) \<in> set fs. P f \<Longrightarrow> \<forall>(b, f) \<in> set ((b, f) # fs). P f"
  by auto

lemma modify_steps_same: "\<forall>(b, f) \<in> set (modify_steps ctx attr). step_same f"
  unfolding modify_steps_def by (intro all_steps(1) all_steps(2) step_same_intros step_same_ah)

lemma objs_ok_modify_qp:
  assumes ok: "objs_ok ctx" and run: "roce_modify_qp ctx h attr am = Inr (ret, ctx')"
  shows "objs_ok ctx'"
proof -
  have wf: "res_wf (qp_res ctx)" using ok by (simp add: objs_ok_def objs_core_def)
  let ?c1 = "ctx\<lparr>qp_res := tab_inc (qp_res ctx) h\<rparr>" and ?q = "map_option (\<lambda>x. x\<lparr>ref := ref x + 1\<rparr>) (qp_map ctx h)"
  have "ctx' = ?c1 \<or> (\<exists>oqp. modify_loop am (modify_steps ?c1 attr) ?q = Inr (ret, oqp) \<and>
      ctx' = (case oqp of None \<Rightarrow> ?c1 | Some q \<Rightarrow> qp_store ?c1 q))"
    using run by (auto simp: roce_modify_qp_def get_qp_tab[OF wf] bindR_eq_Inr split: if_splits)
  then show ?thesis
  proof (elim disjE exE conjE)
    fix oqp
    assume r: "modify_loop am (modify_steps ?c1 attr) ?q = Inr (ret, oqp)"
      "ctx' = (case oqp of None \<Rightarrow> ?c1 | Some q \<Rightarrow> qp_store ?c1 q)"
    have "rel_option same_qp ?q oqp" using modify_loop_same[OF modify_steps_same r(1)] .
    then show ?thesis
      using r(2) objs_ok_ref_qp(1)[OF ok] objs_ok_worked(1)[OF ok _ data_frame_refl] by (cases "qp_map ctx h"; cases oqp) auto
  qed (use objs_ok_ref_qp(1)[OF ok] in simp)
qed

lemma objs_ok_query_qp:
  assumes ok: "objs_ok ctx" and run: "roce_query_qp ctx h am = Inr (ret, a, ctx')"
  shows "objs_ok ctx'"
  using run objs_ok_ref_qp(1)[OF ok, of h] get_qp_tab(1)[of ctx h] ok
  by (auto simp: roce_query_qp_def bindR_eq_Inr objs_ok_def objs_core_def split: if_splits option.splits)

end
