(* ===== verification/Ctx_Reach.thy ===== *)
theory Ctx_Reach
  imports Qp_Steps
begin

text \<open>
  A device from its start on (\<open>ctx.c\<close>, \<open>dev.c\<close>): the contexts that a client can have, as a step relation
  over the calls of the library, and what holds in all of them.
\<close>

subsection \<open>The start\<close>

lemma init_table_ok:
  assumes "init_table no_table sz lo hi r = (True, rs)"
  shows "res_wf rs" "res_map rs = Map.empty"
proof -
  have z: "res_wf no_table" "res_map no_table = Map.empty"
    by (auto simp: no_table_def res_wf_def res_map_def fun_eq_iff)
  show "res_wf rs" "res_map rs = Map.empty"
    using assms z res_init_map[OF z(1), of sz 0 rs]
    by (auto simp: init_table_def Let_def roce_resource_init_def split: if_splits)
qed

lemma init_tables_ok:
  assumes zero: "pd_res ctx = no_table" "cq_res ctx = no_table" "mr_res ctx = no_table" "qp_res ctx = no_table"
      "ah_res ctx = no_table"
    and run: "init_tables ctx para r = (True, ctx')"
  shows "\<exists>pds cqs mrs qps ahs. ctx' = ctx\<lparr>pd_res := pds, cq_res := cqs, mr_res := mrs, qp_res := qps, ah_res := ahs\<rparr> \<and>
    res_wf pds \<and> res_wf cqs \<and> res_wf mrs \<and> res_wf qps \<and> res_wf ahs \<and> res_map pds = Map.empty \<and>
    res_map cqs = Map.empty \<and> res_map mrs = Map.empty \<and> res_map qps = Map.empty \<and> res_map ahs = Map.empty"
proof -
  obtain pds cqs mrs qps ahs where t:
    "init_table no_table (max_pd para) ROCE_MIN_GENERAL ROCE_MAX_GENERAL (r 0) = (True, pds)"
    "init_table no_table (max_cq para) ROCE_MIN_GENERAL ROCE_MAX_GENERAL (r 1) = (True, cqs)"
    "init_table no_table (max_mr para) ROCE_MIN_GENERAL ROCE_MAX_GENERAL (r 2) = (True, mrs)"
    "init_table no_table (max_qp para) 3 ROCE_MAX_GENERAL (r 4) = (True, qps)"
    "init_table no_table (max_ah para) ROCE_MIN_GENERAL ROCE_MAX_GENERAL (r 6) = (True, ahs)"
    and e: "ctx' = ctx\<lparr>pd_res := pds, cq_res := cqs, mr_res := mrs, qp_res := qps, ah_res := ahs\<rparr>"
    using run by (auto simp: init_tables_def zero Let_def split: prod.splits if_splits)
  show ?thesis
    unfolding e using init_table_ok[OF t(1)] init_table_ok[OF t(2)] init_table_ok[OF t(3)] init_table_ok[OF t(4)] init_table_ok[OF t(5)]
    by (intro exI conjI refl) simp_all
qed

text \<open>The QP tables that the special QPs may leave: only unused QPs in them.\<close>

lemma objs_ok_unused:
  assumes base: "res_wf (pd_res ctx)" "res_wf (cq_res ctx)" "res_wf (mr_res ctx)" "res_wf (ah_res ctx)"
      "pd_map ctx = Map.empty" "cq_map ctx = Map.empty" "mr_map ctx = Map.empty" "ah_map ctx = Map.empty"
    and qps: "res_wf (qp_res ctx)" "\<And>k q. qp_map ctx k = Some q \<Longrightarrow> qp_type q = ROCE_QPT_MAX \<and> qp_pd q = null_handle \<and>
        qp_scq q = null_handle \<and> qp_rcq q = null_handle"
    and g: "gsi ctx = Sp_res \<longrightarrow> qp_map ctx GSI_QPN \<noteq> None" "\<And>q. gsi ctx \<noteq> Sp_heap q"
  shows "objs_ok ctx"
proof -
  have "qp_pds ctx h = 0" for h using qps(2) by (fastforce simp: qp_pds_def holders_def card_eq_0_iff)
  moreover have "qp_ptrs_ok ctx q" if "qp_map ctx k = Some q" for k q
    using qps(2)[OF that] by (simp add: qp_ptrs_ok_def ptr_ok_def)
  ultimately have "objs_core ctx"
    using base qps(1) by (simp add: objs_core_def refs_ok_def mr_wf_def)
  moreover have "gsi_ok ctx" using g qps(2) by (fastforce simp: gsi_ok_def gsi_apart_def)
  ultimately show ?thesis by (simp add: objs_ok_def)
qed

lemma gsi_same: "gsi c = g \<Longrightarrow> c\<lparr>gsi := g\<rparr> = c"
  by (drule sym) simp

lemma special_qps_cases:
  assumes wf: "res_wf (qp_res ctx)" and e: "qp_map ctx = Map.empty" and g: "gsi ctx = Sp_null"
    and run: "roce_alloc_special_qps ctx a b = Inr (ret, ctx')"
  shows "\<exists>rs s s'. ctx' = ctx\<lparr>qp_res := rs, smi := s, gsi := s'\<rparr> \<and> res_wf rs \<and> s' \<in> {Sp_null, Sp_res, Sp_freed} \<and>
    (s' = Sp_res \<longrightarrow> res_map rs GSI_QPN \<noteq> None) \<and> (\<forall>k q. res_map rs k = Some q \<longrightarrow> qp_type q = ROCE_QPT_MAX \<and>
      qp_pd q = null_handle \<and> qp_scq q = null_handle \<and> qp_rcq q = null_handle)"
proof (cases a)
  case False
  then have "ctx' = ctx\<lparr>qp_res := qp_res ctx, smi := Sp_null, gsi := Sp_null\<rparr>"
    using run g by (auto simp: roce_alloc_special_qps_def gsi_same)
  then show ?thesis using wf e by (intro exI conjI) (assumption, auto)
next
  case True
  let ?zero = "roce_qp_zero" and ?unused = "roce_qp_zero\<lparr>qp_type := ROCE_QPT_MAX\<rparr>"
  obtain r1 rs1 where s1: "roce_resource_alloc_at (qp_res ctx) (Some ?zero) SMI_QPN = Inr (r1, rs1)" "res_wf rs1"
    "(r1 < 0 \<and> rs1 = qp_res ctx) \<or> (\<not> r1 < 0 \<and> res_map rs1 = [SMI_QPN \<mapsto> ?zero])"
    using res_alloc_at_map[OF wf, of ?zero SMI_QPN] e by (auto simp: roce_qp_zero_def split: if_splits)
  show ?thesis
  proof (cases "r1 < 0")
    case True
    then have "ctx' = ctx\<lparr>qp_res := qp_res ctx, smi := Sp_freed, gsi := Sp_null\<rparr>"
      using run s1 \<open>a\<close> g by (auto simp: roce_alloc_special_qps_def Let_def gsi_same)
    then show ?thesis using wf e by (intro exI conjI) (assumption, auto)
  next
    case r1: False
    then have m1: "res_map rs1 = [SMI_QPN \<mapsto> ?zero]" using s1(3) by auto
    have free: "\<exists>rs. roce_resource_free rs1 SMI_QPN = Inr (0, rs) \<and> res_wf rs \<and> res_map rs = Map.empty"
      using res_free_map[OF s1(2), of SMI_QPN ?zero] m1 by auto
    obtain r2 rs2 where s2: "roce_resource_alloc_at rs1 (Some (?zero\<lparr>handle := GSI_QPN\<rparr>)) GSI_QPN = Inr (r2, rs2)" "res_wf rs2"
      "(r2 < 0 \<and> rs2 = rs1) \<or> (\<not> r2 < 0 \<and> res_map rs2 = (res_map rs1)(GSI_QPN \<mapsto> ?zero\<lparr>handle := GSI_QPN\<rparr>))"
      using res_alloc_at_map[OF s1(2), of "?zero\<lparr>handle := GSI_QPN\<rparr>" GSI_QPN] m1 by (auto split: if_splits)
    show ?thesis
    proof (cases "b \<and> \<not> r2 < 0")
      case False
      obtain rs where "res_wf rs" "res_map rs = Map.empty"
        "ctx' = ctx\<lparr>qp_res := rs, smi := Sp_freed, gsi := (if b then Sp_freed else Sp_null)\<rparr>"
        using False free run s1(1) s2(1,3) r1 \<open>a\<close> by (auto simp: roce_alloc_special_qps_def Let_def split: if_splits)
      then show ?thesis by (intro exI conjI) (assumption, auto)
    next
      case True
      let ?rs = "res_update (res_update rs2 SMI_QPN ?unused) GSI_QPN (?unused\<lparr>handle := GSI_QPN\<rparr>)"
      have m2: "res_map rs2 = [SMI_QPN \<mapsto> ?zero, GSI_QPN \<mapsto> ?zero\<lparr>handle := GSI_QPN\<rparr>]" using True s2(3) m1 by auto
      have z: "handle ?zero = 0" by (simp add: roce_qp_zero_def)
      have u1: "res_wf (res_update rs2 SMI_QPN ?unused)"
        "res_map (res_update rs2 SMI_QPN ?unused) = [SMI_QPN \<mapsto> ?unused, GSI_QPN \<mapsto> ?zero\<lparr>handle := GSI_QPN\<rparr>]"
        using res_update_wf[OF s2(2), of SMI_QPN ?zero ?unused] m2 z by (auto simp: fun_upd_twist)
      have u2: "res_wf ?rs" "res_map ?rs = [SMI_QPN \<mapsto> ?unused, GSI_QPN \<mapsto> ?unused\<lparr>handle := GSI_QPN\<rparr>]"
        using res_update_wf[OF u1(1), of GSI_QPN "?zero\<lparr>handle := GSI_QPN\<rparr>" "?unused\<lparr>handle := GSI_QPN\<rparr>"] u1(2) by auto
      have "ctx' = ctx\<lparr>qp_res := ?rs, smi := Sp_res, gsi := Sp_res\<rparr>"
        using True run s1(1) s2(1) r1 \<open>a\<close> by (auto simp: roce_alloc_special_qps_def Let_def)
      then show ?thesis using u2 by (intro exI conjI) (assumption, auto simp: roce_qp_zero_def split: if_splits)
    qed
  qed
qed

lemma new_ctx_zero: "roce_new_ctx para mem_ok = Some ctx \<Longrightarrow> ctx = roce_ctx_zero (para_page_size para)"
  by (auto simp: roce_new_ctx_def Let_def split: if_splits)

lemma objs_ok_init:
  assumes new: "roce_new_ctx para mem_ok = Some ctx" and run: "roce_init_device ctx attr r a b = Inr (0, ctx')"
  shows "objs_ok ctx'"
proof -
  have z: "pd_res ctx = no_table" "cq_res ctx = no_table" "mr_res ctx = no_table" "qp_res ctx = no_table" "ah_res ctx = no_table"
    "gsi ctx = Sp_null"
    using new_ctx_zero[OF new] by (simp_all add: roce_ctx_zero_def)
  obtain ctx1 x ctx2 where t: "init_tables ctx attr r = (True, ctx1)" "roce_alloc_special_qps ctx1 a b = Inr (x, ctx2)"
    "ctx' = ctx2\<lparr>dev_attr := attr\<lparr>device_cap_flags := ROCE_DEVICE_BAD_PKEY_CNTR OR ROCE_DEVICE_BAD_QKEY_CNTR\<rparr>\<rparr>"
    using run by (auto simp: roce_init_device_def Let_def bindR_eq_Inr split: if_splits prod.splits)
  obtain pds cqs mrs qps ahs where i: "ctx1 = ctx\<lparr>pd_res := pds, cq_res := cqs, mr_res := mrs, qp_res := qps, ah_res := ahs\<rparr>"
    "res_wf pds" "res_wf cqs" "res_wf mrs" "res_wf qps" "res_wf ahs" "res_map pds = Map.empty"
    "res_map cqs = Map.empty" "res_map mrs = Map.empty" "res_map qps = Map.empty" "res_map ahs = Map.empty"
    using init_tables_ok[OF z(1-5) t(1)] by blast
  have q: "res_wf (qp_res ctx1)" "qp_map ctx1 = Map.empty" "gsi ctx1 = Sp_null" using i z by simp_all
  obtain rs s s' where sp: "ctx2 = ctx1\<lparr>qp_res := rs, smi := s, gsi := s'\<rparr>" "res_wf rs" "s' \<in> {Sp_null, Sp_res, Sp_freed}"
    "s' = Sp_res \<longrightarrow> res_map rs GSI_QPN \<noteq> None"
    "\<And>k q. res_map rs k = Some q \<Longrightarrow> qp_type q = ROCE_QPT_MAX \<and> qp_pd q = null_handle \<and> qp_scq q = null_handle \<and> qp_rcq q = null_handle"
    using special_qps_cases[OF q t(2)] by blast
  show ?thesis unfolding t(3) sp(1) i(1) by (rule objs_ok_unused) (use i sp in auto)
qed

subsection \<open>The calls\<close>

text \<open>
  A context as a client of the library has it: from a successful start, by any calls that return. A
  request may only be posted while the counts of the regions have room for its pieces; they are counters
  of 32 bits that the code does not check.
\<close>

inductive ctx_reach :: "roce_ctx \<Rightarrow> bool" where
  start: "roce_new_ctx para mem_ok = Some ctx \<Longrightarrow> roce_init_device ctx attr r a b = Inr (0, ctx') \<Longrightarrow> ctx_reach ctx'"
| init_port: "ctx_reach ctx \<Longrightarrow> roce_init_port ctx port pa = Inr (ret, pa', ctx') \<Longrightarrow> ctx_reach ctx'"
| port_mac: "ctx_reach ctx \<Longrightarrow> roce_set_port_mac ctx port mac = Inr (ret, ctx') \<Longrightarrow> ctx_reach ctx'"
| port_vnet: "ctx_reach ctx \<Longrightarrow> roce_set_port_vnet ctx port vnet = Inr (ret, ctx') \<Longrightarrow> ctx_reach ctx'"
| add_gid: "ctx_reach ctx \<Longrightarrow> roce_add_gid ctx port index gid = Inr (ret, ctx') \<Longrightarrow> ctx_reach ctx'"
| del_gid: "ctx_reach ctx \<Longrightarrow> roce_del_gid ctx port index = Inr (ret, ctx') \<Longrightarrow> ctx_reach ctx'"
| alloc_pd: "ctx_reach ctx \<Longrightarrow> roce_alloc_pd ctx c mem_ok = Inr (ret, ctx') \<Longrightarrow> ctx_reach ctx'"
| dealloc_pd: "ctx_reach ctx \<Longrightarrow> roce_dealloc_pd ctx h = Inr (ret, ctx') \<Longrightarrow> ctx_reach ctx'"
| create_cq: "ctx_reach ctx \<Longrightarrow> roce_create_cq ctx cqe v c mem_ok = Inr (ret, ctx') \<Longrightarrow> ctx_reach ctx'"
| destroy_cq: "ctx_reach ctx \<Longrightarrow> roce_destroy_cq ctx h = Inr (ret, ctx') \<Longrightarrow> ctx_reach ctx'"
| create_ah: "ctx_reach ctx \<Longrightarrow> roce_create_ah ctx h aa c mem_ok = Inr (ret, ctx') \<Longrightarrow> ctx_reach ctx'"
| destroy_ah: "ctx_reach ctx \<Longrightarrow> roce_destroy_ah ctx h = Inr (ret, ctx') \<Longrightarrow> ctx_reach ctx'"
| create_mr: "ctx_reach ctx \<Longrightarrow> roce_create_mr ctx h ma mem_ok = Inr (ret, ctx') \<Longrightarrow> ctx_reach ctx'"
| destroy_mr: "ctx_reach ctx \<Longrightarrow> roce_destroy_mr ctx h = Inr (ret, ctx') \<Longrightarrow> ctx_reach ctx'"
| create_qp: "ctx_reach ctx \<Longrightarrow> roce_create_qp ctx h s rc qa mem_ok = Inr (ret, ctx') \<Longrightarrow> ctx_reach ctx'"
| destroy_qp: "ctx_reach ctx \<Longrightarrow> roce_destroy_qp ctx h = Inr (ret, ctx') \<Longrightarrow> ctx_reach ctx'"
| modify_qp: "ctx_reach ctx \<Longrightarrow> roce_modify_qp ctx h qa am = Inr (ret, ctx') \<Longrightarrow> ctx_reach ctx'"
| query_qp: "ctx_reach ctx \<Longrightarrow> roce_query_qp ctx h am = Inr (ret, qo, ctx') \<Longrightarrow> ctx_reach ctx'"
| post_recv: "ctx_reach ctx \<Longrightarrow> mrs_room ctx (rwr_sge (rwr rw)) \<Longrightarrow> roce_post_recv ctx h rw = Inr (ret, ctx') \<Longrightarrow>
    ctx_reach ctx'"
| post_send: "ctx_reach ctx \<Longrightarrow> mrs_room ctx (wr_sge (swr w)) \<Longrightarrow> roce_post_send env ctx h w n = Inr (ret, ctx', evs) \<Longrightarrow>
    ctx_reach ctx'"
| net_recv: "ctx_reach ctx \<Longrightarrow> roce_net_recv env ctx iovs ip0 ihl0 ip_addr mem_ok = Inr (ret, mm, ctx', evs) \<Longrightarrow>
    ctx_reach ctx'"

text \<open>Ports hold no pointers.\<close>

lemma objs_ok_port:
  assumes ok: "objs_ok ctx"
  shows "objs_ok (port_set ctx port p)"
proof -
  have "refs_ok e (port_set ctx port p) = refs_ok e ctx" for e
    by (simp add: port_set_def refs_ok_def pd_users_def mr_wf_def)
  then have "refs_ok (qp_pds ctx) (port_set ctx port p)" using ok by (simp add: objs_ok_def objs_core_def)
  moreover have "obj_frame ctx (port_set ctx port p)" by (simp add: obj_frame_def port_set_def)
  ultimately show ?thesis by (rule objs_ok_obj_frame[OF ok])
qed

lemma objs_ok_port_calls:
  assumes "objs_ok ctx"
  shows "roce_init_port ctx port pa = Inr (ret, pa', ctx') \<Longrightarrow> objs_ok ctx'"
    "roce_set_port_mac ctx port mac = Inr (ret, ctx') \<Longrightarrow> objs_ok ctx'"
    "roce_set_port_vnet ctx port vnet = Inr (ret, ctx') \<Longrightarrow> objs_ok ctx'"
    "roce_add_gid ctx port index gid = Inr (ret, ctx') \<Longrightarrow> objs_ok ctx'"
    "roce_del_gid ctx port index = Inr (ret, ctx') \<Longrightarrow> objs_ok ctx'"
  using assms objs_ok_port[OF assms]
  by (auto simp: roce_init_port_def roce_set_port_mac_def roce_set_port_vnet_def roce_add_gid_def roce_del_gid_def
      Let_def bindR_eq_Inr split: if_splits)

lemma reach_objs_ok: "ctx_reach ctx \<Longrightarrow> objs_ok ctx"
proof (induction rule: ctx_reach.induct)
  case start then show ?case by (rule objs_ok_init)
qed (blast dest: objs_ok_port_calls objs_ok_alloc_pd objs_ok_dealloc_pd objs_ok_create_cq objs_ok_destroy_cq objs_ok_ah
    objs_ok_create_mr objs_ok_destroy_mr objs_ok_create_qp objs_ok_destroy_qp objs_ok_modify_qp objs_ok_query_qp
    objs_ok_post_recv objs_ok_post_send objs_ok_net_recv)+

subsection \<open>What holds in every context\<close>

lemma reach_counts:
  assumes "ctx_reach ctx"
  shows "pd_map ctx h = Some p \<Longrightarrow> unat (ref p) = holders (ah_map ctx) (\<lambda>a. ah_pd a = h) +
      holders (mr_map ctx) (\<lambda>m. mr_pd m = h) + holders (qp_map ctx) (\<lambda>q. qp_pd q = h)"
    "cq_map ctx h = Some c \<Longrightarrow> unat (ref c) = holders (qp_map ctx) (\<lambda>q. qp_scq q = h) + holders (qp_map ctx) (\<lambda>q. qp_rcq q = h)"
    "qp_map ctx k = Some q \<Longrightarrow> qp_type q \<noteq> ROCE_QPT_MAX \<Longrightarrow> pd_map ctx (qp_pd q) \<noteq> None \<and> cq_map ctx (qp_scq q) \<noteq> None \<and>
      (qp_rcq q = null_handle \<or> cq_map ctx (qp_rcq q) \<noteq> None)"
proof -
  have core: "objs_core ctx" using reach_objs_ok[OF assms] by (simp add: objs_ok_def)
  note c = objs_coreD[OF core]
  show "unat (ref p) = holders (ah_map ctx) (\<lambda>a. ah_pd a = h) + holders (mr_map ctx) (\<lambda>m. mr_pd m = h) +
      holders (qp_map ctx) (\<lambda>q. qp_pd q = h)" if t: "pd_map ctx h = Some p"
  proof -
    have "h \<noteq> null_handle" using null_no_handle[OF c(5)] t by auto
    then show ?thesis using refs_okD(8)[OF c(1) t] by (simp add: pd_users_def qp_pds_def)
  qed
  show "unat (ref c) = holders (qp_map ctx) (\<lambda>q. qp_scq q = h) + holders (qp_map ctx) (\<lambda>q. qp_rcq q = h)"
    if "cq_map ctx h = Some c" using c(4)[OF that] by (simp add: qp_cqs_def)
  show "pd_map ctx (qp_pd q) \<noteq> None \<and> cq_map ctx (qp_scq q) \<noteq> None \<and> (qp_rcq q = null_handle \<or> cq_map ctx (qp_rcq q) \<noteq> None)"
    if "qp_map ctx k = Some q" "qp_type q \<noteq> ROCE_QPT_MAX"
    using c(3)[OF that(1)] that(2) by (auto simp: qp_ptrs_ok_def ptr_ok_def)
qed

text \<open>The frees at the end of \<open>roce_destroy_qp\<close> always return.\<close>

lemma put_mrs_total: "refs_ok extra ctx \<Longrightarrow> \<exists>ctx'. roce_put_mrs ctx sges = Inr ctx' \<and> refs_ok extra ctx'"
proof -
  have "refs_ok extra ctx \<Longrightarrow> \<exists>ctx'. release roce_put_mr hs ctx = Inr ctx' \<and> refs_ok extra ctx'" for hs ctx
  proof (induction hs arbitrary: ctx)
    case (Cons h hs)
    then show ?case using refs_ok_put_mr[OF Cons.prems, of h] by fastforce
  qed simp
  then show "refs_ok extra ctx \<Longrightarrow> \<exists>ctx'. roce_put_mrs ctx sges = Inr ctx' \<and> refs_ok extra ctx'"
    by (simp add: roce_put_mrs_def)
qed

lemma free_wrs_total:
  "refs_ok extra ctx \<Longrightarrow> \<exists>ctx'. free_send_wrs ctx ws = Inr ctx' \<and> refs_ok extra ctx'"
  "refs_ok extra ctx \<Longrightarrow> \<exists>ctx'. free_recv_wrs ctx xs = Inr ctx' \<and> refs_ok extra ctx'"
proof -
  show "refs_ok extra ctx \<Longrightarrow> \<exists>ctx'. free_send_wrs ctx ws = Inr ctx' \<and> refs_ok extra ctx'"
  proof (induction ws arbitrary: ctx)
    case (Cons w ws)
    obtain c where "roce_free_send_wr ctx w = Inr c" "refs_ok extra c"
      using put_mrs_total[OF Cons.prems, of "wr_sge (swr w)"] Cons.prems
      by (cases "swr_mapped w") (auto simp: roce_free_send_wr_def)
    then show ?case using Cons.IH by simp
  qed simp
  show "refs_ok extra ctx \<Longrightarrow> \<exists>ctx'. free_recv_wrs ctx xs = Inr ctx' \<and> refs_ok extra ctx'"
  proof (induction xs arbitrary: ctx)
    case (Cons w ws)
    obtain c where "roce_free_recv_wr ctx w = Inr c" "refs_ok extra c"
      using put_mrs_total[OF Cons.prems, of "rwr_sge (rwr w)"] by (auto simp: roce_free_recv_wr_def)
    then show ?case using Cons.IH by simp
  qed simp
qed

lemma destroy_qp_total:
  assumes ok: "objs_ok ctx" and q: "qp_map ctx h = Some q"
    and nn: "qp_pd q \<noteq> null_handle" "qp_scq q \<noteq> null_handle" "qp_rcq q \<noteq> null_handle"
  shows "\<exists>ctx'. roce_destroy_qp ctx h = Inr (0, ctx') \<and> qp_map ctx' = (qp_map ctx)(h := None)"
proof -
  have core: "objs_core ctx" using ok by (simp add: objs_ok_def)
  obtain rs where rs: "res_wf rs" "res_map rs = (qp_map ctx)(h := None)"
    and e: "roce_destroy_qp ctx h = bindR (free_send_wrs (qp_released ctx h q rs) (sq_wrs q)) (\<lambda>c1. bindR (free_recv_wrs c1 (rq_wrs q)) (\<lambda>c2.
      Inr (0, if qp_type q = ROCE_QPT_GSI then c2\<lparr>gsi := Sp_heap (roce_qp_zero\<lparr>qp_type := ROCE_QPT_MAX\<rparr>)\<rparr> else c2)))"
    using destroy_qp_run[OF core q nn] by blast
  let ?rel = "qp_released ctx h q rs"
  have r: "refs_ok (qp_pds ?rel) ?rel" using objs_coreD(1)[OF objs_core_released[OF core q nn(1) rs]] .
  obtain c1 where c1: "free_send_wrs ?rel (sq_wrs q) = Inr c1" "refs_ok (qp_pds ?rel) c1" using free_wrs_total(1)[OF r] by blast
  obtain c2 where c2: "free_recv_wrs c1 (rq_wrs q) = Inr c2" using free_wrs_total(2)[OF c1(2)] by blast
  have "mr_frame ?rel c2" using free_wr_frame(3)[OF c1(1)] free_wr_frame(4)[OF c2] by (rule mr_frame_trans)
  then have "qp_map c2 = (qp_map ctx)(h := None)" using rs(2) by (auto simp: mr_frame_def qp_released_def)
  then show ?thesis using e c1(1) c2 by simp
qed

lemma destroy_qp_null:
  assumes ok: "objs_ok ctx" and q: "qp_map ctx h = Some q" and nn: "qp_pd q \<noteq> null_handle" "qp_scq q \<noteq> null_handle"
    and null: "qp_rcq q = null_handle"
  shows "roce_destroy_qp ctx h = Inl Null_deref"
proof -
  have core: "objs_core ctx" using ok by (simp add: objs_ok_def)
  note c = objs_coreD[OF core]
  have live: "pd_map ctx (qp_pd q) \<noteq> None" "cq_map ctx (qp_scq q) \<noteq> None"
    using c(3)[OF q] nn by (auto simp: qp_ptrs_ok_def ptr_ok_def)
  then show ?thesis
    using q nn null c(5,6) by (simp add: roce_destroy_qp_def get_qp_tab[OF c(2)] handle_of_def get_obj_tab(3,4) del: not_None_eq)
qed

lemma create_then_destroy:
  assumes reach: "ctx_reach ctx" and run: "roce_create_qp ctx pdh s r a mem_ok = Inr (ret, ctx')" and ret: "0 \<le> ret"
    and ty: "qa_type a \<noteq> ROCE_QPT_GSI"
  shows "cq_map ctx r = None \<Longrightarrow> roce_destroy_qp ctx' (word_of_int ret) = Inl Null_deref"
    and "cq_map ctx r \<noteq> None \<Longrightarrow> \<exists>qps. roce_destroy_qp ctx' (word_of_int ret) = Inr (0, ctx\<lparr>qp_res := qps\<rparr>) \<and>
      res_map qps = qp_map ctx"
proof -
  have ok: "objs_ok ctx" "objs_ok ctx'" using reach_objs_ok[OF reach] objs_ok_create_qp[OF _ run] by simp_all
  then have core: "objs_core ctx" and ga: "gsi_apart ctx" by (simp_all add: objs_ok_def gsi_ok_def)
  note c = objs_coreD[OF core]
  obtain k rs mtu q0 where k: "ret = uint k" "slot_free ctx (qa_type a) k" "pd_map ctx pdh \<noteq> None" "cq_map ctx s \<noteq> None"
    "ctx' = (qp_taken ctx pdh s r)\<lparr>qp_res := rs\<rparr>" "res_wf rs"
    "res_map rs = (qp_map ctx)(k \<mapsto> qp_init a pdh s (if cq_map ctx r = None then null_handle else r) mtu q0 k)"
    using create_qp_cases[OF c(5,6,2) ga run] ret by auto
  let ?q = "qp_init a pdh s (if cq_map ctx r = None then null_handle else r) mtu q0 k"
  have q: "qp_map ctx' k = Some ?q" using k(5,7) by simp
  have fresh: "qp_map ctx k = None" using k(2) ty by (simp add: slot_free_def)
  have h: "word_of_int ret = k" using k(1) by simp
  have nn: "pdh \<noteq> null_handle" "s \<noteq> null_handle" using k(3,4) null_no_handle[OF c(5)] null_no_handle[OF c(6)] by auto
  show "roce_destroy_qp ctx' (word_of_int ret) = Inl Null_deref" if "cq_map ctx r = None"
    using destroy_qp_null[OF ok(2) q] that nn h by (simp add: qp_init_def)
  show "\<exists>qps. roce_destroy_qp ctx' (word_of_int ret) = Inr (0, ctx\<lparr>qp_res := qps\<rparr>) \<and> res_map qps = qp_map ctx"
    if rc: "cq_map ctx r \<noteq> None"
  proof -
    have r: "r \<noteq> null_handle" using rc null_no_handle[OF c(6)] by auto
    have "objs_core ctx'" using ok(2) by (simp add: objs_ok_def)
    then obtain qps where qps: "res_wf qps" "res_map qps = (qp_map ctx')(k := None)"
      and e: "roce_destroy_qp ctx' k = bindR (free_send_wrs (qp_released ctx' k ?q qps) (sq_wrs ?q)) (\<lambda>c1. bindR (free_recv_wrs c1 (rq_wrs ?q)) (\<lambda>c2.
        Inr (0, if qp_type ?q = ROCE_QPT_GSI then c2\<lparr>gsi := Sp_heap (roce_qp_zero\<lparr>qp_type := ROCE_QPT_MAX\<rparr>)\<rparr> else c2)))"
      using destroy_qp_run[OF _ q] nn r rc by (fastforce simp: qp_init_def)
    have p: "qp_pd ?q = pdh" "qp_scq ?q = s" "qp_rcq ?q = r" "sq_wrs ?q = []" "rq_wrs ?q = []" "qp_type ?q = qa_type a"
      using rc by (simp_all add: qp_init_def del: not_None_eq)
    have "qp_released ctx' k ?q qps = ctx\<lparr>qp_res := qps\<rparr>"
      using k(5) tab_dec_inc[OF c(5), of pdh] tab_undo_two[OF c(6), of s r] by (simp add: qp_released_def qp_taken_def p)
    then have "roce_destroy_qp ctx' k = Inr (0, ctx\<lparr>qp_res := qps\<rparr>)" using e ty p by simp
    moreover have "res_map qps = qp_map ctx" using qps(2) k(5,7) fresh by (auto simp: fun_eq_iff)
    ultimately show ?thesis using h by blast
  qed
qed

lemma create_qp_succeeds:
  assumes reach: "ctx_reach ctx" and port: "port_at ctx 1 = Inr port" and ty: "qa_type a \<in> {ROCE_QPT_RC, ROCE_QPT_UD}"
    and cap: "roce_verify_qp_cap ctx (qa_cap a) = 0" and pd: "pd_map ctx pdh \<noteq> None" and cq: "cq_map ctx s \<noteq> None"
    and slot: "k < res_size (qp_res ctx)" "qp_map ctx k = None"
  shows "\<exists>ret ctx'. roce_create_qp ctx pdh s r a True = Inr (ret, ctx') \<and> 0 \<le> ret"
proof -
  have "objs_core ctx" using reach_objs_ok[OF reach] by (simp add: objs_ok_def)
  note c = objs_coreD[OF this]
  obtain p sc where o: "pd_map ctx pdh = Some p" "cq_map ctx s = Some sc" using pd cq by auto
  have port': "port_at ((qp_taken ctx pdh s r) :: roce_ctx) 1 = Inr port"
    using port by (simp add: port_at_def qp_taken_def split: if_splits)
  have "\<exists>ret ctx'. create_qp_install (qp_taken ctx pdh s r) p' s' rc a True = Inr (ret, ctx') \<and> 0 \<le> ret" for p' s' rc
  proof -
    let ?init = "qp_init a (handle p') (handle s') (ptr_handle rc) (active_mtu (port_attr port)) roce_qp_zero"
    obtain ret rs where "res_install (qp_res ctx) roce_qp_zero ?init = Inr (ret, rs)" "0 \<le> ret"
      using res_install_cases[OF c(2), of ?init roce_qp_zero] slot by (auto simp: qp_init_def)
    then show ?thesis using port' ty by (auto simp: create_qp_install_def Let_def qp_taken_def)
  qed
  then show ?thesis
    using ty cap o c(5,6) tab_inc_map[OF c(6), of s] by (auto simp: roce_create_qp_def get_obj_tab qp_taken_def)
qed

lemma held_pd_busy:
  assumes ok: "refs_ok extra ctx"
    and held: "(\<exists>k x. ah_map ctx k = Some x \<and> ah_pd x = h) \<or> (\<exists>k m. mr_map ctx k = Some m \<and> mr_pd m = h)"
  shows "roce_dealloc_pd ctx h = Inr (- EBUSY, ctx)"
proof -
  have "pd_map ctx h \<noteq> None" using held refs_okD(6,7)[OF ok] by blast
  moreover have "0 < pd_users ctx h"
    using held holders_pos[where m = "ah_map ctx" and P = "\<lambda>a. ah_pd a = h"]
      holders_pos[where m = "mr_map ctx" and P = "\<lambda>m. mr_pd m = h"]
    unfolding pd_users_def by (metis add_gr_0)
  ultimately show ?thesis using refs_ok_dealloc_pd[OF ok, of h] by auto
qed

subsection \<open>A small device with one connected QP\<close>

definition live_para :: roce_ctx_para where
  "live_para = \<lparr>para_version = ROCE_V2, para_page_size = 4096, para_net_xmit = True, para_cq_comp = True,
     para_dma_map = True, para_dma_unmap = True, para_malloc = False, para_free = False, para_calloc = False,
     para_realloc = False, para_lock_size = 0, para_spin_init = False, para_spin_lock = False,
     para_spin_trylock = False, para_spin_unlock = False\<rparr>"

definition live_attr :: roce_device_attr where
  "live_attr = roce_attr_zero\<lparr>max_mr_size := 4096, max_qp := 3, max_qp_wr := 4, max_sge := 2, max_cq := 1, max_cqe := 8,
     max_mr := 1, max_pd := 1, max_ah := 1, max_inline_data := 64, max_pkeys := 1, phys_port_cnt := 1\<rparr>"

definition live_ctx :: roce_ctx where
  "live_ctx = (roce_ctx_zero 4096)\<lparr>dev_attr := live_attr\<lparr>device_cap_flags := 3\<rparr>,
     pd_res := \<lparr>res_size = 1, res_addr = Some [None]\<rparr>, cq_res := \<lparr>res_size = 1, res_addr = Some [None]\<rparr>,
     mr_res := \<lparr>res_size = 1, res_addr = Some [None]\<rparr>, ah_res := \<lparr>res_size = 1, res_addr = Some [None]\<rparr>,
     qp_res := \<lparr>res_size = 3, res_addr = Some [Some (roce_qp_zero\<lparr>qp_type := ROCE_QPT_MAX\<rparr>),
       Some (roce_qp_zero\<lparr>handle := 1, qp_type := ROCE_QPT_MAX\<rparr>), None]\<rparr>, smi := Sp_res, gsi := Sp_res\<rparr>"

lemma live_tables:
  "init_tables (roce_ctx_zero 4096) live_attr (\<lambda>_. (0, True)) = (True, (roce_ctx_zero 4096)\<lparr>
     pd_res := \<lparr>res_size = 1, res_addr = Some [None]\<rparr>, cq_res := \<lparr>res_size = 1, res_addr = Some [None]\<rparr>,
     mr_res := \<lparr>res_size = 1, res_addr = Some [None]\<rparr>, ah_res := \<lparr>res_size = 1, res_addr = Some [None]\<rparr>,
     qp_res := \<lparr>res_size = 3, res_addr = Some [None, None, None]\<rparr>\<rparr>)"
  by (simp add: init_tables_def init_table_def roce_resource_init_def ROCE_MAX_GENERAL_def live_attr_def roce_attr_zero_def
      roce_ctx_zero_def no_table_def) (simp add: numeral_3_eq_3)

lemma live_ctx_start:
  "roce_new_ctx live_para True = Some (roce_ctx_zero 4096)"
  "roce_init_device (roce_ctx_zero 4096) live_attr (\<lambda>_. (0, True)) True True = Inr (0, live_ctx)"
proof -
  show "roce_new_ctx live_para True = Some (roce_ctx_zero 4096)"
    by (simp add: roce_new_ctx_def live_para_def given_def roce_power_of_2_def)
  have "live_attr\<lparr>device_cap_flags := ROCE_DEVICE_BAD_PKEY_CNTR OR ROCE_DEVICE_BAD_QKEY_CNTR\<rparr> = live_attr\<lparr>device_cap_flags := 3\<rparr>"
    by (simp add: ROCE_DEVICE_BAD_PKEY_CNTR_def ROCE_DEVICE_BAD_QKEY_CNTR_def)
  moreover have "\<not> (3 :: u32) \<le> 1" by (simp add: word_le_nat_alt)
  moreover have "max_mr_size live_attr = 4096" "max_sge live_attr = 2" "max_inline_data live_attr = 64" "max_pkeys live_attr = 1"
    "phys_port_cnt live_attr = 1" "page_size (roce_ctx_zero 4096) = 4096" by (simp_all add: live_attr_def roce_ctx_zero_def)
  ultimately show "roce_init_device (roce_ctx_zero 4096) live_attr (\<lambda>_. (0, True)) True True = Inr (0, live_ctx)"
    by (simp add: roce_init_device_def live_tables roce_power_of_2_def roce_alloc_special_qps_def roce_resource_alloc_at_def
        addr_read_def addr_write_def res_update_def live_ctx_def roce_qp_zero_def)
qed

definition live_args :: roce_qp_args where
  "live_args = \<lparr>qa_type = ROCE_QPT_RC, qa_cap = \<lparr>max_send_wr = 4, max_recv_wr = 4, max_send_sge = 1, max_recv_sge = 1,
     cap_max_inline_data = 16\<rparr>, qa_flags = 1, qa_ctx = 5, qa_rnd_rq = 17, qa_rnd_sq = 23\<rparr>"

definition live_objs :: "u32 \<Rightarrow> u32 \<Rightarrow> roce_qp option \<Rightarrow> roce_ctx" where
  "live_objs p c q = live_ctx\<lparr>pd_res := \<lparr>res_size = 1, res_addr = Some [Some \<lparr>handle = 0, ref = p, pd_ctx = 7\<rparr>]\<rparr>,
     cq_res := \<lparr>res_size = 1, res_addr = Some [Some \<lparr>handle = 0, ref = c, cq_cqe = 4, cq_comp_vector = 0, cq_ctx = 9\<rparr>]\<rparr>,
     qp_res := \<lparr>res_size = 3, res_addr = Some [Some (roce_qp_zero\<lparr>qp_type := ROCE_QPT_MAX\<rparr>),
       Some (roce_qp_zero\<lparr>handle := 1, qp_type := ROCE_QPT_MAX\<rparr>), q]\<rparr>\<rparr>"

definition live_qp :: "u32 \<Rightarrow> roce_qp" where
  "live_qp r = qp_init live_args 0 0 r 0 roce_qp_zero 2"

lemma live_pd_cq:
  "roce_alloc_pd live_ctx 7 True = Inr (0, live_ctx\<lparr>pd_res := \<lparr>res_size = 1, res_addr = Some [Some \<lparr>handle = 0, ref = 0, pd_ctx = 7\<rparr>]\<rparr>\<rparr>)"
  "roce_create_cq (live_ctx\<lparr>pd_res := \<lparr>res_size = 1, res_addr = Some [Some \<lparr>handle = 0, ref = 0, pd_ctx = 7\<rparr>]\<rparr>\<rparr>) 4 0 9 True =
     Inr (0, live_objs 0 0 None)"
proof -
  have a: "max_cqe (dev_attr live_ctx) = 8" "cq_res live_ctx = \<lparr>res_size = 1, res_addr = Some [None]\<rparr>"
    "pd_res live_ctx = \<lparr>res_size = 1, res_addr = Some [None]\<rparr>"
    "qp_res live_ctx = \<lparr>res_size = 3, res_addr = Some [Some (roce_qp_zero\<lparr>qp_type := ROCE_QPT_MAX\<rparr>),
       Some (roce_qp_zero\<lparr>handle := 1, qp_type := ROCE_QPT_MAX\<rparr>), None]\<rparr>"
    by (simp_all add: live_ctx_def live_attr_def)
  show "roce_alloc_pd live_ctx 7 True = Inr (0, live_ctx\<lparr>pd_res := \<lparr>res_size = 1, res_addr = Some [Some \<lparr>handle = 0, ref = 0, pd_ctx = 7\<rparr>]\<rparr>\<rparr>)"
    by (simp add: roce_alloc_pd_def res_install_def roce_resource_alloc_def addr_read_def addr_write_def res_update_def
        roce_pd_zero_def a alloc_loop.simps)
  show "roce_create_cq (live_ctx\<lparr>pd_res := \<lparr>res_size = 1, res_addr = Some [Some \<lparr>handle = 0, ref = 0, pd_ctx = 7\<rparr>]\<rparr>\<rparr>) 4 0 9 True =
     Inr (0, live_objs 0 0 None)"
    by (simp add: roce_create_cq_def res_install_def roce_resource_alloc_def addr_read_def addr_write_def res_update_def
        roce_cq_zero_def a alloc_loop.simps live_objs_def)
qed

lemma live_parts:
  "pd_res (live_objs p c q) = \<lparr>res_size = 1, res_addr = Some [Some \<lparr>handle = 0, ref = p, pd_ctx = 7\<rparr>]\<rparr>"
  "cq_res (live_objs p c q) = \<lparr>res_size = 1, res_addr = Some [Some \<lparr>handle = 0, ref = c, cq_cqe = 4, cq_comp_vector = 0, cq_ctx = 9\<rparr>]\<rparr>"
  "qp_res (live_objs p c q) = \<lparr>res_size = 3, res_addr = Some [Some (roce_qp_zero\<lparr>qp_type := ROCE_QPT_MAX\<rparr>),
       Some (roce_qp_zero\<lparr>handle := 1, qp_type := ROCE_QPT_MAX\<rparr>), q]\<rparr>"
  "ports (live_objs p c q) = [roce_port_zero]"
  "dev_attr (live_objs p c q) = live_attr\<lparr>device_cap_flags := 3\<rparr>"
  by (simp_all add: live_objs_def live_ctx_def roce_ctx_zero_def)

lemma live_update:
  "(live_objs p c q)\<lparr>pd_res := \<lparr>res_size = 1, res_addr = Some [Some \<lparr>handle = 0, ref = p', pd_ctx = 7\<rparr>]\<rparr>\<rparr> = live_objs p' c q"
  "(live_objs p c q)\<lparr>cq_res := \<lparr>res_size = 1, res_addr = Some [Some \<lparr>handle = 0, ref = c', cq_cqe = 4, cq_comp_vector = 0, cq_ctx = 9\<rparr>]\<rparr>\<rparr>
     = live_objs p c' q"
  "(live_objs p c q)\<lparr>qp_res := \<lparr>res_size = 3, res_addr = Some [Some (roce_qp_zero\<lparr>qp_type := ROCE_QPT_MAX\<rparr>),
       Some (roce_qp_zero\<lparr>handle := 1, qp_type := ROCE_QPT_MAX\<rparr>), q']\<rparr>\<rparr> = live_objs p c q'"
  by (simp_all add: live_objs_def)

lemma live_gets:
  "roce_get_pd (live_objs p c q) 0 = Inr (Some \<lparr>handle = 0, ref = p + 1, pd_ctx = 7\<rparr>, live_objs (p + 1) c q)"
  "roce_get_cq (live_objs p c q) 0 =
     Inr (Some \<lparr>handle = 0, ref = c + 1, cq_cqe = 4, cq_comp_vector = 0, cq_ctx = 9\<rparr>, live_objs p (c + 1) q)"
  "roce_get_cq (live_objs p c q) 1 = Inr (None, live_objs p c q)"
  using live_update(1)[of "p + 1" p c q] live_update(2)[of "c + 1" p c q] live_update(2)[of c p c q]
  by (simp_all add: roce_get_pd_def roce_get_cq_def res_ref_def roce_resource_get_def addr_read_def addr_write_def
      res_update_def live_parts assertR_def Let_def)

lemma live_install:
  "res_install (qp_res (live_objs p c None)) roce_qp_zero f =
     Inr (2, qp_res (live_objs p c (Some (f 2))))"
  by (simp add: res_install_def roce_resource_alloc_def live_parts addr_read_def addr_write_def res_update_def alloc_loop.simps)

lemma live_create:
  "roce_create_qp (live_objs 0 0 None) 0 0 0 live_args True = Inr (2, live_objs 1 2 (Some (live_qp 0)))"
  "roce_create_qp (live_objs 0 0 None) 0 0 1 live_args True = Inr (2, live_objs 1 1 (Some (live_qp null_handle)))"
proof -
  have cap: "roce_verify_qp_cap (live_objs 0 0 None) (qa_cap live_args) = 0" "qa_type live_args = ROCE_QPT_RC"
    by (simp_all add: roce_verify_qp_cap_def live_parts live_args_def live_attr_def)
  have port: "port_at (live_objs p c q) 1 = Inr roce_port_zero" for p c q by (simp add: port_at_def live_parts)
  have mtu: "active_mtu (port_attr roce_port_zero) = 0" by (simp add: roce_port_zero_def)
  have res: "(live_objs p c None)\<lparr>qp_res := qp_res (live_objs p c (Some q))\<rparr> = live_objs p c (Some q)" for p c q
    by (simp add: live_parts(3) live_update)
  show "roce_create_qp (live_objs 0 0 None) 0 0 0 live_args True = Inr (2, live_objs 1 2 (Some (live_qp 0)))"
    "roce_create_qp (live_objs 0 0 None) 0 0 1 live_args True = Inr (2, live_objs 1 1 (Some (live_qp null_handle)))"
    by (simp_all add: roce_create_qp_def cap live_gets create_qp_install_def port mtu live_install res ptr_handle_def live_qp_def
        del: One_nat_def)
qed

lemma live_reach:
  "ctx_reach (live_objs 0 0 None)" "ctx_reach (live_objs 1 2 (Some (live_qp 0)))" "ctx_reach (live_objs 1 1 (Some (live_qp null_handle)))"
proof -
  show r: "ctx_reach (live_objs 0 0 None)"
    using ctx_reach.create_cq[OF ctx_reach.alloc_pd[OF ctx_reach.start[OF live_ctx_start] live_pd_cq(1)] live_pd_cq(2)] .
  show "ctx_reach (live_objs 1 2 (Some (live_qp 0)))" "ctx_reach (live_objs 1 1 (Some (live_qp null_handle)))"
    using ctx_reach.create_qp[OF r live_create(1)] ctx_reach.create_qp[OF r live_create(2)] .
qed

lemma live_maps:
  "pd_map (live_objs p c q) 0 = Some \<lparr>handle = 0, ref = p, pd_ctx = 7\<rparr>" "cq_map (live_objs p c q) 0 \<noteq> None"
  "cq_map (live_objs p c q) 1 = None" "qp_map (live_objs p c q) 2 = q"
  "qp_type (live_qp r) = ROCE_QPT_RC" "qp_pd (live_qp r) = 0" "qp_scq (live_qp r) = 0" "qp_rcq (live_qp r) = r"
  by (simp_all add: res_map_def live_parts live_qp_def qp_init_def live_args_def)

subsection \<open>Properties\<close>

text \<open>C4: Whatever calls a client makes on a device, creating, using and destroying objects in any order and
  receiving any frames: the reference count of every PD is the number of the address handles, memory
  regions and queue pairs that point to it, that of every CQ is the number of times queue pairs use it to
  send or to receive, and every queue pair in use points to a live PD and a live send CQ; its receive CQ is
  alive unless it was never set.\<close>

theorem ctx_reach_counts:
  assumes "ctx_reach ctx"
  shows "(\<forall>h p. pd_map ctx h = Some p \<longrightarrow> unat (ref p) = holders (ah_map ctx) (\<lambda>a. ah_pd a = h) +
      holders (mr_map ctx) (\<lambda>m. mr_pd m = h) + holders (qp_map ctx) (\<lambda>q. qp_pd q = h)) \<and>
    (\<forall>h c. cq_map ctx h = Some c \<longrightarrow>
      unat (ref c) = holders (qp_map ctx) (\<lambda>q. qp_scq q = h) + holders (qp_map ctx) (\<lambda>q. qp_rcq q = h)) \<and>
    (\<forall>k q. qp_map ctx k = Some q \<and> qp_type q \<noteq> ROCE_QPT_MAX \<longrightarrow> pd_map ctx (qp_pd q) \<noteq> None \<and>
      cq_map ctx (qp_scq q) \<noteq> None \<and> (qp_rcq q = null_handle \<or> cq_map ctx (qp_rcq q) \<noteq> None))"
  using reach_counts[OF assms] by blast

lemma ctx_reach_counts_witness:
  "holders (ah_map (live_objs 1 2 (Some (live_qp 0)))) (\<lambda>a. ah_pd a = 0) +
   holders (mr_map (live_objs 1 2 (Some (live_qp 0)))) (\<lambda>m. mr_pd m = 0) +
   holders (qp_map (live_objs 1 2 (Some (live_qp 0)))) (\<lambda>q. qp_pd q = 0) = 1"
  using conjunct1[OF ctx_reach_counts[OF live_reach(2)]] live_maps(1)[of 1 2 "Some (live_qp 0)"] by fastforce

text \<open>C19: The PD and the CQs of a queue pair in use cannot be destroyed: the calls answer that they are busy
  and change nothing.\<close>

theorem qp_objects_stay:
  assumes reach: "ctx_reach ctx" and q: "qp_map ctx k = Some q" "qp_type q \<noteq> ROCE_QPT_MAX"
  shows "roce_dealloc_pd ctx (qp_pd q) = Inr (- EBUSY, ctx) \<and> roce_destroy_cq ctx (qp_scq q) = Inr (- EBUSY, ctx) \<and>
    (qp_rcq q \<noteq> null_handle \<longrightarrow> roce_destroy_cq ctx (qp_rcq q) = Inr (- EBUSY, ctx))"
proof -
  have core: "objs_core ctx" using reach_objs_ok[OF reach] by (simp add: objs_ok_def)
  note c = objs_coreD[OF core] and live = reach_counts(3)[OF reach q]
  have h: "0 < holders (qp_map ctx) (\<lambda>x. qp_pd x = qp_pd q)" "0 < holders (qp_map ctx) (\<lambda>x. qp_scq x = qp_scq q)"
    "0 < holders (qp_map ctx) (\<lambda>x. qp_rcq x = qp_rcq q)"
    by (rule holders_pos[where k = k and x = q], simp_all add: q)+
  obtain p where p: "pd_map ctx (qp_pd q) = Some p" using live by auto
  then have "ref p \<noteq> 0" using reach_counts(1)[OF reach p] h(1) by auto
  then have pd: "roce_dealloc_pd ctx (qp_pd q) = Inr (- EBUSY, ctx)" using dealloc_pd_cases[OF c(5), of "qp_pd q"] p by simp
  have cq: "roce_destroy_cq ctx k = Inr (- EBUSY, ctx)"
    if t: "cq_map ctx k \<noteq> None" "0 < holders (qp_map ctx) (\<lambda>q. qp_scq q = k) + holders (qp_map ctx) (\<lambda>q. qp_rcq q = k)" for k
  proof -
    obtain x where x: "cq_map ctx k = Some x" using t(1) by auto
    then have "ref x \<noteq> 0" using reach_counts(2)[OF reach x] t(2) by auto
    then show ?thesis using destroy_cq_cases[OF c(6), of k] x by simp
  qed
  show ?thesis using pd cq[of "qp_scq q"] cq[of "qp_rcq q"] live h by auto
qed

lemma qp_objects_stay_witness:
  "roce_dealloc_pd (live_objs 1 2 (Some (live_qp 0))) 0 = Inr (- EBUSY, live_objs 1 2 (Some (live_qp 0)))"
  using qp_objects_stay[OF live_reach(2) live_maps(4)] by (simp add: live_maps)

text \<open>C20: Destroying a queue pair in use always returns with success and takes it out of the table, whatever
  requests it still holds, if it has a receive CQ.\<close>

theorem roce_destroy_qp_returns:
  assumes reach: "ctx_reach ctx" and q: "qp_map ctx h = Some q" "qp_type q \<noteq> ROCE_QPT_MAX" "qp_rcq q \<noteq> null_handle"
  shows "\<exists>ctx'. roce_destroy_qp ctx h = Inr (0, ctx') \<and> qp_map ctx' = (qp_map ctx)(h := None)"
proof -
  have ok: "objs_ok ctx" using reach_objs_ok[OF reach] .
  then have "qp_pd q \<noteq> null_handle" "qp_scq q \<noteq> null_handle" using objs_coreD(3)[OF _ q(1)] q(2)
    by (auto simp: objs_ok_def qp_ptrs_ok_def)
  then show ?thesis using destroy_qp_total[OF ok q(1)] q(3) by blast
qed

lemma roce_destroy_qp_returns_witness:
  "\<exists>ctx'. roce_destroy_qp (live_objs 1 2 (Some (live_qp 0))) 2 = Inr (0, ctx') \<and> qp_map ctx' 2 = None"
  using roce_destroy_qp_returns[OF live_reach(2) live_maps(4)] by (auto simp: live_maps null_handle_def)

text \<open>C21: Creating a queue pair, not the GSI one, and destroying it gives the context from before back: the PD,
  the CQs and their reference counts, and the queue pairs.\<close>

theorem create_destroy_qp:
  assumes "ctx_reach ctx" "roce_create_qp ctx pdh s r a mem_ok = Inr (ret, ctx')" "0 \<le> ret"
    "qa_type a \<noteq> ROCE_QPT_GSI" "cq_map ctx r \<noteq> None"
  shows "\<exists>qps. roce_destroy_qp ctx' (word_of_int ret) = Inr (0, ctx\<lparr>qp_res := qps\<rparr>) \<and> res_map qps = qp_map ctx"
  using create_then_destroy(2)[OF assms] .

lemma create_destroy_qp_witness:
  "\<exists>qps. roce_destroy_qp (live_objs 1 2 (Some (live_qp 0))) 2 = Inr (0, (live_objs 0 0 None)\<lparr>qp_res := qps\<rparr>)"
  using create_destroy_qp[OF live_reach(1) live_create(1) _ _ live_maps(2)] by (auto simp: live_args_def)

text \<open>C25: \<open>roce_create_qp\<close> tests the send CQ twice and the receive CQ never: with a PD, a send CQ, memory, a
  slot and capacities as they must be and a receive CQ that does not exist, an RC or UD queue pair is created
  with success, and destroying that queue pair uses a null pointer.\<close>

theorem create_qp_unknown_rcq:
  assumes "ctx_reach ctx" "port_at ctx 1 = Inr port" "qa_type a \<in> {ROCE_QPT_RC, ROCE_QPT_UD}"
    "roce_verify_qp_cap ctx (qa_cap a) = 0" "pd_map ctx pdh \<noteq> None" "cq_map ctx s \<noteq> None"
    "k < res_size (qp_res ctx)" "qp_map ctx k = None" "cq_map ctx r = None"
  shows "\<exists>ret ctx'. roce_create_qp ctx pdh s r a True = Inr (ret, ctx') \<and> 0 \<le> ret \<and>
    roce_destroy_qp ctx' (word_of_int ret) = Inl Null_deref"
proof -
  have "qa_type a \<noteq> ROCE_QPT_GSI" using assms(3) by auto
  then show ?thesis using create_qp_succeeds[OF assms(1-8)] create_then_destroy(1)[OF assms(1)] assms(9) by blast
qed

lemma create_qp_unknown_rcq_witness:
  "\<exists>ret ctx'. roce_create_qp (live_objs 0 0 None) 0 0 1 live_args True = Inr (ret, ctx') \<and> 0 \<le> ret \<and>
     roce_destroy_qp ctx' (word_of_int ret) = Inl Null_deref"
proof (rule create_qp_unknown_rcq[OF live_reach(1), of roce_port_zero])
  show "port_at (live_objs 0 0 None) 1 = Inr roce_port_zero" by (simp add: port_at_def live_parts)
  show "roce_verify_qp_cap (live_objs 0 0 None) (qa_cap live_args) = 0"
    by (simp add: roce_verify_qp_cap_def live_parts live_args_def live_attr_def)
  show "2 < res_size (qp_res (live_objs 0 0 None))" by (simp add: live_parts)
qed (simp_all add: live_args_def live_maps(1-4) del: not_None_eq)

text \<open>C29: In every context that a client can reach, destroying an address handle, a memory region, a PD or a CQ
  returns: the assertion that the PD can be put never fails. The PD that an address handle or a region points
  to is refused as busy.\<close>

theorem destroy_never_aborts:
  assumes "ctx_reach ctx"
  shows "(\<exists>r. roce_destroy_ah ctx h = Inr r) \<and> (\<exists>r. roce_destroy_mr ctx h = Inr r) \<and>
    (\<exists>r. roce_dealloc_pd ctx h = Inr r) \<and> (\<exists>r. roce_destroy_cq ctx h = Inr r) \<and>
    ((\<exists>k x. ah_map ctx k = Some x \<and> ah_pd x = h) \<or> (\<exists>k m. mr_map ctx k = Some m \<and> mr_pd m = h) \<longrightarrow>
      roce_dealloc_pd ctx h = Inr (- EBUSY, ctx))"
proof -
  have "objs_core ctx" using reach_objs_ok[OF assms] by (simp add: objs_ok_def)
  note c = objs_coreD[OF this]
  have "\<exists>r. roce_destroy_cq ctx h = Inr r" using destroy_cq_cases[OF c(6), of h] by (auto split: option.splits if_splits)
  then show ?thesis
    using refs_ok_destroy_ah[OF c(1), of h] refs_ok_destroy_mr[OF c(1), of h] refs_ok_dealloc_pd[OF c(1), of h]
      held_pd_busy[OF c(1), of h] by blast
qed

lemma destroy_never_aborts_witness: "\<exists>r. roce_dealloc_pd (live_objs 1 2 (Some (live_qp 0))) 0 = Inr r"
  using destroy_never_aborts[OF live_reach(2)] by blast

end
