(* ===== verification/Rc_Order.thy ===== *)
theory Rc_Order
  imports Ctx_Reach
begin

text \<open>
  The order of packets at the receiver of a reliable connection (\<open>responder.c\<close>). The specification is a
  receiver that drops every packet but the expected one; the code is that receiver, and in addition
  answers the first packet after a gap.
\<close>

subsection \<open>The counters for acknowledges do not matter\<close>

definition ack_state :: "u32 \<Rightarrow> bool \<Rightarrow> roce_qp \<Rightarrow> roce_qp" where
  "ack_state m b qp = qp\<lparr>resp_msn := m, in_psn_nak := b\<rparr>"

lemma ack_state_sel [simp]:
  "qp_type (ack_state m b qp) = qp_type qp" "qp_pd (ack_state m b qp) = qp_pd qp" "qp_attr (ack_state m b qp) = qp_attr qp"
  "qp_rcq (ack_state m b qp) = qp_rcq qp" "handle (ack_state m b qp) = handle qp" "resp_u (ack_state m b qp) = resp_u qp"
  "rq_wrs (ack_state m b qp) = rq_wrs qp" "resp_heap (ack_state m b qp) = resp_heap qp"
  "resp_writtenlen (ack_state m b qp) = resp_writtenlen qp" "resp_rkey (ack_state m b qp) = resp_rkey qp"
  "ack_state m b (ack_state m' b' qp) = ack_state m b qp" "ack_state m b (qp\<lparr>resp_msn := m'\<rparr>) = ack_state m b qp"
  "ack_state m b (qp\<lparr>in_psn_nak := b'\<rparr>) = ack_state m b qp"
  "ack_state m b (qp\<lparr>resp_msn := m', qp_attr := a\<rparr>) = ack_state m b (qp\<lparr>qp_attr := a\<rparr>)" "in_psn_nak (ack_state m b qp) = b" "resp_msn (ack_state m b qp) = m"
  by (simp_all add: ack_state_def)

lemma ack_state_upd:
  "(ack_state m b qp)\<lparr>resp_u := u\<rparr> = ack_state m b (qp\<lparr>resp_u := u\<rparr>)"
  "(ack_state m b qp)\<lparr>resp_heap := h\<rparr> = ack_state m b (qp\<lparr>resp_heap := h\<rparr>)"
  "(ack_state m b qp)\<lparr>rq_wrs := ws\<rparr> = ack_state m b (qp\<lparr>rq_wrs := ws\<rparr>)"
  "(ack_state m b qp)\<lparr>resp_rkey := k\<rparr> = ack_state m b (qp\<lparr>resp_rkey := k\<rparr>)"
  "(ack_state m b qp)\<lparr>resp_dmalen := l\<rparr> = ack_state m b (qp\<lparr>resp_dmalen := l\<rparr>)"
  "(ack_state m b qp)\<lparr>resp_writtenlen := l\<rparr> = ack_state m b (qp\<lparr>resp_writtenlen := l\<rparr>)"
  "(ack_state m b qp)\<lparr>qp_attr := a\<rparr> = ack_state m b (qp\<lparr>qp_attr := a\<rparr>)"
  "(ack_state m b qp)\<lparr>in_psn_nak := c\<rparr> = ack_state m c qp"
  "(ack_state m b qp)\<lparr>resp_msn := n\<rparr> = ack_state n b qp"
  by (simp_all add: ack_state_def)

text \<open>The same run up to these counters and to the acknowledges sent.\<close>

definition same_but_acks :: "'a recv_step \<Rightarrow> 'a recv_step \<Rightarrow> bool" where
  "same_but_acks r r' \<longleftrightarrow> (\<forall>ret mm c q evs. r = Inr (ret, mm, c, q, evs) \<longrightarrow>
     (\<exists>m b evs'. r' = Inr (ret, mm, c, ack_state m b q, evs') \<and> filter is_comp evs' = filter is_comp evs))"

definition with_state :: "u32 \<Rightarrow> bool \<Rightarrow> 'a recv_step \<Rightarrow> 'a recv_step" where
  "with_state m b r = bindR r (\<lambda>(ret, mm, c, q, evs). Inr (ret, mm, c, ack_state m b q, evs))"

lemma with_state_same: "same_but_acks r (with_state m b r)"
  by (auto simp: same_but_acks_def with_state_def)

named_theorems state_rules \<open>the rules that take two such runs apart\<close>

lemma state_bind [state_rules]:
  assumes "x = x'" "\<And>y. g y = with_state m b (f y)"
  shows "bindR x g = with_state m b (bindR x' f)"
proof -
  have "g = (\<lambda>y. with_state m b (f y))" using assms(2) by blast
  then show ?thesis using assms(1) by (simp add: with_state_def bindR_assoc)
qed

lemma state_steps [state_rules]:
  "p = p' \<Longrightarrow> r = with_state m b s \<Longrightarrow> r' = with_state m b s' \<Longrightarrow> (if p then r else r') = with_state m b (if p' then s else s')"
  "(\<And>a b'. g a b' = with_state m b (f a b')) \<Longrightarrow> (case t of (a, b') \<Rightarrow> g a b') = with_state m b (case t of (a, b') \<Rightarrow> f a b')"
  "(\<And>e. l e = with_state m b (l' e)) \<Longrightarrow> (\<And>v. k v = with_state m b (k' v)) \<Longrightarrow>
     (case z of Inl e \<Rightarrow> l e | Inr v \<Rightarrow> k v) = with_state m b (case z of Inl e \<Rightarrow> l' e | Inr v \<Rightarrow> k' v)"
  "n = with_state m b n' \<Longrightarrow> (\<And>z. h z = with_state m b (h' z)) \<Longrightarrow>
     (case o' of None \<Rightarrow> n | Some z \<Rightarrow> h z) = with_state m b (case o' of None \<Rightarrow> n' | Some z \<Rightarrow> h' z)"
  "(\<And>x y. g' x (ack_state m b y) = with_state m b (f' x y)) \<Longrightarrow>
     (case apsnd (ack_state m b) u of (x, y) \<Rightarrow> g' x y) = with_state m b (case u of (x, y) \<Rightarrow> f' x y)"
  by (auto simp: with_state_def bindR_assoc split: prod.split sum.split option.split)

lemma with_state_result [simp]:
  "with_state m b (Inr (ret, mm, c, q, evs)) = Inr (ret, mm, c, ack_state m b q, evs)" "with_state m b (Inl e) = Inl e"
  by (simp_all add: with_state_def)

lemma pop_state:
  "pop_recv_wr (ack_state m b qp) = apsnd (ack_state m b) (pop_recv_wr qp)"
  "roce_pop_recv_wr (ack_state m b qp) inp = apsnd (ack_state m b) (roce_pop_recv_wr qp inp)"
  by (auto simp: pop_recv_wr_def roce_pop_recv_wr_def ack_state_upd Let_def split: list.split)

lemma helpers_state:
  "recv_wr_at (ack_state m b qp) p = recv_wr_at qp p"
  "recv_wr_set w (ack_state m b qp) = ack_state m b (recv_wr_set w qp)"
  "map_and_copy env ctx (ack_state m b qp) sges loc access iovs = map_and_copy env ctx qp sges loc access iovs"
  "roce_recv_cq_comp ctx (ack_state m b qp) opcode wrid n eth st = roce_recv_cq_comp ctx qp opcode wrid n eth st"
  "free_popped ctx (ack_state m b qp) w = bindR (free_popped ctx qp w) (\<lambda>(c, q). Inr (c, ack_state m b q))"
  by (simp_all add: recv_wr_at_def recv_wr_set_def map_and_copy_def roce_recv_cq_comp_def free_popped_def ack_state_upd
      bindR_assoc cong: if_cong)

lemma free_state:
  assumes "q' = ack_state m b qp" "\<And>c q. g c (ack_state m b q) = with_state m b (f c q)"
  shows "bindR (free_popped ctx q' w) (\<lambda>(c, q). g c q) = with_state m b (bindR (free_popped ctx qp w) (\<lambda>(c, q). f c q))"
  using assms by (auto simp: with_state_def bindR_assoc helpers_state intro!: arg_cong[where f = "bindR _"])

lemma payload_state:
  "roce_recv_payload env ctx (ack_state m b qp) iovs eth inp opcode = with_state m b (roce_recv_payload env ctx qp iovs eth inp opcode)"
  unfolding roce_recv_payload_def Let_def pop_state
  by (rule free_state | rule state_rules | (simp add: helpers_state ack_state_upd; fail))+

lemma if_apsnd: "(if c then apsnd f p else (x, f y)) = apsnd f (if c then p else (x, y))"
  by simp

lemma write_complete_state:
  "write_complete mm ctx (ack_state m b qp) eth opcode evs = with_state m b (write_complete mm ctx qp eth opcode evs)"
  unfolding write_complete_def Let_def pop_state if_apsnd
  by (rule free_state | rule state_rules | (simp add: helpers_state ack_state_upd; fail))+

lemma state_map:
  assumes "x' = bindR x (\<lambda>q. Inr (ack_state m b q))" "\<And>q. g (ack_state m b q) = with_state m b (f q)"
  shows "bindR x' g = with_state m b (bindR x f)"
  using assms by (simp add: with_state_def bindR_assoc)

lemma ack_run:
  assumes "recv_peer ctx qp port sgid" "syn \<noteq> IB_AETH_SYNDROME_MAX"
  shows "\<exists>ev. roce_netpkt_acknowledge mm ctx qp syn v psn True = Inr (qp\<lparr>resp_msn := resp_msn qp + 1\<rparr>, [ev]) \<and>
    ack_sent port sgid qp syn v psn ev \<and> \<not> is_comp ev"
  using assms acknowledge_sent[of qp ctx "qp_ah_attr (qp_attr qp)" port sgid syn mm v psn] ack_not_comp by (auto simp: recv_peer_def)

lemma ack_run_state:
  assumes "recv_peer ctx qp port sgid" "syn \<noteq> IB_AETH_SYNDROME_MAX"
  shows "\<exists>ev. roce_netpkt_acknowledge mm ctx (ack_state m b qp) syn v psn True = Inr (ack_state (m + 1) b qp, [ev]) \<and> \<not> is_comp ev"
proof -
  have "recv_peer ctx (ack_state m b qp) port sgid" using assms(1) by (simp add: recv_peer_def)
  then show ?thesis using ack_run[of ctx "ack_state m b qp" port sgid syn mm v psn] assms(2) by (auto simp: ack_state_upd)
qed

lemma same_refl: "same_but_acks (Inr (ret, mm, c, q, evs)) (Inr (ret, mm, c, ack_state m b q, evs))"
  by (auto simp: same_but_acks_def)

lemma rdma_write_state:
  assumes peer: "recv_peer ctx qp port sgid"
  shows "same_but_acks (roce_rdma_write_payload env ctx qp iovs reth eth inp opcode True)
    (roce_rdma_write_payload env ctx (ack_state m b qp) iovs reth eth inp opcode True)"
proof (cases "inp \<noteq> (resp_writtenlen qp \<noteq> 0)")
  case True
  obtain ev ev' where "roce_netpkt_acknowledge (env_mem env) ctx qp IB_AETH_SYNDROME_NAK IB_NAK_INVALID_REQUEST (rq_psn (qp_attr qp)) True
      = Inr (qp\<lparr>resp_msn := resp_msn qp + 1\<rparr>, [ev])" "\<not> is_comp ev"
    "roce_netpkt_acknowledge (env_mem env) ctx (ack_state m b qp) IB_AETH_SYNDROME_NAK IB_NAK_INVALID_REQUEST (rq_psn (qp_attr qp)) True
      = Inr (ack_state (m + 1) b qp, [ev'])" "\<not> is_comp ev'"
    using ack_run[OF peer, of IB_AETH_SYNDROME_NAK "env_mem env" IB_NAK_INVALID_REQUEST "rq_psn (qp_attr qp)"]
      ack_run_state[OF peer, of IB_AETH_SYNDROME_NAK "env_mem env" m b IB_NAK_INVALID_REQUEST "rq_psn (qp_attr qp)"] by auto
  then show ?thesis
    using True by (auto simp: roce_rdma_write_payload_def same_but_acks_def bindR_eq_Inr Let_def)
next
  case False
  then have ok: "(inp \<noteq> (resp_writtenlen qp \<noteq> 0)) = False" by simp
  have "roce_rdma_write_payload env ctx (ack_state m b qp) iovs reth eth inp opcode True =
    with_state m b (roce_rdma_write_payload env ctx qp iovs reth eth inp opcode True)"
    unfolding roce_rdma_write_payload_def Let_def ack_state_sel ok if_False
    apply (rule state_bind, rule refl, rule state_map, simp add: ack_state_upd split: option.split)
    by (rule state_rules | (simp add: helpers_state ack_state_upd write_complete_state; fail))+
  then show ?thesis using with_state_same by simp
qed

lemma same_rules:
  "same_but_acks r s \<Longrightarrow> same_but_acks r' s' \<Longrightarrow> same_but_acks (if c then r else r') (if c then s else s')"
  "(\<And>bs vs. same_but_acks (k bs vs) (k' bs vs)) \<Longrightarrow>
     same_but_acks (with_eth env ctx qp iovs n k) (with_eth env ctx (ack_state m b qp) iovs n k')"
proof -
  show "(\<And>bs vs. same_but_acks (k bs vs) (k' bs vs)) \<Longrightarrow>
     same_but_acks (with_eth env ctx qp iovs n k) (with_eth env ctx (ack_state m b qp) iovs n k')"
  proof -
    assume t: "\<And>bs vs. same_but_acks (k bs vs) (k' bs vs)"
    show "same_but_acks (with_eth env ctx qp iovs n k) (with_eth env ctx (ack_state m b qp) iovs n k')"
    proof (cases "roce_get_eth (env_mem env) iovs n")
      case (Inr r)
      then show ?thesis using t same_refl by (cases r) (auto simp: with_eth_def)
    qed (simp add: same_but_acks_def with_eth_def)
  qed
qed simp

lemma dispatch_state:
  assumes "recv_peer ctx qp port sgid"
  shows "same_but_acks (rc_dispatch env ctx qp iovs opcode True) (rc_dispatch env ctx (ack_state m b qp) iovs opcode True)"
  unfolding rc_dispatch_def payload_state
  by (intro same_rules with_state_same rdma_write_state[OF assms] same_refl)

text \<open>Neither the attributes nor the peer change on the way to the counter.\<close>

abbreviation keeps_attr :: "'a roce_base_scheme \<Rightarrow> roce_qp \<Rightarrow> int \<times> mem \<times> 'a roce_base_scheme \<times> roce_qp \<times> roce_event list \<Rightarrow> bool" where
  "keeps_attr ctx qp \<equiv> (\<lambda>(ret, mm, ctx', qp', evs). qp_attr qp' = qp_attr qp)"

lemma attr_parts:
  "pop_recv_wr qp = (w, qp') \<Longrightarrow> qp_attr qp' = qp_attr qp" "roce_pop_recv_wr qp inp = (p, qp') \<Longrightarrow> qp_attr qp' = qp_attr qp"
  "free_popped ctx qp x = Inr (ctx', qp') \<Longrightarrow> qp_attr qp' = qp_attr qp"
  "roce_netpkt_acknowledge mm ctx qp s v psn mem_ok = Inr (qp', evs) \<Longrightarrow> qp_attr qp' = qp_attr qp"
  by (auto simp: pop_recv_wr_def roce_pop_recv_wr_def free_popped_def roce_netpkt_acknowledge_def Let_def bindR_eq_Inr
      split: list.splits if_splits prod.splits option.splits)

lemma attr_recv_payload: "gives (keeps_attr ctx qp) (roce_recv_payload env ctx qp iovs eth inp opcode)"
  unfolding roce_recv_payload_def Let_def
  by (intro gives_rules) (auto dest!: attr_parts simp: recv_wr_set_def)

lemma attr_write_complete: "gives (keeps_attr ctx qp) (write_complete mm ctx qp eth opcode evs)"
  unfolding write_complete_def Let_def
  by (intro gives_rules) (auto dest!: attr_parts split: if_splits)

lemma attr_same: "qp_attr q = qp_attr qp \<Longrightarrow> gives (keeps_attr ctx q) r \<Longrightarrow> gives (keeps_attr ctx qp) r"
  by (simp add: gives_def)

lemma attr_rdma_write: "gives (keeps_attr ctx qp) (roce_rdma_write_payload env ctx qp iovs reth eth inp opcode mem_ok)"
  unfolding roce_rdma_write_payload_def Let_def
  by (intro gives_rules attr_same[OF _ attr_write_complete]) (auto dest!: attr_parts split: if_splits option.splits)

lemma attr_with_eth:
  "(\<And>bs vs. gives (keeps_attr ctx qp) (k bs vs)) \<Longrightarrow> gives (keeps_attr ctx qp) (with_eth env ctx qp iovs n k)"
  unfolding with_eth_def by (intro gives_rules) auto

lemma attr_dispatch: "gives (keeps_attr ctx qp) (rc_dispatch env ctx qp iovs opcode mem_ok)"
  unfolding rc_dispatch_def
  by (intro gives_rules(4) attr_with_eth attr_recv_payload attr_rdma_write gives_rules(1)) simp

lemma dispatch_peer:
  assumes "recv_peer ctx qp port sgid" "rc_dispatch env ctx qp iovs opcode mem_ok = Inr (ret, mm, ctx', qp', evs)"
  shows "recv_peer ctx' qp' port sgid"
proof -
  have "qp_attr qp' = qp_attr qp" using givesD[OF attr_dispatch assms(2)] by simp
  moreover have "data_frame ctx ctx'" "same_qp qp qp'" using givesD[OF moved_dispatch assms(2)] by simp_all
  then have "ports ctx' = ports ctx" "qp_type qp' = qp_type qp" by (auto simp: data_frame_def same_qp_def)
  ultimately show ?thesis using assms(1) path_ok_ports[of ctx' ctx] by (simp add: recv_peer_def)
qed

subsection \<open>One packet\<close>

abbreviation expected :: "roce_qp \<Rightarrow> ib_bth \<Rightarrow> bool" where
  "expected qp bth \<equiv> psn_dist (rq_psn (qp_attr qp)) (ib_bth_get_psn bth) = 0"

lemma recv_other:
  assumes peer: "recv_peer ctx qp port sgid" and bth: "ib_bth_get_opcode bth \<noteq> IB_OPCODE_ACKNOWLEDGE" "\<not> expected qp bth"
  shows "\<exists>m b evs. roce_recv_rc env ctx iovs bth qp True = Inr (0, env_mem env, ctx, ack_state m b qp, evs) \<and> filter is_comp evs = []"
proof -
  have id: "qp = ack_state (resp_msn qp) (in_psn_nak qp) qp" by (simp add: ack_state_def)
  obtain ev where ev: "roce_netpkt_acknowledge (env_mem env) ctx qp IB_AETH_SYNDROME_NAK IB_NAK_PSN_SEQUENCE_ERROR (rq_psn (qp_attr qp)) True
      = Inr (qp\<lparr>resp_msn := resp_msn qp + 1\<rparr>, [ev])" "\<not> is_comp ev"
    using ack_run[OF peer, of IB_AETH_SYNDROME_NAK "env_mem env" IB_NAK_PSN_SEQUENCE_ERROR "rq_psn (qp_attr qp)"] by auto
  show ?thesis
  proof (cases "psn_dist (rq_psn (qp_attr qp)) (ib_bth_get_psn bth) > 0 \<or> in_psn_nak qp")
    case True
    then have "roce_recv_rc env ctx iovs bth qp True = Inr (0, env_mem env, ctx, qp, [])"
      using bth by (auto simp: roce_recv_rc_def Let_def compare_psn_dist roce_out_of_seq_def)
    then show ?thesis by (subst (asm) (2) id) auto
  next
    case False
    then have "roce_recv_rc env ctx iovs bth qp True = Inr (0, env_mem env, ctx, ack_state (resp_msn qp + 1) True qp, [ev])"
      using bth ev by (auto simp: roce_recv_rc_def Let_def compare_psn_dist roce_out_of_seq_def ack_state_def)
    then show ?thesis using ev(2) by auto
  qed
qed

lemma recv_expected:
  assumes peer: "recv_peer ctx qp port sgid" and bth: "ib_bth_get_opcode bth \<noteq> IB_OPCODE_ACKNOWLEDGE" "expected qp bth"
    and run: "roce_recv_rc env ctx iovs bth qp True = Inr (ret, mm, ctx', qp', evs)"
  shows "recv_peer ctx' qp' port sgid" "\<exists>m' b' evs'. roce_recv_rc env ctx iovs bth (ack_state m b qp) True =
    Inr (ret, mm, ctx', ack_state m' b' qp', evs') \<and> filter is_comp evs' = filter is_comp evs"
proof -
  let ?q0 = "qp\<lparr>in_psn_nak := False\<rparr>" and ?op = "ib_bth_get_opcode bth" and ?psn = "ib_bth_get_psn bth"
  let ?next = "\<lambda>q. q\<lparr>qp_attr := (qp_attr q)\<lparr>rq_psn := roce_qp_psn_inc (rq_psn (qp_attr q))\<rparr>\<rparr>"
  define tail where "tail = (\<lambda>(ret :: int, mm, ctx1 :: 'a roce_base_scheme, qp1, evs1). if ret \<noteq> 0 then Inr (ret, mm, ctx1, qp1, evs1)
        else bindR (if ib_bth_get_ack bth
                    then roce_netpkt_acknowledge mm ctx1 qp1 IB_AETH_SYNDROME_ACK 0x1f ?psn True
                    else Inr (qp1, [])) (\<lambda>(qp2, evs2). Inr (0, mm, ctx1, ?next qp2, evs1 @ evs2)))"
  have unf: "roce_recv_rc env ctx iovs bth q True = bindR (rc_dispatch env ctx (q\<lparr>in_psn_nak := False\<rparr>) iovs ?op True) tail"
    if "qp_attr q = qp_attr qp" for q
    using bth that by (simp add: roce_recv_rc_def compare_psn_dist tail_def)
  obtain r1 c1 q1 e1 mm1 where d: "rc_dispatch env ctx ?q0 iovs ?op True = Inr (r1, mm1, c1, q1, e1)"
    and t: "tail (r1, mm1, c1, q1, e1) = Inr (ret, mm, ctx', qp', evs)"
    using run unf[of qp] by (auto simp: bindR_eq_Inr)
  have peer0: "recv_peer ctx ?q0 port sgid" using peer by (simp add: recv_peer_def)
  have peer1: "recv_peer c1 q1 port sgid" using dispatch_peer[OF peer0 d] .
  obtain m1 b1 e1' where d': "rc_dispatch env ctx (ack_state m False ?q0) iovs ?op True = Inr (r1, mm1, c1, ack_state m1 b1 q1, e1')"
    "filter is_comp e1' = filter is_comp e1"
    using dispatch_state[OF peer0, of env iovs ?op m False] d unfolding same_but_acks_def by blast
  have run': "roce_recv_rc env ctx iovs bth (ack_state m b qp) True = tail (r1, mm1, c1, ack_state m1 b1 q1, e1')"
    using unf[of "ack_state m b qp"] d'(1) by (simp add: ack_state_upd)
  obtain ev ev' where a: "roce_netpkt_acknowledge mm1 c1 q1 IB_AETH_SYNDROME_ACK 0x1f ?psn True = Inr (q1\<lparr>resp_msn := resp_msn q1 + 1\<rparr>, [ev])"
    "\<not> is_comp ev" "roce_netpkt_acknowledge mm1 c1 (ack_state m1 b1 q1) IB_AETH_SYNDROME_ACK 0x1f ?psn True =
      Inr (ack_state (m1 + 1) b1 q1, [ev'])" "\<not> is_comp ev'"
    using ack_run[OF peer1, of IB_AETH_SYNDROME_ACK mm1 "0x1f" ?psn] ack_run_state[OF peer1, of IB_AETH_SYNDROME_ACK mm1 m1 b1 "0x1f" ?psn]
    by auto
  have "recv_peer ctx' qp' port sgid \<and> (\<exists>m' b' evs'. tail (r1, mm1, c1, ack_state m1 b1 q1, e1') =
    Inr (ret, mm, ctx', ack_state m' b' qp', evs') \<and> filter is_comp evs' = filter is_comp evs)"
    using t a peer1 d'(2) by (auto simp: tail_def recv_peer_def ack_state_upd split: if_splits) blast+
  then show "recv_peer ctx' qp' port sgid" "\<exists>m' b' evs'. roce_recv_rc env ctx iovs bth (ack_state m b qp) True =
    Inr (ret, mm, ctx', ack_state m' b' qp', evs') \<and> filter is_comp evs' = filter is_comp evs"
    using run' by auto
qed

subsection \<open>Many packets\<close>

text \<open>The specification: what is not expected is dropped.\<close>

fun recv_in_order ::
  "roce_env \<Rightarrow> 'a roce_base_scheme \<Rightarrow> roce_qp \<Rightarrow> (iov list \<times> ib_bth) list \<Rightarrow>
   (mem \<times> 'a roce_base_scheme \<times> roce_qp \<times> roce_event list) run" where
  "recv_in_order env ctx qp [] = Inr (env_mem env, ctx, qp, [])"
| "recv_in_order env ctx qp ((iovs, bth) # ps) =
     (if \<not> expected qp bth then recv_in_order env ctx qp ps
      else bindR (roce_recv_rc env ctx iovs bth qp True) (\<lambda>(ret, mm, ctx1, qp1, evs1).
        bindR (recv_in_order (env\<lparr>env_mem := mm\<rparr>) ctx1 qp1 ps) (\<lambda>(mm2, ctx2, qp2, evs2).
        Inr (mm2, ctx2, qp2, evs1 @ evs2))))"

lemma recv_run_in_order:
  assumes "recv_peer ctx qp port sgid" "\<forall>(vs, bth) \<in> set ps. ib_bth_get_opcode bth \<noteq> IB_OPCODE_ACKNOWLEDGE"
    "recv_in_order env ctx qp ps = Inr (mm', ctx', qp', evs)"
  shows "\<exists>m' b' evs'. recv_run env ctx (ack_state m b qp) ps = Inr (mm', ctx', ack_state m' b' qp', evs') \<and>
    filter is_comp evs' = filter is_comp evs"
  using assms
proof (induction ps arbitrary: env ctx qp m b evs)
  case Nil
  then show ?case by auto
next
  case (Cons p ps)
  obtain vs bth where p: "p = (vs, bth)" by (cases p)
  have op: "ib_bth_get_opcode bth \<noteq> IB_OPCODE_ACKNOWLEDGE" "\<forall>(vs, bth) \<in> set ps. ib_bth_get_opcode bth \<noteq> IB_OPCODE_ACKNOWLEDGE"
    using Cons.prems(2) p by auto
  show ?case
  proof (cases "expected qp bth")
    case False
    have "recv_peer ctx (ack_state m b qp) port sgid" using Cons.prems(1) by (simp add: recv_peer_def)
    then obtain m1 b1 e1 where s: "roce_recv_rc env ctx vs bth (ack_state m b qp) True =
        Inr (0, env_mem env, ctx, ack_state m1 b1 qp, e1)" "filter is_comp e1 = []"
      using recv_other[of ctx "ack_state m b qp" port sgid bth env vs] op(1) False by auto
    have "recv_in_order env ctx qp ps = Inr (mm', ctx', qp', evs)" using Cons.prems(3) False p by simp
    then obtain m' b' evs' where "recv_run env ctx (ack_state m1 b1 qp) ps = Inr (mm', ctx', ack_state m' b' qp', evs')"
      "filter is_comp evs' = filter is_comp evs" using Cons.IH[OF Cons.prems(1) op(2)] by blast
    then show ?thesis using s p by simp blast
  next
    case True
    obtain ret mm1 c1 q1 e1 e2 where s: "roce_recv_rc env ctx vs bth qp True = Inr (ret, mm1, c1, q1, e1)"
      "recv_in_order (env\<lparr>env_mem := mm1\<rparr>) c1 q1 ps = Inr (mm', ctx', qp', e2)" "evs = e1 @ e2"
      using Cons.prems(3) True p by (auto simp: bindR_eq_Inr)
    note x = recv_expected[OF Cons.prems(1) op(1) True s(1)]
    obtain m1 b1 e1' where s': "roce_recv_rc env ctx vs bth (ack_state m b qp) True = Inr (ret, mm1, c1, ack_state m1 b1 q1, e1')"
      "filter is_comp e1' = filter is_comp e1" using x(2) by blast
    obtain m' b' e2' where "recv_run (env\<lparr>env_mem := mm1\<rparr>) c1 (ack_state m1 b1 q1) ps = Inr (mm', ctx', ack_state m' b' qp', e2')"
      "filter is_comp e2' = filter is_comp e2" using Cons.IH[OF x(1) op(2) s(2)] by blast
    then show ?thesis using s' s(3) p by simp blast
  qed
qed

lemma gap_silent:
  assumes "\<forall>(vs, bth) \<in> set ps. ib_bth_get_opcode bth \<noteq> IB_OPCODE_ACKNOWLEDGE \<and> \<not> expected qp bth" "in_psn_nak qp"
  shows "recv_run env ctx qp ps = Inr (env_mem env, ctx, qp, [])"
  using assms
proof (induction ps)
  case (Cons p ps)
  obtain vs bth where p: "p = (vs, bth)" by (cases p)
  have "roce_recv_rc env ctx vs bth qp True = Inr (0, env_mem env, ctx, qp, [])"
    using Cons.prems p by (auto simp: roce_recv_rc_def Let_def compare_psn_dist roce_out_of_seq_def)
  then show ?case using Cons p by simp
qed simp

subsection \<open>Properties\<close>

text \<open>C5: The receiver takes packets in the order of their PSNs, whatever arrives: a run over any sequence of
  request packets, with losses, duplicates and packets out of order, does to memory, to the context, to
  the queue pair and to the completions what the receiver does that drops every packet but the one with the
  expected PSN; only the counters for acknowledges differ.\<close>

theorem recv_run_refines_in_order:
  assumes "recv_peer ctx qp port sgid" "\<forall>(vs, bth) \<in> set ps. ib_bth_get_opcode bth \<noteq> IB_OPCODE_ACKNOWLEDGE"
    "recv_in_order env ctx qp ps = Inr (mm', ctx', qp', evs)"
  shows "\<exists>m b evs'. recv_run env ctx qp ps = Inr (mm', ctx', qp'\<lparr>resp_msn := m, in_psn_nak := b\<rparr>, evs') \<and>
    filter is_comp evs' = filter is_comp evs"
  using recv_run_in_order[OF assms, of "resp_msn qp" "in_psn_nak qp"] by (simp add: ack_state_def)

lemma recv_run_refines_in_order_witness:
  "\<exists>m b evs'. recv_run recv_env recv_base recv_qp [([], recv_bth IB_OPCODE_SEND_ONLY 9), ([], recv_bth IB_OPCODE_SEND_ONLY 4)] =
    Inr (env_mem recv_env, recv_base, recv_qp\<lparr>resp_msn := m, in_psn_nak := b\<rparr>, evs')"
proof -
  have "rq_psn (qp_attr recv_qp) = 5" by (simp add: recv_qp_def sample_qp_def)
  then have r: "recv_in_order recv_env recv_base recv_qp [([], recv_bth IB_OPCODE_SEND_ONLY 9), ([], recv_bth IB_OPCODE_SEND_ONLY 4)] =
      Inr (env_mem recv_env, recv_base, recv_qp, [])"
    by (simp add: recv_bth_sel psn_dist_def IB_BTH_PSN_MASK_def)
  have "\<forall>(vs, bth) \<in> set [([] :: iov list, recv_bth IB_OPCODE_SEND_ONLY 9), ([], recv_bth IB_OPCODE_SEND_ONLY 4)].
      ib_bth_get_opcode bth \<noteq> IB_OPCODE_ACKNOWLEDGE"
    by (simp add: recv_bth_sel IB_OPCODE_MASK_def)
  from recv_run_refines_in_order[OF recv_peer_ok this r] show ?thesis by blast
qed

text \<open>C18: After a gap: the first packet beyond the expected one is answered by one NAK for the expected PSN, and
  nothing else happens, to it and to all packets that follow, until the expected packet comes.\<close>

theorem gap_answered_once:
  assumes "recv_peer ctx qp port sgid" "\<not> in_psn_nak qp" "ib_bth_get_opcode bth \<noteq> IB_OPCODE_ACKNOWLEDGE"
    "psn_dist (rq_psn (qp_attr qp)) (ib_bth_get_psn bth) < 0"
    "\<forall>(vs, b) \<in> set ps. ib_bth_get_opcode b \<noteq> IB_OPCODE_ACKNOWLEDGE \<and> psn_dist (rq_psn (qp_attr qp)) (ib_bth_get_psn b) \<noteq> 0"
  shows "\<exists>ev. recv_run env ctx qp ((vs, bth) # ps) =
      Inr (env_mem env, ctx, qp\<lparr>resp_msn := resp_msn qp + 1, in_psn_nak := True\<rparr>, [ev]) \<and>
    ack_sent port sgid qp IB_AETH_SYNDROME_NAK IB_NAK_PSN_SEQUENCE_ERROR (rq_psn (qp_attr qp)) ev"
proof -
  let ?qp1 = "qp\<lparr>resp_msn := resp_msn qp + 1, in_psn_nak := True\<rparr>"
  obtain ev where ev: "roce_netpkt_acknowledge (env_mem env) ctx qp IB_AETH_SYNDROME_NAK IB_NAK_PSN_SEQUENCE_ERROR (rq_psn (qp_attr qp)) True
      = Inr (qp\<lparr>resp_msn := resp_msn qp + 1\<rparr>, [ev])"
    "ack_sent port sgid qp IB_AETH_SYNDROME_NAK IB_NAK_PSN_SEQUENCE_ERROR (rq_psn (qp_attr qp)) ev"
    using ack_run[OF assms(1), of IB_AETH_SYNDROME_NAK "env_mem env" IB_NAK_PSN_SEQUENCE_ERROR "rq_psn (qp_attr qp)"] by auto
  have "roce_recv_rc env ctx vs bth qp True = Inr (0, env_mem env, ctx, ?qp1, [ev])"
    using assms(2-4) ev(1) by (simp add: roce_recv_rc_def Let_def compare_psn_dist roce_out_of_seq_def)
  moreover have "recv_run env ctx ?qp1 ps = Inr (env_mem env, ctx, ?qp1, [])"
    using assms(5) by (intro gap_silent) auto
  ultimately show ?thesis using ev(2) by simp
qed

lemma gap_answered_once_witness:
  "\<exists>ev. recv_run recv_env recv_base recv_qp [([], recv_bth IB_OPCODE_SEND_ONLY 7), ([], recv_bth IB_OPCODE_SEND_ONLY 8)] =
    Inr (env_mem recv_env, recv_base, recv_qp\<lparr>resp_msn := 1, in_psn_nak := True\<rparr>, [ev])"
proof -
  have q: "rq_psn (qp_attr recv_qp) = 5" "\<not> in_psn_nak recv_qp" "resp_msn recv_qp = 0" by (simp_all add: recv_qp_def sample_qp_def)
  then show ?thesis
    using gap_answered_once[OF recv_peer_ok q(2), of "recv_bth IB_OPCODE_SEND_ONLY 7" "[([], recv_bth IB_OPCODE_SEND_ONLY 8)]" recv_env "[]"]
    by (auto simp: recv_bth_sel psn_dist_def IB_BTH_PSN_MASK_def IB_OPCODE_MASK_def)
qed

end
