(* ===== verification/Qp_Faults.thy ===== *)
theory Qp_Faults
  imports Rc_Order
begin

text \<open>
  Sequences of calls, all of them allowed by the interface, and of packets that a peer can send, after
  which the library breaks: assertions, wild pointers and counts below zero.
\<close>

subsection \<open>A device that was not started\<close>

lemma destroyed_faults:
  assumes "res_size rs \<noteq> 0"
  shows "free_table (roce_resource_destroy rs) = Inl Null_deref"
  using assms by (simp add: free_table_def roce_resource_destroy_def)

lemma init_table_size:
  assumes "init_table no_table sz lo hi (0, m) = (b, rs)" "0 < lo" "lo \<le> sz" "sz \<le> hi" "hi \<le> ROCE_MAX_GENERAL"
  shows "res_size rs = sz" "sz \<noteq> 0"
proof -
  have z: "sz \<noteq> 0" using assms(2,3) by auto
  moreover have "\<not> sz > ROCE_MAX_GENERAL" using assms(4,5) by auto
  ultimately show "res_size rs = sz" "sz \<noteq> 0"
    using assms by (auto simp: init_table_def roce_resource_init_def not_less split: if_splits)
qed

lemma init_tables_frame:
  assumes "init_tables ctx para r = (b, ctx')"
  shows "gsi ctx' = gsi ctx" "smi ctx' = smi ctx"
    "pd_res ctx' = snd (init_table (pd_res ctx) (max_pd para) ROCE_MIN_GENERAL ROCE_MAX_GENERAL (r 0))"
  using assms by (auto simp: init_tables_def Let_def split: prod.splits if_splits)

subsection \<open>The GSI QP\<close>

lemma gsi_after_destroy:
  assumes core: "objs_core ctx" and q: "qp_map ctx h = Some q" "qp_type q = ROCE_QPT_GSI"
    and run: "roce_destroy_qp ctx h = Inr (ret, ctx')"
  shows "gsi ctx' = Sp_heap (roce_qp_zero\<lparr>qp_type := ROCE_QPT_MAX\<rparr>)"
  using destroy_qp_cases[OF core run] q by auto

lemma create_gsi_faults:
  assumes ok: "objs_ok ctx" and g: "gsi ctx = Sp_heap (roce_qp_zero\<lparr>qp_type := ROCE_QPT_MAX\<rparr>)" and a: "qa_type a = ROCE_QPT_GSI"
    "roce_verify_qp_cap ctx (qa_cap a) = 0" and live: "pd_map ctx pdh \<noteq> None" "cq_map ctx s \<noteq> None" and ports: "ports ctx \<noteq> []"
  shows "roce_create_qp ctx pdh s r a mem_ok = Inl Assert_failed"
proof -
  have c: "res_wf (pd_res ctx)" "res_wf (cq_res ctx)" using objs_coreD(5,6) ok by (auto simp: objs_ok_def)
  obtain p x where px: "pd_map ctx pdh = Some p" "cq_map ctx s = Some x" using live by auto
  note ic = tab_inc_map[OF c(2), of s]
  obtain y where "port_at (ctx\<lparr>pd_res := tab_inc (pd_res ctx) pdh, cq_res := tab_inc (tab_inc (cq_res ctx) s) r\<rparr>) 1 = Inr y"
    using ports by (cases "ports ctx") (auto simp: port_at_def)
  then show ?thesis
    using px a c ic(1)
    by (auto simp: roce_create_qp_def get_obj_tab create_qp_install_def Let_def g gsi_read_def assertR_def roce_qp_zero_def)
qed

subsection \<open>References of a request that is refused\<close>

lemma put_mr_one:
  assumes "res_wf (mr_res ctx)" "mr_map ctx h = Some m" "mr_state m \<noteq> ROCE_MR_STATE_DESTROYED"
  shows "roce_put_mr ctx h = Inr (ctx\<lparr>mr_res := res_update (mr_res ctx) h (m\<lparr>ref := ref m - 1\<rparr>)\<rparr>)"
  using assms by (simp add: roce_put_mr_def roce_get_mr_noref_def res_get_map Let_def)

lemma put_mr_none: "res_wf (mr_res ctx) \<Longrightarrow> mr_map ctx h = None \<Longrightarrow> roce_put_mr ctx h = Inr ctx"
  by (simp add: roce_put_mr_def roce_get_mr_noref_def res_get_map)

lemma get_then_put_two:
  assumes wf: "res_wf (mr_res ctx)" and m: "mr_map ctx h = Some m" "mr_state m \<noteq> ROCE_MR_STATE_DESTROYED" and k: "mr_map ctx k = None"
    and keys: "map (\<lambda>s. roce_key_to_index (sge_lkey s)) sges = [h, k]"
  shows "\<exists>ctx'. roce_get_mrs ctx sges = Inr (- EACCES, ctx') \<and>
    (\<exists>ctx''. roce_put_mrs ctx' sges = Inr ctx'' \<and> mr_map ctx'' = (mr_map ctx)(h \<mapsto> m\<lparr>ref := ref m - 1\<rparr>))"
proof -
  let ?u = "\<lambda>x. ctx\<lparr>mr_res := res_update (mr_res ctx) h x\<rparr>" and ?i = "m\<lparr>ref := ref m + 1\<rparr>" and ?d = "m\<lparr>ref := ref m - 1\<rparr>"
  have hk: "h \<noteq> k" using m k by auto
  have up: "res_wf (mr_res (?u x))" "mr_map (?u x) = (mr_map ctx)(h \<mapsto> x)" if "handle x = handle m" for x
    using res_update_wf[OF wf m(1) that] by simp_all
  have g1: "roce_get_mr ctx h = Inr (Some ?i, ?u ?i)" using get_mr_some[OF wf m(1)] .
  have g2: "roce_get_mr (?u ?i) k = Inr (None, ?u ?i)" using up[of ?i] hk k by simp
  have p1: "roce_put_mr (?u ?i) h = Inr (?u m)"
    using put_mr_one[of "?u ?i" h ?i] up[of ?i] m(2) res_update_twice[OF wf m(1)] by simp
  have p2: "roce_put_mr (?u m) h = Inr (?u ?d)"
    using put_mr_one[of "?u m" h m] up[of m] m(2) res_update_twice[OF wf m(1)] by simp
  have p3: "roce_put_mr (?u ?d) k = Inr (?u ?d)" using put_mr_none[of "?u ?d" k] up[of ?d] hk k by simp
  have get: "roce_get_mrs ctx sges = Inr (- EACCES, ?u m)"
    by (simp add: roce_get_mrs_def keys got_def g1 g2 p1)
  have "roce_put_mrs (?u m) sges = Inr (?u ?d)" by (simp add: roce_put_mrs_def keys p2 p3)
  then show ?thesis using get up(2)[of ?d] by auto
qed

subsection \<open>A SEND after an RDMA WRITE\<close>

abbreviation keeps_heap :: "roce_qp \<Rightarrow> int \<times> mem \<times> 'a roce_base_scheme \<times> roce_qp \<times> roce_event list \<Rightarrow> bool" where
  "keeps_heap qp \<equiv> (\<lambda>(ret, mm, ctx', qp', evs). resp_heap qp' = resp_heap qp)"

lemma ack_heap: "roce_netpkt_acknowledge mm ctx qp s v psn mem_ok = Inr (qp', evs) \<Longrightarrow> resp_heap qp' = resp_heap qp"
  by (auto simp: roce_netpkt_acknowledge_def Let_def bindR_eq_Inr split: if_splits option.splits)

lemma heap_write_complete: "\<not> write_has_imm opcode \<Longrightarrow> gives (keeps_heap qp) (write_complete mm ctx qp eth opcode evs)"
  unfolding write_complete_def Let_def by (intro gives_rules) auto

lemma heap_same: "resp_heap q = resp_heap qp \<Longrightarrow> gives (keeps_heap q) r \<Longrightarrow> gives (keeps_heap qp) r"
  by (simp add: gives_def)

lemma heap_rdma_write:
  "\<not> write_has_imm opcode \<Longrightarrow> gives (keeps_heap qp) (roce_rdma_write_payload env ctx qp iovs reth eth inp opcode mem_ok)"
  unfolding roce_rdma_write_payload_def Let_def
  by (intro gives_rules heap_same[OF _ heap_write_complete]) (auto dest!: ack_heap split: if_splits option.splits)

lemma heap_with_eth:
  "(\<And>bs vs. gives (keeps_heap qp) (k bs vs)) \<Longrightarrow> gives (keeps_heap qp) (with_eth env ctx qp iovs n k)"
  unfolding with_eth_def by (intro gives_rules) auto

lemma heap_dispatch: "is_write opcode \<Longrightarrow> gives (keeps_heap qp) (rc_dispatch env ctx qp iovs opcode mem_ok)"
  by (auto simp: is_write_def rc_dispatch_def write_has_imm_def intro!: heap_with_eth heap_rdma_write)

lemma heap_recv_rc:
  assumes "is_write (ib_bth_get_opcode bth)" "roce_recv_rc env ctx iovs bth qp mem_ok = Inr (ret, mm, ctx', qp', evs)"
  shows "resp_heap qp' = resp_heap qp"
proof -
  have "ib_bth_get_opcode bth \<noteq> IB_OPCODE_ACKNOWLEDGE" using assms(1) by (auto simp: is_write_def)
  then have "gives (keeps_heap qp) (roce_recv_rc env ctx iovs bth qp mem_ok)"
    unfolding roce_recv_rc_def Let_def
    by (intro gives_rules)
      (auto dest!: givesD[OF heap_dispatch[OF assms(1)]] ack_heap simp: roce_out_of_seq_def bindR_eq_Inr split: if_splits)
  then show ?thesis using assms(2) by (simp add: gives_def)
qed

lemma heap_recv_run:
  "\<forall>(vs, bth) \<in> set ps. is_write (ib_bth_get_opcode bth) \<Longrightarrow> recv_run env ctx qp ps = Inr (mm, ctx', qp', evs) \<Longrightarrow>
   resp_heap qp' = resp_heap qp"
proof (induction ps arbitrary: env ctx qp evs)
  case (Cons p ps)
  then show ?case by (cases p) (fastforce simp: bindR_eq_Inr dest: heap_recv_rc)
qed simp

lemma recv_run_append:
  "recv_run env ctx qp (ps @ rs) = bindR (recv_run env ctx qp ps) (\<lambda>(mm, c, q, evs).
     bindR (recv_run (env\<lparr>env_mem := mm\<rparr>) c q rs) (\<lambda>(mm', c', q', evs'). Inr (mm', c', q', evs @ evs')))"
proof (induction ps arbitrary: env ctx qp)
  case (Cons p ps)
  show ?case by (cases p) (auto simp: Cons bindR_def split: sum.splits)
next
  case Nil
  show ?case by (cases "recv_run env ctx qp rs") auto
qed

lemma send_wild:
  assumes "resp_u qp \<noteq> 0" "resp_heap qp (resp_u qp) = None" "expected qp bth"
    "ib_bth_get_opcode bth = IB_OPCODE_SEND_MIDDLE \<or> ib_bth_get_opcode bth = IB_OPCODE_SEND_LAST" "roce_iov_len vs = Inr n"
  shows "roce_recv_rc env ctx vs bth qp True = Inl Wild_pointer"
  using assms
  by (auto simp: roce_recv_rc_def Let_def compare_psn_dist rc_dispatch_def roce_recv_payload_def roce_pop_recv_wr_def recv_wr_at_def)

subsection \<open>Properties\<close>

text \<open>C26: \<open>roce_destroy_qp\<close> clears the GSI QP, its number included, and takes it out of the table, but
  \<open>roce_create_qp\<close> relies on the number: after the GSI QP was destroyed once, creating it again with valid
  arguments aborts.\<close>

theorem gsi_recreate_aborts:
  assumes "ctx_reach ctx" "qp_map ctx h = Some q" "qp_type q = ROCE_QPT_GSI" "roce_destroy_qp ctx h = Inr (ret, ctx')"
    "qa_type a = ROCE_QPT_GSI" "roce_verify_qp_cap ctx' (qa_cap a) = 0" "pd_map ctx' pdh \<noteq> None" "cq_map ctx' s \<noteq> None" "ports ctx' \<noteq> []"
  shows "roce_create_qp ctx' pdh s r a mem_ok = Inl Assert_failed"
proof -
  have "objs_ok ctx" "objs_ok ctx'" using reach_objs_ok ctx_reach.destroy_qp assms(1,4) by blast+
  then show ?thesis using create_gsi_faults gsi_after_destroy[OF _ assms(2-4)] assms(5-9) by (simp add: objs_ok_def)
qed

definition live_gsi :: roce_ctx where
  "live_gsi = (live_objs 1 2 None)\<lparr>qp_res := \<lparr>res_size = 3, res_addr = Some [Some (roce_qp_zero\<lparr>qp_type := ROCE_QPT_MAX\<rparr>),
     Some (qp_init (live_args\<lparr>qa_type := ROCE_QPT_GSI\<rparr>) 0 0 0 0 (roce_qp_zero\<lparr>handle := 1, qp_type := ROCE_QPT_MAX\<rparr>) 1), None]\<rparr>\<rparr>"

lemma live_gsi_create:
  "roce_create_qp (live_objs 0 0 None) 0 0 0 (live_args\<lparr>qa_type := ROCE_QPT_GSI\<rparr>) True = Inr (1, live_gsi)"
proof -
  have cap: "roce_verify_qp_cap (live_objs 0 0 None) (qa_cap live_args) = 0"
    by (simp add: roce_verify_qp_cap_def live_parts live_args_def live_attr_def)
  have port: "port_at (live_objs p c q) 1 = Inr roce_port_zero" for p c q by (simp add: port_at_def live_parts)
  have mtu: "active_mtu (port_attr roce_port_zero) = 0" by (simp add: roce_port_zero_def)
  have g: "gsi (live_objs p c q) = Sp_res" for p c q by (simp add: live_objs_def live_ctx_def)
  have read: "gsi_read (live_objs p c q) = Inr (roce_qp_zero\<lparr>handle := 1, qp_type := ROCE_QPT_MAX\<rparr>)" for p c q
    by (simp add: gsi_read_def g res_map_def live_parts)
  show ?thesis
    by (simp add: roce_create_qp_def cap live_gets create_qp_install_def port mtu ptr_handle_def g read gsi_write_def live_gsi_def
        res_update_def addr_write_def live_parts assertR_def del: One_nat_def) (simp add: mtu)
qed

lemma live_gsi_reach: "ctx_reach live_gsi"
  using ctx_reach.create_qp[OF live_reach(1) live_gsi_create] .

lemma gsi_recreate_aborts_witness:
  "\<exists>ctx'. roce_destroy_qp live_gsi 1 = Inr (0, ctx') \<and>
     roce_create_qp ctx' 0 0 0 (live_args\<lparr>qa_type := ROCE_QPT_GSI\<rparr>) True = Inl Assert_failed"
proof -
  let ?q = "qp_init (live_args\<lparr>qa_type := ROCE_QPT_GSI\<rparr>) 0 0 0 0 (roce_qp_zero\<lparr>handle := 1, qp_type := ROCE_QPT_MAX\<rparr>) 1"
  have q: "qp_map live_gsi 1 = Some ?q" "qp_type ?q = ROCE_QPT_GSI"
    by (simp_all add: live_gsi_def res_map_def qp_init_def)
  obtain ctx' where d: "roce_destroy_qp live_gsi 1 = Inr (0, ctx')" "roce_verify_qp_cap ctx' (qa_cap live_args) = 0"
    "pd_map ctx' 0 \<noteq> None" "cq_map ctx' 0 \<noteq> None" "ports ctx' \<noteq> []"
  proof -
    have core: "objs_core live_gsi" using reach_objs_ok[OF live_gsi_reach] by (simp add: objs_ok_def)
    note c = objs_coreD[OF core]
    have p: "qp_pd ?q = 0" "qp_scq ?q = 0" "qp_rcq ?q = 0" "sq_wrs ?q = []" "rq_wrs ?q = []" by (simp_all add: qp_init_def)
    obtain rs where rs: "roce_destroy_qp live_gsi 1 =
        Inr (0, (qp_released live_gsi 1 ?q rs)\<lparr>gsi := Sp_heap (roce_qp_zero\<lparr>qp_type := ROCE_QPT_MAX\<rparr>)\<rparr>)"
      using destroy_qp_run[OF core q(1)] p q(2) by (auto simp: null_handle_def)
    have m: "pd_map live_gsi 0 \<noteq> None" "cq_map live_gsi 0 \<noteq> None" "ports live_gsi \<noteq> []" "dev_attr live_gsi = live_attr\<lparr>device_cap_flags := 3\<rparr>"
      using live_maps(1,2)[of 1 2 None] live_parts(4,5)[of 1 2 None] by (simp_all add: live_gsi_def)
    show ?thesis
      by (rule that[OF rs]; insert m tab_dec_map(3)[OF c(5), of 0] tab_dec_map(3)[OF c(6), of 0]
            tab_dec_map(3)[OF tab_dec_map(1)[OF c(6), of 0], of 0])
        (simp_all add: qp_released_def p, auto simp: roce_verify_qp_cap_def live_args_def live_attr_def)
  qed
  show ?thesis
    using gsi_recreate_aborts[OF live_gsi_reach q d(1), of "live_args\<lparr>qa_type := ROCE_QPT_GSI\<rparr>" 0 0 0 True] d by simp
qed

text \<open>C27: When one of the regions of a receive request does not exist, \<open>roce_post_recv\<close> refuses it, but gives back
  references that it does not hold: the count of the region before it goes down by one.\<close>

theorem post_recv_refused_drops:
  assumes "res_wf (qp_res ctx)" "res_wf (mr_res ctx)" "mr_map ctx h = Some m" "mr_state m \<noteq> ROCE_MR_STATE_DESTROYED"
    "mr_map ctx k = None" "map (\<lambda>s. roce_key_to_index (sge_lkey s)) (rwr_sge (rwr w)) = [h, k]"
  shows "\<exists>ctx'. roce_post_recv ctx qpn w = Inr (- EACCES, ctx') \<and> mr_map ctx' = (mr_map ctx)(h \<mapsto> m\<lparr>ref := ref m - 1\<rparr>)"
proof -
  let ?c1 = "ctx\<lparr>qp_res := tab_inc (qp_res ctx) qpn\<rparr>"
  obtain c2 c3 where "roce_get_mrs ?c1 (rwr_sge (rwr w)) = Inr (- EACCES, c2)" "roce_put_mrs c2 (rwr_sge (rwr w)) = Inr c3"
    "mr_map c3 = (mr_map ctx)(h \<mapsto> m\<lparr>ref := ref m - 1\<rparr>)"
    using get_then_put_two[of ?c1 h m k "rwr_sge (rwr w)"] assms(2-6) by auto
  then show ?thesis
    by (simp add: roce_post_recv_def get_qp_tab(1)[OF assms(1)] roce_free_recv_wr_def)
qed

lemma post_recv_refused_drops_witness:
  "\<exists>ctx'. roce_post_recv ((live_objs 1 2 (Some (live_qp 0)))\<lparr>mr_res := \<lparr>res_size = 2, res_addr = Some [None, Some (sample_mr\<lparr>ref := 0\<rparr>)]\<rparr>\<rparr>) 2
     (recv_wr\<lparr>rwr := \<lparr>rwr_id = 1, rwr_sge = [recv_sge, recv_sge\<lparr>sge_lkey := 0\<rparr>]\<rparr>\<rparr>) = Inr (- EACCES, ctx') \<and>
     map_option ref (mr_map ctx' 1) = Some 0xffffffff"
proof -
  let ?m = "sample_mr\<lparr>ref := 0\<rparr>" and ?w = "recv_wr\<lparr>rwr := \<lparr>rwr_id = 1, rwr_sge = [recv_sge, recv_sge\<lparr>sge_lkey := 0\<rparr>]\<rparr>\<rparr>"
  let ?ctx = "(live_objs 1 2 (Some (live_qp 0)))\<lparr>mr_res := \<lparr>res_size = 2, res_addr = Some [None, Some (sample_mr\<lparr>ref := 0\<rparr>)]\<rparr>\<rparr>"
  have q: "res_wf (qp_res ?ctx)" using reach_objs_ok[OF live_reach(2)] by (simp add: objs_ok_def objs_core_def)
  have m: "mr_map ?ctx = [1 \<mapsto> ?m]" by (auto simp: res_map_two)
  have wf: "res_wf (mr_res ?ctx)" using m by (simp add: res_wf_def ROCE_MAX_GENERAL_def) (simp add: sample_mr_def mr_init_def)
  have k: "map (\<lambda>s. roce_key_to_index (sge_lkey s)) (rwr_sge (rwr ?w)) = [1, 0]"
    by (simp add: recv_sge_def roce_key_to_index_def)
  have s: "mr_map ?ctx 1 = Some ?m" "mr_state ?m \<noteq> ROCE_MR_STATE_DESTROYED" "mr_map ?ctx 0 = None"
    using m by (simp_all add: sample_mr_def mr_init_def)
  show ?thesis using post_recv_refused_drops[OF q wf s k, of 2] by auto
qed

text \<open>C24: A peer can crash the receiver: an RDMA WRITE leaves its address in the place that a SEND takes for the
  pointer to its receive request. A SEND MIDDLE or LAST after a complete RDMA WRITE, with the PSN that is
  expected, follows the address.\<close>

theorem send_after_write_wild:
  assumes "write_ready ctx (qp_pd qp) k s" "recv_peer ctx qp port sgid" "distinct (sge_locs ctx (sge_bytes s))"
    "length (concat ds) \<le> unat (sge_length s)" "resp_writtenlen qp = 0" "ps \<noteq> []"
    "write_message (env_mem env) k (sge_locs ctx (sge_bytes s)) (rq_psn (qp_attr qp)) (write_opcodes (length ps)) s ds ps"
    "sge_addr s \<noteq> 0" "resp_heap qp (sge_addr s) = None" "roce_iov_len vs = Inr n"
    "ib_bth_get_opcode bth = IB_OPCODE_SEND_MIDDLE \<or> ib_bth_get_opcode bth = IB_OPCODE_SEND_LAST"
    "ib_bth_get_psn bth = (roce_qp_psn_inc ^^ length ps) (rq_psn (qp_attr qp))"
  shows "recv_run env ctx qp (ps @ [(vs, bth)]) = Inl Wild_pointer"
proof -
  have ops: "list_all is_write (write_opcodes (length ps))" "write_opcodes (length ps) \<noteq> []"
    "write_inprocess (hd (write_opcodes (length ps))) = ((0 :: nat) \<noteq> 0)"
    "list_all write_inprocess (tl (write_opcodes (length ps)))"
    by (simp_all add: write_opcodes_def is_write_def write_inprocess_def list_all_iff)
  obtain mm' qp' evs where r: "recv_run env ctx qp ps = Inr (mm', ctx, qp', evs)" "resp_u qp' = sge_addr s"
    "rq_psn (qp_attr qp') = (roce_qp_psn_inc ^^ length ps) (rq_psn (qp_attr qp))"
    using recv_write_run[OF assms(1-3) _ _ assms(7) ops] assms(4,5) by (auto simp: write_at_def)
  have "\<forall>(vs, b) \<in> set ps. is_write (ib_bth_get_opcode b)"
  proof -
    have "list_all is_write (map (\<lambda>(vs, b). ib_bth_get_opcode b) ps)" using assms(7) ops(1) by (simp add: write_message_def)
    then show ?thesis by (auto simp: list_all_iff)
  qed
  then have "resp_heap qp' = resp_heap qp" using heap_recv_run r(1) by blast
  then have "roce_recv_rc (env\<lparr>env_mem := mm'\<rparr>) ctx vs bth qp' True = Inl Wild_pointer"
    using send_wild[of qp' bth vs n] r(2,3) assms(8-12) by simp
  then show ?thesis by (simp add: recv_run_append r(1))
qed

lemma send_after_write_wild_witness:
  "recv_run (recv_env\<lparr>env_mem := write_mem\<rparr>) recv_base recv_qp (write_pkts @ [([\<lparr>iov_base = Some 0x80030, iov_len = 4\<rparr>], recv_bth IB_OPCODE_SEND_LAST 7)]) = Inl Wild_pointer"
proof -
  have m: "write_message (env_mem (recv_env\<lparr>env_mem := write_mem\<rparr>)) 4 (sge_locs recv_base (sge_bytes write_sge))
      (rq_psn (qp_attr recv_qp)) (write_opcodes (length write_pkts)) write_sge
      [[0x10, 0x11, 0x12, 0x13], [0x20, 0x21]] write_pkts"
    using write_pkts_ok by simp (simp add: write_pkts_def numeral_2_eq_2)
  have s: "distinct (sge_locs recv_base (sge_bytes write_sge))" "resp_writtenlen recv_qp = 0" "write_pkts \<noteq> []"
    "length (concat [[0x10, 0x11, 0x12, 0x13], [0x20, 0x21 :: u8]]) \<le> unat (sge_length write_sge)"
    unfolding write_sge_def recv_locs by (simp_all add: recv_qp_def sample_qp_def write_pkts_def recv_sge_def)
  have l: "length write_pkts = Suc (Suc 0)" by (simp add: write_pkts_def)
  have t: "sge_addr write_sge \<noteq> 0" "resp_heap recv_qp (sge_addr write_sge) = None" "roce_iov_len [\<lparr>iov_base = Some 0x80030 :: u64 option, iov_len = 4\<rparr>] = Inr 4"
    "ib_bth_get_opcode (recv_bth IB_OPCODE_SEND_LAST 7) = IB_OPCODE_SEND_MIDDLE \<or> ib_bth_get_opcode (recv_bth IB_OPCODE_SEND_LAST 7) = IB_OPCODE_SEND_LAST"
    "ib_bth_get_psn (recv_bth IB_OPCODE_SEND_LAST 7) = (roce_qp_psn_inc ^^ length write_pkts) (rq_psn (qp_attr recv_qp))"
    by (simp_all add: write_sge_def recv_sge_def recv_qp_def sample_qp_def roce_iov_len_def recv_bth_sel IB_OPCODE_MASK_def
        IB_BTH_PSN_MASK_def l roce_qp_psn_inc_def)
  show ?thesis by (rule send_after_write_wild[OF recv_write_ready recv_peer_ok s(1,4,2,3) m t])
qed

text \<open>C28: When \<open>roce_init_device\<close> fails after it made the table of PDs, it frees the tables and leaves their sizes and
  addresses; \<open>roce_free_ctx\<close>, the only way to free the context, reads the freed tables.\<close>

theorem init_failed_free_faults:
  assumes "roce_new_ctx para m = Some ctx" "roce_init_device ctx attr r a b = Inr (- ENOMEM, ctx')"
    "fst (r 0) = 0" "0 < max_pd attr" "max_pd attr \<le> ROCE_MAX_GENERAL"
  shows "roce_free_ctx ctx' = Inl Null_deref"
proof -
  have z: "pd_res ctx = no_table" "gsi ctx = Sp_null" "smi ctx = Sp_null"
    using new_ctx_zero[OF assms(1)] by (simp_all add: roce_ctx_zero_def)
  obtain ctx1 where t: "init_tables ctx attr r = (False, ctx1)" "ctx' = roce_destroy_all_resources ctx1"
    using assms(2) by (auto simp: roce_init_device_def Let_def bindR_eq_Inr split: if_splits prod.splits)
  note f = init_tables_frame[OF t(1)]
  obtain b0 and rs :: "roce_pd roce_resource" where i: "init_table no_table (max_pd attr) 1 ROCE_MAX_GENERAL (0, snd (r 0)) = (b0, rs)" by fastforce
  have "r 0 = (0, snd (r 0))" using assms(3) by (simp add: prod_eq_iff)
  then have "pd_res ctx1 = rs" using f(3) z(1) i by (metis snd_conv)
  moreover have "1 \<le> max_pd attr" using assms(4) by (simp add: word_le_nat_alt word_less_nat_alt)
  ultimately have "res_size (pd_res ctx1) \<noteq> 0" using init_table_size[OF i] assms(5) by simp
  then have "free_table (roce_resource_destroy (pd_res ctx1)) = Inl Null_deref" by (rule destroyed_faults)
  then show ?thesis
    using f(1,2) z
    by (simp add: roce_free_ctx_def roce_free_dev_def roce_destroy_special_qps_def t(2) roce_destroy_all_resources_def)
qed

lemma init_failed_free_faults_witness:
  "\<exists>ctx'. roce_init_device (roce_ctx_zero 4096) (live_attr\<lparr>max_cq := 0\<rparr>) (\<lambda>_. (0, True)) True True = Inr (- ENOMEM, ctx') \<and>
     roce_free_ctx ctx' = Inl Null_deref"
proof -
  have "\<exists>ctx1. init_tables (roce_ctx_zero 4096) (live_attr\<lparr>max_cq := 0\<rparr>) (\<lambda>_. (0, True)) = (False, ctx1)"
    by (simp add: init_tables_def init_table_def roce_resource_init_def ROCE_MAX_GENERAL_def live_attr_def roce_attr_zero_def)
  moreover have "max_mr_size live_attr = 4096" "max_sge live_attr = 2" "max_inline_data live_attr = 64" "max_pkeys live_attr = 1"
    "phys_port_cnt live_attr = 1" "page_size (roce_ctx_zero 4096) = 4096" by (simp_all add: live_attr_def roce_ctx_zero_def)
  ultimately obtain ctx' where
    i: "roce_init_device (roce_ctx_zero 4096) (live_attr\<lparr>max_cq := 0\<rparr>) (\<lambda>_. (0, True)) True True = Inr (- ENOMEM, ctx')"
    by (auto simp: roce_init_device_def roce_power_of_2_def)
  show ?thesis using init_failed_free_faults[OF live_ctx_start(1) i] i by (simp add: live_attr_def ROCE_MAX_GENERAL_def)
qed

end
