(* ===== verification/Qp_Attr.thy ===== *)
theory Qp_Attr
  imports Qp_Faults
begin

text \<open>
  The attributes of a QP (\<open>roce_modify_qp\<close> of \<open>qp.c\<close>): what a call sets, and that they stay in range.
\<close>

subsection \<open>What a call sets\<close>

text \<open>
  The attributes after a call with this mask: the new values where the mask has their bit. The other members
  of the record, with a bit in \<open>ignored_qp_attr\<close> or none, keep their values.
\<close>

definition ignored_qp_attr :: u32 where
  "ignored_qp_attr = ROCE_QP_CUR_STATE OR ROCE_QP_EN_SQD_ASYNC_NOTIFY OR ROCE_QP_TIMEOUT OR ROCE_QP_RETRY_CNT
     OR ROCE_QP_RNR_RETRY OR ROCE_QP_MIN_RNR_TIMER"

definition masked :: "u32 \<Rightarrow> u32 \<Rightarrow> 'b \<Rightarrow> 'b \<Rightarrow> 'b" where
  "masked am b old new = (if am AND b = 0 then old else new)"

definition modified :: "u32 \<Rightarrow> roce_qp_attr \<Rightarrow> roce_qp_attr \<Rightarrow> roce_qp_attr" where
  "modified am new a = a\<lparr>qp_state := masked am ROCE_QP_STATE (qp_state a) (qp_state new),
     qp_access_flags := masked am ROCE_QP_ACCESS_FLAGS (qp_access_flags a) (qp_access_flags new),
     pkey_index := masked am ROCE_QP_PKEY_INDEX (pkey_index a) (pkey_index new),
     qp_port_num := masked am ROCE_QP_PORT (qp_port_num a) (qp_port_num new),
     qp_ah_attr := masked am ROCE_QP_AV (qp_ah_attr a) (qp_ah_attr new),
     qkey := masked am ROCE_QP_QKEY (qkey a) (qkey new),
     path_mtu := masked am ROCE_QP_PATH_MTU (path_mtu a) (path_mtu new),
     sq_psn := masked am ROCE_QP_SQ_PSN (sq_psn a) (sq_psn new),
     rq_psn := masked am ROCE_QP_RQ_PSN (rq_psn a) (rq_psn new),
     max_rd_atomic := masked am ROCE_QP_MAX_QP_RD_ATOMIC (max_rd_atomic a) (max_rd_atomic new),
     max_dest_rd_atomic := masked am ROCE_QP_MAX_DEST_RD_ATOMIC (max_dest_rd_atomic a) (max_dest_rd_atomic new),
     qp_cap := masked am ROCE_QP_CAP (qp_cap a) (qp_cap new),
     dest_qp_num := masked am ROCE_QP_DEST_QPN (dest_qp_num a) (dest_qp_num new)\<rparr>"

text \<open>A step that returns 0 does to the QP what \<open>g\<close> says.\<close>

definition step_does :: "modify_step \<Rightarrow> (roce_qp \<Rightarrow> roce_qp) \<Rightarrow> bool" where
  "step_does f g \<longleftrightarrow> (\<forall>q q'. f (Some q) = Inr (0, q') \<longrightarrow> q' = Some (g q))"

definition set_masked :: "u32 \<Rightarrow> u32 \<times> (roce_qp \<Rightarrow> roce_qp) \<Rightarrow> roce_qp \<Rightarrow> roce_qp" where
  "set_masked am bg q = (if am AND fst bg = 0 then q else snd bg q)"

lemma modify_loop_does:
  assumes "list_all2 (\<lambda>(b, f) (c, g). b = c \<and> step_does f g) fs gs" "modify_loop am fs (Some q) = Inr (0, q')"
  shows "q' = Some (fold (set_masked am) gs q)"
  using assms
proof (induction fs gs arbitrary: q rule: list_all2_induct)
  case (Cons x fs y gs)
  obtain b f g where xy: "x = (b, f)" "y = (b, g)" "step_does f g" using Cons.hyps(1) by (cases x; cases y) auto
  show ?case
  proof (cases "am AND b = 0")
    case False
    then obtain r q1 where r: "f (Some q) = Inr (r, q1)" "(if r \<noteq> 0 then Inr (r, q1) else modify_loop am fs q1) = Inr (0, q')"
      using Cons.prems xy by (auto simp: bindR_eq_Inr)
    then have "r = 0" "q1 = Some (g q)" using xy(3) by (auto simp: step_does_def split: if_splits)
    then show ?thesis using r(2) Cons.IH[of "g q"] False xy by (simp add: set_masked_def)
  qed (use Cons xy in \<open>simp add: set_masked_def\<close>)
qed simp

lemma set_does: "step_does (set_attr u) (\<lambda>q. q\<lparr>qp_attr := u (qp_attr q)\<rparr>)"
  by (auto simp: step_does_def set_attr_def)

lemma check_does: "step_does (check_attr e u) (\<lambda>q. q\<lparr>qp_attr := u (qp_attr q)\<rparr>)"
  by (auto simp: step_does_def check_attr_def set_attr_def)

lemma ah_does: "step_does (roce_modify_qp_ah ctx ah) (\<lambda>q. q\<lparr>qp_attr := (qp_attr q)\<lparr>qp_ah_attr := ah\<rparr>\<rparr>)"
  using check_does by (auto simp: step_does_def roce_modify_qp_ah_def bindR_eq_Inr split: if_splits)

lemma mtu_does: "step_does (modify_qp_mtu ctx a) (\<lambda>q. q\<lparr>qp_attr := (qp_attr q)\<lparr>path_mtu := path_mtu a\<rparr>\<rparr>)"
  using check_does by (auto simp: step_does_def modify_qp_mtu_def bindR_eq_Inr split: if_splits)

lemma psn_does: "step_does (modify_qp_sq_psn p) (\<lambda>q. q\<lparr>qp_attr := (qp_attr q)\<lparr>sq_psn := p\<rparr>, req_psn := p\<rparr>)"
  by (auto simp: step_does_def modify_qp_sq_psn_def split: if_splits)

lemma masked_attr:
  "(if am AND b = 0 then x else x\<lparr>qp_state := v0\<rparr>) = x\<lparr>qp_state := masked am b (qp_state x) v0\<rparr>"
  "(if am AND b = 0 then x else x\<lparr>qp_access_flags := v1\<rparr>) = x\<lparr>qp_access_flags := masked am b (qp_access_flags x) v1\<rparr>"
  "(if am AND b = 0 then x else x\<lparr>pkey_index := v2\<rparr>) = x\<lparr>pkey_index := masked am b (pkey_index x) v2\<rparr>"
  "(if am AND b = 0 then x else x\<lparr>qp_port_num := v3\<rparr>) = x\<lparr>qp_port_num := masked am b (qp_port_num x) v3\<rparr>"
  "(if am AND b = 0 then x else x\<lparr>qp_ah_attr := v4\<rparr>) = x\<lparr>qp_ah_attr := masked am b (qp_ah_attr x) v4\<rparr>"
  "(if am AND b = 0 then x else x\<lparr>qkey := v5\<rparr>) = x\<lparr>qkey := masked am b (qkey x) v5\<rparr>"
  "(if am AND b = 0 then x else x\<lparr>path_mtu := v6\<rparr>) = x\<lparr>path_mtu := masked am b (path_mtu x) v6\<rparr>"
  "(if am AND b = 0 then x else x\<lparr>sq_psn := v7\<rparr>) = x\<lparr>sq_psn := masked am b (sq_psn x) v7\<rparr>"
  "(if am AND b = 0 then x else x\<lparr>rq_psn := v8\<rparr>) = x\<lparr>rq_psn := masked am b (rq_psn x) v8\<rparr>"
  "(if am AND b = 0 then x else x\<lparr>max_rd_atomic := v9\<rparr>) = x\<lparr>max_rd_atomic := masked am b (max_rd_atomic x) v9\<rparr>"
  "(if am AND b = 0 then x else x\<lparr>max_dest_rd_atomic := v10\<rparr>) = x\<lparr>max_dest_rd_atomic := masked am b (max_dest_rd_atomic x) v10\<rparr>"
  "(if am AND b = 0 then x else x\<lparr>qp_cap := v11\<rparr>) = x\<lparr>qp_cap := masked am b (qp_cap x) v11\<rparr>"
  "(if am AND b = 0 then x else x\<lparr>dest_qp_num := v12\<rparr>) = x\<lparr>dest_qp_num := masked am b (dest_qp_num x) v12\<rparr>"
  by (simp_all add: masked_def)

lemma set_masked_simps:
  "set_masked am (b, \<lambda>q. q\<lparr>qp_attr := u (qp_attr q)\<rparr>) q = q\<lparr>qp_attr := (if am AND b = 0 then qp_attr q else u (qp_attr q))\<rparr>"
  "set_masked am (b, \<lambda>q. q\<lparr>qp_attr := (qp_attr q)\<lparr>sq_psn := p\<rparr>, req_psn := p\<rparr>) q =
     q\<lparr>qp_attr := (qp_attr q)\<lparr>sq_psn := masked am b (sq_psn (qp_attr q)) p\<rparr>, req_psn := masked am b (req_psn q) p\<rparr>"
  by (simp_all add: set_masked_def masked_def)

lemma modify_steps_do:
  assumes "modify_loop am (modify_steps ctx a) (Some q) = Inr (0, q')"
  shows "q' = Some (q\<lparr>qp_attr := modified am a (qp_attr q), req_psn := masked am ROCE_QP_SQ_PSN (req_psn q) (sq_psn a)\<rparr>)"
proof -
  let ?s = "\<lambda>u (q :: roce_qp). q\<lparr>qp_attr := u (qp_attr q)\<rparr>"
  define gs where "gs = [(ROCE_QP_STATE, ?s (\<lambda>x. x\<lparr>qp_state := qp_state a\<rparr>)),
     (ROCE_QP_ACCESS_FLAGS, ?s (\<lambda>x. x\<lparr>qp_access_flags := qp_access_flags a\<rparr>)),
     (ROCE_QP_PKEY_INDEX, ?s (\<lambda>x. x\<lparr>pkey_index := pkey_index a\<rparr>)),
     (ROCE_QP_PORT, ?s (\<lambda>x. x\<lparr>qp_port_num := qp_port_num a\<rparr>)),
     (ROCE_QP_AV, ?s (\<lambda>x. x\<lparr>qp_ah_attr := qp_ah_attr a\<rparr>)),
     (ROCE_QP_QKEY, ?s (\<lambda>x. x\<lparr>qkey := qkey a\<rparr>)),
     (ROCE_QP_PATH_MTU, ?s (\<lambda>x. x\<lparr>path_mtu := path_mtu a\<rparr>)),
     (ROCE_QP_SQ_PSN, \<lambda>q. q\<lparr>qp_attr := (qp_attr q)\<lparr>sq_psn := sq_psn a\<rparr>, req_psn := sq_psn a\<rparr>),
     (ROCE_QP_RQ_PSN, ?s (\<lambda>x. x\<lparr>rq_psn := rq_psn a\<rparr>)),
     (ROCE_QP_MAX_QP_RD_ATOMIC, ?s (\<lambda>x. x\<lparr>max_rd_atomic := max_rd_atomic a\<rparr>)),
     (ROCE_QP_MAX_DEST_RD_ATOMIC, ?s (\<lambda>x. x\<lparr>max_dest_rd_atomic := max_dest_rd_atomic a\<rparr>)),
     (ROCE_QP_CAP, ?s (\<lambda>x. x\<lparr>qp_cap := qp_cap a\<rparr>)),
     (ROCE_QP_DEST_QPN, ?s (\<lambda>x. x\<lparr>dest_qp_num := dest_qp_num a\<rparr>))]"
  have "list_all2 (\<lambda>(b, f) (c, g). b = c \<and> step_does f g) (modify_steps ctx a) gs"
    unfolding modify_steps_def gs_def
    by (simp only: list.rel_inject list.rel_intros prod.case simp_thms set_does check_does ah_does mtu_does psn_does)
  then have "q' = Some (fold (set_masked am) gs q)" using modify_loop_does assms by blast
  also have "fold (set_masked am) gs q = q\<lparr>qp_attr := modified am a (qp_attr q),
      req_psn := masked am ROCE_QP_SQ_PSN (req_psn q) (sq_psn a)\<rparr>"
    by (simp add: gs_def set_masked_simps masked_attr modified_def)
  finally show ?thesis .
qed

lemma mask_other: "b AND c = 0 \<Longrightarrow> (am OR c) AND b = am AND (b :: u32)"
  by (simp add: bit.conj_disj_distrib bit.conj_disj_distrib2 and.commute)

lemma modify_loop_other: "\<forall>(b, f) \<in> set fs. b AND c = 0 \<Longrightarrow> modify_loop (am OR c) fs = modify_loop am fs"
proof (induction fs)
  case (Cons s fs)
  then have e: "modify_loop (am OR c) fs = modify_loop am fs" by simp
  obtain b f where s: "s = (b, f)" by (cases s)
  then have m: "(am OR c) AND b = am AND b" using Cons.prems by (simp add: mask_other)
  show ?case by (rule ext) (simp only: s modify_loop.simps e m)
qed (simp add: fun_eq_iff)

lemma modify_qp_ignores: "roce_modify_qp ctx h new (am OR ignored_qp_attr) = roce_modify_qp ctx h new am"
proof -
  have m: "(am OR ignored_qp_attr) AND unsupported_qp_attr = am AND unsupported_qp_attr"
    by (rule mask_other) (simp add: unsupported_qp_attr_def ignored_qp_attr_def)
  have l: "modify_loop (am OR ignored_qp_attr) (modify_steps c new) = modify_loop am (modify_steps c new)" for c :: roce_ctx
    by (rule modify_loop_other) (simp add: modify_steps_def ignored_qp_attr_def)
  show ?thesis by (simp only: roce_modify_qp_def m l)
qed

subsection \<open>Ranges\<close>

text \<open>The P_Key and GID indices are inside of their tables, the port number is at most the number of ports (zero
  passes the check of the code), and the capacities are what the device has.\<close>

definition attr_ok :: "'a roce_base_scheme \<Rightarrow> roce_qp_attr \<Rightarrow> bool" where
  "attr_ok ctx a \<longleftrightarrow> unat (pkey_index a) < ROCE_MAX_PKEY \<and> unat (qp_port_num a) \<le> ROCE_MAX_PORTS \<and>
     unat (ah_sgid_index (qp_ah_attr a)) < ROCE_GID_TBL_LEN \<and> roce_verify_qp_cap ctx (qp_cap a) = 0"

definition step_in_range :: "'a roce_base_scheme \<Rightarrow> modify_step \<Rightarrow> bool" where
  "step_in_range ctx f \<longleftrightarrow> (\<forall>q. attr_ok ctx (qp_attr q) \<longrightarrow> gives (\<lambda>(r, q'). \<exists>x. q' = Some x \<and> attr_ok ctx (qp_attr x)) (f (Some q)))"

lemma in_range_set: "(\<And>a. attr_ok ctx a \<Longrightarrow> attr_ok ctx (u a)) \<Longrightarrow> step_in_range ctx (set_attr u)"
  by (auto simp: step_in_range_def set_attr_def gives_def)

lemma in_range_check: "(\<And>a. attr_ok ctx a \<Longrightarrow> e = 0 \<Longrightarrow> attr_ok ctx (u a)) \<Longrightarrow> step_in_range ctx (check_attr e u)"
  by (auto simp: step_in_range_def check_attr_def set_attr_def gives_def)

lemma in_range_rest:
  "step_in_range ctx (roce_modify_qp_ah ctx ah)" "step_in_range ctx (modify_qp_mtu ctx a)" "step_in_range ctx (modify_qp_sq_psn p)"
  by (auto simp: step_in_range_def roce_modify_qp_ah_def modify_qp_mtu_def modify_qp_sq_psn_def check_attr_def set_attr_def
      gives_def bindR_eq_Inr attr_ok_def split: if_splits)

lemma modify_steps_in_range: "list_all (\<lambda>(b, f). step_in_range ctx f) (modify_steps ctx a)"
  unfolding modify_steps_def list.pred_inject prod.case
  by (intro conjI TrueI in_range_rest in_range_set in_range_check) (auto simp: attr_ok_def split: if_splits)

lemma modify_loop_in_range:
  assumes "list_all (\<lambda>(b, f). step_in_range ctx f) fs" "attr_ok ctx (qp_attr q)" "modify_loop am fs (Some q) = Inr (ret, q')"
  shows "\<exists>x. q' = Some x \<and> attr_ok ctx (qp_attr x)"
  using assms
proof (induction fs arbitrary: q)
  case (Cons s fs)
  obtain b f where s: "s = (b, f)" by (cases s)
  show ?case
  proof (cases "am AND b = 0")
    case False
    then obtain r q1 where r: "f (Some q) = Inr (r, q1)" "(if r \<noteq> 0 then Inr (r, q1) else modify_loop am fs q1) = Inr (ret, q')"
      using Cons.prems(3) s by (auto simp: bindR_eq_Inr)
    have "step_in_range ctx f" using Cons.prems(1) s by simp
    then have "gives (\<lambda>(r, q'). \<exists>x. q' = Some x \<and> attr_ok ctx (qp_attr x)) (f (Some q))"
      using Cons.prems(2) by (simp add: step_in_range_def)
    then obtain x where "q1 = Some x" "attr_ok ctx (qp_attr x)" using givesD[OF _ r(1)] by fastforce
    then show ?thesis using r(2) Cons.IH[of x] Cons.prems(1) by (auto split: if_splits)
  qed (use Cons s in auto)
qed auto

lemma modify_qp_run:
  assumes wf: "res_wf (qp_res ctx)" and q: "qp_map ctx h = Some q" and run: "roce_modify_qp ctx h new am = Inr (ret, ctx')"
  shows "\<exists>(ctx1 :: roce_ctx) q1. dev_attr ctx1 = dev_attr ctx \<and> dev_attr ctx' = dev_attr ctx \<and> qp_map ctx' = (qp_map ctx)(h \<mapsto> q1) \<and>
    (if am AND unsupported_qp_attr \<noteq> 0 then ret = - ENOTSUP \<and> q1 = q\<lparr>ref := ref q + 1\<rparr>
     else modify_loop am (modify_steps ctx1 new) (Some (q\<lparr>ref := ref q + 1\<rparr>)) = Inr (ret, Some q1))"
proof -
  let ?c1 = "ctx\<lparr>qp_res := tab_inc (qp_res ctx) h\<rparr>" and ?q = "q\<lparr>ref := ref q + 1\<rparr>"
  note ip = tab_inc_map[OF wf, of h]
  have m1: "qp_map ?c1 = (qp_map ctx)(h \<mapsto> ?q)" using ip q by simp
  show ?thesis
  proof (cases "am AND unsupported_qp_attr = 0")
    case False
    then have "ret = - ENOTSUP" "ctx' = ?c1" using run by (simp_all add: roce_modify_qp_def get_qp_tab[OF wf])
    then show ?thesis using False m1 by (intro exI[of _ ctx] exI[of _ ?q]) simp
  next
    case True
    then obtain oqp where l: "modify_loop am (modify_steps ?c1 new) (Some ?q) = Inr (ret, oqp)"
      "ctx' = (case oqp of None \<Rightarrow> ?c1 | Some q' \<Rightarrow> qp_store ?c1 q')"
      using run q by (auto simp: roce_modify_qp_def get_qp_tab[OF wf] bindR_eq_Inr)
    have "rel_option same_qp (Some ?q) oqp" using modify_loop_same[OF modify_steps_same l(1)] .
    then obtain q1 where q1: "oqp = Some q1" "handle q1 = handle q" by (cases oqp) (auto simp: same_qp_def)
    have "handle q = h" using res_map_handle[OF wf q] .
    then have "qp_map ctx' = (qp_map ctx)(h \<mapsto> q1)" "dev_attr ctx' = dev_attr ctx"
      using res_update_wf(2)[OF ip(1), of h ?q q1] m1 q1 l(2) by (simp_all add: qp_store_def)
    then show ?thesis using True l(1) q1(1) by (intro exI[of _ ?c1] exI[of _ q1]) simp
  qed
qed

subsection \<open>Properties\<close>

text \<open>C22: A call of \<open>roce_modify_qp\<close> that returns success has set those of the thirteen attributes that the code handles
  whose bit is in the mask to the given values, has left all other attributes and every other QP alone, and has
  moved the requester to the send PSN if that was given. It also keeps the reference that it took to look the
  QP up. The bits for the current state, the notification, the timeout, the retry counts and the RNR timer
  are accepted and have no effect: the call does the same without them.\<close>

theorem roce_modify_qp_sets:
  assumes "res_wf (qp_res ctx)" "qp_map ctx h = Some q" "roce_modify_qp ctx h new am = Inr (0, ctx')"
  shows "qp_map ctx' = (qp_map ctx)(h \<mapsto> q\<lparr>ref := ref q + 1, qp_attr := modified am new (qp_attr q),
    req_psn := masked am ROCE_QP_SQ_PSN (req_psn q) (sq_psn new)\<rparr>) \<and>
    roce_modify_qp ctx h new (am OR ignored_qp_attr) = roce_modify_qp ctx h new am"
proof -
  obtain ctx1 :: roce_ctx and q1 where r: "qp_map ctx' = (qp_map ctx)(h \<mapsto> q1)"
    "modify_loop am (modify_steps ctx1 new) (Some (q\<lparr>ref := ref q + 1\<rparr>)) = Inr (0, Some q1)"
    using modify_qp_run[OF assms] by (auto split: if_splits)
  show ?thesis using modify_steps_do[OF r(2)] r(1) modify_qp_ignores by simp
qed

lemma live_modify: "\<exists>ctx'. roce_modify_qp (live_objs 1 2 (Some (live_qp 0))) 2 ((qp_attr (live_qp 0))\<lparr>qp_state := ROCE_QPS_RTR\<rparr>)
    ROCE_QP_STATE = Inr (0, ctx')"
proof -
  have "res_wf (qp_res (live_objs 1 2 (Some (live_qp 0))))" using reach_objs_ok[OF live_reach(2)] by (simp add: objs_ok_def objs_core_def)
  then show ?thesis
    by (simp add: roce_modify_qp_def get_qp_tab live_maps unsupported_qp_attr_def modify_steps_def set_attr_def)
qed

lemma roce_modify_qp_sets_witness:
  "\<exists>ctx' q. roce_modify_qp (live_objs 1 2 (Some (live_qp 0))) 2 ((qp_attr (live_qp 0))\<lparr>qp_state := ROCE_QPS_RTR\<rparr>) ROCE_QP_STATE =
     Inr (0, ctx') \<and> qp_map ctx' 2 = Some q \<and> qp_state (qp_attr q) = ROCE_QPS_RTR \<and> rq_psn (qp_attr q) = 17"
proof -
  have wf: "res_wf (qp_res (live_objs 1 2 (Some (live_qp 0))))" using reach_objs_ok[OF live_reach(2)] by (simp add: objs_ok_def objs_core_def)
  obtain ctx' where r: "roce_modify_qp (live_objs 1 2 (Some (live_qp 0))) 2 ((qp_attr (live_qp 0))\<lparr>qp_state := ROCE_QPS_RTR\<rparr>) ROCE_QP_STATE =
      Inr (0, ctx')" using live_modify by blast
  show ?thesis
    using roce_modify_qp_sets[OF wf live_maps(4) r] r
    by (auto simp: modified_def masked_def live_qp_def qp_init_def live_args_def IB_BTH_PSN_MASK_def)
qed

text \<open>C23: Attributes stay in range: whatever values and mask \<open>roce_modify_qp\<close> gets, and also when it fails half-way,
  the P_Key index and the GID index of the QP are inside of their tables, its port number is not above the
  number of ports (it may be zero), and its capacities are within those of the device, if that was so before.\<close>

theorem roce_modify_qp_in_range:
  assumes "res_wf (qp_res ctx)" "qp_map ctx h = Some q" "attr_ok ctx (qp_attr q)" "roce_modify_qp ctx h new am = Inr (ret, ctx')"
  shows "\<exists>q'. qp_map ctx' h = Some q' \<and> attr_ok ctx' (qp_attr q')"
proof -
  obtain ctx1 :: roce_ctx and q1 where r: "dev_attr ctx1 = dev_attr ctx" "dev_attr ctx' = dev_attr ctx" "qp_map ctx' = (qp_map ctx)(h \<mapsto> q1)"
    "q1 = q\<lparr>ref := ref q + 1\<rparr> \<or> modify_loop am (modify_steps ctx1 new) (Some (q\<lparr>ref := ref q + 1\<rparr>)) = Inr (ret, Some q1)"
    using modify_qp_run[OF assms(1,2,4)] by (auto split: if_splits)
  have same: "attr_ok c a = attr_ok ctx a" if "dev_attr c = dev_attr ctx" for c :: roce_ctx and a
    using that by (simp add: attr_ok_def roce_verify_qp_cap_def)
  from r(4) have "attr_ok ctx1 (qp_attr q1)"
    using modify_loop_in_range[OF modify_steps_in_range, of ctx1 "q\<lparr>ref := ref q + 1\<rparr>" am new ret] assms(3) same[OF r(1)] by auto
  then show ?thesis using r(3) same[OF r(1)] same[OF r(2)] by simp
qed

lemma roce_modify_qp_in_range_witness:
  "\<exists>ctx' q. roce_modify_qp (live_objs 1 2 (Some (live_qp 0))) 2 ((qp_attr (live_qp 0))\<lparr>qp_state := ROCE_QPS_RTR\<rparr>) ROCE_QP_STATE =
     Inr (0, ctx') \<and> qp_map ctx' 2 = Some q \<and> attr_ok ctx' (qp_attr q)"
proof -
  have wf: "res_wf (qp_res (live_objs 1 2 (Some (live_qp 0))))" using reach_objs_ok[OF live_reach(2)] by (simp add: objs_ok_def objs_core_def)
  obtain ctx' where r: "roce_modify_qp (live_objs 1 2 (Some (live_qp 0))) 2 ((qp_attr (live_qp 0))\<lparr>qp_state := ROCE_QPS_RTR\<rparr>) ROCE_QP_STATE =
      Inr (0, ctx')" using live_modify by blast
  have "attr_ok (live_objs 1 2 (Some (live_qp 0))) (qp_attr (live_qp 0))"
    by (simp add: attr_ok_def live_qp_def qp_init_def roce_qp_zero_def roce_ah_attr_zero_def roce_verify_qp_cap_def live_parts
        live_args_def live_attr_def)
  then show ?thesis using roce_modify_qp_in_range[OF wf live_maps(4) _ r] r by blast
qed

end
