(* ===== verification/Spec2Isabelle.thy ===== *)
theory Spec2Isabelle
  imports Qp_Attr
begin

text \<open>
  A model of libroce, a RoCEv2 (RDMA over Converged Ethernet) protocol engine in C that runs in user
  space. The application creates objects (protection domains, completion queues, memory regions, address
  handles, queue pairs) and posts work requests; the library builds network packets and parses those it
  is given; through callbacks it sends, completes and maps memory.

  \<^bold>\<open>Conventions.\<close> Integers are words of their C width. A function of the library that returns a negative
  errno returns an \<open>int\<close>. What aborts the process or leaves the defined behaviour of C (a failed assertion,
  a null or wild pointer, an access out of bounds) is \<open>Inl\<close> of a \<open>fault\<close>, so that a theorem that an
  operation returns \<open>Inr\<close> says that it does none of this. State is passed explicitly: \<open>roce_base\<close> is the part of
  \<open>roce_ctx\<close> that objects live in. A pointer to an object is its handle. Memory is a function from
  addresses to bytes. What the callbacks get is a list of \<open>roce_event\<close>s. Success of an allocation, the
  numbers of \<open>random()\<close> and the answers of \<open>dma_map\<close> are arguments. Locks are no-ops: each call is
  sequential. The host is little-endian.

  \<^bold>\<open>Theories\<close> (the source files are under \<open>src/\<close>):
  \<^item> \<open>Prelude\<close>: words, faults, bytes of integers, byte order.
  \<^item> \<open>Ib_Spec\<close>, \<open>Net_Spec\<close>: \<open>include/spec/*.h\<close>, the fields of every header, their round trips and their bytes.
  \<^item> \<open>Util\<close>: \<open>include/private/util.h\<close>, with PSN comparison as a signed distance modulo \<open>2 ^ 24\<close>.
  \<^item> \<open>Iov\<close>, \<open>Sge\<close>: the vector and SGE helpers (\<open>iov-helper.h\<close>, \<open>sge-helper.h\<close>), related to the byte
    streams that vectors and SGE lists stand for.
  \<^item> \<open>Crc\<close>: \<open>crc.c\<close>, \<open>crc.h\<close>, \<open>checksum.h\<close>: the table-driven CRC equals the bitwise polynomial
    division over vectors below 4 GiB (longer ones are cut to 32 bits), the ICRC is that CRC over the packet
    with the variant fields masked, given as byte offsets, the IP checksum verifies.
  \<^item> \<open>Resource\<close>: \<open>resource.c\<close>, tables of objects, as a partial map; the interface is a locale.
  \<^item> \<open>State\<close>: the records of \<open>roce.h\<close> and \<open>roce-private.h\<close> the objects need, and reference counts.
  \<^item> \<open>Pd\<close>, \<open>Cq\<close>, \<open>Ah\<close>, \<open>Mr\<close>: \<open>pd.c\<close>, \<open>cq.c\<close>, \<open>ah.c\<close>, \<open>mr.c\<close>. What each operation
    keeps: the count of a PD is the number of objects that point to it.
  \<^item> \<open>Mr_Map\<close>: \<open>roce_mr_map_sge\<close>, its checks and the bytes of the vectors it gives out.
  \<^item> \<open>Port\<close>: \<open>port.c\<close>.
  \<^item> \<open>Qp_State\<close>: work requests, completions, packets and queue pairs as data.
  \<^item> \<open>Netpkt\<close>: \<open>netpkt.c\<close>, \<open>netpkt.h\<close>; \<open>roce_wire\<close> is the frame format as a function, and the packets built
    over vectors go out as that frame.
  \<^item> \<open>Decap\<close>: the parser of \<open>responder.c\<close>; it agrees with a parser of byte strings, accepts the frames of
    \<open>Netpkt\<close> and rejects corrupted ones.
  \<^item> \<open>Requester\<close>: \<open>requester.c\<close>. \<open>Rc_Send\<close> proves that the packets of a request are its segments, \<open>Rc_Window\<close>
    states the window of packets in flight and proves that each post and acknowledge keeps it; \<open>Rc_Run\<close> puts
    them together in runs of requests, ACKs and NAKs: an ACK takes off exactly what it covers, a NAK goes
    back to the packet it names, rounds of acknowledges complete everything; and where assertions fail.
  \<^item> \<open>Responder\<close>: the rest of \<open>responder.c\<close> up to one packet for one queue pair. \<open>Recv_Mem\<close> says what the
    copies store, \<open>Rc_Recv\<close> what a packet of a SEND or RDMA WRITE does, \<open>Rc_Write\<close> what the packets of a
    whole message do. \<open>Rc_Order\<close> refines the receiver to one that drops every packet but the expected one.
  \<^item> \<open>Qp\<close>: \<open>qp.c\<close>, over the full context \<open>roce_ctx\<close>. \<open>Dev\<close>: \<open>dev.c\<close> and \<open>ctx.c\<close>. \<open>Net_Recv\<close>: \<open>roce_recv_bth\<close> and
    \<open>roce_net_recv\<close>, which lead an inbound frame to its queue pair.
  \<^item> \<open>Qp_Life\<close>, \<open>Qp_Steps\<close>: every operation that a client or the network can call keeps the invariant of
    the reference counts. \<open>Ctx_Reach\<close> puts them together as a relation of reachable contexts, from a new
    device on, and draws the conclusions: counts are exact, objects in use stay, destruction returns.
  \<^item> \<open>Qp_Faults\<close>: runs in which the code aborts or uses a wild pointer. \<open>Qp_Attr\<close>: what \<open>roce_modify_qp\<close>
    assigns, and that it keeps attributes in range.

  \<^bold>\<open>How the parts meet.\<close> Client calls and inbound frames are steps on one \<open>roce_ctx\<close>. The requester and the
  responder work on one queue pair, which they return updated and the caller stores back into the table
  (\<open>qp_store\<close>); memory regions are used through the locale of \<open>Resource\<close> and the counts of \<open>State\<close>; frames of
  \<open>Netpkt\<close> are what \<open>Decap\<close> parses.

  \<^bold>\<open>Bounds and fuel.\<close> The loop over the MIDDLE packets of a request recurses on \<open>room\<close>, the number of
  packets memory is left for; with an MTU of zero the C loop runs until allocation fails, and so does the
  model. The theorem gives the room that is enough: one packet for each path MTU of data. All other loops
  recurse on lists. In \<open>ctx_reach\<close> a request is posted only while the 32-bit reference counts of its memory
  regions have room for it; the code does not check them.

  \<^bold>\<open>Not modelled.\<close> The list macros (vendored), logging and the names of enumerators for the log, locks,
  atomics, memory allocation, packet dumps, the seed of \<open>random()\<close> and the default callbacks of a context.
  SRQs, memory windows and path migration have types in \<open>roce.h\<close> and no code. Calls are not interleaved
  with each other.
\<close>

end
